(* ===== verification/GoStrings.thy ===== *)
theory GoStrings
  imports Main "HOL-Library.Word" "HOL-Library.Sublist" "HOL-Library.Char_ord" "HOL-Library.List_Lexorder"
begin

unbundle bit_operations_syntax

text \<open>
  The text functions of Go's \<^verbatim>\<open>strings\<close> package on UTF-8.  A Go \<^verbatim>\<open>string\<close> is a byte sequence, which is
  what \<^typ>\<open>string\<close> is (a \<^typ>\<open>char\<close> is a byte); it need not be valid UTF-8.

  White space outside ASCII begins with a byte that never continues a rune, so it is found byte by
  byte.  The program compares the results of the case functions with ASCII text only, and indexes a
  name with a position found in its lower case.  So \<^verbatim>\<open>ToLower\<close> is exact on ASCII, on the runes whose lower
  case is ASCII or takes another number of bytes, and on invalid bytes, which become the
  replacement character; it leaves the other runes as they are.  \<^verbatim>\<open>ToUpper\<close> and \<^verbatim>\<open>EqualFold\<close> are exact
  on ASCII and on the runes they turn into ASCII.
\<close>

section \<open>Prefixes and white space\<close>

definition HasPrefix :: "string \<Rightarrow> string \<Rightarrow> bool" where
  "HasPrefix s p \<longleftrightarrow> take (length p) s = p"

definition is_space :: "char \<Rightarrow> bool" where
  "is_space c \<longleftrightarrow> c \<in> {CHR 0x09, CHR 0x0A, CHR 0x0B, CHR 0x0C, CHR 0x0D, CHR 0x20}"

definition space_runes :: "string list" where
  "space_runes = [[CHR 0xC2, CHR 0x85], [CHR 0xC2, CHR 0xA0], [CHR 0xE1, CHR 0x9A, CHR 0x80],
     [CHR 0xE2, CHR 0x80, CHR 0x80], [CHR 0xE2, CHR 0x80, CHR 0x81], [CHR 0xE2, CHR 0x80, CHR 0x82],
     [CHR 0xE2, CHR 0x80, CHR 0x83], [CHR 0xE2, CHR 0x80, CHR 0x84], [CHR 0xE2, CHR 0x80, CHR 0x85],
     [CHR 0xE2, CHR 0x80, CHR 0x86], [CHR 0xE2, CHR 0x80, CHR 0x87], [CHR 0xE2, CHR 0x80, CHR 0x88],
     [CHR 0xE2, CHR 0x80, CHR 0x89], [CHR 0xE2, CHR 0x80, CHR 0x8A], [CHR 0xE2, CHR 0x80, CHR 0xA8],
     [CHR 0xE2, CHR 0x80, CHR 0xA9], [CHR 0xE2, CHR 0x80, CHR 0xAF], [CHR 0xE2, CHR 0x81, CHR 0x9F],
     [CHR 0xE3, CHR 0x80, CHR 0x80]]"

text \<open>The number of bytes of the white space at the front, zero for none.\<close>

definition space_width :: "string \<Rightarrow> nat" where
  "space_width s = (case s of [] \<Rightarrow> 0 | c # _ \<Rightarrow>
     if is_space c then 1 else (case find (HasPrefix s) space_runes of Some r \<Rightarrow> length r | None \<Rightarrow> 0))"

fun fields_from :: "string \<Rightarrow> string \<Rightarrow> string list" where
  "fields_from tok [] = (if tok = [] then [] else [tok])"
| "fields_from tok (c # cs) =
     (if space_width (c # cs) > 0 then (if tok = [] then [] else [tok]) @ fields_from [] (drop (space_width (c # cs) - 1) cs)
      else fields_from (tok @ [c]) cs)"

definition strings_Fields :: "string \<Rightarrow> string list" where
  "strings_Fields s = fields_from [] s"

fun trim_start :: "string \<Rightarrow> string" where
  "trim_start [] = []"
| "trim_start (c # cs) = (if space_width (c # cs) > 0 then trim_start (drop (space_width (c # cs) - 1) cs) else c # cs)"

text \<open>The rest of a string from the first position on where only white space follows is cut.\<close>

fun all_space :: "string \<Rightarrow> bool" where
  "all_space [] = True"
| "all_space (c # cs) \<longleftrightarrow> space_width (c # cs) > 0 \<and> all_space (drop (space_width (c # cs) - 1) cs)"

fun trim_end :: "string \<Rightarrow> string" where
  "trim_end [] = []"
| "trim_end (c # cs) = (if all_space (c # cs) then [] else c # trim_end cs)"

definition TrimSpace :: "string \<Rightarrow> string" where
  "TrimSpace s = trim_end (trim_start s)"

section \<open>Case\<close>

definition lower_char :: "char \<Rightarrow> char" where
  "lower_char c = (if 65 \<le> (of_char c :: nat) \<and> (of_char c :: nat) \<le> 90
     then char_of ((of_char c :: nat) + 32) else c)"

definition upper_char :: "char \<Rightarrow> char" where
  "upper_char c = (if 97 \<le> (of_char c :: nat) \<and> (of_char c :: nat) \<le> 122
     then char_of ((of_char c :: nat) - 32) else c)"

fun ascii_char :: "char \<Rightarrow> bool" where
  "ascii_char (Char b0 b1 b2 b3 b4 b5 b6 b7) \<longleftrightarrow> \<not> b7"

text \<open>The number of bytes of the rune at the front as \<^verbatim>\<open>utf8.DecodeRuneInString\<close> takes them, zero for an invalid one.\<close>

definition byte_in :: "nat \<Rightarrow> nat \<Rightarrow> string \<Rightarrow> nat \<Rightarrow> bool" where
  "byte_in lo hi s i \<longleftrightarrow> i < length s \<and> lo \<le> of_char (s ! i) \<and> of_char (s ! i) \<le> hi"

definition rune_len :: "string \<Rightarrow> nat" where
  "rune_len s = (case s of [] \<Rightarrow> 0 | c # _ \<Rightarrow>
     let b = of_char c :: nat; cont = byte_in 0x80 0xBF s in
     if b < 0x80 then 1
     else if 0xC2 \<le> b \<and> b \<le> 0xDF \<and> cont 1 then 2
     else if 0xE0 \<le> b \<and> b \<le> 0xEF \<and> byte_in (if b = 0xE0 then 0xA0 else 0x80) (if b = 0xED then 0x9F else 0xBF) s 1 \<and> cont 2 then 3
     else if 0xF0 \<le> b \<and> b \<le> 0xF4 \<and> byte_in (if b = 0xF0 then 0x90 else 0x80) (if b = 0xF4 then 0x8F else 0xBF) s 1 \<and> cont 2 \<and> cont 3 then 4
     else 0)"

definition replacement_rune :: string where "replacement_rune = [CHR 0xEF, CHR 0xBF, CHR 0xBD]"

text \<open>
  A loop over the runes of a text that writes something for each of them: a rune is its bytes, and an
  invalid byte is the replacement rune.  \<^verbatim>\<open>strings.ToLower\<close> is such a loop over Unicode's table.
\<close>

fun map_runes :: "(string \<Rightarrow> string) \<Rightarrow> string \<Rightarrow> string" where
  "map_runes f [] = []"
| "map_runes f (c # cs) =
     (let n = rune_len (c # cs) in
      if n = 0 then f replacement_rune @ map_runes f cs else f (take n (c # cs)) @ map_runes f (drop (n - 1) cs))"

definition lower_text :: "(string \<Rightarrow> string) \<Rightarrow> string \<Rightarrow> string" where
  "lower_text lower s = map_runes (\<lambda>r. case r of [c] \<Rightarrow> [lower_char c] | _ \<Rightarrow> lower r) s"

text \<open>
  The same function where only ASCII letters and positions matter to the caller: a rune outside ASCII
  stays unless its lower case is ASCII or has another width.  These are the runes of that kind.
\<close>

definition lower_runes :: "(string \<times> string) list" where
  "lower_runes =
    [([CHR 0xC4, CHR 0xB0], [CHR 0x69]), ([CHR 0xC8, CHR 0xBA], [CHR 0xE2, CHR 0xB1, CHR 0xA5]),
     ([CHR 0xC8, CHR 0xBE], [CHR 0xE2, CHR 0xB1, CHR 0xA6]), ([CHR 0xE1, CHR 0xBA, CHR 0x9E], [CHR 0xC3, CHR 0x9F]),
     ([CHR 0xE2, CHR 0x84, CHR 0xA6], [CHR 0xCF, CHR 0x89]), ([CHR 0xE2, CHR 0x84, CHR 0xAA], [CHR 0x6B]),
     ([CHR 0xE2, CHR 0x84, CHR 0xAB], [CHR 0xC3, CHR 0xA5]), ([CHR 0xE2, CHR 0xB1, CHR 0xA2], [CHR 0xC9, CHR 0xAB]),
     ([CHR 0xE2, CHR 0xB1, CHR 0xA4], [CHR 0xC9, CHR 0xBD]), ([CHR 0xE2, CHR 0xB1, CHR 0xAD], [CHR 0xC9, CHR 0x91]),
     ([CHR 0xE2, CHR 0xB1, CHR 0xAE], [CHR 0xC9, CHR 0xB1]), ([CHR 0xE2, CHR 0xB1, CHR 0xAF], [CHR 0xC9, CHR 0x90]),
     ([CHR 0xE2, CHR 0xB1, CHR 0xB0], [CHR 0xC9, CHR 0x92]), ([CHR 0xE2, CHR 0xB1, CHR 0xBE], [CHR 0xC8, CHR 0xBF]),
     ([CHR 0xE2, CHR 0xB1, CHR 0xBF], [CHR 0xC9, CHR 0x80]), ([CHR 0xEA, CHR 0x9E, CHR 0x8D], [CHR 0xC9, CHR 0xA5]),
     ([CHR 0xEA, CHR 0x9E, CHR 0xAA], [CHR 0xC9, CHR 0xA6]), ([CHR 0xEA, CHR 0x9E, CHR 0xAB], [CHR 0xC9, CHR 0x9C]),
     ([CHR 0xEA, CHR 0x9E, CHR 0xAC], [CHR 0xC9, CHR 0xA1]), ([CHR 0xEA, CHR 0x9E, CHR 0xAD], [CHR 0xC9, CHR 0xAC]),
     ([CHR 0xEA, CHR 0x9E, CHR 0xAE], [CHR 0xC9, CHR 0xAA]), ([CHR 0xEA, CHR 0x9E, CHR 0xB0], [CHR 0xCA, CHR 0x9E]),
     ([CHR 0xEA, CHR 0x9E, CHR 0xB1], [CHR 0xCA, CHR 0x87]), ([CHR 0xEA, CHR 0x9E, CHR 0xB2], [CHR 0xCA, CHR 0x9D]),
     ([CHR 0xEA, CHR 0x9F, CHR 0x85], [CHR 0xCA, CHR 0x82])]"

fun ToLower :: "string \<Rightarrow> string" where
  "ToLower [] = []"
| "ToLower (c # cs) =
     (if ascii_char c then lower_char c # ToLower cs
      else let n = rune_len (c # cs) in
        if n = 0 then replacement_rune @ ToLower cs
        else (case map_of lower_runes (take n (c # cs)) of Some r \<Rightarrow> r | None \<Rightarrow> take n (c # cs)) @ ToLower (drop (n - 1) cs))"

fun ToUpper :: "string \<Rightarrow> string" where
  "ToUpper [] = []"
| "ToUpper (c # cs) =
     (if HasPrefix (c # cs) [CHR 0xC4, CHR 0xB1] then CHR ''I'' # ToUpper (drop 1 cs)
      else if HasPrefix (c # cs) [CHR 0xC5, CHR 0xBF] then CHR ''S'' # ToUpper (drop 1 cs)
      else upper_char c # ToUpper cs)"

text \<open>
  \<^verbatim>\<open>EqualFold\<close> with an ASCII text, as the program calls it: two texts are equal under simple folding,
  which joins the Kelvin sign with k and the long s with s.
\<close>

fun fold_case :: "string \<Rightarrow> string" where
  "fold_case [] = []"
| "fold_case (c # cs) =
     (if HasPrefix (c # cs) [CHR 0xE2, CHR 0x84, CHR 0xAA] then CHR ''k'' # fold_case (drop 2 cs)
      else if HasPrefix (c # cs) [CHR 0xC5, CHR 0xBF] then CHR ''s'' # fold_case (drop 1 cs)
      else lower_char c # fold_case cs)"

definition EqualFold :: "string \<Rightarrow> string \<Rightarrow> bool" where
  "EqualFold s t \<longleftrightarrow> fold_case s = fold_case t"

section \<open>Lemmas\<close>

lemma HasPrefix_append [simp]: "HasPrefix (p @ s) p"
  by (simp add: HasPrefix_def)

lemma HasPrefix_iff: "HasPrefix s p \<longleftrightarrow> (\<exists>r. s = p @ r)"
  by (auto simp: HasPrefix_def intro: exI [of _ "drop (length p) s"]
      dest: sym [of "take _ _"] simp flip: append_take_drop_id)
     (metis append_take_drop_id)

text \<open>A string without white space at any position, and the bytes that make one.\<close>

definition spaceless :: "string \<Rightarrow> bool" where
  "spaceless s \<longleftrightarrow> (\<forall>i<length s. space_width (drop i s) = 0)"

definition plain :: "char \<Rightarrow> bool" where
  "plain c \<longleftrightarrow> \<not> is_space c \<and> c \<notin> set (map hd space_runes)"

lemma space_width_mono: "space_width s > 0 \<Longrightarrow> space_width (s @ r) > 0"
proof -
  assume a: "space_width s > 0"
  have ne: "\<forall>r\<in>set space_runes. r \<noteq> []" by (simp add: space_runes_def)
  obtain c cs where s: "s = c # cs" using a by (cases s) (auto simp: space_width_def)
  show ?thesis
  proof (cases "is_space c")
    case False
    then obtain x where x: "find (HasPrefix s) space_runes = Some x" using a s by (auto simp: space_width_def split: option.splits)
    then have "x \<in> set space_runes" "HasPrefix s x" by (auto simp: find_Some_iff)
    then have "\<exists>x\<in>set space_runes. HasPrefix (s @ r) x" by (metis HasPrefix_iff append_assoc)
    then obtain y where "find (HasPrefix (s @ r)) space_runes = Some y" by (metis find_None_iff2 option.exhaust)
    moreover from this have "y \<in> set space_runes" by (auto simp: find_Some_iff)
    ultimately show ?thesis using s ne False by (auto simp: space_width_def)
  qed (simp add: s space_width_def)
qed

lemma plain_space_width: "plain c \<Longrightarrow> space_width (c # cs) = 0"
proof -
  assume c: "plain c"
  have "find (HasPrefix (c # cs)) space_runes = None"
    unfolding find_None_iff
  proof
    assume "\<exists>x. x \<in> set space_runes \<and> HasPrefix (c # cs) x"
    then obtain x where x: "x \<in> set space_runes" "HasPrefix (c # cs) x" by blast
    have "x \<noteq> []" using x(1) by (auto simp: space_runes_def)
    then have "hd x = c" using x(2) by (cases x) (auto simp: HasPrefix_iff)
    then show False using c x(1) by (auto simp: plain_def)
  qed
  then show "space_width (c # cs) = 0" using c by (simp add: space_width_def plain_def)
qed

lemma fields_spaceless:
  assumes "\<forall>i<length tok. space_width (drop i tok @ s) = 0"
  shows "w \<in> set (fields_from tok s) \<Longrightarrow> w \<noteq> [] \<and> spaceless w"
  using assms
proof (induction tok s rule: fields_from.induct)
  case (1 tok)
  then show ?case by (auto simp: spaceless_def split: if_splits)
next
  case (2 tok c cs)
  have t: "spaceless tok" unfolding spaceless_def using 2(4) space_width_mono by (metis not_gr_zero)
  show ?case
  proof (cases "space_width (c # cs) > 0")
    case True
    then show ?thesis using 2(1) 2(3) t by (auto split: if_splits)
  next
    case False
    have "space_width (drop i (tok @ [c]) @ cs) = 0" if "i < length (tok @ [c])" for i
      using 2(4) False that by (cases "i < length tok") (auto simp: less_Suc_eq)
    then show ?thesis using 2(2) 2(3) False by simp
  qed
qed

lemma fields_run: "spaceless s \<Longrightarrow> tok @ s \<noteq> [] \<Longrightarrow> fields_from tok s = [tok @ s]"
proof (induction s arbitrary: tok)
  case (Cons c cs)
  have "space_width (c # cs) = 0" "spaceless cs" using Cons.prems(1) unfolding spaceless_def by force+
  then show ?case using Cons.IH [of "tok @ [c]"] by simp
qed simp

lemma spaceless_trim:
  assumes "spaceless s"
  shows "TrimSpace s = s"
proof -
  have "trim_end t = t" if "spaceless t" for t
    using that
  proof (induction t)
    case (Cons c cs)
    have "space_width (c # cs) = 0" "spaceless cs" using Cons.prems unfolding spaceless_def by force+
    then show ?case using Cons.IH by simp
  qed simp
  moreover have "trim_start s = s" using assms by (cases s) (force simp: spaceless_def)+
  ultimately show ?thesis using assms by (simp add: TrimSpace_def)
qed

lemma field_trim: "t \<in> set (strings_Fields s) \<Longrightarrow> TrimSpace t = t"
  using fields_spaceless [of "[]" s t] spaceless_trim by (simp add: strings_Fields_def)

lemma plain_spaceless: "list_all plain s \<Longrightarrow> spaceless s"
proof -
  assume s: "list_all plain s"
  have "space_width (drop i s) = 0" if "i < length s" for i
    using s that plain_space_width [of "s ! i" "drop (Suc i) s"] by (simp add: Cons_nth_drop_Suc list_all_length)
  then show ?thesis by (simp add: spaceless_def)
qed

lemma fields_step:
  "list_all plain w \<Longrightarrow> tok @ w \<noteq> [] \<Longrightarrow> fields_from tok (w @ CHR '' '' # s) = (tok @ w) # fields_from [] s"
proof (induction w arbitrary: tok)
  case Nil
  then show ?case by (simp add: space_width_def is_space_def)
next
  case (Cons c cs)
  then show ?case using plain_space_width Cons.IH [of "tok @ [c]"] by simp
qed

lemma trim_start_chars: "set (trim_start s) \<subseteq> set s"
  by (induction s rule: trim_start.induct) (auto dest: in_set_dropD)

lemma trim_end_chars: "set (trim_end s) \<subseteq> set s"
  by (induction s) auto

lemma TrimSpace_chars: "set (TrimSpace s) \<subseteq> set s"
  using trim_start_chars trim_end_chars unfolding TrimSpace_def by blast

lemma ascii_plain: "ascii_char c \<Longrightarrow> \<not> is_space c \<Longrightarrow> plain c"
  by (cases c) (auto simp: plain_def space_runes_def)

lemma space_width_code [code]:
  "space_width s = (case s of [] \<Rightarrow> 0 | c # _ \<Rightarrow>
     if is_space c then 1 else if ascii_char c then 0
     else (case find (HasPrefix s) space_runes of Some r \<Rightarrow> length r | None \<Rightarrow> 0))"
  using plain_space_width [OF ascii_plain] by (auto simp: space_width_def split: list.split)

text \<open>Every byte of a white space rune outside ASCII is outside ASCII itself.\<close>

lemma all_space_last: "all_space s \<Longrightarrow> s \<noteq> [] \<Longrightarrow> \<not> ascii_char (last s) \<or> is_space (last s)"
proof (induction s rule: all_space.induct)
  case (2 c cs)
  let ?n = "space_width (c # cs)"
  have n: "?n > 0" and r: "all_space (drop (?n - 1) cs)" using 2(2) by simp_all
  show ?case
  proof (cases "drop (?n - 1) cs = []")
    case False
    have "last (drop (?n - 1) cs) = last (c # cs)" using False by (cases cs) (auto simp: last_drop)
    then show ?thesis using 2(1) [OF r False] by simp
  next
    case True
    show ?thesis
    proof (cases "is_space c")
      case True
      then have "?n = 1" by (simp add: space_width_def)
      then show ?thesis using \<open>drop (?n - 1) cs = []\<close> True by simp
    next
      case False
      then obtain x where x: "find (HasPrefix (c # cs)) space_runes = Some x" "?n = length x"
        using n by (auto simp: space_width_def split: option.splits)
      then have m: "x \<in> set space_runes" "HasPrefix (c # cs) x" by (auto simp: find_Some_iff)
      have "\<forall>x\<in>set space_runes. x \<noteq> [] \<and> \<not> ascii_char (last x)" by code_simp
      moreover have "c # cs = x"
        using m(2) True x(2) n by (auto simp: HasPrefix_def take_Cons')
      ultimately show ?thesis using m(1) by blast
    qed
  qed
qed simp

lemma trim_end_id: "s = [] \<or> ascii_char (last s) \<and> \<not> is_space (last s) \<Longrightarrow> trim_end s = s"
proof (induction s)
  case (Cons c cs)
  then have "\<not> all_space (c # cs)" using all_space_last [of "c # cs"] by blast
  then show ?case using Cons by (auto split: if_splits)
qed simp

lemma TrimSpace_plain_start: "s = [] \<or> plain (hd s) \<Longrightarrow> TrimSpace s = trim_end s"
  by (cases s) (auto simp: TrimSpace_def plain_space_width)

lemma TrimSpace_id:
  assumes "s = [] \<or> (\<not> is_space (hd s) \<and> \<not> is_space (last s) \<and> ascii_char (hd s) \<and> ascii_char (last s))"
  shows "TrimSpace s = s"
  using assms TrimSpace_plain_start [of s] trim_end_id [of s] ascii_plain by auto

lemma lower_char_idem [simp]: "lower_char (lower_char c) = lower_char c"
  by (auto simp: lower_char_def)

lemma ToLower_ascii: "list_all ascii_char s \<Longrightarrow> ToLower s = map lower_char s"
  by (induction s) auto

lemma rune_len_ascii [simp]: "ascii_char c \<Longrightarrow> rune_len (c # cs) = 1"
  by (cases c) (simp add: rune_len_def Let_def of_char_def)

lemma ascii_small: "ascii_char c \<longleftrightarrow> (of_char c :: nat) < 0x80"
  by (cases c) (auto simp: of_char_def)

text \<open>ASCII behind a text does not change the runes of the text.\<close>

lemma byte_in_append:
  "0x80 \<le> lo \<Longrightarrow> list_all ascii_char t \<Longrightarrow> byte_in lo hi (s @ t) i \<longleftrightarrow> byte_in lo hi s i"
  unfolding byte_in_def by (auto simp: nth_append list_all_length ascii_small) (metis add_diff_inverse_nat leD nat_add_left_cancel_less order.strict_trans2)

lemma rune_len_append: "list_all ascii_char t \<Longrightarrow> rune_len ((c # cs) @ t) = rune_len (c # cs)"
  using byte_in_append [of _ t _ "c # cs"] by (auto simp: rune_len_def Let_def)

lemma rune_len_cases:
  obtains "rune_len s = 0" | c cs where "s = c # cs" "ascii_char c" "rune_len s = 1"
  | c cs where "s = c # cs" "\<not> ascii_char c" "1 < rune_len s" "\<forall>i<rune_len s. 0 < i \<longrightarrow> i < length s \<and> \<not> ascii_char (s ! i)"
proof (cases s)
  case (Cons c cs)
  show thesis
  proof (cases "ascii_char c")
    case True
    then show thesis using that(2) Cons by simp
  next
    case False
    have b: "byte_in lo hi s i \<Longrightarrow> 0x80 \<le> lo \<Longrightarrow> i < length s \<and> \<not> ascii_char (s ! i)" for lo hi i
      by (auto simp: byte_in_def ascii_small)
    have lt: "i < 2 \<longleftrightarrow> i = 0 \<or> i = 1" "i < 3 \<longleftrightarrow> i = 0 \<or> i = 1 \<or> i = 2" "i < 4 \<longleftrightarrow> i = 0 \<or> i = 1 \<or> i = 2 \<or> i = 3" for i :: nat
      by linarith+
    define b lo1 hi1 lo2 hi2 where d: "b = (of_char c :: nat)" "lo1 = (if b = 0xE0 then 0xA0 else 0x80 :: nat)" "hi1 = (if b = 0xED then 0x9F else 0xBF :: nat)"
      "lo2 = (if b = 0xF0 then 0x90 else 0x80 :: nat)" "hi2 = (if b = 0xF4 then 0x8F else 0xBF :: nat)"
    have lo: "0x80 \<le> lo1" "0x80 \<le> lo2" "\<not> b < 0x80" using False by (simp_all add: d ascii_small)
    have "rune_len s = (if b < 0x80 then 1
        else if 0xC2 \<le> b \<and> b \<le> 0xDF \<and> byte_in 0x80 0xBF s 1 then 2
        else if 0xE0 \<le> b \<and> b \<le> 0xEF \<and> byte_in lo1 hi1 s 1 \<and> byte_in 0x80 0xBF s 2 then 3
        else if 0xF0 \<le> b \<and> b \<le> 0xF4 \<and> byte_in lo2 hi2 s 1 \<and> byte_in 0x80 0xBF s 2 \<and> byte_in 0x80 0xBF s 3 then 4 else 0)"
      unfolding rune_len_def Cons list.case Let_def d by (rule refl)
    then have "rune_len s = 0 \<or> rune_len s = 2 \<and> byte_in 0x80 0xBF s 1
        \<or> rune_len s = 3 \<and> (\<exists>lo hi. 0x80 \<le> lo \<and> byte_in lo hi s 1) \<and> byte_in 0x80 0xBF s 2
        \<or> rune_len s = 4 \<and> (\<exists>lo hi. 0x80 \<le> lo \<and> byte_in lo hi s 1) \<and> byte_in 0x80 0xBF s 2 \<and> byte_in 0x80 0xBF s 3"
      using lo by (simp only: split: if_splits) blast+
    then consider "rune_len s = 0" | "1 < rune_len s" "\<forall>i<rune_len s. 0 < i \<longrightarrow> i < length s \<and> \<not> ascii_char (s ! i)"
      using b by (elim disjE) (auto simp: lt)
    then show thesis using that(1,3) Cons False by cases auto
  qed
qed (use that in \<open>simp add: rune_len_def\<close>)

lemma rune_len_le: "rune_len s \<le> length s"
proof (cases s rule: rune_len_cases)
  case (3 c cs)
  then have "rune_len s - 1 < length s" by (metis diff_less less_trans zero_less_diff zero_less_one)
  then show ?thesis using 3 by linarith
qed auto

lemma map_runes_append:
  "list_all ascii_char t \<Longrightarrow> map_runes f (s @ t) = map_runes f s @ map_runes f t"
proof (induction f s rule: map_runes.induct)
  case (2 f c cs)
  have n: "rune_len (c # cs @ t) = rune_len (c # cs)" using rune_len_append [OF 2(3), of c cs] by simp
  have le: "rune_len (c # cs) \<le> Suc (length cs)" using rune_len_le [of "c # cs"] by simp
  show ?case
  proof (cases "rune_len (c # cs)")
    case 0
    then show ?thesis using 2 n by (simp add: Let_def)
  next
    case (Suc k)
    then show ?thesis using 2 n le by (simp add: Let_def)
  qed
qed simp

lemma map_runes_cong:
  "\<forall>r. set r \<subseteq> set s \<longrightarrow> f r = g r \<Longrightarrow> f replacement_rune = g replacement_rune \<Longrightarrow> map_runes f s = map_runes g s"
proof (induction f s rule: map_runes.induct)
  case (2 f c cs)
  have t: "f (take n (c # cs)) = g (take n (c # cs))" for n using 2(3) set_take_subset by metis
  have c: "\<forall>r. set r \<subseteq> set cs \<longrightarrow> f r = g r" "\<forall>r. set r \<subseteq> set (drop m cs) \<longrightarrow> f r = g r" for m
    using 2(3) set_drop_subset [of m cs] by auto
  show ?case using 2(1) [OF refl _ c(1) 2(4)] 2(2) [OF refl _ c(2) 2(4)] t 2(4) by (simp add: Let_def)
qed simp

lemma map_runes_ascii: "list_all ascii_char t \<Longrightarrow> map_runes f t = concat (map (\<lambda>c. f [c]) t)"
  by (induction t) (auto simp: Let_def)

lemma lower_text_append:
  "list_all ascii_char t \<Longrightarrow> lower_text low (s @ t) = lower_text low s @ map lower_char t"
  by (simp add: lower_text_def map_runes_append map_runes_ascii)

text \<open>The bytes a loop writes: from a single ASCII character or from a rune of larger bytes.\<close>

lemma rune_bytes: "1 < rune_len s \<Longrightarrow> \<forall>c\<in>set (take (rune_len s) s). \<not> ascii_char c"
proof (cases s rule: rune_len_cases)
  case (3 c cs)
  then have "\<not> ascii_char (s ! i)" if "i < rune_len s" for i using that by (cases i) auto
  then show ?thesis by (auto simp: in_set_conv_nth)
qed auto

lemma map_runes_bytes:
  assumes "\<And>c. ascii_char c \<Longrightarrow> \<forall>x\<in>set (f [c]). P x" and "\<And>r. \<forall>c\<in>set r. \<not> ascii_char c \<Longrightarrow> \<forall>x\<in>set (f r). P x"
  shows "\<forall>x\<in>set (map_runes f s). P x"
  using assms
proof (induction f s rule: map_runes.induct)
  case (2 f c cs)
  show ?case
  proof (cases "rune_len (c # cs) = 0")
    case True
    have "\<forall>c\<in>set replacement_rune. \<not> ascii_char c" by (simp add: replacement_rune_def)
    then have "\<forall>x\<in>set (f replacement_rune). P x" by (rule 2(4))
    then show ?thesis using 2(1) [OF refl True 2(3,4)] True by (auto simp: Let_def)
  next
    case False
    have "\<forall>x\<in>set (f (take (rune_len (c # cs)) (c # cs))). P x"
    proof (cases "ascii_char c")
      case True
      then show ?thesis using 2(3) by simp
    next
      case na: False
      have "rune_len (c # cs) \<noteq> 1" using na by (auto simp: rune_len_def Let_def ascii_small)
      then have "1 < rune_len (c # cs)" using False by linarith
      then show ?thesis using 2(4) rune_bytes by blast
    qed
    then show ?thesis using 2(2) [OF refl False 2(3,4)] False by (auto simp: Let_def)
  qed
qed simp

lemma ToLower_append: "list_all ascii_char s \<Longrightarrow> ToLower (s @ t) = map lower_char s @ ToLower t"
  by (induction s) auto

end
