(* ===== verification/Prelude.thy ===== *)
theory Prelude
  imports GoStrings "HOL-Library.AList" "HOL-Library.Multiset"
begin

unbundle bit_operations_syntax

text \<open>
  The prelude of the development: the fact collections, the types every component shares, the
  part of Go's \<^verbatim>\<open>strings\<close> and \<^verbatim>\<open>path\<close> packages the sources
  call, and the generic lemmas on lists, association lists and 64-bit integers.

  A Go \<^verbatim>\<open>string\<close> and a \<^verbatim>\<open>[]byte\<close> are both byte sequences, which is what \<^typ>\<open>string\<close>
  is (a \<^typ>\<open>char\<close> is a byte).  A Go map is an association list with distinct keys, whose order
  stands for the unspecified iteration order.
\<close>

named_theorems path_simps \<open>unfolding rules for the path functions\<close>
named_theorems inv_intros \<open>preservation of the component invariants\<close>
named_theorems cfg_simps \<open>unfolding rules for the configuration functions\<close>

type_synonym bytes = "char list"

section \<open>Signed 64-bit integers\<close>

text \<open>Go's \<^verbatim>\<open>int64\<close> (and \<^verbatim>\<open>int\<close> on the 64-bit targets): the result of an operation reduced
  into the two's-complement range.\<close>

definition i64 :: "int \<Rightarrow> int" where
  "i64 x = (x + 2 ^ 63) mod 2 ^ 64 - 2 ^ 63"

abbreviation max_i64 :: int where "max_i64 \<equiv> 2 ^ 63 - 1"
abbreviation min_i64 :: int where "min_i64 \<equiv> - (2 ^ 63)"

lemma i64_id [simp]: "min_i64 \<le> x \<Longrightarrow> x \<le> max_i64 \<Longrightarrow> i64 x = x"
  by (simp add: i64_def)

lemma i64_range: "min_i64 \<le> i64 x \<and> i64 x \<le> max_i64"
proof -
  have "0 \<le> (x + 2 ^ 63) mod 2 ^ 64" and "(x + 2 ^ 63) mod 2 ^ 64 < (2 ^ 64 :: int)"
    by simp_all
  then show ?thesis unfolding i64_def by auto
qed

text \<open>\<^verbatim>\<open>Time.Sub\<close>, in nanoseconds, saturates at the limits of a \<^verbatim>\<open>Duration\<close>.\<close>

definition time_Sub :: "int \<Rightarrow> int \<Rightarrow> int" where
  "time_Sub t u = max min_i64 (min max_i64 (t - u))"

section \<open>Go's strings package\<close>

definition trim_right :: "(char \<Rightarrow> bool) \<Rightarrow> string \<Rightarrow> string" where
  "trim_right P s = rev (dropWhile P (rev s))"

definition trim_both :: "(char \<Rightarrow> bool) \<Rightarrow> string \<Rightarrow> string" where
  "trim_both P s = trim_right P (dropWhile P s)"

definition HasSuffix :: "string \<Rightarrow> string \<Rightarrow> bool" where
  "HasSuffix s p \<longleftrightarrow> length p \<le> length s \<and> drop (length s - length p) s = p"

definition TrimPrefix :: "string \<Rightarrow> string \<Rightarrow> string" where
  "TrimPrefix s p = (if HasPrefix s p then drop (length p) s else s)"

definition TrimSuffix :: "string \<Rightarrow> string \<Rightarrow> string" where
  "TrimSuffix s p = (if HasSuffix s p then take (length s - length p) s else s)"

text \<open>\<^verbatim>\<open>strings.ReplaceAll\<close> of one byte by another.\<close>

definition replace_char :: "char \<Rightarrow> char \<Rightarrow> string \<Rightarrow> string" where
  "replace_char a b s = map (\<lambda>c. if c = a then b else c) s"

text \<open>\<^verbatim>\<open>strings.Split\<close> and \<^verbatim>\<open>strings.Join\<close> with a one-byte separator.\<close>

fun Split :: "char \<Rightarrow> string \<Rightarrow> string list" where
  "Split d [] = [[]]"
| "Split d (c # cs) =
     (if c = d then [] # Split d cs
      else (case Split d cs of [] \<Rightarrow> [[c]] | w # ws \<Rightarrow> (c # w) # ws))"

fun Join :: "char \<Rightarrow> string list \<Rightarrow> string" where
  "Join d [] = []"
| "Join d [w] = w"
| "Join d (w # v # ws) = w @ d # Join d (v # ws)"

text \<open>\<^verbatim>\<open>strings.Index\<close>: the first position of a substring, if any.\<close>

fun Index_of :: "string \<Rightarrow> string \<Rightarrow> nat option" where
  "Index_of sub [] = (if sub = [] then Some 0 else None)"
| "Index_of sub (c # cs) =
     (if HasPrefix (c # cs) sub then Some 0 else map_option Suc (Index_of sub cs))"

definition Contains :: "string \<Rightarrow> string \<Rightarrow> bool" where
  "Contains s sub \<longleftrightarrow> Index_of sub s \<noteq> None"

lemma HasSuffix_iff: "HasSuffix s p \<longleftrightarrow> (\<exists>r. s = r @ p)"
proof
  assume "HasSuffix s p"
  then show "\<exists>r. s = r @ p"
    unfolding HasSuffix_def by (metis append_take_drop_id)
next
  assume "\<exists>r. s = r @ p"
  then show "HasSuffix s p" by (auto simp: HasSuffix_def)
qed

lemma TrimPrefix_append [simp]: "TrimPrefix (p @ s) p = s"
  by (simp add: TrimPrefix_def)

lemma Split_ne [simp]: "Split d s \<noteq> []"
  by (induction s) (auto split: list.splits)

lemma Join_Split [simp]: "Join d (Split d s) = s"
proof (induction s)
  case Nil
  then show ?case by simp
next
  case (Cons c cs)
  obtain w ws where w: "Split d cs = w # ws" by (meson Split_ne neq_Nil_conv)
  then show ?case using Cons by (cases ws) auto
qed

lemma Split_no_sep: "w \<in> set (Split d s) \<Longrightarrow> d \<notin> set w"
proof (induction s arbitrary: w)
  case (Cons c cs)
  obtain v vs where v: "Split d cs = v # vs" by (meson Split_ne neq_Nil_conv)
  show ?case using Cons v by (auto split: if_splits)
qed simp

lemma Split_single: "d \<notin> set w \<Longrightarrow> Split d w = [w]"
  by (induction w) auto

lemma Split_append_sep: "d \<notin> set w \<Longrightarrow> Split d (w @ d # s) = w # Split d s"
  by (induction w) auto

lemma Split_Join:
  "ws \<noteq> [] \<Longrightarrow> \<forall>w\<in>set ws. d \<notin> set w \<Longrightarrow> Split d (Join d ws) = ws"
  by (induction d ws rule: Join.induct) (auto simp: Split_single Split_append_sep)

lemma Split_chars: "w \<in> set (Split d s) \<Longrightarrow> set w \<subseteq> set s"
proof (induction s arbitrary: w)
  case (Cons c cs)
  obtain v vs where v: "Split d cs = v # vs" by (meson Split_ne neq_Nil_conv)
  have "set v \<subseteq> set cs" using Cons.IH v by simp
  then show ?case using Cons v by (fastforce split: if_splits)
qed simp

lemma Split_append: "Split d (s @ d # t) = Split d s @ Split d t"
proof (induction s)
  case (Cons c cs)
  obtain v vs where v: "Split d cs = v # vs" by (meson Split_ne neq_Nil_conv)
  then show ?case using Cons by (auto split: list.splits)
qed simp

lemma Join_append:
  "xs \<noteq> [] \<Longrightarrow> ys \<noteq> [] \<Longrightarrow> Join d (xs @ ys) = Join d xs @ d # Join d ys"
proof (induction d xs rule: Join.induct)
  case (2 d w)
  then show ?case by (cases ys) auto
qed auto

lemma trim_right_id: "s = [] \<or> \<not> P (last s) \<Longrightarrow> trim_right P s = s"
  by (cases s rule: rev_cases) (auto simp: trim_right_def)

lemma trim_right_last: "trim_right P s \<noteq> [] \<Longrightarrow> \<not> P (last (trim_right P s))"
  by (simp add: trim_right_def last_rev hd_dropWhile)

lemma trim_right_chars: "set (trim_right P s) \<subseteq> set s"
  using set_dropWhileD [of _ P "rev s"] by (auto simp: trim_right_def)

section \<open>Association lists as Go maps\<close>

type_synonym 'v gomap = "(string \<times> 'v) list"

abbreviation wf_map :: "('k \<times> 'v) list \<Rightarrow> bool" where
  "wf_map m \<equiv> distinct (map fst m)"

abbreviation has_key :: "('k \<times> 'v) list \<Rightarrow> 'k \<Rightarrow> bool" where
  "has_key m k \<equiv> k \<in> fst ` set m"

lemma map_of_update [simp]: "map_of (AList.update k v m) = (map_of m)(k \<mapsto> v)"
  by (rule update_conv')

lemma map_of_delete [simp]: "map_of (AList.delete k m) = (map_of m)(k := None)"
  by (rule delete_conv')

lemma wf_map_update [simp, intro]: "wf_map m \<Longrightarrow> wf_map (AList.update k v m)"
  by (rule distinct_update)

lemma wf_map_delete [simp, intro]: "wf_map m \<Longrightarrow> wf_map (AList.delete k m)"
  by (rule distinct_delete)

lemma wf_map_filter [simp, intro]: "wf_map m \<Longrightarrow> wf_map (filter P m)"
  by (induction m) auto

lemma map_of_filter_key:
  "map_of (filter (\<lambda>(k, v). P k) m) k = (if P k then map_of m k else None)"
  by (induction m) auto

section \<open>Decimal formatting\<close>

text \<open>The \<^verbatim>\<open>%d\<close> verb of \<^verbatim>\<open>fmt\<close>.\<close>

fun show_nat :: "nat \<Rightarrow> string" where
  "show_nat n = (if n < 10 then [char_of (48 + n)]
     else show_nat (n div 10) @ [char_of (48 + n mod 10)])"

declare show_nat.simps [simp del]

definition show_int :: "int \<Rightarrow> string" where
  "show_int i = (if i < 0 then CHR ''-'' # show_nat (nat (- i)) else show_nat (nat i))"

lemma digit_char_inj: "m < 10 \<Longrightarrow> n < 10 \<Longrightarrow> (char_of (48 + m) :: char) = char_of (48 + n) \<longleftrightarrow> m = (n :: nat)"
  by (simp add: char_of_eq_iff take_bit_eq_mod)

lemma show_nat_ne [simp]: "show_nat n \<noteq> []" "[] \<noteq> show_nat n"
  by (subst show_nat.simps, simp)+

lemma show_nat_inj: "show_nat m = show_nat n \<Longrightarrow> m = n"
proof (induction m arbitrary: n rule: show_nat.induct)
  case (1 m)
  show ?case
  proof (cases "m < 10")
    case True
    then show ?thesis using "1.prems" digit_char_inj [of m n]
      by (cases "n < 10") (auto simp: show_nat.simps [of m] show_nat.simps [of n] append_eq_Cons_conv)
  next
    case False
    then have n: "\<not> n < 10" using "1.prems"
      by (auto simp: show_nat.simps [of m] show_nat.simps [of n] append_eq_Cons_conv)
    have "show_nat (m div 10) = show_nat (n div 10)" "m mod 10 = n mod 10"
      using "1.prems" False n digit_char_inj [of "m mod 10" "n mod 10"]
      by (simp_all add: show_nat.simps [of m] show_nat.simps [of n])
    then show ?thesis using "1.IH" [OF False] by (metis mult_div_mod_eq)
  qed
qed

lemma in_update: "(k', v') \<in> set (AList.update k v m) \<Longrightarrow> (k', v') \<in> set m \<or> (k', v') = (k, v)"
  by (induction m) (auto split: if_splits)

section \<open>Insertion sort as in sort.SliceStable\<close>

text \<open>
  \<^verbatim>\<open>sort.SliceStable\<close> inserts each element from the right end of the sorted part, moving it left
  while it is less than its neighbour (up to blocks of 20 elements, which it then merges; for a
  strict weak order the two agree at every length).  The sorted part is kept reversed.
\<close>

fun insert_back :: "('a \<Rightarrow> 'a \<Rightarrow> bool) \<Rightarrow> 'a \<Rightarrow> 'a list \<Rightarrow> 'a list" where
  "insert_back lt x [] = [x]"
| "insert_back lt x (y # ys) = (if lt x y then y # insert_back lt x ys else x # y # ys)"

definition SliceStable :: "('a \<Rightarrow> 'a \<Rightarrow> bool) \<Rightarrow> 'a list \<Rightarrow> 'a list" where
  "SliceStable lt xs = rev (foldl (\<lambda>acc x. insert_back lt x acc) [] xs)"

lemma mset_insert_back [simp]: "mset (insert_back lt x ys) = add_mset x (mset ys)"
  by (induction ys) auto

lemma mset_SliceStable [simp]: "mset (SliceStable lt xs) = mset xs"
proof -
  have "mset (foldl (\<lambda>acc x. insert_back lt x acc) ys xs) = mset ys + mset xs" for ys
    by (induction xs arbitrary: ys) auto
  then show ?thesis by (simp add: SliceStable_def)
qed

lemma set_SliceStable [simp]: "set (SliceStable lt xs) = set xs"
  by (metis mset_SliceStable set_mset_mset)

lemma length_SliceStable [simp]: "length (SliceStable lt xs) = length xs"
  by (metis mset_SliceStable size_mset)

lemma insert_back_cong:
  "\<forall>y\<in>set ys. lt x y = lt' x y \<Longrightarrow> insert_back lt x ys = insert_back lt' x ys"
  by (induction ys) auto

lemma SliceStable_cong:
  assumes "\<And>x y. x \<in> set xs \<Longrightarrow> y \<in> set xs \<Longrightarrow> lt x y = lt' x y"
  shows "SliceStable lt xs = SliceStable lt' xs"
proof -
  have "foldl (\<lambda>acc x. insert_back lt x acc) acc zs = foldl (\<lambda>acc x. insert_back lt' x acc) acc zs"
    if "set zs \<subseteq> set xs" "set acc \<subseteq> set xs" for acc zs
    using that
  proof (induction zs arbitrary: acc)
    case (Cons z zs)
    have "insert_back lt z acc = insert_back lt' z acc"
      using Cons.prems assms by (intro insert_back_cong) auto
    moreover have "set (insert_back lt' z acc) = insert z (set acc)"
      by (metis mset_insert_back set_mset_add_mset_insert set_mset_mset)
    ultimately show ?case using Cons by simp
  qed simp
  then show ?thesis by (simp add: SliceStable_def)
qed

text \<open>
  The contract of a three-way comparison function on the values a component sorts: it is
  antisymmetric and transitive, and it sees only a key of its arguments.  Sorting in descending
  order is then independent of the input order, up to the key.
\<close>

locale comparator =
  fixes cmp :: "'a \<Rightarrow> 'a \<Rightarrow> int"
    and ok :: "'a \<Rightarrow> bool"
    and key :: "'a \<Rightarrow> 'k"
  assumes cmp_anti: "ok x \<Longrightarrow> ok y \<Longrightarrow> cmp x y = - cmp y x"
    and cmp_trans: "ok x \<Longrightarrow> ok y \<Longrightarrow> ok z \<Longrightarrow> 0 \<le> cmp x y \<Longrightarrow> 0 \<le> cmp y z \<Longrightarrow> 0 \<le> cmp x z"
    and cmp_zero: "ok x \<Longrightarrow> ok y \<Longrightarrow> cmp x y = 0 \<longleftrightarrow> key x = key y"
begin

lemma insert_back_sorted:
  "sorted_wrt (\<lambda>x y. 0 \<le> cmp y x) ys \<Longrightarrow> \<forall>y\<in>set ys. ok y \<Longrightarrow> ok x \<Longrightarrow>
   sorted_wrt (\<lambda>x y. 0 \<le> cmp y x) (insert_back (\<lambda>a b. 0 < cmp a b) x ys)"
proof (induction ys)
  case (Cons y ys)
  have si: "set (insert_back (\<lambda>a b. 0 < cmp a b) x ys) = insert x (set ys)"
    by (metis mset_insert_back set_mset_add_mset_insert set_mset_mset)
  show ?case
  proof (cases "0 < cmp x y")
    case True
    then show ?thesis using Cons si by auto
  next
    case False
    then have "0 \<le> cmp y x" using Cons.prems cmp_anti [of x y] by auto
    moreover have "0 \<le> cmp z x" if "z \<in> set ys" for z
      using that calculation Cons.prems cmp_trans [of z y x] by simp
    ultimately show ?thesis using False Cons.prems by simp
  qed
qed simp

lemma SliceStable_sorted:
  assumes "\<forall>x\<in>set xs. ok x"
  shows "sorted_wrt (\<lambda>x y. 0 \<le> cmp x y) (SliceStable (\<lambda>a b. 0 < cmp a b) xs)"
proof -
  let ?f = "\<lambda>acc x. insert_back (\<lambda>a b. 0 < cmp a b) x acc"
  have "sorted_wrt (\<lambda>x y. 0 \<le> cmp y x) (foldl ?f ys xs)"
    if "sorted_wrt (\<lambda>x y. 0 \<le> cmp y x) ys" "\<forall>y\<in>set ys. ok y" for ys
    using that assms
  proof (induction xs arbitrary: ys)
    case (Cons x xs)
    have "set (?f ys x) = insert x (set ys)"
      by (metis mset_insert_back set_mset_add_mset_insert set_mset_mset)
    then show ?case using Cons insert_back_sorted [of ys x] by simp
  qed simp
  from this [of "[]"] show ?thesis by (simp add: SliceStable_def sorted_wrt_rev)
qed

lemma sorted_keys_unique:
  "sorted_wrt (\<lambda>x y. 0 \<le> cmp x y) xs \<Longrightarrow> sorted_wrt (\<lambda>x y. 0 \<le> cmp x y) ys \<Longrightarrow>
   \<forall>x\<in>set xs. ok x \<Longrightarrow> \<forall>y\<in>set ys. ok y \<Longrightarrow> mset (map key xs) = mset (map key ys) \<Longrightarrow>
   map key xs = map key ys"
proof (induction xs arbitrary: ys)
  case (Cons x xs)
  then obtain y zs where ys: "ys = y # zs" by (cases ys) auto
  have "key x \<in> set (map key ys)" "key y \<in> set (map key (x # xs))"
    using Cons.prems(5) ys by (metis list.set_intros(1) list.simps(9) set_mset_mset)+
  then obtain a b where a: "a \<in> set ys" "key a = key x" and b: "b \<in> set (x # xs)" "key b = key y"
    by (metis (no_types, lifting) ex_map_conv list.set_map imageE)
  have z: "cmp a x = 0" "cmp b y = 0" using a b Cons.prems ys cmp_zero by auto
  have "0 \<le> cmp y a" using a ys Cons.prems cmp_zero [of y y] by auto
  then have yx: "0 \<le> cmp y x" using z a ys Cons.prems cmp_trans [of y a x] by auto
  have "0 \<le> cmp x b" using b Cons.prems cmp_zero [of x x] by auto
  then have "0 \<le> cmp x y" using z b ys Cons.prems cmp_trans [of x b y] by auto
  then have "cmp x y = 0" using yx Cons.prems ys cmp_anti [of x y] by auto
  then have k: "key x = key y" using Cons.prems ys cmp_zero by auto
  then show ?case using Cons ys by auto
qed simp

lemma SliceStable_keys:
  assumes "mset xs = mset ys" and "\<forall>x\<in>set xs. ok x"
  shows "map key (SliceStable (\<lambda>a b. 0 < cmp a b) xs) = map key (SliceStable (\<lambda>a b. 0 < cmp a b) ys)"
proof (rule sorted_keys_unique)
  have "\<forall>y\<in>set ys. ok y" using assms by (metis set_mset_mset)
  then show "sorted_wrt (\<lambda>x y. 0 \<le> cmp x y) (SliceStable (\<lambda>a b. 0 < cmp a b) ys)"
    "\<forall>y\<in>set (SliceStable (\<lambda>a b. 0 < cmp a b) ys). ok y"
    using SliceStable_sorted by auto
  show "mset (map key (SliceStable (\<lambda>a b. 0 < cmp a b) xs))
      = mset (map key (SliceStable (\<lambda>a b. 0 < cmp a b) ys))"
    using assms(1) by simp
qed (use assms SliceStable_sorted in auto)

end

section \<open>Transition systems\<close>

text \<open>
  The contract of a component that is driven by steps: an invariant that holds initially and that
  every step keeps.  What follows holds of every state a finite run can reach.
\<close>

inductive run_of :: "('s \<Rightarrow> 'e \<Rightarrow> 's \<Rightarrow> bool) \<Rightarrow> 's \<Rightarrow> 'e list \<Rightarrow> 's \<Rightarrow> bool"
  for step :: "'s \<Rightarrow> 'e \<Rightarrow> 's \<Rightarrow> bool" where
  run_Nil: "run_of step s [] s"
| run_Cons: "step s e s' \<Longrightarrow> run_of step s' es s'' \<Longrightarrow> run_of step s (e # es) s''"

inductive_simps run_of_Nil [simp]: "run_of step s [] s'"
inductive_simps run_of_Cons: "run_of step s (e # es) s'"

lemma run_of_append:
  "run_of step s xs s' \<Longrightarrow> run_of step s' ys s'' \<Longrightarrow> run_of step s (xs @ ys) s''"
  by (induction rule: run_of.induct) (auto intro: run_of.intros)

locale stepped =
  fixes step :: "'s \<Rightarrow> 'e \<Rightarrow> 's \<Rightarrow> bool"
    and inv :: "'s \<Rightarrow> bool"
  assumes step_inv: "inv s \<Longrightarrow> step s e s' \<Longrightarrow> inv s'"
begin

lemma run_inv: "run_of step s es s' \<Longrightarrow> inv s \<Longrightarrow> inv s'"
  by (induction rule: run_of.induct) (auto dest: step_inv)

end

end
