(* ===== verification/Paths.thy ===== *)
theory Paths
  imports Prelude
begin

text \<open>
  Virtual paths: \<^verbatim>\<open>internal/vault/path.go\<close>, \<^verbatim>\<open>content.go\<close>, \<^verbatim>\<open>portable.go\<close> and the metadata
  directory names of \<^verbatim>\<open>metadir.go\<close>.  First Go's \<^verbatim>\<open>path\<close> package as the sources use it, then the
  vault's own functions, then what they guarantee: a cleaned path has only proper segments, a
  content path stays inside the content root, a sanitised segment is portable.
\<close>

section \<open>Go's path package\<close>

text \<open>One segment of \<^verbatim>\<open>path.Clean\<close>; the output segments are kept in reverse.\<close>

fun clean_seg :: "bool \<Rightarrow> string list \<Rightarrow> string \<Rightarrow> string list" where
  "clean_seg rooted out seg =
     (if seg = '''' \<or> seg = ''.'' then out
      else if seg = ''..'' then
        (case out of
           [] \<Rightarrow> if rooted then [] else [''..'']
         | s # ss \<Rightarrow> if s = ''..'' then ''..'' # out else ss)
      else seg # out)"

definition clean_segs :: "bool \<Rightarrow> string \<Rightarrow> string list" where
  "clean_segs rooted p = rev (foldl (clean_seg rooted) [] (Split CHR ''/'' p))"

definition path_IsAbs :: "string \<Rightarrow> bool" where
  "path_IsAbs p \<longleftrightarrow> HasPrefix p ''/''"

definition path_Clean :: "string \<Rightarrow> string" where
  "path_Clean p =
     (if p = '''' then ''.''
      else if path_IsAbs p then CHR ''/'' # Join CHR ''/'' (clean_segs True p)
      else (case clean_segs False p of [] \<Rightarrow> ''.'' | ss \<Rightarrow> Join CHR ''/'' ss))"

definition path_Join :: "string \<Rightarrow> string \<Rightarrow> string" where
  "path_Join a b =
     (if a = '''' \<and> b = '''' then ''''
      else if a = '''' then path_Clean b
      else path_Clean (a @ CHR ''/'' # b))"

definition path_Split :: "string \<Rightarrow> string \<times> string" where
  "path_Split p =
     (let f = rev (takeWhile (\<lambda>c. c \<noteq> CHR ''/'') (rev p))
      in (take (length p - length f) p, f))"

definition path_Base :: "string \<Rightarrow> string" where
  "path_Base p =
     (if p = '''' then ''.''
      else let q = trim_right (\<lambda>c. c = CHR ''/'') p;
               b = snd (path_Split q)
           in if b = '''' then ''/'' else b)"

definition path_Dir :: "string \<Rightarrow> string" where
  "path_Dir p = path_Clean (fst (path_Split p))"

section \<open>path.go\<close>

datatype path_error =
    InvalidVirtualPath string
  | NotInsideContent
  | ReservedVirtualPath string

definition CleanVirtualPath :: "string \<Rightarrow> path_error + string" where
  "CleanVirtualPath input =
     (let s = TrimPrefix (TrimSpace (replace_char CHR 0x5C CHR ''/'' input)) ''/''
      in if s = '''' \<or> s = ''.'' then Inr ''''
         else let cleaned = path_Clean s
              in if cleaned = ''.'' then Inr ''''
                 else if HasPrefix cleaned ''../'' \<or> cleaned = ''..'' \<or> path_IsAbs cleaned
                   then Inl (InvalidVirtualPath input)
                 else Inr cleaned)"

text \<open>\<^verbatim>\<open>sep\<close> is \<^verbatim>\<open>filepath.Separator\<close> of the host.\<close>

definition virtualJoin :: "char \<Rightarrow> string \<Rightarrow> string \<Rightarrow> path_error + string" where
  "virtualJoin sep base rel =
     (case CleanVirtualPath base of
        Inl e \<Rightarrow> Inl e
      | Inr b \<Rightarrow>
          (case CleanVirtualPath (replace_char sep CHR ''/'' rel) of
             Inl e \<Rightarrow> Inl e
           | Inr r \<Rightarrow>
               if b = '''' then Inr r
               else if r = '''' then Inr b
               else Inr (path_Join b r)))"

section \<open>metadir.go and content.go: names and the content root\<close>

definition ContentRootName :: string where "ContentRootName = ''content''"
definition DirectoryMarkerName :: string where "DirectoryMarkerName = ''.seavault-dir''"
definition MetadataDirNames :: "string list" where
  "MetadataDirNames = [''SeaVaultData'', ''.seavault'']"

definition isMetadataDirName :: "string \<Rightarrow> bool" where
  "isMetadataDirName segment \<longleftrightarrow> (\<exists>n \<in> set MetadataDirNames. EqualFold segment n)"

definition NormalizeContentPath :: "string \<Rightarrow> path_error + string" where
  "NormalizeContentPath input =
     (case CleanVirtualPath input of
        Inl e \<Rightarrow> Inl e
      | Inr vp \<Rightarrow>
          if vp = '''' \<or> vp = ''.'' then Inr ContentRootName
          else if vp = ContentRootName \<or> HasPrefix vp (ContentRootName @ ''/'') then Inr vp
          else Inr (path_Join ContentRootName vp))"

definition containsReservedSegment :: "string \<Rightarrow> bool" where
  "containsReservedSegment vp \<longleftrightarrow>
     (\<exists>seg \<in> set (Split CHR ''/'' vp).
        EqualFold seg DirectoryMarkerName \<or> isMetadataDirName seg)"

definition ReservedContentSegment :: "string \<Rightarrow> bool" where
  "ReservedContentSegment vp = containsReservedSegment vp"

definition reservedNewPathError :: "string \<Rightarrow> path_error option" where
  "reservedNewPathError vp =
     (if ReservedContentSegment vp then Some (ReservedVirtualPath vp) else None)"

definition IsDirectoryMarkerPath :: "string \<Rightarrow> bool" where
  "IsDirectoryMarkerPath p =
     (let vp = trim_both (\<lambda>c. c = CHR ''/'') p
      in EqualFold vp DirectoryMarkerName
         \<or> HasSuffix (ToLower vp) (''/'' @ ToLower DirectoryMarkerName))"

definition IsInternalVirtualPath :: "string \<Rightarrow> bool" where
  "IsInternalVirtualPath vp = (if vp = '''' then False else IsDirectoryMarkerPath vp)"

definition normalizeContentFilePath :: "string \<Rightarrow> path_error + string" where
  "normalizeContentFilePath input =
     (case NormalizeContentPath input of
        Inl e \<Rightarrow> Inl e
      | Inr vp \<Rightarrow>
          if vp = '''' \<or> vp = ContentRootName \<or> HasSuffix vp ''/'' then Inl NotInsideContent
          else if IsDirectoryMarkerPath vp then Inl (ReservedVirtualPath input)
          else Inr vp)"

definition normalizeContentDirPath :: "string \<Rightarrow> path_error + string" where
  "normalizeContentDirPath input =
     (case NormalizeContentPath input of
        Inl e \<Rightarrow> Inl e
      | Inr vp \<Rightarrow>
          if IsDirectoryMarkerPath vp then Inl (ReservedVirtualPath input) else Inr vp)"

definition directoryMarkerPath :: "string \<Rightarrow> path_error + string" where
  "directoryMarkerPath dir =
     (case normalizeContentDirPath dir of
        Inl e \<Rightarrow> Inl e
      | Inr vp \<Rightarrow> Inr (path_Join vp DirectoryMarkerName))"

section \<open>portable.go\<close>

definition portableIllegalChars :: string where
  "portableIllegalChars = ''<>:'' @ [CHR 0x22] @ ''|?*''"

definition reservedStems :: "string list" where
  "reservedStems = [''CON'', ''PRN'', ''AUX'', ''NUL''] @
     concat (map (\<lambda>d. [''COM'' @ [d], ''LPT'' @ [d]]) ''123456789'')"

definition isReservedStem :: "string \<Rightarrow> bool" where
  "isReservedStem segment \<longleftrightarrow>
     ToUpper (takeWhile (\<lambda>c. c \<noteq> CHR ''.'') segment) \<in> set reservedStems"

datatype portable_error =
    EmptyName
  | ControlCharacter char
  | IllegalCharacter char
  | TrailingCharacter char
  | ReservedDeviceName

definition isControl :: "char \<Rightarrow> bool" where
  "isControl c \<longleftrightarrow> (of_char c :: nat) < 0x20 \<or> (of_char c :: nat) = 0x7f"

text \<open>The loop over the runes: the first offending character decides.\<close>

fun portable_scan :: "string \<Rightarrow> portable_error option" where
  "portable_scan [] = None"
| "portable_scan (c # cs) =
     (if isControl c then Some (ControlCharacter c)
      else if c \<in> set portableIllegalChars then Some (IllegalCharacter c)
      else portable_scan cs)"

definition ValidatePortableName :: "string \<Rightarrow> portable_error option" where
  "ValidatePortableName segment =
     (if segment = '''' then Some EmptyName
      else case portable_scan segment of
        Some e \<Rightarrow> Some e
      | None \<Rightarrow>
          if last segment = CHR ''.'' \<or> last segment = CHR '' ''
          then Some (TrailingCharacter (last segment))
          else if isReservedStem segment then Some ReservedDeviceName
          else None)"

definition sanitizePortableSegment :: "string \<Rightarrow> string" where
  "sanitizePortableSegment segment =
     (let b = map_runes (\<lambda>r. if list_ex (\<lambda>c. isControl c \<or> c \<in> set portableIllegalChars) r then ''_'' else r) segment;
          t = trim_right (\<lambda>c. c = CHR ''.'' \<or> c = CHR '' '') b;
          out = (if t = '''' then ''_'' else t)
      in if isReservedStem out then CHR ''_'' # out else out)"

section \<open>Clean paths\<close>

text \<open>A proper segment: non-empty, not a dot segment, and free of separators.\<close>

definition proper_seg :: "string \<Rightarrow> bool" where
  "proper_seg s \<longleftrightarrow> s \<noteq> '''' \<and> s \<noteq> ''.'' \<and> s \<noteq> ''..'' \<and> CHR ''/'' \<notin> set s"

text \<open>The specification of a clean relative path: proper segments joined by slashes.\<close>

definition clean_path :: "string \<Rightarrow> bool" where
  "clean_path p \<longleftrightarrow> (\<forall>s \<in> set (Split CHR ''/'' p). proper_seg s)"

lemma clean_path_Join:
  "ss \<noteq> [] \<Longrightarrow> \<forall>s\<in>set ss. proper_seg s \<Longrightarrow> clean_path (Join CHR ''/'' ss)"
  by (simp add: clean_path_def Split_Join proper_seg_def)

lemma clean_segs_proper:
  assumes "\<forall>s\<in>set ss. proper_seg s"
  shows "foldl (clean_seg r) acc ss = rev ss @ acc"
  using assms by (induction ss arbitrary: acc) (auto simp: proper_seg_def)

text \<open>The output of the fold: proper segments, then (at the bottom) dot-dot segments, of which
  there are none for a rooted path.\<close>

definition clean_out :: "bool \<Rightarrow> string list \<Rightarrow> bool" where
  "clean_out r out \<longleftrightarrow> (\<exists>n ps. out = ps @ replicate n ''..'' \<and> (\<forall>s\<in>set ps. proper_seg s) \<and> (r \<longrightarrow> n = 0))"

lemma clean_seg_out:
  assumes "clean_out r out" and "CHR ''/'' \<notin> set seg"
  shows "clean_out r (clean_seg r out seg)"
proof -
  obtain n ps where out: "out = ps @ replicate n ''..''" "\<forall>s\<in>set ps. proper_seg s" "r \<longrightarrow> n = 0"
    using assms(1) unfolding clean_out_def by blast
  consider (skip) "seg = '''' \<or> seg = ''.''" | (up) "seg = ''..''" | (push) "proper_seg seg"
    using assms(2) unfolding proper_seg_def by blast
  then show ?thesis
  proof cases
    case skip
    then show ?thesis using assms(1) by auto
  next
    case up
    show ?thesis
    proof (cases ps)
      case Nil
      show ?thesis
      proof (cases n)
        case 0
        then show ?thesis using Nil out up
          by (auto simp: clean_out_def intro!: exI [of _ "1::nat"] exI [of _ "[]"])
      next
        case (Suc m)
        then have "clean_seg r out seg = [] @ replicate (Suc n) ''..''" using Nil out up by simp
        moreover have "\<not> r" using Suc out by simp
        ultimately show ?thesis unfolding clean_out_def by (metis empty_iff empty_set)
      qed
    next
      case (Cons q qs)
      then have "clean_seg r out seg = qs @ replicate n ''..''"
        using out up by (auto simp: proper_seg_def)
      then show ?thesis using Cons out unfolding clean_out_def by auto
    qed
  next
    case push
    then have "clean_seg r out seg = (seg # ps) @ replicate n ''..''"
      using out by (auto simp: proper_seg_def)
    then show ?thesis using push out unfolding clean_out_def by (metis set_ConsD)
  qed
qed

lemma clean_fold_out:
  "clean_out r acc \<Longrightarrow> \<forall>s\<in>set ss. CHR ''/'' \<notin> set s \<Longrightarrow> clean_out r (foldl (clean_seg r) acc ss)"
  by (induction ss arbitrary: acc) (auto intro: clean_seg_out simp del: clean_seg.simps)

lemma clean_segs_shape:
  obtains n ps where "clean_segs r p = replicate n ''..'' @ ps"
    and "\<forall>s\<in>set ps. proper_seg s" and "r \<Longrightarrow> n = 0"
proof -
  have "clean_out r (foldl (clean_seg r) [] (Split CHR ''/'' p))"
    by (rule clean_fold_out) (auto simp: clean_out_def dest: Split_no_sep)
  then obtain n ps where "foldl (clean_seg r) [] (Split CHR ''/'' p) = ps @ replicate n ''..''"
    and "\<forall>s\<in>set ps. proper_seg s" and "r \<longrightarrow> n = 0"
    unfolding clean_out_def by blast
  then show ?thesis using that [of n "rev ps"] by (simp add: clean_segs_def)
qed

lemma clean_path_ne: "clean_path p \<Longrightarrow> p \<noteq> ''''"
  unfolding clean_path_def by (cases p) (simp_all add: proper_seg_def)

lemma clean_path_not_abs: "clean_path p \<Longrightarrow> \<not> path_IsAbs p"
  unfolding clean_path_def path_IsAbs_def HasPrefix_def
  by (cases p) (simp_all add: proper_seg_def split: if_splits)

lemma path_Clean_clean:
  assumes "clean_path p"
  shows "path_Clean p = p"
proof -
  have ne: "p \<noteq> ''''" and na: "\<not> path_IsAbs p"
    using assms by (auto dest: clean_path_ne clean_path_not_abs)
  have "clean_segs False p = Split CHR ''/'' p"
    using assms by (simp add: clean_segs_def clean_path_def clean_segs_proper)
  moreover obtain w ws where "Split CHR ''/'' p = w # ws" by (meson Split_ne neq_Nil_conv)
  ultimately show ?thesis using ne na Join_Split [of "CHR ''/''" p]
    by (simp add: path_Clean_def del: Join_Split)
qed

lemma clean_path_append:
  "clean_path (a @ CHR ''/'' # b) \<longleftrightarrow> clean_path a \<and> clean_path b"
  by (auto simp: clean_path_def Split_append)

lemma not_clean_dots [simp]: "\<not> clean_path ''''" "\<not> clean_path ''.''" "\<not> clean_path ''..''"
  by code_simp+

lemma clean_path_not_up: "clean_path p \<Longrightarrow> \<not> HasPrefix p ''../''"
  using clean_path_append [of "''..''"] by (auto simp: HasPrefix_iff)

lemma path_Join_clean:
  "clean_path a \<Longrightarrow> clean_path b \<Longrightarrow> path_Join a b = a @ CHR ''/'' # b"
  by (auto simp: path_Join_def clean_path_ne path_Clean_clean clean_path_append)

text \<open>What \<^const>\<open>path_Clean\<close> returns for a relative path that does not climb above its root.\<close>

lemma Join_dotdot:
  assumes "replicate n ''..'' @ ps \<noteq> []" and "0 < n"
  shows "Join CHR ''/'' (replicate n ''..'' @ ps) = ''..''
    \<or> HasPrefix (Join CHR ''/'' (replicate n ''..'' @ ps)) ''../''"
proof -
  obtain m where n: "n = Suc m" using assms(2) by (cases n) auto
  show ?thesis
  proof (cases "replicate m ''..'' @ ps")
    case (Cons x xs)
    then show ?thesis using n by (simp add: HasPrefix_def)
  qed (simp add: n)
qed

lemma path_Clean_cases:
  assumes "\<not> path_IsAbs p"
  shows "path_Clean p = ''.'' \<or> path_Clean p = ''..'' \<or> HasPrefix (path_Clean p) ''../''
    \<or> clean_path (path_Clean p)"
proof -
  obtain n ps where segs: "clean_segs False p = replicate n ''..'' @ ps"
    and ps: "\<forall>s\<in>set ps. proper_seg s"
    by (rule clean_segs_shape [of False p])
  show ?thesis
  proof (cases "p = '''' \<or> clean_segs False p = []")
    case True
    then show ?thesis using assms by (auto simp: path_Clean_def)
  next
    case False
    then have eq: "path_Clean p = Join CHR ''/'' (replicate n ''..'' @ ps)"
      using assms segs by (auto simp: path_Clean_def split: list.splits)
    show ?thesis
    proof (cases "n = 0")
      case True
      then show ?thesis using clean_path_Join [of ps] ps False segs eq by simp
    next
      case n0: False
      then have "path_Clean p = ''..'' \<or> HasPrefix (path_Clean p) ''../''"
        unfolding eq using Join_dotdot False segs by simp
      then show ?thesis by blast
    qed
  qed
qed

lemma path_Clean_abs: "path_IsAbs p \<Longrightarrow> path_IsAbs (path_Clean p)"
  by (auto simp: path_Clean_def path_IsAbs_def HasPrefix_def)

lemma Join_chars: "set (Join d ws) \<subseteq> insert d (\<Union> (set ` set ws))"
  by (induction d ws rule: Join.induct) auto

lemma clean_seg_chars:
  "c \<noteq> CHR ''.'' \<Longrightarrow> c \<notin> set a \<Longrightarrow> \<forall>s\<in>set acc. c \<notin> set s \<Longrightarrow>
   \<forall>s\<in>set (clean_seg r acc a). c \<notin> set s"
  by (auto split: list.splits if_splits)

lemma clean_fold_chars:
  "c \<noteq> CHR ''.'' \<Longrightarrow> \<forall>s\<in>set ss. c \<notin> set s \<Longrightarrow> \<forall>s\<in>set acc. c \<notin> set s \<Longrightarrow>
   \<forall>s\<in>set (foldl (clean_seg r) acc ss). c \<notin> set s"
proof (induction ss arbitrary: acc)
  case (Cons a ss)
  have "\<forall>s\<in>set (clean_seg r acc a). c \<notin> set s"
    using clean_seg_chars [of c a acc r] Cons.prems by simp
  then show ?case using Cons.IH [of "clean_seg r acc a"] Cons.prems by (simp del: clean_seg.simps)
qed simp

lemma path_Clean_chars:
  assumes "c \<notin> set p" and "c \<noteq> CHR ''.''" and "c \<noteq> CHR ''/''"
  shows "c \<notin> set (path_Clean p)"
proof -
  have "\<forall>s\<in>set (clean_segs r p). c \<notin> set s" for r
    using clean_fold_chars [of c "Split CHR ''/'' p" "[]" r] assms Split_chars
    unfolding clean_segs_def by fastforce
  then have "c \<notin> set (Join CHR ''/'' (clean_segs r p))" for r
    using Join_chars [of "CHR ''/''" "clean_segs r p"] assms(3) by blast
  then show ?thesis using assms by (auto simp: path_Clean_def split: list.splits) metis
qed

lemma CleanVirtualPath_cases:
  assumes "CleanVirtualPath input = Inr c" and "c \<noteq> ''''"
  shows "clean_path c \<and> CHR 0x5C \<notin> set c"
proof -
  let ?s = "TrimPrefix (TrimSpace (replace_char CHR 0x5C CHR ''/'' input)) ''/''"
  have c: "c = path_Clean ?s" "c \<noteq> ''.''" "\<not> HasPrefix c ''../''" "c \<noteq> ''..''" "\<not> path_IsAbs c"
    using assms by (auto simp: CleanVirtualPath_def Let_def split: if_splits)
  then have "\<not> path_IsAbs ?s" using path_Clean_abs by metis
  then have "clean_path c" using path_Clean_cases c by metis
  moreover have "CHR 0x5C \<notin> set (replace_char CHR 0x5C CHR ''/'' input)"
    by (auto simp: replace_char_def)
  then have "CHR 0x5C \<notin> set ?s"
    using TrimSpace_chars by (auto simp: TrimPrefix_def dest: in_set_dropD)
  then have "CHR 0x5C \<notin> set c" using path_Clean_chars c(1) by simp
  ultimately show ?thesis by blast
qed

lemma ContentRoot_clean [simp]: "clean_path ContentRootName"
  by code_simp

lemma ContentRoot_chars [simp]:
  "hd ContentRootName = CHR ''c''" "ContentRootName \<noteq> ''''" "CHR 0x5C \<notin> set ContentRootName"
  by (simp_all add: ContentRootName_def)

lemma NormalizeContentPath_cases:
  assumes "NormalizeContentPath input = Inr vp"
  shows "clean_path vp \<and> CHR 0x5C \<notin> set vp
    \<and> (vp = ContentRootName \<or> HasPrefix vp (ContentRootName @ ''/''))"
proof -
  obtain c where c: "CleanVirtualPath input = Inr c"
    using assms by (auto simp: NormalizeContentPath_def split: sum.splits)
  show ?thesis
  proof (cases "c = ''''")
    case True
    then show ?thesis using assms c by (simp add: NormalizeContentPath_def)
  next
    case False
    then have cl: "clean_path c" "CHR 0x5C \<notin> set c" using c CleanVirtualPath_cases by auto
    then have "c \<noteq> ''.''" by (metis not_clean_dots(2))
    then show ?thesis using assms c cl False
      by (auto simp: NormalizeContentPath_def path_Join_clean clean_path_append HasPrefix_iff
          split: if_splits)
  qed
qed

lemma CleanVirtualPath_stable:
  assumes "clean_path p" and "CHR 0x5C \<notin> set p" and "TrimSpace p = p"
  shows "CleanVirtualPath p = Inr p"
proof -
  have "replace_char CHR 0x5C CHR ''/'' p = p"
    unfolding replace_char_def by (rule map_idI) (use assms(2) in auto)
  moreover have "TrimPrefix p ''/'' = p"
    using clean_path_not_abs [OF assms(1)] by (simp add: TrimPrefix_def path_IsAbs_def)
  moreover have "p \<noteq> ''.''" "p \<noteq> ''..''" "p \<noteq> ''''"
    using assms(1) not_clean_dots by metis+
  moreover have "\<not> HasPrefix p ''../''" using assms(1) by (rule clean_path_not_up)
  ultimately show ?thesis
    using assms path_Clean_clean [OF assms(1)] clean_path_not_abs [OF assms(1)]
    by (simp add: CleanVirtualPath_def Let_def)
qed

lemma portable_scan_None:
  "portable_scan s = None \<longleftrightarrow> (\<forall>c\<in>set s. \<not> isControl c \<and> c \<notin> set portableIllegalChars)"
  by (induction s) auto

lemma portable_iff:
  "ValidatePortableName s = None \<longleftrightarrow>
     s \<noteq> '''' \<and> (\<forall>c\<in>set s. \<not> isControl c \<and> c \<notin> set portableIllegalChars)
     \<and> last s \<noteq> CHR ''.'' \<and> last s \<noteq> CHR '' '' \<and> \<not> isReservedStem s"
  by (auto simp: ValidatePortableName_def portable_scan_None split: option.splits)
     (metis not_None_eq portable_scan_None)+

lemma reservedStems_upper: "\<forall>w\<in>set reservedStems. w \<noteq> '''' \<and> hd w \<noteq> CHR ''_''"
  by (simp add: reservedStems_def)

lemma underscore_not_reserved: "\<not> isReservedStem (CHR ''_'' # s)"
proof
  assume "isReservedStem (CHR ''_'' # s)"
  then have "CHR ''_'' # ToUpper (takeWhile (\<lambda>c. c \<noteq> CHR ''.'') s) \<in> set reservedStems"
    by (simp add: isReservedStem_def upper_char_def HasPrefix_def)
  then show False using reservedStems_upper by force
qed

section \<open>What the path functions guarantee\<close>

text \<open>
  C31.  A path accepted by \<^const>\<open>CleanVirtualPath\<close> is either the vault root (the empty string) or a
  relative path all of whose segments are proper: no empty, \<^verbatim>\<open>.\<close> or \<^verbatim>\<open>..\<close> segment and no
  backslash survives, so no virtual path can climb out of the vault on any host.
\<close>

theorem CleanVirtualPath_safe:
  assumes "CleanVirtualPath input = Inr c"
  shows "c = '''' \<or> (clean_path c \<and> \<not> path_IsAbs c \<and> CHR 0x5C \<notin> set c)"
  using CleanVirtualPath_cases [OF assms] clean_path_not_abs by blast

theorem CleanVirtualPath_safe_witness:
  "CleanVirtualPath '' /a//./b/../c'' = Inr ''a/c'' \<and> clean_path ''a/c''"
proof -
  have e: "CleanVirtualPath '' /a//./b/../c'' = Inr ''a/c''" by code_simp
  show ?thesis using e CleanVirtualPath_safe [OF e] by simp
qed

text \<open>
  Every user path that \<^const>\<open>NormalizeContentPath\<close> accepts is mapped to a clean path that is the
  content root itself or lies strictly below it: the protected workspace confines every read and
  mutate entry point.
\<close>

theorem NormalizeContentPath_confined:
  assumes "NormalizeContentPath input = Inr vp"
  shows "clean_path vp \<and> (vp = ContentRootName \<or> HasPrefix vp (ContentRootName @ ''/''))"
  using NormalizeContentPath_cases [OF assms] by blast

theorem NormalizeContentPath_confined_witness:
  "NormalizeContentPath ''docs/../x'' = Inr ''content/x'' \<and> clean_path ''content/x''"
proof -
  have e: "NormalizeContentPath ''docs/../x'' = Inr ''content/x''" by code_simp
  show ?thesis using e NormalizeContentPath_confined [OF e] by simp
qed

text \<open>
  A content path is a fixed point of the cleaning that every later stage (manifest write,
  cache key, index load) repeats, provided it carries no white space at its very end.
\<close>

theorem NormalizeContentPath_stable:
  assumes "NormalizeContentPath input = Inr vp" and "trim_end vp = vp"
  shows "CleanVirtualPath vp = Inr vp \<and> NormalizeContentPath vp = Inr vp"
proof -
  note n = NormalizeContentPath_cases [OF assms(1)]
  then have "vp \<noteq> ''''" and "hd vp = CHR ''c''"
    using clean_path_ne by (auto simp: HasPrefix_iff)
  then have "TrimSpace vp = vp"
    using assms(2) TrimSpace_plain_start [of vp] by (simp add: plain_def is_space_def space_runes_def)
  then have "CleanVirtualPath vp = Inr vp" using n CleanVirtualPath_stable by blast
  moreover have "vp \<noteq> ''.''" using n not_clean_dots by metis
  ultimately show ?thesis using n \<open>vp \<noteq> ''''\<close> by (auto simp: NormalizeContentPath_def)
qed

theorem NormalizeContentPath_stable_witness:
  "NormalizeContentPath ''a/b'' = Inr ''content/a/b'' \<and> CleanVirtualPath ''content/a/b'' = Inr ''content/a/b''"
proof -
  have e: "NormalizeContentPath ''a/b'' = Inr ''content/a/b''" by code_simp
  have l: "trim_end ''content/a/b'' = ''content/a/b''" by code_simp
  show ?thesis using e NormalizeContentPath_stable [OF e l] by simp
qed

text \<open>
  Cleaning is not idempotent: a space that a trailing slash shields from the first trim is
  stripped by the second.  The content path \<^verbatim>\<open>content/a \<close> (with its space) is what the index is keyed by
  after one clean, while the manifest of the same record is written for \<^verbatim>\<open>content/a\<close>.
\<close>

theorem CleanVirtualPath_not_idempotent:
  "NormalizeContentPath ''a /'' = Inr ''content/a '' \<and> CleanVirtualPath ''content/a '' = Inr ''content/a''"
  by code_simp

text \<open>
  Sanitising always produces a name that \<^const>\<open>ValidatePortableName\<close> accepts (so a suggested or
  exported name is never rejected again), leaves an already portable name in UTF-8 unchanged, and
  never yields a dot segment.
\<close>

lemma sanitize_bytes:
  "\<forall>c\<in>set (map_runes (\<lambda>r. if list_ex (\<lambda>c. isControl c \<or> c \<in> set portableIllegalChars) r then ''_'' else r) s).
     \<not> isControl c \<and> c \<notin> set portableIllegalChars"
proof (rule map_runes_bytes)
  fix r :: string assume r: "\<forall>c\<in>set r. \<not> ascii_char c"
  have "ascii_char c" if "isControl c \<or> c \<in> set portableIllegalChars" for c
    using that by (auto simp: isControl_def ascii_small portableIllegalChars_def)
  then have "\<not> list_ex (\<lambda>c. isControl c \<or> c \<in> set portableIllegalChars) r" "\<forall>c\<in>set r. \<not> isControl c \<and> c \<notin> set portableIllegalChars"
    using r by (auto simp: list_ex_iff)
  then show "\<forall>x\<in>set (if list_ex (\<lambda>c. isControl c \<or> c \<in> set portableIllegalChars) r then ''_'' else r). \<not> isControl x \<and> x \<notin> set portableIllegalChars"
    by simp
qed (auto simp: isControl_def portableIllegalChars_def)

theorem sanitizePortableSegment_portable:
  "ValidatePortableName (sanitizePortableSegment s) = None
   \<and> (ValidatePortableName s = None \<and> map_runes (\<lambda>r. r) s = s \<longrightarrow> sanitizePortableSegment s = s)
   \<and> sanitizePortableSegment s \<noteq> ''.'' \<and> sanitizePortableSegment s \<noteq> ''..''"
proof -
  let ?f = "\<lambda>r. if list_ex (\<lambda>c. isControl c \<or> c \<in> set portableIllegalChars) r then ''_'' else r"
  let ?P = "\<lambda>c. c = CHR ''.'' \<or> c = CHR '' ''"
  define t where "t = trim_right ?P (map_runes ?f s)"
  define out where "out = (if t = '''' then ''_'' else t)"
  have san: "sanitizePortableSegment s = (if isReservedStem out then CHR ''_'' # out else out)"
    by (simp add: sanitizePortableSegment_def Let_def t_def out_def)
  have us: "\<not> isControl CHR ''_''" "CHR ''_'' \<notin> set portableIllegalChars"
    by (simp_all add: isControl_def portableIllegalChars_def)
  have "\<forall>c\<in>set t. \<not> isControl c \<and> c \<notin> set portableIllegalChars"
    using trim_right_chars [of ?P "map_runes ?f s"] sanitize_bytes [of s] unfolding t_def by blast
  then have ok: "\<forall>c\<in>set out. \<not> isControl c \<and> c \<notin> set portableIllegalChars"
    using us by (simp add: out_def)
  have ne: "out \<noteq> ''''" by (simp add: out_def)
  have la: "last out \<noteq> CHR ''.''" "last out \<noteq> CHR '' ''"
    using trim_right_last [of ?P "map_runes ?f s"] by (auto simp: out_def t_def)
  have v: "ValidatePortableName (sanitizePortableSegment s) = None"
    using ok ne la us underscore_not_reserved by (simp add: portable_iff san)
  then have "last (sanitizePortableSegment s) \<noteq> CHR ''.''" by (simp add: portable_iff)
  then have "sanitizePortableSegment s \<noteq> ''.'' \<and> sanitizePortableSegment s \<noteq> ''..''" by auto
  moreover have "sanitizePortableSegment s = s" if "ValidatePortableName s = None" "map_runes (\<lambda>r. r) s = s"
  proof -
    have p: "s \<noteq> ''''" "\<forall>c\<in>set s. \<not> isControl c \<and> c \<notin> set portableIllegalChars"
      "\<not> ?P (last s)" "\<not> isReservedStem s" using that by (simp_all add: portable_iff)
    have "\<forall>r. set r \<subseteq> set s \<longrightarrow> ?f r = r" using p(2) by (auto simp: list_ex_iff)
    moreover have "?f replacement_rune = replacement_rune" by code_simp
    ultimately have "map_runes ?f s = map_runes (\<lambda>r. r) s" by (rule map_runes_cong)
    then have "out = s" using p that(2) by (simp add: out_def t_def trim_right_id)
    then show ?thesis using p san by simp
  qed
  ultimately show ?thesis using v by blast
qed

theorem sanitizePortableSegment_portable_witness:
  "ValidatePortableName (sanitizePortableSegment ''CON.txt'') = None
   \<and> sanitizePortableSegment ''CON.txt'' = ''_CON.txt'' \<and> sanitizePortableSegment ''ok'' = ''ok''"
proof -
  have "ValidatePortableName ''ok'' = None" "map_runes (\<lambda>r. r) ''ok'' = ''ok''" by code_simp+
  moreover have "sanitizePortableSegment ''CON.txt'' = ''_CON.txt''" by code_simp
  ultimately show ?thesis
    using sanitizePortableSegment_portable [of "''ok''"]
      sanitizePortableSegment_portable [of "''CON.txt''"] by simp
qed

end
