(* ===== verification/Chunker.thy ===== *)
theory Chunker
  imports Prelude "HOL-Library.While_Combinator"
begin

text \<open>
  Content-defined chunking: \<^verbatim>\<open>internal/vault/chunker.go\<close>.  The gear table and the rolling hash are
  64-bit words; the reader is the list of blocks its \<^verbatim>\<open>Read\<close> calls deliver, followed by the end of
  file or an error; the callback threads a state of its own and may fail.  The results: no byte is
  lost or moved, the size limits hold, the cut points do not depend on how the input is buffered,
  and cutting restarts afresh after every boundary.
\<close>

section \<open>Parameters\<close>

record ChunkParams =
  MinSize :: int
  AvgSize :: int
  MaxSize :: int

datatype chunk_error =
    NotPositive
  | NotOrdered
  | MaxTooLarge

definition DefaultChunkParams :: ChunkParams where
  "DefaultChunkParams =
     \<lparr>MinSize = 2 * 1024 * 1024, AvgSize = 8 * 1024 * 1024, MaxSize = 16 * 1024 * 1024\<rparr>"

definition Validate :: "ChunkParams \<Rightarrow> chunk_error option" where
  "Validate p =
     (if MinSize p \<le> 0 \<or> AvgSize p \<le> 0 \<or> MaxSize p \<le> 0 then Some NotPositive
      else if MinSize p > AvgSize p \<or> AvgSize p > MaxSize p then Some NotOrdered
      else if MaxSize p > 128 * 1024 * 1024 then Some MaxTooLarge
      else None)"

text \<open>The loop doubles \<open>p\<close> from 1 up; after \<^const>\<open>Validate\<close> the argument is at most \<open>2 ^ 27\<close>, so the
  shift cannot overflow.\<close>

definition nextPowerOfTwo :: "int \<Rightarrow> int" where
  "nextPowerOfTwo n = (if n \<le> 1 then 1 else while (\<lambda>p. p < n) (\<lambda>p. 2 * p) 1)"

section \<open>The gear table\<close>

definition gear_inc :: "64 word" where "gear_inc = 0x9e3779b97f4a7c15"

definition gear_mix :: "64 word \<Rightarrow> 64 word" where
  "gear_mix x =
     (let z1 = (x XOR drop_bit 30 x) * 0xbf58476d1ce4e5b9;
          z2 = (z1 XOR drop_bit 27 z1) * 0x94d049bb133111eb
      in z2 XOR drop_bit 31 z2)"

fun gear_loop :: "nat \<Rightarrow> 64 word \<Rightarrow> 64 word list" where
  "gear_loop 0 x = []"
| "gear_loop (Suc n) x = gear_mix (x + gear_inc) # gear_loop n (x + gear_inc)"

definition gearTable :: "64 word list" where
  "gearTable = gear_loop 256 gear_inc"

section \<open>The chunking loop\<close>

text \<open>\<open>(h << 1) + table[b]\<close>\<close>

definition gear_step :: "64 word list \<Rightarrow> 64 word \<Rightarrow> char \<Rightarrow> 64 word" where
  "gear_step table h b = push_bit 1 h + table ! of_char b"

text \<open>The body of the inner loop over one block, the running state being the hash, the bytes of the
  open chunk and the callback's state.\<close>

fun chunk_block ::
  "64 word list \<Rightarrow> 64 word \<Rightarrow> ChunkParams \<Rightarrow> ('s \<Rightarrow> bytes \<Rightarrow> 'e + 's) \<Rightarrow>
   64 word \<times> bytes \<times> 's \<Rightarrow> bytes \<Rightarrow> 'e + (64 word \<times> bytes \<times> 's)" where
  "chunk_block table msk p fn (h, chunk, s) [] = Inr (h, chunk, s)"
| "chunk_block table msk p fn (h, chunk, s) (b # bs) =
     (let h' = gear_step table h b;
          chunk' = chunk @ [b]
      in if MinSize p \<le> int (length chunk') \<and>
            (h' AND msk = 0 \<or> MaxSize p \<le> int (length chunk'))
         then (case fn s chunk' of
                 Inl e \<Rightarrow> Inl e
               | Inr s' \<Rightarrow> chunk_block table msk p fn (0, [], s') bs)
         else chunk_block table msk p fn (h', chunk', s) bs)"

fun chunk_reads ::
  "64 word list \<Rightarrow> 64 word \<Rightarrow> ChunkParams \<Rightarrow> ('s \<Rightarrow> bytes \<Rightarrow> 'e + 's) \<Rightarrow>
   64 word \<times> bytes \<times> 's \<Rightarrow> bytes list \<Rightarrow> 'e + (64 word \<times> bytes \<times> 's)" where
  "chunk_reads table msk p fn st [] = Inr st"
| "chunk_reads table msk p fn st (blk # blks) =
     (case chunk_block table msk p fn st blk of
        Inl e \<Rightarrow> Inl e
      | Inr st' \<Rightarrow> chunk_reads table msk p fn st' blks)"

datatype ('e, 'r, 's) foreach_error =
    BadParams chunk_error
  | CallbackError 'e
  | ReadError 'r 's

text \<open>The reader: the blocks read, then end of file (\<^const>\<open>None\<close>) or a read error.\<close>

type_synonym 'r reader = "bytes list \<times> 'r option"

definition ForEachChunk ::
  "'r reader \<Rightarrow> ChunkParams \<Rightarrow> ('s \<Rightarrow> bytes \<Rightarrow> 'e + 's) \<Rightarrow> 's \<Rightarrow> ('e, 'r, 's) foreach_error + 's" where
  "ForEachChunk r p fn s =
     (case Validate p of
        Some e \<Rightarrow> Inl (BadParams e)
      | None \<Rightarrow>
          let msk = word_of_int (nextPowerOfTwo (AvgSize p) - 1)
          in case chunk_reads gearTable msk p fn (0, [], s) (fst r) of
               Inl e \<Rightarrow> Inl (CallbackError e)
             | Inr (h, chunk, s') \<Rightarrow>
                 (case snd r of
                    Some re \<Rightarrow> Inl (ReadError re s')
                  | None \<Rightarrow>
                      if chunk = [] then Inr s'
                      else (case fn s' chunk of
                              Inl e \<Rightarrow> Inl (CallbackError e)
                            | Inr s'' \<Rightarrow> Inr s'')))"

section \<open>Powers of two\<close>

lemma nextPowerOfTwo_loop:
  assumes "1 < n"
  shows "\<exists>k. nextPowerOfTwo n = 2 ^ k \<and> n \<le> 2 ^ k \<and> 2 ^ k < 2 * n"
proof -
  let ?Q = "\<lambda>p::int. \<exists>k. p = 2 ^ k \<and> n \<le> 2 ^ k \<and> 2 ^ k < 2 * n"
  let ?P = "\<lambda>p::int. \<exists>k. p = 2 ^ k \<and> p < 2 * n"
  have "?Q (while (\<lambda>p. p < n) (\<lambda>p. 2 * p) 1)"
  proof (rule while_rule [where P = ?P and r = "measure (\<lambda>p. nat (n - p))"])
    show "?P 1" using assms by (intro exI [of _ 0]) simp
    show "?P (2 * p)" if "?P p" and "p < n" for p
      using that by (metis mult_strict_left_mono power_Suc zero_less_numeral)
    show "?Q p" if "?P p" and "\<not> p < n" for p using that by auto
    show "wf (measure (\<lambda>p. nat (n - p)))" by simp
    show "(2 * p, p) \<in> measure (\<lambda>p. nat (n - p))" if "?P p" and "p < n" for p
    proof -
      have "0 < p" using that by auto
      then show ?thesis using that by simp
    qed
  qed
  then show ?thesis using assms by (simp add: nextPowerOfTwo_def)
qed

lemma length_gearTable [simp]: "length gearTable = 256"
proof -
  have "length (gear_loop n x) = n" for n x by (induction n arbitrary: x) auto
  then show ?thesis by (simp add: gearTable_def)
qed

section \<open>The reference chunking\<close>

text \<open>The specification of chunking: the list of chunks cut from a byte string, from an open chunk
  and its hash, and the unfinished rest.\<close>

fun cut :: "64 word \<Rightarrow> ChunkParams \<Rightarrow> 64 word \<Rightarrow> bytes \<Rightarrow> bytes \<Rightarrow> bytes list \<times> 64 word \<times> bytes" where
  "cut msk p h chunk [] = ([], h, chunk)"
| "cut msk p h chunk (b # bs) =
     (let h' = gear_step gearTable h b;
          chunk' = chunk @ [b]
      in if MinSize p \<le> int (length chunk') \<and>
            (h' AND msk = 0 \<or> MaxSize p \<le> int (length chunk'))
         then (let (cs, r) = cut msk p 0 [] bs in (chunk' # cs, r))
         else cut msk p h' chunk' bs)"

definition chunk_mask :: "ChunkParams \<Rightarrow> 64 word" where
  "chunk_mask p = word_of_int (nextPowerOfTwo (AvgSize p) - 1)"

definition chunks_of :: "ChunkParams \<Rightarrow> bytes \<Rightarrow> bytes list" where
  "chunks_of p bs =
     (let (cs, h, rest) = cut (chunk_mask p) p 0 [] bs in cs @ (if rest = [] then [] else [rest]))"

lemma cut_append:
  "cut msk p h chunk (xs @ ys) =
     (let (cs, h', c') = cut msk p h chunk xs; (ds, r) = cut msk p h' c' ys in (cs @ ds, r))"
  by (induction xs arbitrary: h chunk) (auto simp: Let_def split: prod.splits)

lemma cut_concat:
  "cut msk p h chunk bs = (cs, h', rest) \<Longrightarrow> concat cs @ rest = chunk @ bs"
  by (induction bs arbitrary: h chunk cs h' rest)
     (fastforce simp: Let_def split: prod.splits if_splits)+

lemma cut_sizes:
  assumes "cut msk p h chunk bs = (cs, h', rest)"
    and "MinSize p \<le> MaxSize p" and "int (length chunk) < MaxSize p"
  shows "(\<forall>c\<in>set cs. MinSize p \<le> int (length c) \<and> int (length c) \<le> MaxSize p)
     \<and> int (length rest) < MaxSize p"
  using assms
proof (induction bs arbitrary: h chunk cs h' rest)
  case (Cons b bs)
  show ?case
  proof (cases "MinSize p \<le> int (length (chunk @ [b])) \<and>
      (gear_step gearTable h b AND msk = 0 \<or> MaxSize p \<le> int (length (chunk @ [b])))")
    case True
    then obtain cs1 where cs1: "cut msk p 0 [] bs = (cs1, h', rest)" "cs = (chunk @ [b]) # cs1"
      using Cons.prems(1) by (auto simp: Let_def split: prod.splits)
    have "int (length ([]::bytes)) < MaxSize p" using Cons.prems by simp
    then show ?thesis using Cons.IH [OF cs1(1) Cons.prems(2)] True cs1 Cons.prems by auto
  next
    case False
    then have "cut msk p (gear_step gearTable h b) (chunk @ [b]) bs = (cs, h', rest)"
      using Cons.prems(1) by (simp only: cut.simps Let_def if_False simp_thms)
    moreover have "int (length (chunk @ [b])) < MaxSize p"
      using False Cons.prems(2) by auto
    ultimately show ?thesis using Cons.IH Cons.prems(2) by blast
  qed
qed simp

text \<open>The callback run over a list of chunks.\<close>

fun run_cb :: "('s \<Rightarrow> bytes \<Rightarrow> 'e + 's) \<Rightarrow> 's \<Rightarrow> bytes list \<Rightarrow> 'e + 's" where
  "run_cb fn s [] = Inr s"
| "run_cb fn s (c # cs) = (case fn s c of Inl e \<Rightarrow> Inl e | Inr s' \<Rightarrow> run_cb fn s' cs)"

lemma run_cb_append:
  "run_cb fn s (xs @ ys) = (case run_cb fn s xs of Inl e \<Rightarrow> Inl e | Inr s' \<Rightarrow> run_cb fn s' ys)"
  by (induction xs arbitrary: s) (auto split: sum.splits)

lemma chunk_block_cut:
  "chunk_block gearTable msk p fn (h, chunk, s) bs =
     (let (cs, h', c') = cut msk p h chunk bs
      in case run_cb fn s cs of Inl e \<Rightarrow> Inl e | Inr s' \<Rightarrow> Inr (h', c', s'))"
  by (induction bs arbitrary: h chunk s) (auto simp: Let_def split: sum.splits prod.splits)

lemma chunk_reads_cut:
  "chunk_reads gearTable msk p fn (h, chunk, s) blks =
     (let (cs, h', c') = cut msk p h chunk (concat blks)
      in case run_cb fn s cs of Inl e \<Rightarrow> Inl e | Inr s' \<Rightarrow> Inr (h', c', s'))"
proof (induction blks arbitrary: h chunk s)
  case (Cons blk blks)
  then show ?case
    by (auto simp: chunk_block_cut cut_append Let_def run_cb_append split: sum.splits prod.splits)
qed simp

lemma ForEachChunk_run_cb:
  assumes "Validate p = None"
  shows "ForEachChunk (blks, None) p fn s =
     (case run_cb fn s (chunks_of p (concat blks)) of
        Inl e \<Rightarrow> Inl (CallbackError e) | Inr s' \<Rightarrow> Inr s')"
  using assms
  by (auto simp: ForEachChunk_def chunk_reads_cut chunks_of_def chunk_mask_def Let_def run_cb_append
      split: sum.splits prod.splits)

lemma chunks_of_concat: "concat (chunks_of p bs) = bs"
proof -
  obtain cs h rest where c: "cut (chunk_mask p) p 0 [] bs = (cs, h, rest)" by (metis prod_cases3)
  have "chunks_of p bs = cs @ (if rest = [] then [] else [rest])" by (simp add: chunks_of_def c)
  then show ?thesis using cut_concat [OF c] by auto
qed

text \<open>
  C29.  \<^const>\<open>ForEachChunk\<close> refines the reference chunking: for valid parameters, and a reader that
  reaches the end of file, it calls the callback on exactly the chunks of the concatenated input,
  in order, stopping at the first callback error; how the reader splits the input into blocks has
  no influence.
\<close>

theorem ForEachChunk_refines:
  assumes "Validate p = None"
  shows "ForEachChunk (blks, None) p fn s =
     (case run_cb fn s (chunks_of p (concat blks)) of
        Inl e \<Rightarrow> Inl (CallbackError e) | Inr s' \<Rightarrow> Inr s')"
  using assms by (rule ForEachChunk_run_cb)

text \<open>Collecting callback and small parameters for the witnesses.\<close>

definition collect :: "bytes list \<Rightarrow> bytes \<Rightarrow> unit + bytes list" where
  "collect acc c = Inr (acc @ [c])"

lemma run_cb_collect: "run_cb collect acc cs = Inr (acc @ cs)"
  by (induction cs arbitrary: acc) (auto simp: collect_def)

definition tiny_params :: ChunkParams where
  "tiny_params = \<lparr>MinSize = 1, AvgSize = 1, MaxSize = 2\<rparr>"

lemma tiny_valid: "Validate tiny_params = None"
  by (simp add: Validate_def tiny_params_def)

theorem ForEachChunk_refines_witness:
  "ForEachChunk ([''ab'', ''c''], None) tiny_params collect [] = Inr (chunks_of tiny_params ''abc'')"
  using ForEachChunk_refines [OF tiny_valid, of "[''ab'', ''c'']" collect "[]"]
  by (simp add: run_cb_collect)

text \<open>
  Chunking loses nothing and respects the limits: the chunks concatenate to the input, none is
  empty, each is at most \<open>MaxSize\<close> long, and each but possibly the last at least \<open>MinSize\<close>.
\<close>

theorem chunks_of_complete:
  assumes "Validate p = None"
  shows "concat (chunks_of p bs) = bs
    \<and> (\<forall>c\<in>set (chunks_of p bs). c \<noteq> [] \<and> int (length c) \<le> MaxSize p)
    \<and> (\<forall>c\<in>set (butlast (chunks_of p bs)). MinSize p \<le> int (length c))"
proof -
  obtain cs h rest where c: "cut (chunk_mask p) p 0 [] bs = (cs, h, rest)" by (metis prod_cases3)
  have v: "0 < MinSize p" "MinSize p \<le> MaxSize p" "0 < MaxSize p"
    using assms by (auto simp: Validate_def split: if_splits)
  then have s: "\<forall>x\<in>set cs. MinSize p \<le> int (length x) \<and> int (length x) \<le> MaxSize p"
    "int (length rest) < MaxSize p"
    using cut_sizes [OF c] by auto
  have eq: "chunks_of p bs = cs @ (if rest = [] then [] else [rest])"
    by (simp add: chunks_of_def c)
  have "concat (chunks_of p bs) = bs" by (rule chunks_of_concat)
  moreover have "\<forall>x\<in>set (chunks_of p bs). x \<noteq> [] \<and> int (length x) \<le> MaxSize p"
  proof
    fix x assume "x \<in> set (chunks_of p bs)"
    then consider "x \<in> set cs" | "x = rest" "rest \<noteq> []" by (auto simp: eq split: if_splits)
    then show "x \<noteq> [] \<and> int (length x) \<le> MaxSize p"
      using s v by cases (force, simp)
  qed
  moreover have "set (butlast (chunks_of p bs)) \<subseteq> set cs"
    by (auto simp: eq butlast_append dest: in_set_butlastD)
  ultimately show ?thesis using s by blast
qed

theorem chunks_of_complete_witness: "concat (chunks_of tiny_params ''abc'') = ''abc''"
  using chunks_of_complete [OF tiny_valid, of "''abc''"] by blast

text \<open>
  Chunking is content-defined: after a boundary the rest of the input is cut exactly as if it
  stood alone, so an identical tail behind a changed prefix that ends on a boundary yields
  identical chunks, which is what lets the store share them.
\<close>

theorem chunks_of_resync:
  assumes "cut (chunk_mask p) p 0 [] xs = (cs, 0, [])"
  shows "chunks_of p (xs @ ys) = cs @ chunks_of p ys"
  using assms by (auto simp: chunks_of_def cut_append Let_def split: prod.splits)

lemma tiny_mask: "chunk_mask tiny_params = 0"
  by (simp add: chunk_mask_def tiny_params_def nextPowerOfTwo_def)

theorem chunks_of_resync_witness:
  "chunks_of tiny_params (''a'' @ ''bc'') = [''a''] @ chunks_of tiny_params ''bc''"
proof -
  have "cut (chunk_mask tiny_params) tiny_params 0 [] ''a'' = ([''a''], 0, [])"
    unfolding tiny_mask by (simp add: tiny_params_def)
  then show ?thesis by (rule chunks_of_resync)
qed

end
