(* ===== verification/Fs.thy ===== *)
theory Fs
  imports Paths Chunker
begin

text \<open>
  The host below the vault: the file system, the clock and the random source as one state, the
  errors the vault code tells apart, the retry loops of \<^verbatim>\<open>internal/vault/rename.go\<close> and
  \<^verbatim>\<open>atomicWriteFile\<close> of \<^verbatim>\<open>vault.go\<close>.  A file is its bytes and its modification time under its slash
  path; directories exist through the files below them.  Every call that can fail on a real disk
  consults \<open>fault\<close>, an arbitrary function, so that a theorem without a hypothesis on it covers every
  pattern of I/O errors.
\<close>

section \<open>Errors\<close>

datatype error =
    EMsg string                     \<comment> \<open>an error that only carries its text\<close>
  | ENotExist string                \<comment> \<open>an error that wraps \<^verbatim>\<open>os.ErrNotExist\<close>\<close>
  | EPath path_error
  | EChunkParams chunk_error
  | ErrChunksPending
  | ErrConfigInconsistent
  | ErrFormatTooNew
  | ErrConfigRolledBack
  | ErrConfigDiverged
  | ErrConfigTampered
  | ErrWrongSecret
  | ErrKDFParamsOutOfRange string
  | ErrConfigTooLarge string
  | ErrAlreadySealed
  | ErrNotSealed
  | ErrUnsealAfterReKey
  | ErrGCRefused string
  | ErrAmbiguousMetadataDir
  | ErrSkipExisting
  | EPanic string                   \<comment> \<open>a run-time panic of the Go code\<close>

definition is_not_exist :: "error \<Rightarrow> bool" where
  "is_not_exist e = (case e of ENotExist _ \<Rightarrow> True | ErrChunksPending \<Rightarrow> True | _ \<Rightarrow> False)"

section \<open>Host state\<close>

datatype fsop = OpStat | OpRead | OpTemp | OpRemove | OpTouch | OpList | OpMkdir

record fsfile =
  data :: bytes
  mtime :: int

record world =
  files :: "fsfile gomap"
  fault :: "fsop \<Rightarrow> string \<Rightarrow> string option"
  rename_fault :: "string \<Rightarrow> nat \<Rightarrow> (string \<times> bool) option"   \<comment> \<open>per attempt; whether retryable\<close>
  clock_src :: "nat \<Rightarrow> int"
  clock_ix :: nat
  rand_src :: "nat \<Rightarrow> nat \<Rightarrow> bytes option"
  rand_ix :: nat

type_synonym ('a, 'z) io = "'z world_scheme \<Rightarrow> (error + 'a) \<times> 'z world_scheme"

definition io_ret :: "'a \<Rightarrow> ('a, 'z) io" where "io_ret x w = (Inr x, w)"
definition io_fail :: "error \<Rightarrow> ('a, 'z) io" where "io_fail e w = (Inl e, w)"

definition io_bind :: "('a, 'z) io \<Rightarrow> ('a \<Rightarrow> ('b, 'z) io) \<Rightarrow> ('b, 'z) io" where
  "io_bind m f w = (case m w of (Inl e, w') \<Rightarrow> (Inl e, w') | (Inr x, w') \<Rightarrow> f x w')"

text \<open>Run \<open>m\<close> and hand its error or value to the continuation, as code that inspects \<^verbatim>\<open>err\<close> does.\<close>

definition io_try :: "('a, 'z) io \<Rightarrow> (error + 'a \<Rightarrow> ('b, 'z) io) \<Rightarrow> ('b, 'z) io" where
  "io_try m f w = (case m w of (r, w') \<Rightarrow> f r w')"

text \<open>A loop that threads a state and stops at the first error.\<close>

fun io_fold :: "('s \<Rightarrow> 'x \<Rightarrow> ('s, 'z) io) \<Rightarrow> 's \<Rightarrow> 'x list \<Rightarrow> ('s, 'z) io" where
  "io_fold f s [] = io_ret s"
| "io_fold f s (x # xs) = io_bind (f s x) (\<lambda>s'. io_fold f s' xs)"

definition io_lift :: "error + 'a \<Rightarrow> ('a, 'z) io" where "io_lift r w = (r, w)"

section \<open>Primitive operations\<close>

definition time_Now :: "(int, 'z) io" where
  "time_Now w = (Inr (clock_src w (clock_ix w)), w\<lparr>clock_ix := Suc (clock_ix w)\<rparr>)"

definition randomBytes :: "nat \<Rightarrow> (bytes, 'z) io" where
  "randomBytes n w =
     (case rand_src w (rand_ix w) n of
        Some b \<Rightarrow> (Inr b, w\<lparr>rand_ix := Suc (rand_ix w)\<rparr>)
      | None \<Rightarrow> (Inl (EMsg ''random source failed''), w\<lparr>rand_ix := Suc (rand_ix w)\<rparr>))"

definition check_fault :: "fsop \<Rightarrow> string \<Rightarrow> (unit, 'z) io" where
  "check_fault op p w =
     (case fault w op p of Some m \<Rightarrow> (Inl (EMsg m), w) | None \<Rightarrow> (Inr (), w))"

definition lookup_file :: "string \<Rightarrow> (fsfile, 'z) io" where
  "lookup_file p w =
     (case map_of (files w) p of
        None \<Rightarrow> (Inl (ENotExist p), w)
      | Some f \<Rightarrow> (Inr f, w))"

definition os_Stat :: "string \<Rightarrow> (fsfile, 'z) io" where
  "os_Stat p = io_bind (check_fault OpStat p) (\<lambda>_. lookup_file p)"

definition os_ReadFile :: "string \<Rightarrow> (bytes, 'z) io" where
  "os_ReadFile p = io_bind (check_fault OpRead p) (\<lambda>_. io_bind (lookup_file p) (\<lambda>f. io_ret (data f)))"

definition put_file :: "string \<Rightarrow> fsfile \<Rightarrow> (unit, 'z) io" where
  "put_file p f w = (Inr (), w\<lparr>files := AList.update p f (files w)\<rparr>)"

definition os_Chtimes :: "string \<Rightarrow> int \<Rightarrow> (unit, 'z) io" where
  "os_Chtimes p t =
     io_bind (check_fault OpTouch p) (\<lambda>_. io_bind (lookup_file p) (\<lambda>f. put_file p (f\<lparr>mtime := t\<rparr>)))"

definition os_MkdirAll :: "string \<Rightarrow> (unit, 'z) io" where
  "os_MkdirAll d = check_fault OpMkdir d"

text \<open>The plain files directly in a directory, sorted by name (\<^verbatim>\<open>os.ReadDir\<close>).\<close>

definition dir_names :: "string \<Rightarrow> fsfile gomap \<Rightarrow> string list" where
  "dir_names d fs = sort (map (\<lambda>p. snd (path_Split p)) (filter (\<lambda>p. path_Dir p = d) (map fst fs)))"

definition os_ReadDir :: "string \<Rightarrow> (string list, 'z) io" where
  "os_ReadDir d = io_bind (check_fault OpList d) (\<lambda>_ w. (Inr (dir_names d (files w)), w))"

section \<open>rename.go\<close>

definition Millisecond :: int where "Millisecond = 1000000"
definition renameAttempts :: nat where "renameAttempts = 10"
definition renameBackoffStart :: int where "renameBackoffStart = 25 * Millisecond"
definition renameBackoffCap :: int where "renameBackoffCap = 400 * Millisecond"

text \<open>The loop over the attempts: the result and the sleeps taken, \<open>left\<close> attempts to go.\<close>

fun retry_loop ::
  "(nat \<Rightarrow> 'e option) \<Rightarrow> ('e \<Rightarrow> bool) \<Rightarrow> nat \<Rightarrow> nat \<Rightarrow> int \<Rightarrow> 'e option \<Rightarrow> 'e option \<times> int list" where
  "retry_loop op retryable 0 attempt backoff err = (err, [])"
| "retry_loop op retryable (Suc left) attempt backoff err =
     (case op attempt of
        None \<Rightarrow> (None, [])
      | Some e \<Rightarrow>
          if \<not> retryable e then (Some e, [])
          else if left = 0 then (Some e, [])
          else let b = (if 2 * backoff > renameBackoffCap then renameBackoffCap else 2 * backoff);
                   (r, s) = retry_loop op retryable left (Suc attempt) b (Some e)
               in (r, backoff # s))"

definition renameWithRetry :: "(nat \<Rightarrow> 'e option) \<Rightarrow> ('e \<Rightarrow> bool) \<Rightarrow> 'e option \<times> int list" where
  "renameWithRetry renameFn retryable =
     retry_loop renameFn retryable renameAttempts 0 renameBackoffStart None"

definition removeWithRetry ::
  "(nat \<Rightarrow> 'e option) \<Rightarrow> ('e \<Rightarrow> bool) \<Rightarrow> ('e \<Rightarrow> bool) \<Rightarrow> 'e option \<times> int list" where
  "removeWithRetry removeFn isNotExist retryable =
     retry_loop (\<lambda>i. case removeFn i of None \<Rightarrow> None | Some e \<Rightarrow> if isNotExist e then None else Some e)
       retryable renameAttempts 0 renameBackoffStart None"

section \<open>atomicWriteFile\<close>

text \<open>
  The temporary file is written, synced and closed before the rename and removed when anything
  fails, so that readers see the old file or the new one; only the renamed file is visible here.
\<close>

definition atomicWriteFile :: "string \<Rightarrow> bytes \<Rightarrow> (unit, 'z) io" where
  "atomicWriteFile p d =
     io_bind (os_MkdirAll (path_Dir p)) (\<lambda>_.
     io_bind (check_fault OpTemp (path_Dir p)) (\<lambda>_.
     io_bind time_Now (\<lambda>t.
     (\<lambda>w. case fst (renameWithRetry (rename_fault w p) snd) of
            Some (m, _) \<Rightarrow> (Inl (EMsg m), w)
          | None \<Rightarrow> put_file p \<lparr>data = d, mtime = t\<rparr> w))))"

text \<open>\<^verbatim>\<open>os.Remove\<close> and the best-effort removal of a file.\<close>

definition os_Remove :: "string \<Rightarrow> (unit, 'z) io" where
  "os_Remove p =
     io_bind (check_fault OpRemove p) (\<lambda>_. io_bind (lookup_file p) (\<lambda>_ w.
       (Inr (), w\<lparr>files := AList.delete p (files w)\<rparr>)))"

section \<open>Lemmas on the host\<close>

named_theorems io_simps

lemmas io_core [io_simps] = io_ret_def io_fail_def io_bind_def io_try_def io_lift_def

definition no_faults :: "'z world_scheme \<Rightarrow> bool" where
  "no_faults w \<longleftrightarrow> (\<forall>op p. fault w op p = None) \<and> (\<forall>p i. rename_fault w p i = None)
     \<and> (\<forall>i n. \<exists>b. rand_src w i n = Some b \<and> length b = n)"

text \<open>What an operation may not touch: the host's configuration stays as it is.\<close>

definition same_host :: "'z world_scheme \<Rightarrow> 'z world_scheme \<Rightarrow> bool" where
  "same_host w w' \<longleftrightarrow> fault w' = fault w \<and> rename_fault w' = rename_fault w
     \<and> clock_src w' = clock_src w \<and> rand_src w' = rand_src w"

lemma same_host_refl [simp]: "same_host w w" by (simp add: same_host_def)

lemma same_host_trans: "same_host w w' \<Longrightarrow> same_host w' w'' \<Longrightarrow> same_host w w''"
  by (simp add: same_host_def)

lemma no_faults_same: "same_host w w' \<Longrightarrow> no_faults w \<Longrightarrow> no_faults w'"
  by (simp add: same_host_def no_faults_def)

text \<open>The outcome of an atomic write: nothing changed, or exactly the one file.\<close>

lemma atomicWriteFile_cases:
  assumes "atomicWriteFile p d w = (r, w')"
  obtains (err) e where "r = Inl e" "files w' = files w" "same_host w w'" "rand_ix w' = rand_ix w"
  | (ok) t where "r = Inr ()" "files w' = AList.update p \<lparr>data = d, mtime = t\<rparr> (files w)" "same_host w w'"
      "rand_ix w' = rand_ix w"
proof -
  show thesis
    using assms that
    by (auto simp: atomicWriteFile_def io_simps os_MkdirAll_def check_fault_def time_Now_def put_file_def
        same_host_def split: option.splits)
qed

lemma retry_first_ok: "op attempt = None \<Longrightarrow> retry_loop op r (Suc n) attempt b e = (None, [])"
  by simp

lemma atomicWriteFile_ok:
  assumes "no_faults w" and "atomicWriteFile p d w = (r, w')"
  shows "r = Inr ()"
proof -
  have "fst (renameWithRetry (rename_fault w p) snd) = None"
    using assms(1) by (simp add: renameWithRetry_def renameAttempts_def no_faults_def numeral_eq_Suc)
  then show ?thesis using assms
    by (auto simp: atomicWriteFile_def io_simps os_MkdirAll_def check_fault_def time_Now_def put_file_def
        no_faults_def)
qed

section \<open>The retry loop\<close>

lemma retry_loop_sleeps:
  "0 \<le> b \<Longrightarrow> b \<le> renameBackoffCap \<Longrightarrow> retry_loop op re n a b e = (r, s) \<Longrightarrow>
   length s \<le> n - 1 \<and> (\<forall>x\<in>set s. 0 \<le> x \<and> x \<le> renameBackoffCap)"
proof (induction n arbitrary: a b e r s)
  case (Suc n)
  show ?case
  proof (cases "\<exists>x. op a = Some x \<and> re x \<and> n \<noteq> 0")
    case False
    then show ?thesis using Suc.prems by (auto split: option.splits if_splits)
  next
    case True
    then obtain x where x: "op a = Some x" "re x" "n \<noteq> 0" by blast
    let ?b = "if 2 * b > renameBackoffCap then renameBackoffCap else 2 * b"
    obtain r1 s1 where l: "retry_loop op re n (Suc a) ?b (Some x) = (r1, s1)" by fastforce
    have "0 \<le> ?b" "?b \<le> renameBackoffCap" using Suc.prems by auto
    from Suc.IH [OF this l] have "length s1 \<le> n - 1" "\<forall>x\<in>set s1. 0 \<le> x \<and> x \<le> renameBackoffCap" by auto
    moreover have "s = b # s1" using Suc.prems(3) x l by (auto simp: Let_def split: prod.splits)
    ultimately show ?thesis using Suc.prems x by auto
  qed
qed simp

lemma retry_loop_result:
  "fst (retry_loop op re (Suc n) a b e) =
     (case find (\<lambda>i. op i = None \<or> \<not> re (the (op i))) [a..<Suc (a + n)] of
        Some i \<Rightarrow> op i | None \<Rightarrow> op (a + n))"
proof (induction n arbitrary: a b e)
  case 0
  then show ?case by (cases "op a") auto
next
  case (Suc n)
  have u: "[a..<Suc (a + Suc n)] = a # [Suc a..<Suc (Suc a + n)]"
    by (simp add: upt_conv_Cons del: upt_Suc)
  show ?case
  proof (cases "op a = None \<or> \<not> re (the (op a))")
    case True
    then show ?thesis unfolding u by (cases "op a") auto
  next
    case False
    then obtain x where x: "op a = Some x" "re x" by auto
    have "fst (retry_loop op re (Suc (Suc n)) a b e) = fst (retry_loop op re (Suc n) (Suc a)
        (if 2 * b > renameBackoffCap then renameBackoffCap else 2 * b) (Some x))"
      by (subst retry_loop.simps(2)) (simp add: x Let_def split_def del: retry_loop.simps)
    then show ?thesis unfolding u Suc.IH using x
      by (simp del: upt_Suc retry_loop.simps split: option.split)
  qed
qed

end
