(* ===== verification/Clock.thy ===== *)
theory Clock
  imports Prelude
begin

text \<open>
  The index records (\<^verbatim>\<open>internal/vault/index.go\<close>), the per-record vector clocks (\<^verbatim>\<open>clockDominates\<close>,
  \<^verbatim>\<open>joinClock\<close> of \<^verbatim>\<open>manifest.go\<close>, \<^verbatim>\<open>nextRecordClock\<close>, \<^verbatim>\<open>advanceClock\<close> of \<^verbatim>\<open>cache.go\<close>) and the generation
  counter.  A clock is a Go map from device id to counter; an absent entry reads as 0.  The
  results: dominance is the strict order of the pointwise comparison, join is the least upper
  bound, and a local write dominates what it supersedes unless an entry aged out.
\<close>

section \<open>Records\<close>

type_synonym clock = "int gomap"

record ChunkRef =
  ref_ID :: string
  ref_Size :: int

record FileRecord =
  Size :: int
  Mode :: int
  ModTime :: string
  UpdatedAt :: string
  Generation :: int
  Chunks :: "ChunkRef list"
  ConflictOf :: string
  Clock :: clock
  ClockAge :: "int gomap"

record Index =
  idx_Version :: int
  idx_UpdatedAt :: string
  Files :: "FileRecord gomap"

text \<open>\<^verbatim>\<open>time.Now().UTC()\<close> formatted is the argument \<open>now\<close>.\<close>

definition NewIndex :: "string \<Rightarrow> Index" where
  "NewIndex now = \<lparr>idx_Version = 2, idx_UpdatedAt = now, Files = []\<rparr>"

section \<open>Clock operations\<close>

text \<open>Go's \<^verbatim>\<open>m[k]\<close> on a map of integers.\<close>

definition clk :: "int gomap \<Rightarrow> string \<Rightarrow> int" where
  "clk c k = (case map_of c k of None \<Rightarrow> 0 | Some v \<Rightarrow> v)"

text \<open>\<^verbatim>\<open>clockDominates\<close>: the first loop over \<open>b\<close> returns false at a smaller entry and notes a larger
  one; the second loop looks for a positive entry of \<open>a\<close> that \<open>b\<close> lacks.\<close>

fun dominates_loop :: "clock \<Rightarrow> clock \<Rightarrow> bool \<Rightarrow> bool option" where
  "dominates_loop a [] strictly = Some strictly"
| "dominates_loop a ((k, bv) # rest) strictly =
     (if clk a k < bv then None
      else dominates_loop a rest (strictly \<or> clk a k > bv))"

fun ahead_loop :: "clock \<Rightarrow> clock \<Rightarrow> bool" where
  "ahead_loop [] b = False"
| "ahead_loop ((k, av) # rest) b =
     (if av \<le> 0 then ahead_loop rest b
      else if map_of b k = None then True
      else ahead_loop rest b)"

definition clockDominates :: "clock \<Rightarrow> clock \<Rightarrow> bool" where
  "clockDominates a b =
     (if a = [] \<or> b = [] then False
      else case dominates_loop a b False of
             None \<Rightarrow> False
           | Some strictly \<Rightarrow> if strictly then True else ahead_loop a b)"

text \<open>\<^verbatim>\<open>joinClock\<close>: the element-wise maximum, folded over the entries of \<open>src\<close>.\<close>

fun joinClock :: "clock \<Rightarrow> clock \<Rightarrow> clock" where
  "joinClock dst [] = dst"
| "joinClock dst ((k, v) # src) =
     joinClock (if v > clk dst k then AList.update k v dst else dst) src"

text \<open>\<^verbatim>\<open>advanceClock\<close>; \<open>dev\<close> is the vault's device id, the empty string when none is available.\<close>

definition advanceClock :: "string \<Rightarrow> clock \<Rightarrow> int \<Rightarrow> clock" where
  "advanceClock dev prev wallNano =
     (if dev = '''' then []
      else let nxt = joinClock [] prev;
               self = (if wallNano > clk nxt dev then wallNano else clk nxt dev)
           in AList.update dev (i64 (self + 1)) nxt)"

definition clockAgeCompactions :: int where "clockAgeCompactions = 8"

text \<open>The aging loop of \<^verbatim>\<open>nextRecordClock\<close>: a foreign entry whose count reaches the horizon is
  dropped, every other keeps its value and its incremented count.\<close>

fun age_loop :: "string \<Rightarrow> int gomap \<Rightarrow> clock \<Rightarrow> clock \<times> int gomap" where
  "age_loop dev prevAge [] = ([], [])"
| "age_loop dev prevAge ((k, v) # seen) =
     (let (cl, ag) = age_loop dev prevAge seen
      in if k = dev then ((k, v) # cl, ag)
         else let a = clk prevAge k + 1
              in if a \<ge> clockAgeCompactions then (cl, ag) else ((k, v) # cl, (k, a) # ag))"

definition nextRecordClock :: "string \<Rightarrow> FileRecord gomap \<Rightarrow> string \<Rightarrow> int \<Rightarrow> clock \<times> int gomap" where
  "nextRecordClock dev files virtualPath wallNano =
     (if dev = '''' then ([], [])
      else let (seen, prevAge) =
                 (case map_of files virtualPath of
                    None \<Rightarrow> ([], [])
                  | Some cur \<Rightarrow> (joinClock [] (Clock cur), ClockAge cur));
               self = (if wallNano > clk seen dev then wallNano else clk seen dev)
           in age_loop dev prevAge (AList.update dev (i64 (self + 1)) seen))"

text \<open>\<^verbatim>\<open>nextGeneration\<close>: the new generation and the new high-water mark.\<close>

definition nextGeneration :: "int \<Rightarrow> int \<Rightarrow> int \<times> int" where
  "nextGeneration maxGen wallNano =
     (let g = (if i64 (maxGen + 1) > wallNano then i64 (maxGen + 1) else wallNano) in (g, g))"

section \<open>Dominance\<close>

text \<open>A well-formed clock has one entry per device and no negative counter, as every clock the
  program writes.\<close>

definition wf_clock :: "clock \<Rightarrow> bool" where
  "wf_clock c \<longleftrightarrow> wf_map c \<and> (\<forall>(k, v) \<in> set c. 0 \<le> v)"

definition clock_le :: "clock \<Rightarrow> clock \<Rightarrow> bool" where
  "clock_le a b \<longleftrightarrow> (\<forall>k. clk a k \<le> clk b k)"

lemma clk_Nil [simp]: "clk [] k = 0"
  by (simp add: clk_def)

lemma clk_Cons [simp]: "clk ((j, v) # c) k = (if k = j then v else clk c k)"
  by (simp add: clk_def)

lemma clk_update [simp]: "clk (AList.update k v c) k' = (if k' = k then v else clk c k')"
  by (simp add: clk_def)

lemma wf_clock_nonneg: "wf_clock c \<Longrightarrow> 0 \<le> clk c k"
  by (auto simp: wf_clock_def clk_def split: option.splits dest: map_of_SomeD)

lemma wf_clock_update [intro]: "wf_clock c \<Longrightarrow> 0 \<le> v \<Longrightarrow> wf_clock (AList.update k v c)"
  unfolding wf_clock_def using in_update by fastforce

lemma wf_clock_Nil [simp]: "wf_clock []"
  by (simp add: wf_clock_def)

lemma dominates_loop_None:
  "dominates_loop a b s = None \<longleftrightarrow> (\<exists>(k, v) \<in> set b. clk a k < v)"
  by (induction a b s rule: dominates_loop.induct) auto

lemma dominates_loop_Some:
  "dominates_loop a b s = Some r \<longleftrightarrow>
     (\<forall>(k, v) \<in> set b. v \<le> clk a k) \<and> r = (s \<or> (\<exists>(k, v) \<in> set b. v < clk a k))"
  by (induction a b s rule: dominates_loop.induct) auto

lemma ahead_loop_iff:
  "ahead_loop a b \<longleftrightarrow> (\<exists>(k, v) \<in> set a. 0 < v \<and> map_of b k = None)"
  by (induction a b rule: ahead_loop.induct) auto

lemma map_of_wf: "wf_map m \<Longrightarrow> (k, v) \<in> set m \<longleftrightarrow> map_of m k = Some v"
  by (simp add: map_of_eq_Some_iff)

lemma map_of_Some_clk: "map_of c k = Some v \<Longrightarrow> clk c k = v"
  by (simp add: clk_def)

lemma entry_clk: "wf_clock c \<Longrightarrow> (k, v) \<in> set c \<Longrightarrow> clk c k = v"
  by (simp add: wf_clock_def clk_def)

lemma clk_ge_entries:
  assumes "wf_clock b" and "\<And>k. 0 \<le> clk a k"
  shows "(\<forall>(k, v) \<in> set b. v \<le> clk a k) \<longleftrightarrow> (\<forall>k. clk b k \<le> clk a k)"
proof
  assume h: "\<forall>(k, v) \<in> set b. v \<le> clk a k"
  have "clk b k \<le> clk a k" for k
  proof (cases "map_of b k")
    case None
    then show ?thesis using assms(2) [of k] by (simp add: clk_def [of b])
  next
    case (Some v)
    then have "(k, v) \<in> set b" by (rule map_of_SomeD)
    then show ?thesis using h Some by (auto simp: clk_def [of b])
  qed
  then show "\<forall>k. clk b k \<le> clk a k" by blast
next
  assume h: "\<forall>k. clk b k \<le> clk a k"
  have "v \<le> clk a k" if "(k, v) \<in> set b" for k v
    using entry_clk [OF assms(1) that] h by metis
  then show "\<forall>(k, v) \<in> set b. v \<le> clk a k" by auto
qed

lemma clk_less_cases:
  assumes "wf_clock a" and "wf_clock b"
  shows "(\<exists>k. clk b k < clk a k) \<longleftrightarrow>
    (\<exists>(k, v) \<in> set b. v < clk a k) \<or> (\<exists>(k, v) \<in> set a. 0 < v \<and> map_of b k = None)"
proof -
  have 1: "(\<exists>(k, v) \<in> set b. v < clk a k) \<or> (\<exists>(k, v) \<in> set a. 0 < v \<and> map_of b k = None)"
    if "clk b k < clk a k" for k
  proof (cases "map_of b k")
    case None
    then have "0 < clk a k" using that by (simp add: clk_def)
    then obtain v where "map_of a k = Some v" "0 < v" by (auto simp: clk_def split: option.splits)
    then show ?thesis using None map_of_SomeD by fastforce
  next
    case (Some v)
    then show ?thesis using that map_of_SomeD map_of_Some_clk by fastforce
  qed
  have 2: "clk b k < clk a k" if "(k, v) \<in> set b" "v < clk a k" for k v
    using that entry_clk [OF assms(2)] by simp
  have 3: "clk b k < clk a k" if "(k, v) \<in> set a" "0 < v" "map_of b k = None" for k v
    using that entry_clk [OF assms(1)] by (simp add: clk_def [of b])
  show ?thesis
  proof
    assume "\<exists>k. clk b k < clk a k"
    then show "(\<exists>(k, v) \<in> set b. v < clk a k) \<or> (\<exists>(k, v) \<in> set a. 0 < v \<and> map_of b k = None)"
      using 1 by (elim exE)
  next
    assume "(\<exists>(k, v) \<in> set b. v < clk a k) \<or> (\<exists>(k, v) \<in> set a. 0 < v \<and> map_of b k = None)"
    then show "\<exists>k. clk b k < clk a k" by (elim disjE bexE) (auto intro: 2 3)
  qed
qed

text \<open>The executable test decides the strict pointwise order.\<close>

lemma clockDominates_iff:
  assumes "wf_clock a" and "wf_clock b" and "a \<noteq> []" and "b \<noteq> []"
  shows "clockDominates a b \<longleftrightarrow> clock_le b a \<and> (\<exists>k. clk b k < clk a k)"
proof -
  note ge = clk_ge_entries [OF assms(2) wf_clock_nonneg [OF assms(1)]]
  note less = clk_less_cases [OF assms(1,2)]
  show ?thesis
  proof (cases "dominates_loop a b False")
    case None
    then have "\<not> clock_le b a" using ge unfolding clock_le_def by (fastforce simp: dominates_loop_None)
    then show ?thesis using None assms by (simp add: clockDominates_def)
  next
    case (Some r)
    then have le: "clock_le b a" and r: "r = (\<exists>(k, v) \<in> set b. v < clk a k)"
      using ge unfolding clock_le_def by (auto simp: dominates_loop_Some)
    then show ?thesis using Some assms less
      by (auto simp: clockDominates_def ahead_loop_iff)
  qed
qed

section \<open>Strict partial orders on a carrier\<close>

text \<open>The interface reconciliation relies on: a dominance test that is a strict partial order on
  the values it accepts.  Every finite non-empty set of such values has an undominated element,
  and every dominated element is dominated by an undominated one.\<close>

locale strict_dominance =
  fixes dom_on :: "'a \<Rightarrow> 'a \<Rightarrow> bool"
    and acc :: "'a \<Rightarrow> bool"
  assumes dom_irrefl: "acc x \<Longrightarrow> \<not> dom_on x x"
    and dom_trans: "acc x \<Longrightarrow> acc y \<Longrightarrow> acc z \<Longrightarrow> dom_on x y \<Longrightarrow> dom_on y z \<Longrightarrow> dom_on x z"
begin

lemma dom_asym: "acc x \<Longrightarrow> acc y \<Longrightarrow> dom_on x y \<Longrightarrow> \<not> dom_on y x"
  using dom_irrefl dom_trans by blast

lemma undominated_exists:
  assumes "finite A" and "A \<noteq> {}" and "\<forall>x\<in>A. acc x"
  shows "\<exists>m\<in>A. \<forall>y\<in>A. \<not> dom_on y m"
  using assms
proof (induction A rule: finite_ne_induct)
  case (singleton x)
  then show ?case using dom_irrefl by simp
next
  case (insert x F)
  then obtain m where m: "m \<in> F" "\<forall>y\<in>F. \<not> dom_on y m" by auto
  show ?case
  proof (cases "dom_on x m")
    case True
    have "\<not> dom_on y x" if "y \<in> insert x F" for y
      using that True m insert.prems dom_irrefl dom_trans [of y x m] by blast
    then show ?thesis by blast
  next
    case False
    then show ?thesis using m by blast
  qed
qed

lemma dominated_by_undominated:
  assumes "finite A" and "\<forall>x\<in>A. acc x" and "x \<in> A" and "y \<in> A" and "dom_on y x"
  shows "\<exists>m\<in>A. dom_on m x \<and> (\<forall>z\<in>A. \<not> dom_on z m)"
proof -
  let ?B = "{z \<in> A. dom_on z x}"
  have "\<exists>m\<in>?B. \<forall>z\<in>?B. \<not> dom_on z m"
    using assms by (intro undominated_exists) auto
  then obtain m where m: "m \<in> A" "dom_on m x" "\<forall>z\<in>?B. \<not> dom_on z m" by blast
  have "\<not> dom_on z m" if "z \<in> A" for z
    using that m assms dom_trans [of z m x] by blast
  then show ?thesis using m by blast
qed

end

lemma clock_le_trans: "clock_le a b \<Longrightarrow> clock_le b c \<Longrightarrow> clock_le a c"
  unfolding clock_le_def by (meson order_trans)

lemma clockDominates_nonempty: "clockDominates a b \<Longrightarrow> a \<noteq> [] \<and> b \<noteq> []"
  by (auto simp: clockDominates_def)

interpretation vc: strict_dominance clockDominates wf_clock
proof
  show "\<not> clockDominates x x" if "wf_clock x" for x
    using that clockDominates_iff [of x x] clockDominates_nonempty by fastforce
  show "clockDominates x z"
    if "wf_clock x" "wf_clock y" "wf_clock z" "clockDominates x y" "clockDominates y z" for x y z
  proof -
    have ne: "x \<noteq> []" "y \<noteq> []" "z \<noteq> []" using that clockDominates_nonempty by auto
    have d: "clock_le y x" "clock_le z y" "\<exists>k. clk z k < clk y k"
      using that ne clockDominates_iff by blast+
    then show ?thesis using that ne clock_le_trans [of z y x] clockDominates_iff [of x z]
      unfolding clock_le_def by (meson order_less_le_trans)
  qed
qed

section \<open>Join, advance and the record clock\<close>

lemma clk_joinClock:
  "wf_map src \<Longrightarrow> (\<And>k. 0 \<le> clk dst k) \<Longrightarrow> clk (joinClock dst src) k = max (clk dst k) (clk src k)"
proof (induction dst src arbitrary: k rule: joinClock.induct)
  case (2 dst k' v src)
  let ?d = "if v > clk dst k' then AList.update k' v dst else dst"
  have nn: "0 \<le> clk ?d j" for j using "2.prems"(2) [of j] "2.prems"(2) [of k'] by auto
  have "clk (joinClock ?d src) k = max (clk ?d k) (clk src k)"
    using "2.prems"(1) nn by (intro "2.IH") auto
  moreover have "clk src k' = 0" using "2.prems"(1) by (auto simp: clk_def map_of_eq_None_iff [THEN iffD2])
  moreover have "clk ((k', v) # src) k = (if k = k' then v else clk src k)" by (simp add: clk_def)
  ultimately show ?case using "2.prems"(2) [of k'] by (auto simp: max_def)
qed auto

lemma wf_joinClock:
  "wf_clock dst \<Longrightarrow> \<forall>(k, v)\<in>set src. 0 \<le> v \<Longrightarrow> wf_clock (joinClock dst src)"
proof (induction dst src rule: joinClock.induct)
  case (2 dst k v src)
  have "wf_clock (if v > clk dst k then AList.update k v dst else dst)"
    using "2.prems" wf_clock_update by auto
  then show ?case using "2.IH" "2.prems" by simp
qed simp

lemma clk_join_empty: "wf_clock c \<Longrightarrow> clk (joinClock [] c) k = clk c k"
  using clk_joinClock [of c "[]" k] wf_clock_nonneg [of c k] by (simp add: wf_clock_def)

lemma wf_join_empty: "wf_clock c \<Longrightarrow> wf_clock (joinClock [] c)"
  by (rule wf_joinClock) (auto simp: wf_clock_def)

lemma update_ne [simp]: "AList.update k v m \<noteq> []"
  by (cases m) auto

lemma age_loop_clk:
  "wf_map seen \<Longrightarrow> age_loop dev prevAge seen = (cl, ag) \<Longrightarrow>
   clk cl k = (if k = dev \<or> clk prevAge k + 1 < clockAgeCompactions then clk seen k else 0)
   \<and> set cl \<subseteq> set seen \<and> wf_map cl"
proof (induction dev prevAge seen arbitrary: cl ag rule: age_loop.induct)
  case (2 dev prevAge k' v seen)
  obtain cl0 ag0 where r: "age_loop dev prevAge seen = (cl0, ag0)" by fastforce
  have IH: "clk cl0 k = (if k = dev \<or> clk prevAge k + 1 < clockAgeCompactions then clk seen k else 0)"
    "set cl0 \<subseteq> set seen" "wf_map cl0"
    using "2.IH" [OF _ r] "2.prems"(1) by auto
  have nin: "k' \<notin> fst ` set seen" using "2.prems"(1) by auto
  then have z: "clk seen k' = 0" and nin0: "k' \<notin> fst ` set cl0"
    using IH(2) by (auto simp: clk_def map_of_eq_None_iff [THEN iffD2])
  show ?case using "2.prems"(2) r IH nin0 z
    by (auto simp: Let_def split: if_splits)
qed simp

lemma age_loop_ages:
  "age_loop dev prevAge seen = (cl, ag) \<Longrightarrow> (k, a) \<in> set ag \<Longrightarrow>
   k \<noteq> dev \<and> a = clk prevAge k + 1 \<and> a < clockAgeCompactions"
  by (induction dev prevAge seen arbitrary: cl ag rule: age_loop.induct)
     (fastforce simp: Let_def split: prod.splits if_splits)+

lemma advanced_entry:
  "clk c dev < max_i64 \<Longrightarrow> w < max_i64 \<Longrightarrow> 0 \<le> clk c dev \<Longrightarrow>
   i64 ((if w > clk c dev then w else clk c dev) + 1) = (if w > clk c dev then w else clk c dev) + 1"
  by (rule i64_id) auto

section \<open>Properties\<close>

text \<open>
  \<^const>\<open>clockDominates\<close> decides the happens-after relation on well-formed clocks: neither side is
  empty, every entry of \<open>b\<close> is reached by \<open>a\<close> and some entry of \<open>a\<close> is strictly larger; hence it is
  a strict partial order (irreflexive, asymmetric, transitive).
\<close>

theorem clockDominates_strict_order:
  assumes "wf_clock a" and "wf_clock b" and "wf_clock c"
  shows "(clockDominates a b \<longleftrightarrow>
           a \<noteq> [] \<and> b \<noteq> [] \<and> (\<forall>k. clk b k \<le> clk a k) \<and> (\<exists>k. clk b k < clk a k))
    \<and> \<not> clockDominates a a
    \<and> (clockDominates a b \<longrightarrow> \<not> clockDominates b a)
    \<and> (clockDominates a b \<and> clockDominates b c \<longrightarrow> clockDominates a c)"
proof (intro conjI impI)
  show "clockDominates a b \<longleftrightarrow>
      a \<noteq> [] \<and> b \<noteq> [] \<and> (\<forall>k. clk b k \<le> clk a k) \<and> (\<exists>k. clk b k < clk a k)"
    using clockDominates_iff [OF assms(1,2)] clockDominates_nonempty [of a b]
    unfolding clock_le_def by blast
  show "\<not> clockDominates a a" using assms(1) by (rule vc.dom_irrefl)
  show "\<not> clockDominates b a" if "clockDominates a b" using assms(1,2) that by (rule vc.dom_asym)
  show "clockDominates a c" if "clockDominates a b \<and> clockDominates b c"
    using vc.dom_trans [OF assms] that by blast
qed

theorem clockDominates_strict_order_witness:
  "clockDominates [(''d1'', 3), (''d2'', 1)] [(''d1'', 2)]
   \<and> \<not> clockDominates [(''d1'', 2)] [(''d1'', 3), (''d2'', 1)]"
proof -
  have w: "wf_clock [(''d1'', 3), (''d2'', 1)]" "wf_clock [(''d1'', 2)]"
    by (simp_all add: wf_clock_def)
  have d: "clockDominates [(''d1'', 3), (''d2'', 1)] [(''d1'', 2)]"
    by (simp add: clockDominates_def clk_def)
  show ?thesis using d clockDominates_strict_order [OF w w(1)] by blast
qed

text \<open>
  \<^const>\<open>joinClock\<close> computes the least upper bound of two clocks, entry by entry.
\<close>

theorem joinClock_lub:
  assumes "wf_clock dst" and "wf_clock src"
  shows "wf_clock (joinClock dst src) \<and> clk (joinClock dst src) k = max (clk dst k) (clk src k)"
  using assms wf_joinClock [of dst src] clk_joinClock [of src dst k] wf_clock_nonneg
  unfolding wf_clock_def by blast

theorem joinClock_lub_witness:
  "clk (joinClock [(''a'', 1), (''b'', 5)] [(''a'', 4), (''c'', 2)]) ''a'' = 4"
proof -
  have w: "wf_clock [(''a'', 1), (''b'', 5)]" "wf_clock [(''a'', 4), (''c'', 2)]"
    by (simp_all add: wf_clock_def)
  show ?thesis using joinClock_lub [OF w, of "''a''"] by (simp add: clk_def)
qed

text \<open>
  The clock a delete writes (\<^const>\<open>advanceClock\<close>) strictly dominates the clock of the record
  it deletes, so that every copy of that record is pruned rather than resurrected; the device's
  own counter moves past both the old counter and the wall clock.
\<close>

theorem advanceClock_dominates:
  assumes "dev \<noteq> ''''" and "wf_clock prev" and "prev \<noteq> []"
    and "clk prev dev < max_i64" and "wallNano < max_i64"
  shows "wf_clock (advanceClock dev prev wallNano)
    \<and> clockDominates (advanceClock dev prev wallNano) prev
    \<and> wallNano < clk (advanceClock dev prev wallNano) dev"
proof -
  let ?j = "joinClock [] prev"
  let ?s = "if wallNano > clk ?j dev then wallNano else clk ?j dev"
  have j: "clk ?j k = clk prev k" "wf_clock ?j" for k
    using clk_join_empty wf_join_empty assms(2) by auto
  have nn: "0 \<le> clk prev dev" using wf_clock_nonneg assms(2) .
  have e: "i64 (?s + 1) = ?s + 1" using assms j nn by (intro advanced_entry) auto
  then have a: "advanceClock dev prev wallNano = AList.update dev (?s + 1) ?j"
    using assms(1) by (simp add: advanceClock_def Let_def)
  have wf: "wf_clock (AList.update dev (?s + 1) ?j)" using j nn by (intro wf_clock_update) auto
  have "clock_le prev (AList.update dev (?s + 1) ?j)" using j by (auto simp: clock_le_def)
  moreover have "clk prev dev < clk (AList.update dev (?s + 1) ?j) dev" using j by auto
  ultimately have "clockDominates (AList.update dev (?s + 1) ?j) prev"
    using clockDominates_iff [OF wf assms(2) update_ne assms(3)] by (metis (no_types))
  then show ?thesis using a wf by simp
qed

theorem advanceClock_dominates_witness:
  "clockDominates (advanceClock ''me'' [(''peer'', 9), (''me'', 4)] 7) [(''peer'', 9), (''me'', 4)]"
proof -
  have "wf_clock [(''peer'', 9), (''me'', 4)]" by (simp add: wf_clock_def)
  then show ?thesis
    using advanceClock_dominates [of "''me''" "[(''peer'', 9), (''me'', 4)]" 7] by (simp add: clk_def)
qed

text \<open>
  The clock of a local overwrite (\<^const>\<open>nextRecordClock\<close>) dominates the clock of the record it
  supersedes exactly when no positive foreign entry of that record aged out of it: an aged-out
  entry leaves the two records concurrent, never the old one ahead.
\<close>

theorem nextRecordClock_dominates:
  assumes "dev \<noteq> ''''" and "map_of files vp = Some cur" and "wf_clock (Clock cur)" and "Clock cur \<noteq> []"
    and "clk (Clock cur) dev < max_i64" and "wallNano < max_i64"
    and "nextRecordClock dev files vp wallNano = (cl, ag)"
  shows "(clockDominates cl (Clock cur) \<longleftrightarrow>
            (\<forall>k. k \<noteq> dev \<and> 0 < clk (Clock cur) k \<longrightarrow> clk (ClockAge cur) k + 1 < clockAgeCompactions))
    \<and> \<not> clockDominates (Clock cur) cl"
proof -
  let ?j = "joinClock [] (Clock cur)"
  let ?s = "if wallNano > clk ?j dev then wallNano else clk ?j dev"
  let ?u = "AList.update dev (?s + 1) ?j"
  have j: "clk ?j k = clk (Clock cur) k" "wf_clock ?j" for k
    using clk_join_empty wf_join_empty assms(3) by auto
  have nn: "0 \<le> clk (Clock cur) dev" using wf_clock_nonneg assms(3) .
  have e: "i64 (?s + 1) = ?s + 1" using assms j nn by (intro advanced_entry) auto
  have wu: "wf_clock ?u" using j nn by (intro wf_clock_update) auto
  have al: "age_loop dev (ClockAge cur) ?u = (cl, ag)"
    using assms(1,2,7) e by (simp add: nextRecordClock_def Let_def)
  have c: "clk cl k = (if k = dev \<or> clk (ClockAge cur) k + 1 < clockAgeCompactions then clk ?u k else 0)"
    "set cl \<subseteq> set ?u" "wf_map cl" for k
    using age_loop_clk [OF _ al, of k] wu by (auto simp: wf_clock_def)
  have wcl: "wf_clock cl" using c(2,3) wu by (auto simp: wf_clock_def)
  have self: "clk (Clock cur) dev < clk cl dev" using c(1) [of dev] j by simp
  have ne: "cl \<noteq> []" using self nn by (metis clk_Nil not_less)
  have "clk (Clock cur) k \<le> clk cl k \<longleftrightarrow>
      (k \<noteq> dev \<and> 0 < clk (Clock cur) k \<longrightarrow> clk (ClockAge cur) k + 1 < clockAgeCompactions)" for k
    using c(1) [of k] self j(1) [of k] wf_clock_nonneg [OF assms(3), of k] by auto
  then have "clockDominates cl (Clock cur) \<longleftrightarrow>
      (\<forall>k. k \<noteq> dev \<and> 0 < clk (Clock cur) k \<longrightarrow> clk (ClockAge cur) k + 1 < clockAgeCompactions)"
    using clockDominates_iff [OF wcl assms(3) ne assms(4)] self unfolding clock_le_def by blast
  moreover have "\<not> clockDominates (Clock cur) cl"
    using clockDominates_iff [OF assms(3) wcl assms(4) ne] self unfolding clock_le_def
    by (metis not_less)
  ultimately show ?thesis by blast
qed

definition sample_record :: FileRecord where
  "sample_record = \<lparr>Size = 0, Mode = 0, ModTime = '''', UpdatedAt = '''', Generation = 1, Chunks = [],
     ConflictOf = '''', Clock = [(''peer'', 3), (''me'', 2)], ClockAge = [(''peer'', 7)]\<rparr>"

theorem nextRecordClock_dominates_witness:
  "nextRecordClock ''me'' [(''f'', sample_record)] ''f'' 5 = ([(''me'', 6)], [])
   \<and> \<not> clockDominates [(''me'', 6)] (Clock sample_record)"
proof -
  have n: "nextRecordClock ''me'' [(''f'', sample_record)] ''f'' 5 = ([(''me'', 6)], [])"
    by (simp add: nextRecordClock_def sample_record_def clk_def clockAgeCompactions_def i64_def)
  have "wf_clock (Clock sample_record)" by (simp add: wf_clock_def sample_record_def)
  moreover have "clk (Clock sample_record) ''me'' = 2" "clk (Clock sample_record) ''peer'' = 3"
    "clk (ClockAge sample_record) ''peer'' = 7" "Clock sample_record \<noteq> []"
    by (simp_all add: clk_def sample_record_def)
  ultimately have "clockDominates [(''me'', 6)] (Clock sample_record) \<longleftrightarrow>
      (\<forall>k. k \<noteq> ''me'' \<and> 0 < clk (Clock sample_record) k \<longrightarrow>
           clk (ClockAge sample_record) k + 1 < clockAgeCompactions)"
    using nextRecordClock_dominates [OF _ _ _ _ _ _ n, of sample_record] by simp
  moreover have "\<not> (''peer'' \<noteq> ''me'' \<and> 0 < clk (Clock sample_record) ''peer'' \<longrightarrow>
           clk (ClockAge sample_record) ''peer'' + 1 < clockAgeCompactions)"
    by (simp add: sample_record_def clockAgeCompactions_def)
  ultimately show ?thesis using n by metis
qed

text \<open>
  \<^const>\<open>nextGeneration\<close> is strictly above every generation observed so far and not below the wall
  clock, as long as the counter has not reached the largest \<^verbatim>\<open>int64\<close>; at that value the successor
  wraps and the new generation falls back to the wall clock.
\<close>

theorem nextGeneration_monotone:
  assumes "min_i64 \<le> maxGen" and "maxGen < max_i64"
  shows "(let (g, m) = nextGeneration maxGen w in maxGen < g \<and> w \<le> g \<and> m = g)
    \<and> (w > min_i64 \<longrightarrow> nextGeneration max_i64 w = (w, w))"
proof -
  have "i64 (maxGen + 1) = maxGen + 1" using assms by (intro i64_id) auto
  moreover have "i64 (max_i64 + 1) = min_i64" by (simp add: i64_def)
  ultimately show ?thesis by (auto simp: nextGeneration_def Let_def)
qed

theorem nextGeneration_monotone_witness: "nextGeneration 41 7 = (42, 42)"
  using nextGeneration_monotone [of 41 7] by (simp add: nextGeneration_def i64_def)

end
