(* ===== verification/ChunkStore.thy ===== *)
theory ChunkStore
  imports Fs Clock
begin

text \<open>
  The encrypted object store of \<^verbatim>\<open>internal/vault/vault.go\<close> and the envelope of \<^verbatim>\<open>crypto.go\<close>: chunk
  objects are named by a keyed hash of their plaintext, sealed with an AEAD whose associated data
  is that name, and verified again (authentication, size, name) on every read; a read falls back to
  copies a sync client renamed.  The AEAD and the keyed hash are the functions of the record
  \<open>crypt\<close>.  The results: a stored chunk reads back, what a read returns carries the requested name,
  storing never overwrites or removes an object, and a whole file that is put reads back.
\<close>

section \<open>Envelope\<close>

record crypt =
  hmacHex :: "bytes \<Rightarrow> bytes \<Rightarrow> string"
  aead_Seal :: "bytes \<Rightarrow> bytes \<Rightarrow> bytes \<Rightarrow> bytes \<Rightarrow> bytes"            \<comment> \<open>key, nonce, plaintext, associated data\<close>
  aead_Open :: "bytes \<Rightarrow> bytes \<Rightarrow> bytes \<Rightarrow> bytes \<Rightarrow> bytes option"
  NonceSize :: nat

definition chunkMagic :: bytes where "chunkMagic = ''SVCHNK1'' @ [CHR 0x0A]"
definition chunkAADPrefix :: string where "chunkAADPrefix = ''seavault-chunk-v1:''"

definition encodeEncrypted :: "bytes \<Rightarrow> bytes \<Rightarrow> bytes \<Rightarrow> bytes" where
  "encodeEncrypted magic nonce ct = magic @ nonce @ ct"

definition decodeEncrypted :: "bytes \<Rightarrow> nat \<Rightarrow> bytes \<Rightarrow> error + (bytes \<times> bytes)" where
  "decodeEncrypted magic n d =
     (if \<not> HasPrefix d magic then Inl (EMsg ''bad encrypted object magic'')
      else let rest = drop (length magic) d
           in if length rest < n then Inl (EMsg ''encrypted object too short'')
              else Inr (take n rest, drop n rest))"

section \<open>The vault handle\<close>

record Keys =
  MasterKey :: bytes
  IndexKey :: bytes

text \<open>The fields of \<^verbatim>\<open>Vault\<close> that the store reads; the AEADs are represented by their keys.\<close>

record store =
  MetaRoot :: string
  keys :: Keys
  chunkAEAD :: bytes
  indexAEAD :: bytes

definition join4 :: "string \<Rightarrow> string \<Rightarrow> string \<Rightarrow> string \<Rightarrow> string \<Rightarrow> string" where
  "join4 a b c d e = path_Join (path_Join (path_Join (path_Join a b) c) d) e"

definition chunkPath :: "'v store_scheme \<Rightarrow> string \<Rightarrow> string" where
  "chunkPath v cid =
     (let prefix = (if length cid > 2 then take 2 cid else cid)
      in join4 (MetaRoot v) ''objects'' ''chunks'' prefix (cid @ ''.chunk''))"

section \<open>Writing\<close>

definition storeChunk :: "crypt \<Rightarrow> 'v store_scheme \<Rightarrow> bytes \<Rightarrow> (ChunkRef \<times> bool, 'z) io" where
  "storeChunk cr v plaintext =
     (let cid = hmacHex cr (IndexKey (keys v)) plaintext;
          ref = \<lparr>ref_ID = cid, ref_Size = int (length plaintext)\<rparr>;
          objectPath = chunkPath v cid
      in io_try (os_Stat objectPath) (\<lambda>r. case r of
           Inr _ \<Rightarrow>
             io_bind time_Now (\<lambda>now. io_try (os_Chtimes objectPath now) (\<lambda>_. io_ret (ref, False)))
         | Inl e \<Rightarrow>
             if \<not> is_not_exist e then io_fail e
             else io_bind (os_MkdirAll (path_Dir objectPath)) (\<lambda>_.
                  io_bind (randomBytes (NonceSize cr)) (\<lambda>nonce.
                  io_bind (atomicWriteFile objectPath
                       (encodeEncrypted chunkMagic nonce
                         (aead_Seal cr (chunkAEAD v) nonce plaintext (chunkAADPrefix @ cid)))) (\<lambda>_.
                  io_ret (ref, True))))))"

section \<open>Reading\<close>

definition decodeChunk :: "crypt \<Rightarrow> 'v store_scheme \<Rightarrow> bytes \<Rightarrow> ChunkRef \<Rightarrow> error + bytes" where
  "decodeChunk cr v d ref =
     (case decodeEncrypted chunkMagic (NonceSize cr) d of
        Inl e \<Rightarrow> Inl e
      | Inr (nonce, ct) \<Rightarrow>
          (case aead_Open cr (chunkAEAD v) nonce ct (chunkAADPrefix @ ref_ID ref) of
             None \<Rightarrow> Inl (EMsg (''chunk '' @ ref_ID ref @ '' decrypt/authenticate failed''))
           | Some pt \<Rightarrow>
               if int (length pt) \<noteq> ref_Size ref then Inl (EMsg (''chunk '' @ ref_ID ref @ '' size mismatch''))
               else if hmacHex cr (IndexKey (keys v)) pt \<noteq> ref_ID ref
               then Inl (EMsg (''chunk '' @ ref_ID ref @ '' object ID mismatch''))
               else Inr pt))"

fun try_copies :: "crypt \<Rightarrow> 'v store_scheme \<Rightarrow> ChunkRef \<Rightarrow> string \<Rightarrow> string \<Rightarrow> string list \<Rightarrow> (bytes option, 'z) io" where
  "try_copies cr v ref dir canonicalName [] = io_ret None"
| "try_copies cr v ref dir canonicalName (name # names) =
     (if name = canonicalName \<or> \<not> HasPrefix name (ref_ID ref) \<or> \<not> HasSuffix (ToLower name) ''.chunk''
      then try_copies cr v ref dir canonicalName names
      else io_try (os_ReadFile (path_Join dir name)) (\<lambda>r. case r of
             Inl _ \<Rightarrow> try_copies cr v ref dir canonicalName names
           | Inr d \<Rightarrow> (case decodeChunk cr v d ref of
               Inr pt \<Rightarrow> io_ret (Some pt)
             | Inl _ \<Rightarrow> try_copies cr v ref dir canonicalName names)))"

definition tryConflictChunks :: "crypt \<Rightarrow> 'v store_scheme \<Rightarrow> ChunkRef \<Rightarrow> (bytes option, 'z) io" where
  "tryConflictChunks cr v ref =
     (let canonical = chunkPath v (ref_ID ref); dir = path_Dir canonical
      in io_try (os_ReadDir dir) (\<lambda>r. case r of
           Inl _ \<Rightarrow> io_ret None
         | Inr names \<Rightarrow> try_copies cr v ref dir (path_Base canonical) names))"

definition loadChunk :: "crypt \<Rightarrow> 'v store_scheme \<Rightarrow> ChunkRef \<Rightarrow> (bytes, 'z) io" where
  "loadChunk cr v ref =
     io_try (os_ReadFile (chunkPath v (ref_ID ref))) (\<lambda>r. case r of
        Inr d \<Rightarrow>
          (case decodeChunk cr v d ref of
             Inr pt \<Rightarrow> io_ret pt
           | Inl dErr \<Rightarrow> io_bind (tryConflictChunks cr v ref) (\<lambda>c. case c of
               Some pt \<Rightarrow> io_ret pt | None \<Rightarrow> io_fail dErr))
      | Inl e \<Rightarrow>
          if \<not> is_not_exist e then io_fail e
          else io_bind (tryConflictChunks cr v ref) (\<lambda>c. case c of
            Some pt \<Rightarrow> io_ret pt
          | None \<Rightarrow> io_fail (ENotExist (''chunk '' @ ref_ID ref
              @ '' not present (missing object, or not yet synced): file does not exist''))))"

text \<open>The loop over the chunks of a record in \<^verbatim>\<open>WriteFileTo\<close> and \<^verbatim>\<open>restoreFile\<close>: the bytes written.\<close>

fun write_chunks :: "crypt \<Rightarrow> 'v store_scheme \<Rightarrow> ChunkRef list \<Rightarrow> (bytes, 'z) io" where
  "write_chunks cr v [] = io_ret []"
| "write_chunks cr v (ref # refs) =
     io_bind (loadChunk cr v ref) (\<lambda>chunk.
     io_bind (write_chunks cr v refs) (\<lambda>rest. io_ret (chunk @ rest)))"

section \<open>Storing a stream\<close>

text \<open>The callback of \<^verbatim>\<open>putReader\<close>; its state is the host, the references, the count of new objects
  and the total size, and an error keeps the host as it is then.\<close>

type_synonym 'z put_state = "'z world_scheme \<times> ChunkRef list \<times> int \<times> int"

definition put_chunk :: "crypt \<Rightarrow> 'v store_scheme \<Rightarrow> 'z put_state \<Rightarrow> bytes \<Rightarrow> (error \<times> 'z world_scheme) + 'z put_state" where
  "put_chunk cr v st chunk =
     (let (w, refs, newCount, tot) = st
      in case storeChunk cr v chunk w of
           (Inl e, w') \<Rightarrow> Inl (e, w')
         | (Inr (ref, created), w') \<Rightarrow>
             Inr (w', refs @ [ref], (if created then newCount + 1 else newCount),
                  i64 (tot + int (length chunk))))"

definition put_stream ::
  "crypt \<Rightarrow> 'v store_scheme \<Rightarrow> ChunkParams \<Rightarrow> error reader \<Rightarrow> (ChunkRef list \<times> int \<times> int, 'z) io" where
  "put_stream cr v params r w =
     (case ForEachChunk r params (put_chunk cr v) (w, [], 0, 0) of
        Inl (BadParams e) \<Rightarrow> (Inl (EChunkParams e), w)
      | Inl (CallbackError (e, w')) \<Rightarrow> (Inl e, w')
      | Inl (ReadError e (w', _)) \<Rightarrow> (Inl e, w')
      | Inr (w', refs, n, tot) \<Rightarrow> (Inr (refs, n, tot), w'))"

section \<open>Verification of the store\<close>

definition error_text :: "error \<Rightarrow> string" where
  "error_text e = (case e of EMsg m \<Rightarrow> m | ENotExist m \<Rightarrow> m | _ \<Rightarrow> '''')"

definition classifyVerifyIssue :: "error option \<Rightarrow> string" where
  "classifyVerifyIssue err =
     (case err of
        None \<Rightarrow> ''ok''
      | Some e \<Rightarrow>
          if is_not_exist e then ''missing_chunk''
          else let msg = ToLower (error_text e)
               in if Contains msg ''decrypt'' \<or> Contains msg ''authenticate'' \<or> Contains msg ''size mismatch''
                     \<or> Contains msg ''object id mismatch'' \<or> Contains msg ''decode''
                  then ''corrupt_chunk'' else ''read_error'')"

definition isHex :: "string \<Rightarrow> bool" where
  "isHex s \<longleftrightarrow> s \<noteq> '''' \<and> (\<forall>r \<in> set s. (CHR ''0'' \<le> r \<and> r \<le> CHR ''9'')
      \<or> (CHR ''a'' \<le> r \<and> r \<le> CHR ''f'') \<or> (CHR ''A'' \<le> r \<and> r \<le> CHR ''F''))"

lemma isHex_ascii: "isHex s \<Longrightarrow> list_all ascii_char s"
proof -
  have "\<forall>r. CHR ''0'' \<le> r \<and> r \<le> CHR ''9'' \<or> CHR ''a'' \<le> r \<and> r \<le> CHR ''f'' \<or> CHR ''A'' \<le> r \<and> r \<le> CHR ''F'' \<longrightarrow> ascii_char r"
    by code_simp
  then show "isHex s \<Longrightarrow> list_all ascii_char s" by (auto simp: isHex_def list_all_iff)
qed

definition chunkIDFromFileName :: "string \<Rightarrow> string" where
  "chunkIDFromFileName name =
     (if length name \<ge> 64 \<and> isHex (take 64 name) then ToLower (take 64 name) else '''')"

section \<open>The object store as an interface\<close>

primrec put_all :: "('st \<Rightarrow> 'b \<Rightarrow> ('r \<times> 'st) option) \<Rightarrow> 'st \<Rightarrow> 'b list \<Rightarrow> ('r list \<times> 'st) option" where
  "put_all put st [] = Some ([], st)"
| "put_all put st (b # bs) =
     (case put st b of None \<Rightarrow> None
      | Some (r, st') \<Rightarrow> (case put_all put st' bs of None \<Rightarrow> None | Some (rs, st'') \<Rightarrow> Some (r # rs, st'')))"

text \<open>
  What a client of a blob store relies on: within a family \<open>B\<close> of blobs that the store can tell
  apart, a blob that was put can be read under its reference, and putting another one neither
  changes what a reference reads nor spoils the store.
\<close>

locale blob_store =
  fixes put :: "'st \<Rightarrow> 'b \<Rightarrow> ('r \<times> 'st) option"
    and get :: "'st \<Rightarrow> 'r \<Rightarrow> 'b option"
    and ok :: "'b set \<Rightarrow> 'st \<Rightarrow> bool"
  assumes put_get: "ok B st \<Longrightarrow> b \<in> B \<Longrightarrow> put st b = Some (r, st') \<Longrightarrow> get st' r = Some b"
    and put_keep: "put st b = Some (r, st') \<Longrightarrow> get st r' = Some c \<Longrightarrow> get st' r' = Some c"
    and put_ok: "ok B st \<Longrightarrow> b \<in> B \<Longrightarrow> put st b = Some (r, st') \<Longrightarrow> ok B st'"
begin

lemma put_all_keep: "put_all put st bs = Some (rs, st') \<Longrightarrow> get st r = Some c \<Longrightarrow> get st' r = Some c"
proof (induction bs arbitrary: st rs)
  case (Cons b bs)
  then obtain r1 st1 rs1 where p: "put st b = Some (r1, st1)" "put_all put st1 bs = Some (rs1, st')"
    by (auto split: option.splits)
  then show ?case using Cons.IH put_keep [OF p(1) Cons.prems(2)] by blast
qed simp

lemma put_all_get:
  "ok B st \<Longrightarrow> set bs \<subseteq> B \<Longrightarrow> put_all put st bs = Some (rs, st') \<Longrightarrow> map (get st') rs = map Some bs \<and> ok B st'"
proof (induction bs arbitrary: st rs)
  case (Cons b bs)
  then obtain r st1 rs1 where p: "put st b = Some (r, st1)" "put_all put st1 bs = Some (rs1, st')" "rs = r # rs1"
    by (auto split: option.splits)
  have "get st1 r = Some b" "ok B st1" using put_get put_ok p(1) Cons.prems by auto
  then show ?case using Cons.IH [OF _ _ p(2)] put_all_keep [OF p(2)] Cons.prems p(3) by auto
qed simp

end

section \<open>The chunk store implements it\<close>

abbreviation chunk_id :: "crypt \<Rightarrow> 'v store_scheme \<Rightarrow> bytes \<Rightarrow> string" where
  "chunk_id cr v b \<equiv> hmacHex cr (IndexKey (keys v)) b"

definition ref_of :: "crypt \<Rightarrow> 'v store_scheme \<Rightarrow> bytes \<Rightarrow> ChunkRef" where
  "ref_of cr v b = \<lparr>ref_ID = chunk_id cr v b, ref_Size = int (length b)\<rparr>"

definition put_blob :: "crypt \<Rightarrow> 'v store_scheme \<Rightarrow> 'z world_scheme \<Rightarrow> bytes \<Rightarrow> (ChunkRef \<times> 'z world_scheme) option" where
  "put_blob cr v w b = (case storeChunk cr v b w of (Inr (ref, _), w') \<Rightarrow> Some (ref, w') | (Inl _, _) \<Rightarrow> None)"

text \<open>The canonical object only.\<close>

definition get_blob :: "crypt \<Rightarrow> 'v store_scheme \<Rightarrow> 'z world_scheme \<Rightarrow> ChunkRef \<Rightarrow> bytes option" where
  "get_blob cr v w ref =
     (case map_of (files w) (chunkPath v (ref_ID ref)) of
        None \<Rightarrow> None
      | Some f \<Rightarrow> (case decodeChunk cr v (data f) ref of Inl _ \<Rightarrow> None | Inr pt \<Rightarrow> Some pt))"

text \<open>
  Decryption inverts encryption, random bytes have the length asked for, the blobs of \<open>B\<close> have
  distinct object names, and an object that is already there under such a name is intact.
\<close>

definition aead_law :: "crypt \<Rightarrow> bool" where
  "aead_law cr \<longleftrightarrow> (\<forall>k n pt aad. aead_Open cr k n (aead_Seal cr k n pt aad) aad = Some pt)"

definition store_ok :: "crypt \<Rightarrow> 'v store_scheme \<Rightarrow> bytes set \<Rightarrow> 'z world_scheme \<Rightarrow> bool" where
  "store_ok cr v B w \<longleftrightarrow> aead_law cr
     \<and> (\<forall>i n b. rand_src w i n = Some b \<longrightarrow> length b = n)
     \<and> inj_on (\<lambda>b. chunkPath v (chunk_id cr v b)) B
     \<and> (\<forall>b\<in>B. \<forall>f. map_of (files w) (chunkPath v (chunk_id cr v b)) = Some f
           \<longrightarrow> decodeChunk cr v (data f) (ref_of cr v b) = Inr b)"

lemma decode_encode: "decodeEncrypted m (length n) (encodeEncrypted m n ct) = Inr (n, ct)"
  by (simp add: decodeEncrypted_def encodeEncrypted_def HasPrefix_def Let_def)

lemma decodeChunk_sealed:
  assumes "aead_law cr" and "length n = NonceSize cr"
  shows "decodeChunk cr v (encodeEncrypted chunkMagic n
     (aead_Seal cr (chunkAEAD v) n b (chunkAADPrefix @ chunk_id cr v b))) (ref_of cr v b) = Inr b"
  using assms decode_encode [of chunkMagic n]
  by (simp add: decodeChunk_def aead_law_def ref_of_def)

lemma storeChunk_absent:
  assumes "fault w OpStat (chunkPath v (chunk_id cr v b)) = None"
    and "map_of (files w) (chunkPath v (chunk_id cr v b)) = None"
  shows "storeChunk cr v b w =
     io_bind (os_MkdirAll (path_Dir (chunkPath v (chunk_id cr v b)))) (\<lambda>_.
     io_bind (randomBytes (NonceSize cr)) (\<lambda>n.
     io_bind (atomicWriteFile (chunkPath v (chunk_id cr v b)) (encodeEncrypted chunkMagic n
          (aead_Seal cr (chunkAEAD v) n b (chunkAADPrefix @ chunk_id cr v b)))) (\<lambda>_.
     io_ret (ref_of cr v b, True)))) w"
  using assms by (simp add: storeChunk_def Let_def io_simps os_Stat_def check_fault_def
      lookup_file_def is_not_exist_def ref_of_def)

text \<open>The four ways \<^const>\<open>storeChunk\<close> can end.\<close>

lemma storeChunk_cases:
  assumes "storeChunk cr v b w = (r, w')"
  obtains (err) e where "r = Inl e" "files w' = files w" "same_host w w'"
  | (reuse) f t where "r = Inr (ref_of cr v b, False)" "same_host w w'"
      "map_of (files w) (chunkPath v (chunk_id cr v b)) = Some f"
      "files w' = files w \<or> files w' = AList.update (chunkPath v (chunk_id cr v b)) (f\<lparr>mtime := t\<rparr>) (files w)"
  | (new) n t where "r = Inr (ref_of cr v b, True)" "same_host w w'"
      "map_of (files w) (chunkPath v (chunk_id cr v b)) = None"
      "rand_src w (rand_ix w) (NonceSize cr) = Some n"
      "files w' = AList.update (chunkPath v (chunk_id cr v b))
         \<lparr>data = encodeEncrypted chunkMagic n
            (aead_Seal cr (chunkAEAD v) n b (chunkAADPrefix @ chunk_id cr v b)), mtime = t\<rparr> (files w)"
proof -
  let ?p = "chunkPath v (chunk_id cr v b)"
  show thesis
  proof (cases "fault w OpStat ?p")
    case (Some m)
    then show thesis using assms err
      by (auto simp: storeChunk_def Let_def io_simps os_Stat_def check_fault_def is_not_exist_def)
  next
    case nf: None
    show thesis
    proof (cases "map_of (files w) ?p")
      case (Some f)
      then show thesis using assms nf reuse [of f "clock_src w (clock_ix w)"]
        by (auto simp: storeChunk_def Let_def io_simps os_Stat_def check_fault_def lookup_file_def
            time_Now_def os_Chtimes_def put_file_def ref_of_def same_host_def split: option.splits)
    next
      case None
      let ?d = "\<lambda>n. encodeEncrypted chunkMagic n
            (aead_Seal cr (chunkAEAD v) n b (chunkAADPrefix @ chunk_id cr v b))"
      note s = storeChunk_absent [OF nf None]
      show thesis
      proof (cases "fault w OpMkdir (path_Dir ?p) = None \<and> rand_src w (rand_ix w) (NonceSize cr) \<noteq> None")
        case False
        then show thesis using assms s err
          by (auto simp: io_simps os_MkdirAll_def check_fault_def randomBytes_def same_host_def split: option.splits)
      next
        case True
        then obtain n where n: "rand_src w (rand_ix w) (NonceSize cr) = Some n" by auto
        let ?w = "w\<lparr>rand_ix := Suc (rand_ix w)\<rparr>"
        obtain ra wa where a: "atomicWriteFile ?p (?d n) ?w = (ra, wa)" by fastforce
        have r: "(r, w') = (case ra of Inl e \<Rightarrow> (Inl e, wa) | Inr _ \<Rightarrow> (Inr (ref_of cr v b, True), wa))"
          using assms s True n a
          by (auto simp: io_simps os_MkdirAll_def check_fault_def randomBytes_def split: sum.splits)
        show thesis
          using a
        proof (cases rule: atomicWriteFile_cases)
          case (err e)
          then show thesis using r that(1) by (simp add: same_host_def)
        next
          case (ok t)
          then show thesis using r that(3) [OF _ _ None n, of t] by (simp add: same_host_def)
        qed
      qed
    qed
  qed
qed

lemma put_blob_Some:
  assumes "put_blob cr v w b = Some (r, w')"
  obtains c where "storeChunk cr v b w = (Inr (r, c), w')"
  using assms by (auto simp: put_blob_def split: prod.splits sum.splits)

lemma storeChunk_keeps:
  assumes "storeChunk cr v b w = (r, w')" and "map_of (files w) p = Some f"
  shows "\<exists>f'. map_of (files w') p = Some f' \<and> data f' = data f"
  using assms(1)
proof (cases rule: storeChunk_cases)
  case (new n t)
  then show ?thesis using assms(2) by (auto simp: update_conv')
next
  case (reuse g t)
  then show ?thesis using assms(2) by (auto simp: update_conv')
qed (use assms(2) in auto)

lemma storeChunk_effect:
  assumes "store_ok cr v B w" and "b \<in> B" and "storeChunk cr v b w = (Inr (r, c), w')"
  shows "r = ref_of cr v b" "same_host w w'"
    "\<exists>f. map_of (files w') (chunkPath v (chunk_id cr v b)) = Some f
       \<and> decodeChunk cr v (data f) (ref_of cr v b) = Inr b"
    "p \<noteq> chunkPath v (chunk_id cr v b) \<Longrightarrow> map_of (files w') p = map_of (files w) p"
proof -
  let ?p = "chunkPath v (chunk_id cr v b)"
  have "r = ref_of cr v b \<and> same_host w w'
    \<and> (\<exists>f. map_of (files w') ?p = Some f \<and> decodeChunk cr v (data f) (ref_of cr v b) = Inr b)
    \<and> (\<forall>p. p \<noteq> ?p \<longrightarrow> map_of (files w') p = map_of (files w) p)"
    using assms(3)
  proof (cases rule: storeChunk_cases)
    case (reuse g t)
    then show ?thesis using assms(1,2) by (auto simp: store_ok_def update_conv')
  next
    case (new n t)
    then have "aead_law cr" "length n = NonceSize cr" using assms(1) by (auto simp: store_ok_def)
    from decodeChunk_sealed [OF this, of v b] show ?thesis using new by (auto simp: update_conv')
  qed simp
  then show "r = ref_of cr v b" "same_host w w'"
    "\<exists>f. map_of (files w') ?p = Some f \<and> decodeChunk cr v (data f) (ref_of cr v b) = Inr b"
    "p \<noteq> ?p \<Longrightarrow> map_of (files w') p = map_of (files w) p" by blast+
qed

lemma store_ok_step:
  assumes "store_ok cr v B w" and "b \<in> B" and "storeChunk cr v b w = (Inr (r, c), w')"
  shows "store_ok cr v B w'"
  unfolding store_ok_def
proof (intro conjI ballI allI impI)
  let ?p = "chunkPath v (chunk_id cr v b)"
  note e = storeChunk_effect [OF assms]
  show "decodeChunk cr v (data g) (ref_of cr v b') = Inr b'"
    if "b' \<in> B" "map_of (files w') (chunkPath v (chunk_id cr v b')) = Some g" for b' g
  proof (cases "chunkPath v (chunk_id cr v b') = ?p")
    case True
    then have "b' = b" using assms(1,2) that(1) by (auto simp: store_ok_def dest: inj_onD)
    then show ?thesis using that e(3) by auto
  next
    case False
    then show ?thesis using e(4) that assms(1) by (auto simp: store_ok_def)
  qed
qed (use assms(1) storeChunk_effect(2) [OF assms] in \<open>auto simp: store_ok_def same_host_def\<close>)

interpretation chunks: blob_store "put_blob cr v" "get_blob cr v" "store_ok cr v" for cr v
proof
  fix B :: "bytes set" and w w' :: "'b world_scheme" and b c :: bytes and r r' :: ChunkRef
  show "get_blob cr v w' r' = Some c"
    if "put_blob cr v w b = Some (r, w')" "get_blob cr v w r' = Some c"
    using that storeChunk_keeps
    by (fastforce simp: get_blob_def elim!: put_blob_Some split: option.splits sum.splits)
  assume ok: "store_ok cr v B w" and b: "b \<in> B" and p: "put_blob cr v w b = Some (r, w')"
  obtain cc where s: "storeChunk cr v b w = (Inr (r, cc), w')" using p by (rule put_blob_Some)
  show "get_blob cr v w' r = Some b"
    using storeChunk_effect(1,3) [OF ok b s] by (auto simp: get_blob_def ref_of_def)
  show "store_ok cr v B w'" using store_ok_step ok b s .
qed

section \<open>Reading back\<close>

lemma loadChunk_canonical:
  assumes "fault w OpRead (chunkPath v (ref_ID ref)) = None" and "get_blob cr v w ref = Some b"
  shows "loadChunk cr v ref w = (Inr b, w)"
  using assms
  by (auto simp: loadChunk_def get_blob_def io_simps os_ReadFile_def check_fault_def lookup_file_def
      split: option.splits sum.splits)

lemma write_chunks_canonical:
  "\<forall>p. fault w OpRead p = None \<Longrightarrow> map (get_blob cr v w) refs = map Some bs \<Longrightarrow>
   write_chunks cr v refs w = (Inr (concat bs), w)"
proof (induction refs arbitrary: bs)
  case (Cons ref refs)
  then obtain b bs' where "bs = b # bs'" "get_blob cr v w ref = Some b"
    "map (get_blob cr v w) refs = map Some bs'" by (cases bs) auto
  then show ?case using Cons loadChunk_canonical [of w v ref cr b] by (simp add: io_simps)
qed (simp add: io_simps)

lemma put_chunk_apply:
  "put_chunk cr v (w, refs, n, tot) b =
     (case storeChunk cr v b w of
        (Inl e, w') \<Rightarrow> Inl (e, w')
      | (Inr (ref, c), w') \<Rightarrow> Inr (w', refs @ [ref], (if c then n + 1 else n), i64 (tot + int (length b))))"
  by (simp add: put_chunk_def)

lemma run_put_chunk:
  "run_cb (put_chunk cr v) (w, rs, n, tot) bs = Inr (w', rs', n', tot') \<Longrightarrow>
   \<exists>rs1. rs' = rs @ rs1 \<and> put_all (put_blob cr v) w bs = Some (rs1, w')"
proof (induction bs arbitrary: w rs n tot)
  case (Cons b bs)
  then obtain r c w1 where s: "storeChunk cr v b w = (Inr (r, c), w1)"
    by (auto simp: put_chunk_apply split: sum.splits prod.splits)
  then have "run_cb (put_chunk cr v) (w1, rs @ [r], if c then n + 1 else n, i64 (tot + int (length b))) bs
      = Inr (w', rs', n', tot')" using Cons.prems by (simp add: put_chunk_apply)
  from Cons.IH [OF this] obtain rs1
    where "rs' = (rs @ [r]) @ rs1" "put_all (put_blob cr v) w1 bs = Some (rs1, w')" by blast
  moreover have "put_blob cr v w b = Some (r, w1)" using s by (simp add: put_blob_def)
  ultimately show ?case by simp
qed simp

lemma put_stream_run:
  assumes "Validate params = None"
  shows "put_stream cr v params (blks, None) w =
     (case run_cb (put_chunk cr v) (w, [], 0, 0) (chunks_of params (concat blks)) of
        Inl (e, w') \<Rightarrow> (Inl e, w') | Inr (w', refs, n, tot) \<Rightarrow> (Inr (refs, n, tot), w'))"
  by (auto simp: put_stream_def ForEachChunk_run_cb [OF assms] split: sum.splits prod.splits)

lemma put_all_host:
  "store_ok cr v B w \<Longrightarrow> set bs \<subseteq> B \<Longrightarrow> put_all (put_blob cr v) w bs = Some (rs, w') \<Longrightarrow> same_host w w'"
proof (induction bs arbitrary: w rs)
  case (Cons b bs)
  then obtain r w1 rs1 where p: "put_blob cr v w b = Some (r, w1)" "put_all (put_blob cr v) w1 bs = Some (rs1, w')"
    by (auto split: option.splits)
  obtain c where s: "storeChunk cr v b w = (Inr (r, c), w1)" using p(1) by (rule put_blob_Some)
  have "same_host w w1" "store_ok cr v B w1"
    using storeChunk_effect(2) [OF _ _ s] store_ok_step [OF _ _ s] Cons.prems by auto
  then show ?case using Cons.IH [OF _ _ p(2)] Cons.prems same_host_trans by auto
qed simp

lemma storeChunk_succeeds:
  assumes "no_faults w" and "storeChunk cr v b w = (r, w')"
  shows "\<exists>x. r = Inr x \<and> no_faults w'"
proof -
  let ?p = "chunkPath v (chunk_id cr v b)"
  have nf: "fault w op p = None" for op p using assms(1) by (simp add: no_faults_def)
  have h: "same_host w w'"
    using assms(2) by (cases rule: storeChunk_cases) auto
  show ?thesis
  proof (cases "map_of (files w) ?p")
    case (Some f)
    then show ?thesis using assms(2) nf no_faults_same [OF h assms(1)]
      by (auto simp: storeChunk_def Let_def io_simps os_Stat_def check_fault_def lookup_file_def
            time_Now_def os_Chtimes_def put_file_def split: option.splits)
  next
    case None
    obtain n where n: "rand_src w (rand_ix w) (NonceSize cr) = Some n"
      using assms(1) unfolding no_faults_def by blast
    let ?w = "w\<lparr>rand_ix := Suc (rand_ix w)\<rparr>"
    let ?d = "encodeEncrypted chunkMagic n (aead_Seal cr (chunkAEAD v) n b (chunkAADPrefix @ chunk_id cr v b))"
    obtain ra wa where a: "atomicWriteFile ?p ?d ?w = (ra, wa)" by fastforce
    have "no_faults ?w" using assms(1) by (simp add: no_faults_def)
    then have "ra = Inr ()" using atomicWriteFile_ok a by blast
    then have "storeChunk cr v b w = (Inr (ref_of cr v b, True), wa)"
      using a n nf unfolding storeChunk_absent [OF nf None]
      by (simp add: io_simps os_MkdirAll_def check_fault_def randomBytes_def)
    then show ?thesis using assms(2) no_faults_same [OF h assms(1)] by auto
  qed
qed

lemma run_put_chunk_succeeds:
  "no_faults w \<Longrightarrow> \<exists>w' rs' n' tot'. run_cb (put_chunk cr v) (w, rs, n, tot) bs = Inr (w', rs', n', tot')"
proof (induction bs arbitrary: w rs n tot)
  case (Cons b bs)
  obtain r w1 where s: "storeChunk cr v b w = (r, w1)" by fastforce
  then obtain ref c where "r = Inr (ref, c)" "no_faults w1"
    using storeChunk_succeeds [OF Cons.prems s] by auto
  then show ?case using Cons.IH s by (simp add: put_chunk_apply)
qed simp

lemma decodeChunk_authentic:
  "decodeChunk cr v d ref = Inr pt \<Longrightarrow>
   hmacHex cr (IndexKey (keys v)) pt = ref_ID ref \<and> int (length pt) = ref_Size ref"
  by (auto simp: decodeChunk_def split: sum.splits prod.splits option.splits if_splits)

lemma get_blob_size: "get_blob cr v w ref = Some pt \<Longrightarrow> ref_Size ref = int (length pt)"
  using decodeChunk_authentic [of cr v _ ref pt] by (fastforce simp: get_blob_def split: option.splits sum.splits)

lemma try_copies_authentic:
  "try_copies cr v ref dir cn names w = (Inr (Some pt), w') \<Longrightarrow>
   hmacHex cr (IndexKey (keys v)) pt = ref_ID ref \<and> int (length pt) = ref_Size ref"
proof (induction names arbitrary: w)
  case (Cons name names)
  then show ?case
    by (auto simp: io_simps decodeChunk_authentic split: if_splits prod.splits sum.splits)
qed (simp add: io_simps)

lemma loadChunk_content:
  assumes "loadChunk cr v ref w = (Inr pt, w')"
  shows "hmacHex cr (IndexKey (keys v)) pt = ref_ID ref \<and> int (length pt) = ref_Size ref"
  using assms
  by (auto simp: loadChunk_def tryConflictChunks_def Let_def io_simps decodeChunk_authentic try_copies_authentic
      split: prod.splits sum.splits if_splits option.splits)

section \<open>Properties\<close>

text \<open>A host without faults and a toy cipher for evaluations.\<close>

definition demo_crypt :: crypt where
  "demo_crypt = \<lparr>hmacHex = (\<lambda>k d. k @ d), aead_Seal = (\<lambda>k n pt aad. aad @ pt),
     aead_Open = (\<lambda>k n ct aad. if take (length aad) ct = aad then Some (drop (length aad) ct) else None),
     NonceSize = 1\<rparr>"

definition demo_world :: world where
  "demo_world = \<lparr>files = [], fault = (\<lambda>_ _. None), rename_fault = (\<lambda>_ _. None), clock_src = int,
     clock_ix = 0, rand_src = (\<lambda>_ n. Some (replicate n (CHR ''r''))), rand_ix = 0\<rparr>"

definition demo_store :: store where
  "demo_store = \<lparr>MetaRoot = ''/m'', keys = \<lparr>MasterKey = '''', IndexKey = ''ab''\<rparr>, chunkAEAD = '''', indexAEAD = ''''\<rparr>"

lemma demo_no_faults: "no_faults demo_world"
  by (simp add: no_faults_def demo_world_def)

lemma demo_aead: "aead_law demo_crypt"
  by (simp add: aead_law_def demo_crypt_def)

text \<open>
  C17.  What is put reads back.  On a host without faults, storing a stream with valid chunk
  parameters succeeds, and writing out the chunks it recorded yields the stream, byte for byte,
  whatever the reads' block sizes, whether objects were new or already there, provided the store
  is sound for the stream's chunks: decryption inverts encryption, the chunks have different
  object names, and objects already present under those names are intact.
\<close>

theorem put_stream_roundtrip:
  assumes "Validate params = None" and "no_faults w"
    and "store_ok cr v (set (chunks_of params (concat blks))) w"
  shows "\<exists>refs n tot w'. put_stream cr v params (blks, None) w = (Inr (refs, n, tot), w')
    \<and> write_chunks cr v refs w' = (Inr (concat blks), w')
    \<and> map ref_Size refs = map (\<lambda>c. int (length c)) (chunks_of params (concat blks))"
proof -
  let ?cs = "chunks_of params (concat blks)"
  obtain w' refs n tot where r: "run_cb (put_chunk cr v) (w, [], 0, 0) ?cs = Inr (w', refs, n, tot)"
    using run_put_chunk_succeeds [OF assms(2)] by blast
  then have pa: "put_all (put_blob cr v) w ?cs = Some (refs, w')" using run_put_chunk by fastforce
  have g: "map (get_blob cr v w') refs = map Some ?cs" and h: "same_host w w'"
    using chunks.put_all_get [OF assms(3) _ pa] put_all_host [OF assms(3) _ pa] by auto
  have "\<forall>p. fault w' OpRead p = None" using assms(2) h by (simp add: no_faults_def same_host_def)
  from write_chunks_canonical [OF this g] have "write_chunks cr v refs w' = (Inr (concat blks), w')"
    by (simp add: chunks_of_concat)
  moreover have "map ref_Size refs = map (\<lambda>c. int (length c)) ?cs"
  proof (rule nth_equalityI)
    show l: "length (map ref_Size refs) = length (map (\<lambda>c. int (length c)) ?cs)"
      using g by (metis length_map)
    fix i assume "i < length (map ref_Size refs)"
    then have i: "i < length refs" "i < length ?cs" using l by auto
    then have "get_blob cr v w' (refs ! i) = Some (?cs ! i)" using g by (metis nth_map)
    then show "map ref_Size refs ! i = map (\<lambda>c. int (length c)) ?cs ! i"
      using i get_blob_size by simp
  qed
  ultimately show ?thesis using r by (auto simp: put_stream_run [OF assms(1)])
qed

lemma demo_store_ok: "store_ok demo_crypt demo_store (set (chunks_of tiny_params ''a'')) demo_world"
proof -
  have "set (chunks_of tiny_params ''a'') \<subseteq> {''a''}"
    unfolding chunks_of_def tiny_mask by (auto simp: tiny_params_def)
  then show ?thesis using demo_aead
    by (auto simp: store_ok_def demo_world_def intro!: inj_onI)
qed

theorem put_stream_roundtrip_witness:
  "\<exists>refs n tot w'. put_stream demo_crypt demo_store tiny_params ([''a''], None) demo_world
      = (Inr (refs, n, tot), w') \<and> write_chunks demo_crypt demo_store refs w' = (Inr ''a'', w')"
  using put_stream_roundtrip [OF tiny_valid demo_no_faults, of demo_crypt demo_store "[''a'']"] demo_store_ok
  by auto

text \<open>
  C18.  A read never returns foreign bytes: whatever the disk holds, including corrupt objects,
  swapped objects and copies renamed by a sync client, the plaintext that \<^const>\<open>loadChunk\<close> returns has
  the keyed hash and the size the reference names.
\<close>

theorem loadChunk_authentic:
  assumes "loadChunk cr v ref w = (Inr pt, w')"
  shows "hmacHex cr (IndexKey (keys v)) pt = ref_ID ref \<and> int (length pt) = ref_Size ref"
  by (rule loadChunk_content [OF assms])

theorem loadChunk_authentic_witness:
  "\<exists>pt w'. loadChunk demo_crypt demo_store (ref_of demo_crypt demo_store ''x'')
       (snd (storeChunk demo_crypt demo_store ''x'' demo_world)) = (Inr pt, w') \<and> length pt = 1"
proof -
  let ?l = "loadChunk demo_crypt demo_store (ref_of demo_crypt demo_store ''x'')
       (snd (storeChunk demo_crypt demo_store ''x'' demo_world))"
  have "fst ?l = Inr ''x''" by code_simp
  then obtain w' where l: "?l = (Inr ''x'', w')" by (metis prod.collapse)
  from loadChunk_authentic [OF this] show ?thesis using l by (auto simp: ref_of_def)
qed

text \<open>
  Storing a chunk destroys nothing, on any host and with any pattern of I/O errors: every
  file that was there is still there with the same bytes, and when the call reports an error the
  files are untouched.
\<close>

theorem storeChunk_preserves:
  "\<forall>p f. map_of (files w) p = Some f \<longrightarrow>
     (\<exists>f'. map_of (files (snd (storeChunk cr v b w))) p = Some f' \<and> data f' = data f
        \<and> (\<forall>e. fst (storeChunk cr v b w) = Inl e \<longrightarrow> f' = f))"
proof (intro allI impI)
  fix p f assume f: "map_of (files w) p = Some f"
  obtain r w' where s: "storeChunk cr v b w = (r, w')" by fastforce
  obtain f' where "map_of (files w') p = Some f'" "data f' = data f" using storeChunk_keeps [OF s f] by blast
  moreover have "\<forall>e. r = Inl e \<longrightarrow> files w' = files w" using s by (cases rule: storeChunk_cases) auto
  ultimately show "\<exists>f'. map_of (files (snd (storeChunk cr v b w))) p = Some f' \<and> data f' = data f
        \<and> (\<forall>e. fst (storeChunk cr v b w) = Inl e \<longrightarrow> f' = f)" using f s by auto
qed

theorem storeChunk_preserves_witness:
  "\<exists>f'. map_of (files (snd (storeChunk demo_crypt demo_store ''x''
       (demo_world\<lparr>files := [(''/q'', \<lparr>data = ''d'', mtime = 3\<rparr>)]\<rparr>)))) ''/q'' = Some f' \<and> data f' = ''d''"
  using storeChunk_preserves [rule_format, of "demo_world\<lparr>files := [(''/q'', \<lparr>data = ''d'', mtime = 3\<rparr>)]\<rparr>"
      "''/q''" "\<lparr>data = ''d'', mtime = 3\<rparr>"] by fastforce

text \<open>
  A chunk object that was truncated inside its header, or whose header was overwritten, is
  counted as a read error rather than as a corrupt chunk: neither message of
  \<^const>\<open>decodeEncrypted\<close> contains one of the words \<^const>\<open>classifyVerifyIssue\<close> looks for.
\<close>

theorem damaged_header_not_corrupt:
  assumes "decodeEncrypted magic n d = Inl e"
  shows "classifyVerifyIssue (Some e) = ''read_error''"
proof -
  have "e = EMsg ''bad encrypted object magic'' \<or> e = EMsg ''encrypted object too short''"
    using assms by (auto simp: decodeEncrypted_def Let_def split: if_splits)
  moreover have "classifyVerifyIssue (Some (EMsg ''bad encrypted object magic'')) = ''read_error''"
    "classifyVerifyIssue (Some (EMsg ''encrypted object too short'')) = ''read_error''"
    by code_simp+
  ultimately show ?thesis by metis
qed

theorem damaged_header_not_corrupt_witness:
  "decodeEncrypted chunkMagic 12 ''SVCH'' = Inl (EMsg ''bad encrypted object magic'')
   \<and> classifyVerifyIssue (Some (EMsg ''bad encrypted object magic'')) = ''read_error''"
proof -
  have d: "decodeEncrypted chunkMagic 12 ''SVCH'' = Inl (EMsg ''bad encrypted object magic'')" by code_simp
  from damaged_header_not_corrupt [OF d] d show ?thesis by blast
qed

end
