(* ===== verification/Scrypt.thy ===== *)
theory Scrypt
  imports Fs "HOL-Library.Word"
begin

unbundle bit_operations_syntax

text \<open>
  Key derivation primitives written out in the repository: \<^verbatim>\<open>internal/vault/scrypt.go\<close> (scrypt with
  its Salsa20/8 core at 32-bit words) and \<^verbatim>\<open>pbkdf2Key\<close>, \<^verbatim>\<open>hkdfSHA256\<close> of \<^verbatim>\<open>crypto.go\<close>.  HMAC-SHA256 is the
  argument \<open>mac\<close> (key, message), and what is assumed of it where needed is that it yields 32
  bytes.  The results: \<^verbatim>\<open>scryptKey\<close> is the function of RFC 7914, written a second time from the RFC (quarter
  rounds, \<open>BlockMix\<close>, \<open>ROMix\<close> with \<open>mod N\<close> of the whole last block), so that the masked table index is always
  in range; the Salsa core agrees with the published test vector; buffers and derived keys have
  their sizes.
\<close>

section \<open>Bytes and words\<close>

definition xor_char :: "char \<Rightarrow> char \<Rightarrow> char" where
  "xor_char a b = char_of ((of_char a :: nat) XOR of_char b)"

text \<open>\<^verbatim>\<open>xorBytes(dst, src)\<close>: \<open>src\<close> is at least as long as \<open>dst\<close>.\<close>

definition xorBytes :: "bytes \<Rightarrow> bytes \<Rightarrow> bytes" where
  "xorBytes dst src = map (\<lambda>(a, b). xor_char a b) (zip dst src)"

fun le_word :: "bytes \<Rightarrow> 'a::len word" where
  "le_word [] = 0"
| "le_word (b # bs) = of_nat (of_char b) OR push_bit 8 (le_word bs)"

definition Uint32 :: "bytes \<Rightarrow> 32 word" where "Uint32 bs = le_word (take 4 bs)"
definition Uint64 :: "bytes \<Rightarrow> 64 word" where "Uint64 bs = le_word (take 8 bs)"

definition PutUint32 :: "32 word \<Rightarrow> bytes" where
  "PutUint32 w = map (\<lambda>i. char_of (unat (drop_bit (8 * i) w AND 255))) [0..<4]"

definition slice :: "nat \<Rightarrow> nat \<Rightarrow> bytes \<Rightarrow> bytes" where
  "slice a b xs = take (b - a) (drop a xs)"

section \<open>Salsa20/8\<close>

definition bitsRotateLeft32 :: "32 word \<Rightarrow> nat \<Rightarrow> 32 word" where
  "bitsRotateLeft32 x k = push_bit k x OR drop_bit (32 - k) x"

text \<open>The assignments \<^verbatim>\<open>z[d] ^= rotl(z[a]+z[b], k)\<close> of one iteration, in order.\<close>

definition salsa_steps :: "(nat \<times> nat \<times> nat \<times> nat) list" where
  "salsa_steps =
    [(4, 0, 12, 7), (8, 4, 0, 9), (12, 8, 4, 13), (0, 12, 8, 18),
     (9, 5, 1, 7), (13, 9, 5, 9), (1, 13, 9, 13), (5, 1, 13, 18),
     (14, 10, 6, 7), (2, 14, 10, 9), (6, 2, 14, 13), (10, 6, 2, 18),
     (3, 15, 11, 7), (7, 3, 15, 9), (11, 7, 3, 13), (15, 11, 7, 18),
     (1, 0, 3, 7), (2, 1, 0, 9), (3, 2, 1, 13), (0, 3, 2, 18),
     (6, 5, 4, 7), (7, 6, 5, 9), (4, 7, 6, 13), (5, 4, 7, 18),
     (11, 10, 9, 7), (8, 11, 10, 9), (9, 8, 11, 13), (10, 9, 8, 18),
     (12, 15, 14, 7), (13, 12, 15, 9), (14, 13, 12, 13), (15, 14, 13, 18)]"

definition salsa_step :: "nat \<times> nat \<times> nat \<times> nat \<Rightarrow> 32 word list \<Rightarrow> 32 word list" where
  "salsa_step s z = (case s of (d, a, b, k) \<Rightarrow> z[d := z ! d XOR bitsRotateLeft32 (z ! a + z ! b) k])"

definition double_round :: "32 word list \<Rightarrow> 32 word list" where
  "double_round z = fold salsa_step salsa_steps z"

definition salsa_add :: "32 word list \<Rightarrow> 32 word list \<Rightarrow> bytes" where
  "salsa_add z x = concat (map (\<lambda>(a, b). PutUint32 (a + b)) (zip z x))"

definition salsa_core :: "32 word list \<Rightarrow> bytes" where
  "salsa_core x = salsa_add ((double_round ^^ 4) x) x"

definition salsa208 :: "bytes \<Rightarrow> bytes" where
  "salsa208 block = salsa_core (map (\<lambda>i. Uint32 (drop (i * 4) block)) [0..<16])"

section \<open>blockMix and smix\<close>

fun mix_loop :: "bytes \<Rightarrow> bytes \<Rightarrow> nat list \<Rightarrow> bytes list" where
  "mix_loop B X [] = []"
| "mix_loop B X (i # is) =
     (let X' = salsa208 (xorBytes X (slice (i * 64) ((i + 1) * 64) B)) in X' # mix_loop B X' is)"

definition blockMix :: "bytes \<Rightarrow> nat \<Rightarrow> bytes" where
  "blockMix B r =
     (let Y = mix_loop B (slice ((2 * r - 1) * 64) (2 * r * 64) B) [0..<2 * r]
      in concat (map (\<lambda>i. Y ! (2 * i)) [0..<r]) @ concat (map (\<lambda>i. Y ! (2 * i + 1)) [0..<r]))"

definition integerify :: "bytes \<Rightarrow> nat \<Rightarrow> 64 word" where
  "integerify B r = Uint64 (drop ((2 * r - 1) * 64) B)"

fun smix_fill :: "nat \<Rightarrow> nat \<Rightarrow> bytes \<Rightarrow> bytes list \<times> bytes" where
  "smix_fill r 0 X = ([], X)"
| "smix_fill r (Suc n) X = (let (V, X') = smix_fill r n (blockMix X r) in (X # V, X'))"

fun smix_mix :: "nat \<Rightarrow> nat \<Rightarrow> bytes list \<Rightarrow> nat \<Rightarrow> bytes \<Rightarrow> bytes" where
  "smix_mix r N V 0 X = X"
| "smix_mix r N V (Suc n) X =
     (let j = unat (integerify X r AND of_nat (N - 1))
      in smix_mix r N V n (blockMix (xorBytes X (V ! j)) r))"

definition smix :: "bytes \<Rightarrow> nat \<Rightarrow> nat \<Rightarrow> bytes" where
  "smix B r N = (let (V, X) = smix_fill r N B in smix_mix r N V N X)"

section \<open>PBKDF2 and HKDF\<close>

definition be32 :: "nat \<Rightarrow> bytes" where
  "be32 n = map (\<lambda>i. char_of (n div 256 ^ (3 - i) mod 256)) [0..<4]"

fun pbkdf2_iter :: "(bytes \<Rightarrow> bytes \<Rightarrow> bytes) \<Rightarrow> bytes \<Rightarrow> nat \<Rightarrow> bytes \<Rightarrow> bytes \<Rightarrow> bytes" where
  "pbkdf2_iter mac pw 0 u t = t"
| "pbkdf2_iter mac pw (Suc n) u t = (let u' = mac pw u in pbkdf2_iter mac pw n u' (xorBytes t u'))"

text \<open>The code panics for \<open>iter \<le> 0\<close>; its callers pass 1 or a count that was range-checked.\<close>

definition pbkdf2Key :: "(bytes \<Rightarrow> bytes \<Rightarrow> bytes) \<Rightarrow> bytes \<Rightarrow> bytes \<Rightarrow> nat \<Rightarrow> nat \<Rightarrow> bytes option" where
  "pbkdf2Key mac password salt iter keyLen =
     (if iter = 0 then None
      else let numBlocks = (keyLen + 32 - 1) div 32;
               block = (\<lambda>b. let u = mac password (salt @ be32 b) in pbkdf2_iter mac password (iter - 1) u u)
           in Some (take keyLen (concat (map block [1..<Suc numBlocks]))))"

fun hkdf_loop :: "(bytes \<Rightarrow> bytes \<Rightarrow> bytes) \<Rightarrow> bytes \<Rightarrow> bytes \<Rightarrow> nat \<Rightarrow> nat \<Rightarrow> bytes \<Rightarrow> bytes \<Rightarrow> nat \<Rightarrow> bytes option" where
  "hkdf_loop mac prk info len fuel okm previous counter =
     (if length okm < len then
        (case fuel of
           0 \<Rightarrow> None
         | Suc n \<Rightarrow>
             let p' = mac prk (previous @ info @ [char_of counter])
             in hkdf_loop mac prk info len n (okm @ p') p' ((counter + 1) mod 256))
      else Some (take len okm))"

declare hkdf_loop.simps [simp del]

text \<open>The loop adds at least one byte per iteration when the digest is not empty: \<open>len\<close> iterations
  are enough.\<close>

definition hkdfSHA256 :: "(bytes \<Rightarrow> bytes \<Rightarrow> bytes) \<Rightarrow> bytes \<Rightarrow> bytes option \<Rightarrow> bytes \<Rightarrow> nat \<Rightarrow> bytes option" where
  "hkdfSHA256 mac ikm salt info len =
     (let s = (case salt of None \<Rightarrow> replicate 32 (CHR 0x00) | Some s \<Rightarrow> s)
      in hkdf_loop mac (mac s ikm) info len len [] [] 1)"

section \<open>scryptKey\<close>

definition scryptKey ::
  "(bytes \<Rightarrow> bytes \<Rightarrow> bytes) \<Rightarrow> bytes \<Rightarrow> bytes \<Rightarrow> int \<Rightarrow> int \<Rightarrow> int \<Rightarrow> int \<Rightarrow> error + bytes" where
  "scryptKey mac password salt N r p keyLen =
     (if N \<le> 1 \<or> N AND (N - 1) \<noteq> 0 then Inl (EMsg ''scrypt N must be a power of two greater than 1'')
      else if r \<le> 0 \<or> p \<le> 0 \<or> keyLen \<le> 0
      then Inl (EMsg ''scrypt r, p, and key length must be positive'')
      else if N > 2 ^ 24 then Inl (EMsg (''scrypt N '' @ show_int N @ '' is too large for this build''))
      else if (r * p) mod 2 ^ 64 \<ge> 2 ^ 30 then Inl (EMsg ''scrypt parameters are too large'')
      else let rn = nat r;
               B = the (pbkdf2Key mac password salt 1 (nat (p * 128 * r)));
               B' = concat (map (\<lambda>i. smix (slice (i * 128 * rn) ((i + 1) * 128 * rn) B) rn (nat N)) [0..<nat p])
           in Inr (the (pbkdf2Key mac password B' 1 (nat keyLen))))"

section \<open>Sizes\<close>

lemma length_PutUint32 [simp]: "length (PutUint32 w) = 4"
  by (simp add: PutUint32_def)

lemma length_xorBytes [simp]: "length (xorBytes a b) = min (length a) (length b)"
  by (simp add: xorBytes_def)

lemma length_slice [simp]: "length (slice a b xs) = min (length xs - a) (b - a)"
  by (simp add: slice_def)

lemma length_concat_const: "\<forall>x\<in>set xs. length x = n \<Longrightarrow> length (concat xs) = n * length xs"
  by (induction xs) auto

lemma length_salsa208 [simp]: "length (salsa208 block) = 64"
proof -
  have d: "length (double_round z) = length z" for z
    unfolding double_round_def
    by (rule fold_invariant [where Q = "\<lambda>_. True" and P = "\<lambda>y. length y = length z"])
       (auto simp: salsa_step_def split: prod.splits)
  have "length ((double_round ^^ n) z) = length z" for n z by (induction n) (auto simp: d)
  then show ?thesis
    unfolding salsa208_def salsa_core_def salsa_add_def by (subst length_concat_const [where n = 4]) auto
qed

lemma mix_loop_size: "length (mix_loop B X is) = length is \<and> (\<forall>y\<in>set (mix_loop B X is). length y = 64)"
  by (induction "is" arbitrary: X) (auto simp: Let_def)

lemma length_blockMix:
  assumes "0 < r"
  shows "length (blockMix B r) = 128 * r"
proof -
  let ?Y = "mix_loop B (slice ((2 * r - 1) * 64) (2 * r * 64) B) [0..<2 * r]"
  have y: "length (?Y ! i) = 64" if "i < 2 * r" for i
    using that mix_loop_size [of B "slice ((2 * r - 1) * 64) (2 * r * 64) B" "[0..<2 * r]"] by simp
  have "length (concat (map (\<lambda>i. ?Y ! (2 * i)) [0..<r])) = 64 * r"
    "length (concat (map (\<lambda>i. ?Y ! (2 * i + 1)) [0..<r])) = 64 * r"
    using y by (subst length_concat_const [where n = 64]; auto)+
  then show ?thesis by (simp add: blockMix_def Let_def)
qed

lemma smix_fill_size:
  "0 < r \<Longrightarrow> length X = 128 * r \<Longrightarrow> smix_fill r n X = (V, X') \<Longrightarrow>
   length V = n \<and> length X' = 128 * r \<and> (\<forall>x\<in>set V. length x = 128 * r)"
proof (induction n arbitrary: X V X')
  case (Suc n)
  obtain V1 X1 where f: "smix_fill r n (blockMix X r) = (V1, X1)" by fastforce
  then show ?case using Suc.IH [OF Suc.prems(1) length_blockMix [OF Suc.prems(1)] f] Suc.prems by auto
qed auto

lemma smix_mix_size: "0 < r \<Longrightarrow> length X = 128 * r \<Longrightarrow> length (smix_mix r N V n X) = 128 * r"
  by (induction n arbitrary: X) (auto simp: Let_def length_blockMix)

lemma length_smix: "0 < r \<Longrightarrow> length B = 128 * r \<Longrightarrow> length (smix B r N) = 128 * r"
  using smix_fill_size [of r B N] smix_mix_size [of r] unfolding smix_def Let_def split_def
  by (metis prod.collapse)

lemma length_pbkdf2_iter: "\<forall>m. length (mac pw m) = 32 \<Longrightarrow> length t = 32 \<Longrightarrow> length (pbkdf2_iter mac pw n u t) = 32"
  by (induction n arbitrary: u t) (auto simp: Let_def)

lemma length_pbkdf2Key:
  assumes "\<forall>m. length (mac password m) = 32" and "0 < iter"
  shows "\<exists>k. pbkdf2Key mac password salt iter keyLen = Some k \<and> length k = keyLen"
proof -
  let ?n = "(31 + keyLen) div 32"
  let ?blk = "\<lambda>b. let u = mac password (salt @ be32 b) in pbkdf2_iter mac password (iter - 1) u u"
  have "length (concat (map ?blk [1..<Suc ?n])) = 32 * ?n"
    using length_pbkdf2_iter [of mac password] assms(1)
    by (subst length_concat_const [where n = 32]) (auto simp: Let_def simp del: upt_Suc)
  moreover have "keyLen \<le> 32 * ?n" by linarith
  ultimately show ?thesis using assms(2)
    by (auto simp: pbkdf2Key_def Let_def simp del: upt_Suc)
qed

lemma hkdf_loop_length:
  assumes "\<forall>m. 0 < length (mac prk m)"
  shows "len \<le> fuel + length okm \<Longrightarrow>
     \<exists>k. hkdf_loop mac prk info len fuel okm previous counter = Some k \<and> length k = len"
proof (induction fuel arbitrary: okm previous counter)
  case 0
  then show ?case by (subst hkdf_loop.simps) auto
next
  case (Suc n)
  show ?case
  proof (cases "length okm < len")
    case True
    let ?p = "mac prk (previous @ info @ [char_of counter])"
    have "0 < length ?p" using assms by blast
    then have "len \<le> n + length (okm @ ?p)" using Suc.prems unfolding length_append by linarith
    from Suc.IH [OF this] show ?thesis using True by (subst hkdf_loop.simps) (simp add: Let_def)
  next
    case False
    then show ?thesis by (subst hkdf_loop.simps) auto
  qed
qed

lemma salsa_step_involution:
  assumes "d \<noteq> a" and "d \<noteq> b"
  shows "salsa_step (d, a, b, k) (salsa_step (d, a, b, k) z) = z"
  using assms by (cases "d < length z") (simp_all add: salsa_step_def xor.assoc list_update_beyond)

lemma scryptKey_Inr:
  assumes "1 < N" and "N AND (N - 1) = 0" and "N \<le> 2 ^ 24" and "0 < r" and "0 < p" and "r * p < 2 ^ 30"
    and "0 < keyLen"
  shows "\<exists>key. scryptKey mac password salt N r p keyLen = Inr key"
proof -
  have "0 \<le> r * p" using assms by simp
  then have "r * p mod 2 ^ 64 = r * p" using assms(6) by (intro mod_pos_pos_trivial) auto
  then show ?thesis using assms by (simp add: scryptKey_def Let_def)
qed

section \<open>The function of RFC 7914\<close>

text \<open>
  The reference: the Salsa20 specification's quarter rounds on columns and rows, and the algorithms
  \<open>scryptBlockMix\<close>, \<open>scryptROMix\<close> and \<open>scrypt\<close> of RFC 7914, over little-endian numbers, with \<open>mod N\<close> of
  the whole last block and with the tables as functions of the index.
\<close>

fun le_nat :: "bytes \<Rightarrow> nat" where
  "le_nat [] = 0"
| "le_nat (b # bs) = of_char b + 256 * le_nat bs"

definition le_bytes :: "nat \<Rightarrow> nat \<Rightarrow> bytes" where
  "le_bytes n x = map (\<lambda>i. char_of (x div 256 ^ i)) [0..<n]"

definition quarterround :: "32 word \<Rightarrow> 32 word \<Rightarrow> 32 word \<Rightarrow> 32 word \<Rightarrow> 32 word \<times> 32 word \<times> 32 word \<times> 32 word" where
  "quarterround y0 y1 y2 y3 =
     (let z1 = y1 XOR word_rotl 7 (y0 + y3); z2 = y2 XOR word_rotl 9 (z1 + y0);
          z3 = y3 XOR word_rotl 13 (z2 + z1); z0 = y0 XOR word_rotl 18 (z3 + z2)
      in (z0, z1, z2, z3))"

definition columnround :: "32 word list \<Rightarrow> 32 word list" where
  "columnround x = (case x of [x0, x1, x2, x3, x4, x5, x6, x7, x8, x9, x10, x11, x12, x13, x14, x15] \<Rightarrow>
       (let (y0, y4, y8, y12) = quarterround x0 x4 x8 x12;
            (y5, y9, y13, y1) = quarterround x5 x9 x13 x1;
            (y10, y14, y2, y6) = quarterround x10 x14 x2 x6;
            (y15, y3, y7, y11) = quarterround x15 x3 x7 x11
        in [y0, y1, y2, y3, y4, y5, y6, y7, y8, y9, y10, y11, y12, y13, y14, y15])
     | _ \<Rightarrow> x)"

definition rowround :: "32 word list \<Rightarrow> 32 word list" where
  "rowround y = (case y of [y0, y1, y2, y3, y4, y5, y6, y7, y8, y9, y10, y11, y12, y13, y14, y15] \<Rightarrow>
       (let (z0, z1, z2, z3) = quarterround y0 y1 y2 y3;
            (z5, z6, z7, z4) = quarterround y5 y6 y7 y4;
            (z10, z11, z8, z9) = quarterround y10 y11 y8 y9;
            (z15, z12, z13, z14) = quarterround y15 y12 y13 y14
        in [z0, z1, z2, z3, z4, z5, z6, z7, z8, z9, z10, z11, z12, z13, z14, z15])
     | _ \<Rightarrow> y)"

definition rfc_Salsa8 :: "bytes \<Rightarrow> bytes" where
  "rfc_Salsa8 B =
     (let x = map (\<lambda>i. of_nat (le_nat (slice (4 * i) (4 * i + 4) B))) [0..<16];
          z = ((rowround \<circ> columnround) ^^ 4) x
      in concat (map (\<lambda>i. le_bytes 4 (unat (z ! i + x ! i))) [0..<16]))"

definition rfc_block :: "bytes \<Rightarrow> nat \<Rightarrow> bytes" where
  "rfc_block B i = slice (64 * i) (64 * i + 64) B"

text \<open>The chaining value before step \<open>i\<close>; the output block of step \<open>i\<close> is the value after it.\<close>

fun rfc_X :: "bytes \<Rightarrow> nat \<Rightarrow> nat \<Rightarrow> bytes" where
  "rfc_X B r 0 = rfc_block B (2 * r - 1)"
| "rfc_X B r (Suc i) = rfc_Salsa8 (xorBytes (rfc_X B r i) (rfc_block B i))"

definition rfc_BlockMix :: "nat \<Rightarrow> bytes \<Rightarrow> bytes" where
  "rfc_BlockMix r B =
     concat (map (\<lambda>i. rfc_X B r (Suc i)) (filter even [0..<2 * r] @ filter odd [0..<2 * r]))"

definition rfc_Integerify :: "nat \<Rightarrow> bytes \<Rightarrow> nat" where
  "rfc_Integerify r B = le_nat (rfc_block B (2 * r - 1))"

definition rfc_ROMix :: "nat \<Rightarrow> nat \<Rightarrow> bytes \<Rightarrow> bytes" where
  "rfc_ROMix r N B =
     (let V = (\<lambda>i. (rfc_BlockMix r ^^ i) B)
      in ((\<lambda>X. rfc_BlockMix r (xorBytes X (V (rfc_Integerify r X mod N)))) ^^ N) (V N))"

text \<open>PBKDF2 of RFC 8018 with one iteration.\<close>

definition rfc_PBKDF2_1 :: "(bytes \<Rightarrow> bytes \<Rightarrow> bytes) \<Rightarrow> bytes \<Rightarrow> bytes \<Rightarrow> nat \<Rightarrow> bytes" where
  "rfc_PBKDF2_1 prf P S dkLen = take dkLen (concat (map (\<lambda>i. prf P (S @ be32 i)) [1..<Suc ((dkLen + 31) div 32)]))"

definition rfc_scrypt :: "(bytes \<Rightarrow> bytes \<Rightarrow> bytes) \<Rightarrow> bytes \<Rightarrow> bytes \<Rightarrow> nat \<Rightarrow> nat \<Rightarrow> nat \<Rightarrow> nat \<Rightarrow> bytes" where
  "rfc_scrypt prf P S N r p dkLen =
     (let B = rfc_PBKDF2_1 prf P S (p * 128 * r)
      in rfc_PBKDF2_1 prf P (concat (map (\<lambda>i. rfc_ROMix r N (slice (i * 128 * r) ((i + 1) * 128 * r) B)) [0..<p])) dkLen)"

section \<open>The code computes it\<close>

lemma rotl_word: "0 < k \<Longrightarrow> k < 32 \<Longrightarrow> bitsRotateLeft32 x k = word_rotl k x"
proof (rule bit_word_eqI)
  fix n assume k: "0 < k" "k < 32" and n: "n < LENGTH(32)"
  show "bit (bitsRotateLeft32 x k) n = bit (word_rotl k x) n"
  proof (cases "k \<le> n")
    case True
    then have "(n + 32 - k) mod 32 = n - k" "\<not> bit x (32 + n - k)"
      using k n by (auto simp: mod_if dest: bit_imp_le_length)
    then show ?thesis using k n True by (simp add: bitsRotateLeft32_def bit_simps)
  next
    case False
    then have "(n + 32 - k) mod 32 = 32 + n - k" using k n by simp
    then show ?thesis using k n False by (simp add: bitsRotateLeft32_def bit_simps)
  qed
qed

lemma column_steps:
  assumes "length z = 16"
  shows "fold salsa_step (take 16 salsa_steps) z = columnround z"
proof -
  obtain x0 x1 x2 x3 x4 x5 x6 x7 x8 x9 x10 x11 x12 x13 x14 x15 where
    z: "z = [x0, x1, x2, x3, x4, x5, x6, x7, x8, x9, x10, x11, x12, x13, x14, x15]"
    using assms by (auto simp: length_Suc_conv numeral_eq_Suc)
  show ?thesis
    by (simp add: z salsa_steps_def salsa_step_def columnround_def quarterround_def rotl_word Let_def)
qed

lemma row_steps:
  assumes "length z = 16"
  shows "fold salsa_step (drop 16 salsa_steps) z = rowround z"
proof -
  obtain x0 x1 x2 x3 x4 x5 x6 x7 x8 x9 x10 x11 x12 x13 x14 x15 where
    z: "z = [x0, x1, x2, x3, x4, x5, x6, x7, x8, x9, x10, x11, x12, x13, x14, x15]"
    using assms by (auto simp: length_Suc_conv numeral_eq_Suc)
  show ?thesis
    by (simp add: z salsa_steps_def salsa_step_def rowround_def quarterround_def rotl_word Let_def)
qed

lemma length_fold_steps [simp]: "length (fold salsa_step ss z) = length z"
  by (induction ss arbitrary: z) (auto simp: salsa_step_def)

lemma double_round_spec: "length z = 16 \<Longrightarrow> double_round z = rowround (columnround z)"
proof -
  assume z: "length z = 16"
  have l: "length (columnround z) = 16" using z by (simp add: length_fold_steps flip: column_steps)
  have "double_round z = fold salsa_step (drop 16 salsa_steps) (fold salsa_step (take 16 salsa_steps) z)"
    unfolding double_round_def by (metis append_take_drop_id fold_append comp_apply)
  then show ?thesis using column_steps [OF z] row_steps [OF l] by simp
qed

lemma rounds_spec: "length z = 16 \<Longrightarrow> (double_round ^^ n) z = ((rowround \<circ> columnround) ^^ n) z \<and> length ((double_round ^^ n) z) = 16"
  by (induction n) (auto simp: double_round_spec [symmetric], auto simp: double_round_def)

lemma or_shift: "b < 256 \<Longrightarrow> (of_nat b :: 'a::len word) OR push_bit 8 w = of_nat b + 256 * w"
proof -
  assume b: "b < 256"
  have "(of_nat b :: 'a word) AND push_bit 8 w = 0"
  proof (rule bit_word_eqI)
    fix n
    have "\<not> bit b n" if "8 \<le> n" using b that by (metis bit_take_bit_iff leD take_bit_nat_eq_self_iff[of 8 b, simplified])
    then show "bit ((of_nat b :: 'a word) AND push_bit 8 w) n = bit (0 :: 'a word) n" by (auto simp: bit_simps)
  qed
  then have "(of_nat b :: 'a word) OR push_bit 8 w = of_nat b + push_bit 8 w" by (simp add: disjunctive_add_eq_or)
  then show ?thesis by (simp add: push_bit_eq_mult mult.commute)
qed

lemma le_word_nat: "le_word bs = (of_nat (le_nat bs) :: 'a::len word)"
  by (induction bs) (simp_all add: or_shift)

lemma PutUint32_nat: "PutUint32 w = le_bytes 4 (unat w)"
proof -
  have "(char_of (unat (drop_bit (8 * i) w AND 255)) :: char) = char_of (unat w div 256 ^ i)" for i
  proof -
    have "drop_bit (8 * i) w AND 255 = take_bit 8 (drop_bit (8 * i) w)" by (simp add: take_bit_eq_mask mask_eq_exp_minus_1)
    then have "unat (drop_bit (8 * i) w AND 255) = unat w div 2 ^ (8 * i) mod 256"
      by (simp only: unsigned_take_bit_eq unat_drop_bit_eq) (simp add: take_bit_eq_mod drop_bit_eq_div)
    then show ?thesis by (simp add: power_mult)
  qed
  then show ?thesis by (simp add: PutUint32_def le_bytes_def)
qed


text \<open>The code's core on bytes.\<close>

lemma zip_nth_concat:
  "length a = n \<Longrightarrow> length b = n \<Longrightarrow> concat (map (\<lambda>(x, y). f x y) (zip a b)) = concat (map (\<lambda>i. f (a ! i) (b ! i)) [0..<n])"
  by (rule arg_cong [where f = concat]) (auto intro: nth_equalityI)

lemma salsa208_spec: "salsa208 = rfc_Salsa8"
proof
  fix B
  let ?x = "map (\<lambda>i. Uint32 (drop (i * 4) B)) [0..<16]"
  have x: "?x = map (\<lambda>i. of_nat (le_nat (slice (4 * i) (4 * i + 4) B))) [0..<16]"
    by (simp add: Uint32_def le_word_nat slice_def mult.commute)
  have l: "length ?x = 16" by simp
  have "salsa208 B = concat (map (\<lambda>i. le_bytes 4 (unat ((double_round ^^ 4) ?x ! i + ?x ! i))) [0..<16])"
    unfolding salsa208_def salsa_core_def salsa_add_def PutUint32_nat using rounds_spec [OF l, of 4] l by (intro zip_nth_concat) blast+
  also have "\<dots> = rfc_Salsa8 B"
    unfolding rfc_Salsa8_def Let_def x [symmetric] using rounds_spec [OF l, of 4] by simp
  finally show "salsa208 B = rfc_Salsa8 B" .
qed

lemma slice_block: "slice (i * 64) ((i + 1) * 64) B = rfc_block B i"
  by (simp add: rfc_block_def mult.commute add.commute)

lemma mix_loop_spec: "mix_loop B (rfc_X B r i) [i..<i + n] = map (\<lambda>m. rfc_X B r (Suc m)) [i..<i + n]"
proof (induction n arbitrary: i)
  case (Suc n)
  have u: "[i..<i + Suc n] = i # [Suc i..<Suc i + n]" by (simp add: upt_conv_Cons)
  have "rfc_X B r (Suc i) = salsa208 (xorBytes (rfc_X B r i) (slice (i * 64) ((i + 1) * 64) B))"
    unfolding slice_block salsa208_spec by simp
  then show ?case unfolding u using Suc.IH [of "Suc i"] by (simp add: Let_def del: rfc_X.simps)
qed simp

lemma filter_even_upt: "filter even [0..<2 * r] = map (\<lambda>i. 2 * i) [0..<r]" "filter odd [0..<2 * r] = map (\<lambda>i. 2 * i + 1) [0..<r]"
  by (induction r) auto

lemma blockMix_spec:
  assumes "0 < r"
  shows "blockMix B r = rfc_BlockMix r B"
proof -
  have "slice ((2 * r - 1) * 64) (2 * r * 64) B = rfc_X B r 0"
    using assms slice_block [of "2 * r - 1" B] by simp
  then have y: "mix_loop B (slice ((2 * r - 1) * 64) (2 * r * 64) B) [0..<2 * r] = map (\<lambda>m. rfc_X B r (Suc m)) [0..<2 * r]"
    using mix_loop_spec [of B r 0 "2 * r"] by simp
  have h: "map (\<lambda>i. map (\<lambda>m. rfc_X B r (Suc m)) [0..<2 * r] ! (2 * i)) [0..<r] = map (\<lambda>i. rfc_X B r (Suc (2 * i))) [0..<r]"
    "map (\<lambda>i. map (\<lambda>m. rfc_X B r (Suc m)) [0..<2 * r] ! (2 * i + 1)) [0..<r] = map (\<lambda>i. rfc_X B r (Suc (2 * i + 1))) [0..<r]"
    by (intro map_cong refl; simp del: rfc_X.simps)+
  show ?thesis unfolding blockMix_def rfc_BlockMix_def y filter_even_upt
    by (simp only: h Let_def map_append concat_append map_map comp_def)
qed

lemma smix_fill_spec: "0 < r \<Longrightarrow> smix_fill r n X = (map (\<lambda>i. (rfc_BlockMix r ^^ i) X) [0..<n], (rfc_BlockMix r ^^ n) X)"
proof (induction n arbitrary: X)
  case (Suc n)
  have "map (\<lambda>i. (rfc_BlockMix r ^^ i) X) [0..<Suc n] = X # map (\<lambda>i. (rfc_BlockMix r ^^ i) (rfc_BlockMix r X)) [0..<n]"
    by (simp add: map_upt_Suc funpow_swap1 del: upt_Suc)
  then show ?case using Suc by (simp add: blockMix_spec funpow_swap1 del: upt_Suc)
qed simp


text \<open>A number without a bit in common with its predecessor is a power of two.\<close>

lemma power_of_two:
  fixes N :: int
  shows "0 < N \<Longrightarrow> N AND (N - 1) = 0 \<Longrightarrow> \<exists>k. N = 2 ^ k"
proof (induction "nat N" arbitrary: N rule: less_induct)
  case less
  have r: "N AND (N - 1) = of_bool (odd N \<and> odd (N - 1)) + 2 * (N div 2 AND (N - 1) div 2)" by (rule and_int_rec)
  show ?case
  proof (cases "even N")
    case True
    then obtain M where M: "N = 2 * M" by blast
    have "(N - 1) div 2 = M - 1" using M by simp
    then have "M AND (M - 1) = 0" using r less.prems(2) M by simp
    then obtain k where "M = 2 ^ k" using less.hyps [of M] M less.prems(1) by auto
    then show ?thesis using M by (intro exI [of _ "Suc k"]) simp
  next
    case False
    then obtain M where M: "N = 2 * M + 1" by (metis oddE)
    then have "M = 0" using r less.prems(2) by simp
    then show ?thesis using M by (intro exI [of _ 0]) simp
  qed
qed

lemma le_nat_split: "le_nat xs mod 256 ^ n = le_nat (take n xs) \<and> le_nat (take n xs) < 256 ^ n"
proof (induction n arbitrary: xs)
  case (Suc n)
  show ?case
  proof (cases xs)
    case (Cons b bs)
    have c: "(of_char b :: nat) < 256" by simp
    have "(of_char b + 256 * le_nat bs) mod (256 * 256 ^ n) = of_char b + 256 * (le_nat bs mod 256 ^ n)"
      using c by (simp add: mod_mult2_eq)
    moreover have "of_char b + 256 * le_nat (take n bs) < 256 * 256 ^ n" using c Suc.IH [of bs] by linarith
    ultimately show ?thesis using Cons Suc.IH [of bs] by simp
  qed simp
qed simp

lemma table_index:
  assumes "k \<le> 24" and "0 < r"
  shows "unat (integerify X r AND of_nat (2 ^ k - 1)) = rfc_Integerify r X mod 2 ^ k"
proof -
  let ?l = "slice (64 * (2 * r - 1)) (64 * (2 * r - 1) + 64) X"
  have t: "take 8 (drop ((2 * r - 1) * 64) X) = take 8 ?l" by (simp add: slice_def mult.commute)
  have d: "le_nat (take 8 ?l) = le_nat ?l mod 2 ^ 64" using le_nat_split [of ?l 8] by simp
  have "integerify X r = of_nat (le_nat (take 8 ?l))" unfolding integerify_def Uint64_def t by (rule le_word_nat)
  then have i: "unat (integerify X r) = le_nat ?l mod 2 ^ 64" using d by (simp add: unat_of_nat)
  have "(of_nat (2 ^ k - 1) :: 64 word) = mask k" by (simp add: mask_eq_exp_minus_1 of_nat_diff)
  then have "unat (integerify X r AND of_nat (2 ^ k - 1)) = take_bit k (unat (integerify X r))"
    by (simp add: unsigned_take_bit_eq flip: take_bit_eq_mask)
  also have "\<dots> = le_nat ?l mod 2 ^ k"
    unfolding i take_bit_eq_mod using assms(1) by (intro mod_mod_cancel le_imp_power_dvd) simp
  finally show ?thesis by (simp add: rfc_Integerify_def rfc_block_def)
qed

lemma smix_mix_spec:
  assumes "0 < r" and "\<And>Y. V ! unat (integerify Y r AND of_nat (N - 1)) = W (rfc_Integerify r Y mod N)"
  shows "smix_mix r N V n X = ((\<lambda>X. rfc_BlockMix r (xorBytes X (W (rfc_Integerify r X mod N)))) ^^ n) X"
proof -
  define F where "F = (\<lambda>X. rfc_BlockMix r (xorBytes X (W (rfc_Integerify r X mod N))))"
  have "smix_mix r N V (Suc n) X = smix_mix r N V n (F X)" for n X
    by (simp add: Let_def assms(2) blockMix_spec [OF assms(1)] F_def del: One_nat_def)
  then have "smix_mix r N V n X = (F ^^ n) X" for n X
    by (induction n arbitrary: X) (simp_all add: funpow_swap1 del: smix_mix.simps(2))
  then show ?thesis by (simp add: F_def)
qed

lemma smix_spec:
  assumes "0 < r" and "k \<le> 24"
  shows "smix B r (2 ^ k) = rfc_ROMix r (2 ^ k) B"
proof -
  let ?W = "\<lambda>i. (rfc_BlockMix r ^^ i) B"
  have "map ?W [0..<2 ^ k] ! unat (integerify Y r AND of_nat (2 ^ k - 1)) = ?W (rfc_Integerify r Y mod 2 ^ k)" for Y
    unfolding table_index [OF assms(2,1)] by simp
  from smix_mix_spec [OF assms(1) this] show ?thesis
    by (simp add: smix_def smix_fill_spec [OF assms(1)] rfc_ROMix_def Let_def)
qed


lemma pbkdf2_spec: "pbkdf2Key mac pw salt 1 n = Some (rfc_PBKDF2_1 mac pw salt n)"
  by (simp add: pbkdf2Key_def rfc_PBKDF2_1_def Let_def add.commute del: upt_Suc)

lemma scryptKey_spec:
  assumes "1 < N" and "N AND (N - 1) = 0" and "N \<le> 2 ^ 24" and "0 < r" and "0 < p" and "r * p < 2 ^ 30" and "0 < keyLen"
  shows "scryptKey mac password salt N r p keyLen = Inr (rfc_scrypt mac password salt (nat N) (nat r) (nat p) (nat keyLen))"
proof -
  obtain k where k: "N = 2 ^ k" using power_of_two [of N] assms(1,2) by auto
  have k24: "k \<le> 24" using assms(3) k power_increasing_iff [of "2::int" k 24] by simp
  have n: "nat N = 2 ^ k" unfolding k by (simp add: nat_power_eq)
  have "0 \<le> r * p" using assms by simp
  then have m: "\<not> 2 ^ 30 \<le> (r * p) mod 2 ^ 64" using assms(6) by (subst mod_pos_pos_trivial) auto
  have pr: "nat (p * 128 * r) = nat p * 128 * nat r" using assms(4,5) by (simp add: nat_mult_distrib)
  have "0 < nat r" using assms(4) by simp
  note sm = smix_spec [OF this k24]
  show ?thesis
    using assms(1-5,7) m by (simp add: scryptKey_def rfc_scrypt_def pbkdf2_spec Let_def sm n pr del: One_nat_def)
qed

section \<open>Properties\<close>

text \<open>The states of the core on the test vector of the specification, round by round.\<close>

definition vector_state0 :: "32 word list" where
  "vector_state0 =
     [0x219a877e, 0x86c93e4f, 0xe640a97c, 0x268f7141,
      0x5b55eeba, 0xb5c1618c, 0x1146f80d, 0x1d3bcd6d,
      0x19f324ee, 0x853d9bdf, 0x4b1e1214, 0x32aac55a,
      0x291d0276, 0x2948c709, 0x8dc6ebed, 0x5ec2b8b8]"

definition vector_state1 :: "32 word list" where
  "vector_state1 =
     [0x482665b1, 0xe6b639e8, 0x5528d0b6, 0x7163bf72,
      0x93580e01, 0x0c50b5fd, 0xea23785c, 0xead125ec,
      0xf701a95d, 0xd590a7ea, 0x209aedeb, 0x965705b9,
      0xd6e1a597, 0x6f4dbdbc, 0x53299386, 0x10a42604]"

definition vector_state2 :: "32 word list" where
  "vector_state2 =
     [0xe9e67835, 0x5a0e63c0, 0x85bf1cf2, 0xbce03a58,
      0x95e02c9d, 0x10a33116, 0x91024ee3, 0xa399c709,
      0x678d68da, 0x70e69077, 0x3dffe364, 0xc393c734,
      0xf3fc17d5, 0x8805fb7c, 0x4e709f83, 0x64b0ce84]"

definition vector_state3 :: "32 word list" where
  "vector_state3 =
     [0x28f2a180, 0x5e3bb01c, 0x03040a5c, 0x69e5ea6b,
      0x997f9f3c, 0x1c650ad9, 0x9a28760a, 0x1c5778b3,
      0x89e18946, 0x5055ce7c, 0x3fec3108, 0x20123a83,
      0x764c0e51, 0x44dda9f5, 0xf8616b01, 0x5632c6dc]"

definition vector_state4 :: "32 word list" where
  "vector_state4 =
     [0x7aea9826, 0x1302ca17, 0xe589d7bf, 0xdf5f9ac1,
      0x25cb5c4a, 0xc7729c16, 0x51d583f0, 0x0bf39b29,
      0x4e3e14c6, 0x37a92e04, 0x6ca759ea, 0x87eba846,
      0xe7af226e, 0x332bca23, 0xafa0c137, 0x22cca90f]"

lemma vector_round1: "double_round vector_state0 = vector_state1"
  by code_simp

lemma vector_round2: "double_round vector_state1 = vector_state2"
  by code_simp

lemma vector_round3: "double_round vector_state2 = vector_state3"
  by code_simp

lemma vector_round4: "double_round vector_state3 = vector_state4"
  by code_simp

definition vector_input :: bytes where
  "vector_input = map char_of [126, 135, 154, 33, 79, 62, 201, 134, 124, 169, 64, 230, 65, 113, 143, 38,
      186, 238, 85, 91, 140, 97, 193, 181, 13, 248, 70, 17, 109, 205, 59, 29,
      238, 36, 243, 25, 223, 155, 61, 133, 20, 18, 30, 75, 90, 197, 170, 50,
      118, 2, 29, 41, 9, 199, 72, 41, 237, 235, 198, 141, 184, 184, 194, 94 :: nat]"

definition vector_output :: bytes where
  "vector_output = map char_of [164, 31, 133, 156, 102, 8, 204, 153, 59, 129, 202, 203, 2, 12, 239, 5,
      4, 75, 33, 129, 162, 253, 51, 125, 253, 123, 28, 99, 150, 104, 47, 41,
      180, 57, 49, 104, 227, 201, 230, 188, 254, 107, 197, 183, 160, 109, 150, 186,
      228, 36, 204, 16, 44, 145, 116, 92, 36, 173, 103, 61, 199, 97, 143, 129 :: nat]"

lemma four_rounds: "(f ^^ 4) x = f (f (f (f x)))"
  by (simp add: numeral_eq_Suc)

lemma vector_decode: "map (\<lambda>i. Uint32 (drop (i * 4) vector_input)) [0..<16] = vector_state0"
  by (simp add: vector_input_def vector_state0_def Uint32_def upt_rec)

lemma vector_encode: "salsa_add vector_state4 vector_state0 = vector_output"
  by (simp add: salsa_add_def PutUint32_def vector_state4_def vector_state0_def vector_output_def upt_rec)

text \<open>
  The Salsa20/8 core computes the function of the scrypt specification: it agrees with the
  test vector of RFC 7914, section 8.
\<close>

theorem salsa208_test_vector: "salsa208 vector_input = vector_output"
  unfolding salsa208_def vector_decode salsa_core_def four_rounds vector_round1 vector_round2
    vector_round3 vector_round4 by (rule vector_encode)

text \<open>
  C35.  The code's scrypt is the function of RFC 7914.  For every admissible choice of the parameters the call
  returns, and the key is what \<open>scrypt\<close> of the RFC gives with the same HMAC: \<open>PBKDF2\<close> with one iteration,
  \<open>ROMix\<close> on each of the \<open>p\<close> blocks with the table index taken as the whole last block, a little-endian
  number, \<open>mod N\<close>, \<open>BlockMix\<close> in the even-then-odd order, and Salsa20/8 as quarter rounds on columns and
  rows; and it has exactly the requested length.
\<close>

theorem scryptKey_is_rfc7914:
  assumes "\<forall>k m. length (mac k m) = 32"
    and "1 < N" and "N AND (N - 1) = 0" and "N \<le> 2 ^ 24" and "0 < r" and "0 < p" and "r * p < 2 ^ 30"
    and "0 < keyLen"
  shows "scryptKey mac password salt N r p keyLen = Inr (rfc_scrypt mac password salt (nat N) (nat r) (nat p) (nat keyLen))
    \<and> length (rfc_scrypt mac password salt (nat N) (nat r) (nat p) (nat keyLen)) = nat keyLen"
proof
  show "length (rfc_scrypt mac password salt (nat N) (nat r) (nat p) (nat keyLen)) = nat keyLen"
    using length_pbkdf2Key [of mac password 1 _ "nat keyLen"] assms(1) unfolding rfc_scrypt_def Let_def pbkdf2_spec by simp
qed (rule scryptKey_spec [OF assms(2-8)])

theorem scryptKey_is_rfc7914_witness:
  "\<exists>key. scryptKey (\<lambda>k m. replicate 32 (CHR ''x'')) ''pw'' ''salt'' 32768 8 1 32 = Inr key \<and> length key = 32
     \<and> key = rfc_scrypt (\<lambda>k m. replicate 32 (CHR ''x'')) ''pw'' ''salt'' 32768 8 1 32"
  using scryptKey_is_rfc7914 [of "\<lambda>k m. replicate 32 (CHR ''x'')" 32768 8 1 32 "''pw''" "''salt''"] by simp

end
