(* ===== verification/Config.thy ===== *)
theory Config
  imports ChunkStore Scrypt
begin

text \<open>
  The vault configuration of \<^verbatim>\<open>internal/vault/vault.go\<close> and the key handling of \<^verbatim>\<open>crypto.go\<close>: the
  records of \<^verbatim>\<open>vault.json\<close>, normalisation, range check and strength floor of the key derivation
  parameters, wrapping and unwrapping of the key bundle, and unlocking with a password or a
  recovery secret.  scrypt and PBKDF2 are the repository's own code (theory Scrypt); Argon2id
  is vendored code and a function of the record \<open>kdf_env\<close>, together with base64 and HMAC.
\<close>

section \<open>Records\<close>

record KDFConfig =
  Algorithm :: string
  Iterations :: int
  Salt :: string
  ScryptN :: int
  ScryptR :: int
  ScryptP :: int
  MemoryKiB :: int
  Time :: int
  Parallelism :: int

record CryptoConfig =
  KeyWrap :: string
  ce_ChunkAEAD :: string
  ce_IndexAEAD :: string
  ObjectID :: string
  ce_Chunker :: string
  StorageMode :: string
  ManifestMode :: string
  ManifestShards :: int
  DirIDEpoch :: int

record WrapEntry =
  we_ID :: string
  we_Type :: string
  we_KDF :: KDFConfig
  we_Nonce :: string
  we_CT :: string
  we_AAD :: string

record VaultConfig =
  Version :: int
  MinReader :: int
  FormatEpoch :: int
  VaultID :: string
  CreatedAt :: string
  KDF :: KDFConfig
  Crypto :: CryptoConfig
  Chunk :: ChunkParams
  WrappedKeys :: string
  WrapNonce :: string
  WrapEntries :: "WrapEntry list"
  ConfigTag :: string

definition WrapTypePassword :: string where "WrapTypePassword = ''password''"
definition WrapTypeRecovery :: string where "WrapTypeRecovery = ''recovery''"
definition keySize :: nat where "keySize = 32"
definition wrapAAD :: string where "wrapAAD = ''seavault-wrap-v1''"

section \<open>Key derivation parameters\<close>

record kdf_env =
  hmac256 :: "bytes \<Rightarrow> bytes \<Rightarrow> bytes"
  argon2_IDKey :: "bytes \<Rightarrow> bytes \<Rightarrow> int \<Rightarrow> int \<Rightarrow> int \<Rightarrow> nat \<Rightarrow> bytes"  \<comment> \<open>time, memory, threads, key length\<close>
  b64enc :: "bytes \<Rightarrow> string"
  b64dec :: "string \<Rightarrow> bytes option"
  hexenc :: "bytes \<Rightarrow> string"

definition empty_kdf :: KDFConfig where
  "empty_kdf = \<lparr>Algorithm = '''', Iterations = 0, Salt = '''', ScryptN = 0, ScryptR = 0, ScryptP = 0,
     MemoryKiB = 0, Time = 0, Parallelism = 0\<rparr>"

definition DefaultKDFConfig :: KDFConfig where
  "DefaultKDFConfig = empty_kdf\<lparr>Algorithm := ''ARGON2ID'', Time := 3, MemoryKiB := 64 * 1024, Parallelism := 4\<rparr>"

definition normalizeKDF :: "string \<Rightarrow> string" where
  "normalizeKDF name = replace_char CHR ''_'' CHR ''-'' (ToLower (TrimSpace name))"

datatype kdf_alg = Argon2id | ScryptAlg | Pbkdf2 | UnknownAlg

text \<open>The case labels of the switches over the normalised name.\<close>

definition kdf_alg_of :: "string \<Rightarrow> kdf_alg" where
  "kdf_alg_of name =
     (let a = normalizeKDF name
      in if a = ''argon2id'' \<or> a = ''argon2-id'' then Argon2id
         else if a = ''scrypt'' then ScryptAlg
         else if a = ''pbkdf2'' \<or> a = ''pbkdf2-hmac-sha256'' then Pbkdf2
         else UnknownAlg)"

definition maxScryptMemory :: int where "maxScryptMemory = 4 * 2 ^ 30"

definition checkKDFRange :: "KDFConfig \<Rightarrow> error option" where
  "checkKDFRange cfg =
     (case kdf_alg_of (Algorithm cfg) of
        Argon2id \<Rightarrow>
          if Time cfg < 1 \<or> Time cfg > 100 then Some (ErrKDFParamsOutOfRange ''argon2id time'')
          else if MemoryKiB cfg < 1 \<or> MemoryKiB cfg > 4 * 1024 * 1024
          then Some (ErrKDFParamsOutOfRange ''argon2id memoryKiB'')
          else None
      | ScryptAlg \<Rightarrow>
          if ScryptN cfg < 2 \<or> ScryptR cfg < 1 \<or> ScryptP cfg < 1 \<or> ScryptP cfg > 16
          then Some (ErrKDFParamsOutOfRange ''scrypt N r p'')
          else if ScryptR cfg > maxScryptMemory div 128 \<or> ScryptN cfg > maxScryptMemory div 128 div ScryptR cfg
          then Some (ErrKDFParamsOutOfRange ''scrypt N r memory'')
          else if ScryptP cfg > maxScryptMemory div 128 div ScryptR cfg
          then Some (ErrKDFParamsOutOfRange ''scrypt r p memory'')
          else None
      | Pbkdf2 \<Rightarrow>
          if Iterations cfg < 1 \<or> Iterations cfg > 100000000
          then Some (ErrKDFParamsOutOfRange ''pbkdf2 iterations'')
          else None
      | UnknownAlg \<Rightarrow> None)"

definition NormalizeKDFConfig :: "kdf_env \<Rightarrow> KDFConfig \<Rightarrow> bool \<Rightarrow> error + KDFConfig" where
  "NormalizeKDFConfig ke cfg0 creating =
     (let cfg1 = (if normalizeKDF (Algorithm cfg0) = '''' then DefaultKDFConfig else cfg0);
          salt = Salt cfg1;
          finish = (\<lambda>c. let c' = c\<lparr>Salt := salt\<rparr>
                        in if \<not> creating \<and> Salt c' = '''' then Inl (EMsg ''vault KDF salt is missing'') else Inr c')
      in case kdf_alg_of (Algorithm cfg1) of
           Argon2id \<Rightarrow>
             (let t = (if Time cfg1 \<le> 0 then 3 else Time cfg1);
                  mem = (if MemoryKiB cfg1 \<le> 0 then 64 * 1024 else MemoryKiB cfg1);
                  par = (if Parallelism cfg1 \<le> 0 then 4 else Parallelism cfg1)
              in if par > 255 then Inl (EMsg ''argon2id parallelism must be <= 255'')
                 else finish (cfg1\<lparr>Time := t, MemoryKiB := (if mem < 8 * par then 8 * par else mem),
                        Parallelism := par, Algorithm := ''ARGON2ID'', Iterations := 0, ScryptN := 0,
                        ScryptR := 0, ScryptP := 0\<rparr>))
         | ScryptAlg \<Rightarrow>
             (let c = cfg1\<lparr>ScryptN := (if ScryptN cfg1 = 0 then 32768 else ScryptN cfg1),
                           ScryptR := (if ScryptR cfg1 = 0 then 8 else ScryptR cfg1),
                           ScryptP := (if ScryptP cfg1 = 0 then 1 else ScryptP cfg1)\<rparr>
              in case checkKDFRange c of
                   Some e \<Rightarrow> Inl e
                 | None \<Rightarrow>
                     (case scryptKey (hmac256 ke) ''probe'' ''salt'' (ScryptN c) (ScryptR c) (ScryptP c) 1 of
                        Inl e \<Rightarrow> Inl e
                      | Inr _ \<Rightarrow> finish (c\<lparr>Algorithm := ''SCRYPT'', Iterations := 0, MemoryKiB := 0, Time := 0,
                          Parallelism := 0\<rparr>)))
         | Pbkdf2 \<Rightarrow>
             finish (cfg1\<lparr>Iterations := (if Iterations cfg1 \<le> 0 then 600000 else Iterations cfg1),
               Algorithm := ''PBKDF2-HMAC-SHA256'', ScryptN := 0, ScryptR := 0, ScryptP := 0, MemoryKiB := 0,
               Time := 0, Parallelism := 0\<rparr>)
         | UnknownAlg \<Rightarrow> Inl (EMsg (''unsupported KDF algorithm '' @ Algorithm cfg1)))"

definition ValidateKDFStrength :: "KDFConfig \<Rightarrow> error option" where
  "ValidateKDFStrength cfg =
     (case kdf_alg_of (Algorithm cfg) of
        Argon2id \<Rightarrow>
          if Parallelism cfg < 1 then Some (EMsg ''argon2id parallelism is below the minimum of 1'')
          else if \<not> (MemoryKiB cfg \<ge> 19456 \<and> Time cfg \<ge> 2 \<or> MemoryKiB cfg \<ge> 65536 \<and> Time cfg \<ge> 1)
          then Some (EMsg ''argon2id parameters too weak'')
          else None
      | ScryptAlg \<Rightarrow>
          if ScryptN cfg < 32768 then Some (EMsg ''scrypt N is below the minimum of 32768'')
          else if ScryptR cfg < 8 then Some (EMsg ''scrypt r is below the minimum of 8'')
          else None
      | Pbkdf2 \<Rightarrow>
          if Iterations cfg < 600000 then Some (EMsg ''pbkdf2 iterations is below the minimum of 600000'')
          else None
      | UnknownAlg \<Rightarrow> Some (EMsg (''unsupported KDF algorithm '' @ Algorithm cfg)))"

text \<open>\<^verbatim>\<open>raiseToFloor\<close> with the floor enforced, as in production.\<close>

definition raiseToFloor :: "kdf_env \<Rightarrow> KDFConfig \<Rightarrow> error + KDFConfig" where
  "raiseToFloor ke base =
     (case NormalizeKDFConfig ke base True of
        Inl e \<Rightarrow> Inl e
      | Inr n \<Rightarrow>
          if ValidateKDFStrength n = None then Inr base
          else case kdf_alg_of (Algorithm n) of
                 ScryptAlg \<Rightarrow> Inr (empty_kdf\<lparr>Algorithm := ''SCRYPT'', ScryptN := max (ScryptN n) 32768,
                   ScryptR := max (ScryptR n) 8, ScryptP := max (ScryptP n) 1, Salt := Salt base\<rparr>)
               | Pbkdf2 \<Rightarrow> Inr (empty_kdf\<lparr>Algorithm := ''PBKDF2-HMAC-SHA256'',
                   Iterations := max (Iterations n) 600000, Salt := Salt base\<rparr>)
               | _ \<Rightarrow> Inr (empty_kdf\<lparr>Algorithm := ''ARGON2ID'', Time := max (Time n) 3,
                   MemoryKiB := max (MemoryKiB n) (64 * 1024), Parallelism := max (Parallelism n) 1,
                   Salt := Salt base\<rparr>))"

definition deriveWrapKey :: "kdf_env \<Rightarrow> string \<Rightarrow> KDFConfig \<Rightarrow> error + bytes" where
  "deriveWrapKey ke password cfg0 =
     (case NormalizeKDFConfig ke cfg0 False of
        Inl e \<Rightarrow> Inl e
      | Inr cfg \<Rightarrow>
          (case checkKDFRange cfg of
             Some e \<Rightarrow> Inl e
           | None \<Rightarrow>
               (case b64dec ke (Salt cfg) of
                  None \<Rightarrow> Inl (EMsg ''decode KDF salt'')
                | Some salt \<Rightarrow>
                    (case kdf_alg_of (Algorithm cfg) of
                       Pbkdf2 \<Rightarrow>
                         (case pbkdf2Key (hmac256 ke) password salt (nat (Iterations cfg)) keySize of
                            Some k \<Rightarrow> Inr k | None \<Rightarrow> Inl (EPanic ''PBKDF2 iteration count must be positive''))
                     | ScryptAlg \<Rightarrow>
                         scryptKey (hmac256 ke) password salt (ScryptN cfg) (ScryptR cfg) (ScryptP cfg) (int keySize)
                     | Argon2id \<Rightarrow>
                         Inr (argon2_IDKey ke password salt (Time cfg) (MemoryKiB cfg) (Parallelism cfg) keySize)
                     | UnknownAlg \<Rightarrow> Inl (EMsg ''unsupported KDF algorithm'')))))"

definition deriveSubkey :: "kdf_env \<Rightarrow> bytes \<Rightarrow> string \<Rightarrow> bytes option" where
  "deriveSubkey ke master info = hkdfSHA256 (hmac256 ke) master None info keySize"

section \<open>Wrapping the key bundle\<close>

definition newAESGCM :: "bytes \<Rightarrow> error + bytes" where
  "newAESGCM key = (if length key \<noteq> keySize then Inl (EMsg ''invalid AES key length'') else Inr key)"

definition wrapKeys :: "kdf_env \<Rightarrow> crypt \<Rightarrow> string \<Rightarrow> KDFConfig \<Rightarrow> Keys \<Rightarrow> (string \<times> string, 'z) io" where
  "wrapKeys ke cr password cfg ks =
     (if length (MasterKey ks) \<noteq> keySize \<or> length (IndexKey ks) \<noteq> keySize
      then io_fail (EMsg ''invalid key bundle'')
      else io_bind (io_lift (deriveWrapKey ke password cfg)) (\<lambda>wrapKey.
           io_bind (io_lift (newAESGCM wrapKey)) (\<lambda>aead.
           io_bind (randomBytes (NonceSize cr)) (\<lambda>nonce.
             io_ret (b64enc ke nonce, b64enc ke (aead_Seal cr aead nonce (MasterKey ks @ IndexKey ks) wrapAAD))))))"

text \<open>The common tail of \<^verbatim>\<open>unwrapKeys\<close> and \<^verbatim>\<open>unwrapEntry\<close>.\<close>

definition open_wrap :: "kdf_env \<Rightarrow> crypt \<Rightarrow> string \<Rightarrow> KDFConfig \<Rightarrow> string \<Rightarrow> string \<Rightarrow> bytes \<Rightarrow> error + Keys" where
  "open_wrap ke cr secret cfg nonceB64 ctB64 aad =
     (case b64dec ke nonceB64 of
        None \<Rightarrow> Inl (EMsg ''decode wrapped-key nonce'')
      | Some nonce \<Rightarrow>
          (case b64dec ke ctB64 of
             None \<Rightarrow> Inl (EMsg ''decode wrapped keys'')
           | Some ct \<Rightarrow>
               (case deriveWrapKey ke secret cfg of
                  Inl e \<Rightarrow> Inl e
                | Inr wrapKey \<Rightarrow>
                    (case newAESGCM wrapKey of
                       Inl e \<Rightarrow> Inl e
                     | Inr aead \<Rightarrow>
                         if length nonce \<noteq> NonceSize cr then Inl ErrWrongSecret
                         else (case aead_Open cr aead nonce ct aad of
                                 None \<Rightarrow> Inl ErrWrongSecret
                               | Some kb \<Rightarrow>
                                   if length kb \<noteq> 2 * keySize then Inl (EMsg ''unexpected key bundle length'')
                                   else Inr \<lparr>MasterKey = take keySize kb, IndexKey = drop keySize kb\<rparr>)))))"

definition unwrapKeys :: "kdf_env \<Rightarrow> crypt \<Rightarrow> string \<Rightarrow> KDFConfig \<Rightarrow> string \<Rightarrow> string \<Rightarrow> error + Keys" where
  "unwrapKeys ke cr password cfg nonceB64 ctB64 = open_wrap ke cr password cfg nonceB64 ctB64 wrapAAD"

definition wrapEntryAAD :: "WrapEntry \<Rightarrow> int \<Rightarrow> bytes" where
  "wrapEntryAAD e version = (if we_AAD e = '''' then wrapAAD else we_AAD e @ '':v'' @ show_int version)"

definition unwrapEntry :: "kdf_env \<Rightarrow> crypt \<Rightarrow> string \<Rightarrow> int \<Rightarrow> WrapEntry \<Rightarrow> error + Keys" where
  "unwrapEntry ke cr secret version e =
     open_wrap ke cr secret (we_KDF e) (we_Nonce e) (we_CT e) (wrapEntryAAD e version)"

section \<open>Unlocking\<close>

fun try_entries :: "kdf_env \<Rightarrow> crypt \<Rightarrow> string \<Rightarrow> int \<Rightarrow> string \<Rightarrow> WrapEntry list \<Rightarrow> (Keys \<times> string) option" where
  "try_entries ke cr secret version wantType [] = None"
| "try_entries ke cr secret version wantType (e # es) =
     (if we_Type e \<noteq> wantType then try_entries ke cr secret version wantType es
      else case unwrapEntry ke cr secret version e of
             Inr ks \<Rightarrow> Some (ks, we_ID e)
           | Inl _ \<Rightarrow> try_entries ke cr secret version wantType es)"

definition unlockWith :: "kdf_env \<Rightarrow> crypt \<Rightarrow> VaultConfig \<Rightarrow> string \<Rightarrow> string \<Rightarrow> error + Keys" where
  "unlockWith ke cr cfg secret wantType =
     (if WrapEntries cfg = [] then
        (if wantType \<noteq> WrapTypePassword then Inl ErrWrongSecret
         else unwrapKeys ke cr secret (KDF cfg) (WrapNonce cfg) (WrappedKeys cfg))
      else case try_entries ke cr secret (Version cfg) wantType (WrapEntries cfg) of
             Some (ks, _) \<Rightarrow> Inr ks
           | None \<Rightarrow>
               if wantType = WrapTypePassword \<and> WrappedKeys cfg \<noteq> '''' then
                 (case unwrapKeys ke cr secret (KDF cfg) (WrapNonce cfg) (WrappedKeys cfg) of
                    Inr ks \<Rightarrow> Inr ks | Inl _ \<Rightarrow> Inl ErrWrongSecret)
               else Inl ErrWrongSecret)"

definition recoveryEntryFor :: "kdf_env \<Rightarrow> crypt \<Rightarrow> VaultConfig \<Rightarrow> string \<Rightarrow> error + (Keys \<times> string)" where
  "recoveryEntryFor ke cr cfg secret =
     (case try_entries ke cr secret (Version cfg) WrapTypeRecovery (WrapEntries cfg) of
        Some r \<Rightarrow> Inr r | None \<Rightarrow> Inl ErrWrongSecret)"

section \<open>Rewrapping\<close>

definition freshWrapKDF :: "kdf_env \<Rightarrow> KDFConfig \<Rightarrow> (KDFConfig, 'z) io" where
  "freshWrapKDF ke base =
     io_bind (randomBytes 32) (\<lambda>salt.
     io_bind (io_lift (raiseToFloor ke base)) (\<lambda>k. io_ret (k\<lparr>Salt := b64enc ke salt\<rparr>)))"

definition randomHex :: "kdf_env \<Rightarrow> nat \<Rightarrow> (string, 'z) io" where
  "randomHex ke n = io_bind (randomBytes n) (\<lambda>b. io_ret (hexenc ke b))"

definition passwordEntryID :: "VaultConfig \<Rightarrow> string" where
  "passwordEntryID c =
     (case find (\<lambda>e. we_Type e = WrapTypePassword) (WrapEntries c) of Some e \<Rightarrow> we_ID e | None \<Rightarrow> '''')"

definition applyPasswordRewrap :: "kdf_env \<Rightarrow> crypt \<Rightarrow> string \<Rightarrow> Keys \<Rightarrow> VaultConfig \<Rightarrow> (VaultConfig, 'z) io" where
  "applyPasswordRewrap ke cr newPassword ks c =
     (if newPassword = '''' then io_fail (EMsg ''new password must not be empty'')
      else io_bind (if passwordEntryID c \<noteq> '''' then io_ret (passwordEntryID c) else randomHex ke 8) (\<lambda>eid.
           io_bind (freshWrapKDF ke (KDF c)) (\<lambda>entryKDF.
           io_bind (wrapKeys ke cr newPassword entryKDF ks) (\<lambda>(entryNonce, entryCT).
           let newEntry = \<lparr>we_ID = eid, we_Type = WrapTypePassword, we_KDF = entryKDF, we_Nonce = entryNonce,
                           we_CT = entryCT, we_AAD = ''''\<rparr>;
               c1 = c\<lparr>WrapEntries := filter (\<lambda>e. we_Type e \<noteq> WrapTypePassword) (WrapEntries c) @ [newEntry]\<rparr>
           in io_bind (freshWrapKDF ke (KDF c1)) (\<lambda>legKDF.
              io_bind (wrapKeys ke cr newPassword legKDF ks) (\<lambda>(legNonce, legWrapped).
                io_ret (c1\<lparr>KDF := legKDF, WrappedKeys := legWrapped, WrapNonce := legNonce\<rparr>)))))))"

definition makeRecoveryEntry :: "kdf_env \<Rightarrow> crypt \<Rightarrow> string \<Rightarrow> KDFConfig \<Rightarrow> Keys \<Rightarrow> (WrapEntry, 'z) io" where
  "makeRecoveryEntry ke cr secret base ks =
     io_bind (freshWrapKDF ke base) (\<lambda>kdf.
     io_bind (randomHex ke 8) (\<lambda>eid.
     io_bind (wrapKeys ke cr secret kdf ks) (\<lambda>(nonce, ct).
       io_ret \<lparr>we_ID = eid, we_Type = WrapTypeRecovery, we_KDF = kdf, we_Nonce = nonce, we_CT = ct, we_AAD = ''''\<rparr>)))"

definition removeWrapEntry :: "string \<Rightarrow> string \<Rightarrow> VaultConfig \<Rightarrow> VaultConfig \<times> bool" where
  "removeWrapEntry eid wantType c =
     (let gone = (\<lambda>e. we_ID e = eid \<and> we_Type e = wantType)
      in (c\<lparr>WrapEntries := filter (\<lambda>e. \<not> gone e) (WrapEntries c)\<rparr>, \<exists>e\<in>set (WrapEntries c). gone e))"

section \<open>Sealing\<close>

definition SupportedFormat :: int where "SupportedFormat = 3"
definition sealedVersion :: int where "sealedVersion = 3"
definition graceVersion :: int where "graceVersion = 2"
definition unsealedMinReader :: int where "unsealedMinReader = 2"

definition formatTooNew :: "int \<Rightarrow> int \<Rightarrow> error option" where
  "formatTooNew minReader supported = (if minReader > supported then Some ErrFormatTooNew else None)"

definition firstBarePasswordEntry :: "WrapEntry list \<Rightarrow> WrapEntry option" where
  "firstBarePasswordEntry es = find (\<lambda>e. we_Type e = WrapTypePassword \<and> we_AAD e = '''') es"

text \<open>The mutations that \<^verbatim>\<open>SealFormat\<close> and \<^verbatim>\<open>UnsealFormat\<close> hand to \<^verbatim>\<open>rewriteConfig\<close>.\<close>

definition seal_mutation :: "kdf_env \<Rightarrow> VaultConfig \<Rightarrow> (VaultConfig, 'z) io" where
  "seal_mutation ke c =
     (if Version c \<ge> sealedVersion \<and> MinReader c \<ge> SupportedFormat then io_fail ErrAlreadySealed
      else io_bind
        (if WrappedKeys c \<noteq> '''' then
           io_bind (if firstBarePasswordEntry (WrapEntries c) = None
                    then io_bind (randomHex ke 8) (\<lambda>eid. io_ret (c\<lparr>WrapEntries := WrapEntries c @
                      [\<lparr>we_ID = eid, we_Type = WrapTypePassword, we_KDF = KDF c, we_Nonce = WrapNonce c,
                        we_CT = WrappedKeys c, we_AAD = ''''\<rparr>]\<rparr>))
                    else io_ret c)
             (\<lambda>c1. io_ret (c1\<lparr>WrappedKeys := '''', WrapNonce := ''''\<rparr>))
         else io_ret c)
        (\<lambda>c2. io_ret (c2\<lparr>Version := sealedVersion, MinReader := SupportedFormat\<rparr>)))"

definition unseal_mutation :: "VaultConfig \<Rightarrow> (VaultConfig, 'z) io" where
  "unseal_mutation c =
     (if DirIDEpoch (Crypto c) > 0 then io_fail ErrUnsealAfterReKey
      else if Version c < sealedVersion then io_fail ErrNotSealed
      else let c1 = (if WrappedKeys c = '''' then
                       (case firstBarePasswordEntry (WrapEntries c) of
                          Some e \<Rightarrow> c\<lparr>KDF := we_KDF e, WrapNonce := we_Nonce e, WrappedKeys := we_CT e\<rparr>
                        | None \<Rightarrow> c)
                     else c)
           in io_ret (c1\<lparr>Version := graceVersion, MinReader := unsealedMinReader\<rparr>))"

section \<open>Laws of the primitives\<close>

text \<open>
  Base64 decoding inverts encoding and the encoding of nothing is empty; random bytes have the
  length asked for; a sealed message carries at least its authentication tag.
\<close>

definition codec_law :: "kdf_env \<Rightarrow> bool" where
  "codec_law ke \<longleftrightarrow> (\<forall>b. b64dec ke (b64enc ke b) = Some b) \<and> b64enc ke [] = []"

definition rand_ok :: "'z world_scheme \<Rightarrow> bool" where
  "rand_ok w \<longleftrightarrow> (\<forall>i n b. rand_src w i n = Some b \<longrightarrow> length b = n)"

definition seal_law :: "crypt \<Rightarrow> bool" where
  "seal_law cr \<longleftrightarrow> (\<forall>k n pt aad. aead_Seal cr k n pt aad \<noteq> [])"

lemma b64enc_empty: "codec_law ke \<Longrightarrow> b64enc ke b = [] \<Longrightarrow> b = []"
  unfolding codec_law_def by (metis option.inject)

text \<open>A ciphertext does not open under a key other than the one that sealed it.\<close>

definition key_binding :: "crypt \<Rightarrow> bool" where
  "key_binding cr \<longleftrightarrow>
     (\<forall>k k' n pt aad. k \<noteq> k' \<longrightarrow> aead_Open cr k' n (aead_Seal cr k n pt aad) aad = None)"

lemma randomBytes_cases:
  assumes "randomBytes n w = (r, w')"
  obtains (ok) b where "r = Inr b" "rand_src w (rand_ix w) n = Some b" "rand_src w' = rand_src w"
  | (err) e where "r = Inl e" "rand_src w' = rand_src w"
  using assms by (auto simp: randomBytes_def split: option.splits)

lemma rand_ok_same: "rand_src w' = rand_src w \<Longrightarrow> rand_ok w \<Longrightarrow> rand_ok w'"
  by (simp add: rand_ok_def)

lemma wrapKeys_Inr:
  assumes "wrapKeys ke cr pw cfg ks w = (Inr (n64, ct64), w')"
  obtains wk n where "deriveWrapKey ke pw cfg = Inr wk" "length wk = keySize"
    "length (MasterKey ks) = keySize" "length (IndexKey ks) = keySize"
    "rand_src w (rand_ix w) (NonceSize cr) = Some n" "n64 = b64enc ke n"
    "ct64 = b64enc ke (aead_Seal cr wk n (MasterKey ks @ IndexKey ks) wrapAAD)" "rand_src w' = rand_src w"
proof -
  have l: "length (MasterKey ks) = keySize" "length (IndexKey ks) = keySize"
    using assms by (auto simp: wrapKeys_def io_simps split: if_splits)
  obtain wk where wk: "deriveWrapKey ke pw cfg = Inr wk" "length wk = keySize"
    using assms l by (auto simp: wrapKeys_def io_simps newAESGCM_def split: sum.splits if_splits)
  obtain r w1 where rb: "randomBytes (NonceSize cr) w = (r, w1)" by fastforce
  show thesis
    using rb
  proof (cases rule: randomBytes_cases)
    case (ok b)
    then show thesis using assms l wk rb that
      by (auto simp: wrapKeys_def io_simps newAESGCM_def)
  next
    case (err e)
    then show thesis using assms l wk rb by (auto simp: wrapKeys_def io_simps newAESGCM_def)
  qed
qed

lemma unwrap_wrap:
  assumes "codec_law ke" and "aead_law cr" and "rand_ok w"
    and "wrapKeys ke cr pw cfg ks w = (Inr (n64, ct64), w')"
  shows "open_wrap ke cr pw cfg n64 ct64 wrapAAD = Inr ks"
proof -
  obtain wk n where h: "deriveWrapKey ke pw cfg = Inr wk" "length wk = keySize"
    "length (MasterKey ks) = keySize" "length (IndexKey ks) = keySize"
    "rand_src w (rand_ix w) (NonceSize cr) = Some n" "n64 = b64enc ke n"
    "ct64 = b64enc ke (aead_Seal cr wk n (MasterKey ks @ IndexKey ks) wrapAAD)"
    using assms(4) by (rule wrapKeys_Inr)
  have "length n = NonceSize cr" using h(5) assms(3) by (simp add: rand_ok_def)
  then show ?thesis using h assms(1,2)
    by (simp add: open_wrap_def codec_law_def newAESGCM_def aead_law_def)
qed

lemma wrong_secret_fails:
  assumes "codec_law ke" and "key_binding cr"
    and "wrapKeys ke cr pw cfg ks w = (Inr (n64, ct64), w')"
    and "deriveWrapKey ke s cfg \<noteq> deriveWrapKey ke pw cfg"
  shows "\<exists>e. open_wrap ke cr s cfg n64 ct64 wrapAAD = Inl e"
proof -
  obtain wk n where h: "deriveWrapKey ke pw cfg = Inr wk" "n64 = b64enc ke n"
    "ct64 = b64enc ke (aead_Seal cr wk n (MasterKey ks @ IndexKey ks) wrapAAD)"
    using assms(3) by (rule wrapKeys_Inr)
  show ?thesis
  proof (cases "deriveWrapKey ke s cfg")
    case (Inr wk')
    then have "wk' \<noteq> wk" using h(1) assms(4) by auto
    then have "aead_Open cr wk' n (aead_Seal cr wk n (MasterKey ks @ IndexKey ks) wrapAAD) wrapAAD = None"
      using assms(2) by (simp add: key_binding_def)
    then show ?thesis using h Inr assms(1) by (simp add: open_wrap_def codec_law_def newAESGCM_def)
  qed (use h assms(1) in \<open>simp add: open_wrap_def codec_law_def\<close>)
qed

section \<open>Rotation\<close>

lemma try_entries_append:
  "try_entries ke cr s v t (xs @ ys) =
     (case try_entries ke cr s v t xs of None \<Rightarrow> try_entries ke cr s v t ys | Some r \<Rightarrow> Some r)"
  by (induction xs) (auto split: sum.splits)

lemma try_entries_filter_other:
  "t \<noteq> t' \<Longrightarrow> try_entries ke cr s v t (filter (\<lambda>e. we_Type e \<noteq> t') xs) = try_entries ke cr s v t xs"
  by (induction xs) (auto split: sum.splits)

lemma try_entries_no_type:
  "\<forall>e\<in>set es. we_Type e \<noteq> t \<Longrightarrow> try_entries ke cr s v t es = None"
  by (induction es) auto

lemma try_entries_filtered_same: "try_entries ke cr s v t (filter (\<lambda>e. we_Type e \<noteq> t) xs) = None"
  by (induction xs) auto

lemma freshWrapKDF_rand: "freshWrapKDF ke base w = (Inr k, w') \<Longrightarrow> rand_src w' = rand_src w"
  by (auto simp: freshWrapKDF_def io_simps randomBytes_def split: option.splits sum.splits)

lemma randomHex_rand: "randomHex ke n w = (r, w') \<Longrightarrow> rand_src w' = rand_src w"
  by (auto simp: randomHex_def io_simps randomBytes_def split: option.splits)

text \<open>What a successful rewrap leaves in the configuration.\<close>

lemma applyPasswordRewrap_Inr:
  fixes w w' :: "'z world_scheme"
  assumes "applyPasswordRewrap ke cr pw ks c w = (Inr c', w')"
  obtains eid ekdf en ect and w1 w2 :: "'z world_scheme" where
    "WrapEntries c' = filter (\<lambda>e. we_Type e \<noteq> WrapTypePassword) (WrapEntries c) @
       [\<lparr>we_ID = eid, we_Type = WrapTypePassword, we_KDF = ekdf, we_Nonce = en, we_CT = ect, we_AAD = ''''\<rparr>]"
    "wrapKeys ke cr pw ekdf ks w1 = (Inr (en, ect), w2)" "rand_src w1 = rand_src w"
    "\<exists>(w3 :: 'z world_scheme) w4. wrapKeys ke cr pw (KDF c') ks w3 = (Inr (WrapNonce c', WrappedKeys c'), w4) \<and> rand_src w3 = rand_src w"
    "Version c' = Version c"
proof -
  obtain r0 w0 where i: "(if passwordEntryID c \<noteq> '''' then io_ret (passwordEntryID c) else randomHex ke 8) w = (r0, w0)"
    by fastforce
  have h0: "rand_src w0 = rand_src w" using i randomHex_rand by (auto simp: io_simps split: if_splits)
  obtain r1 w1 where k1: "freshWrapKDF ke (KDF c) w0 = (r1, w1)" by fastforce
  obtain r2 w2 where m: "wrapKeys ke cr pw (case r1 of Inr k \<Rightarrow> k | Inl _ \<Rightarrow> KDF c) ks w1 = (r2, w2)" by fastforce
  obtain r3 w3 where k2: "freshWrapKDF ke (KDF c) w2 = (r3, w3)" by fastforce
  obtain r4 w4 where n: "wrapKeys ke cr pw (case r3 of Inr k \<Rightarrow> k | Inl _ \<Rightarrow> KDF c) ks w3 = (r4, w4)" by fastforce
  obtain eid ekdf en ect lkdf ln lct where r: "r0 = Inr eid" "r1 = Inr ekdf" "r2 = Inr (en, ect)"
    "r3 = Inr lkdf" "r4 = Inr (ln, lct)"
    and c': "c' = c\<lparr>WrapEntries := filter (\<lambda>e. we_Type e \<noteq> WrapTypePassword) (WrapEntries c) @
       [\<lparr>we_ID = eid, we_Type = WrapTypePassword, we_KDF = ekdf, we_Nonce = en, we_CT = ect, we_AAD = ''''\<rparr>],
       KDF := lkdf, WrappedKeys := lct, WrapNonce := ln\<rparr>"
    using assms i k1 m k2 n
    by (cases r0; cases r1; cases r2; cases r3; cases r4)
       (auto simp: applyPasswordRewrap_def io_simps Let_def split: if_splits)
  have h1: "rand_src w1 = rand_src w" using freshWrapKDF_rand k1 r h0 by metis
  have "rand_src w2 = rand_src w1" using m r by (auto elim: wrapKeys_Inr)
  then have h3: "rand_src w3 = rand_src w" using freshWrapKDF_rand k2 r h1 by metis
  have "\<exists>(w3 :: 'z world_scheme) w4. wrapKeys ke cr pw (KDF c') ks w3 = (Inr (WrapNonce c', WrappedKeys c'), w4) \<and> rand_src w3 = rand_src w"
    using n r c' h3 by auto
  then show thesis using that [of eid ekdf en ect w1 w2] m r c' h1 by simp
qed

section \<open>Normalised parameters\<close>

lemma canonical_algs:
  "kdf_alg_of ''SCRYPT'' = ScryptAlg" "kdf_alg_of ''PBKDF2-HMAC-SHA256'' = Pbkdf2"
  "kdf_alg_of ''ARGON2ID'' = Argon2id"
  by code_simp+

text \<open>Normalisation clears the parameters of the other algorithms.\<close>

lemma normalized_zeroes:
  assumes "NormalizeKDFConfig ke base creating = Inr n"
  shows "(kdf_alg_of (Algorithm n) = Argon2id \<and> Iterations n = 0 \<and> ScryptN n = 0 \<and> ScryptR n = 0 \<and> ScryptP n = 0)
      \<or> (kdf_alg_of (Algorithm n) = ScryptAlg \<and> Iterations n = 0 \<and> Time n = 0 \<and> MemoryKiB n = 0)
      \<or> (kdf_alg_of (Algorithm n) = Pbkdf2 \<and> ScryptN n = 0 \<and> ScryptR n = 0 \<and> ScryptP n = 0
         \<and> Time n = 0 \<and> MemoryKiB n = 0)"
proof -
  define c where "c = (if normalizeKDF (Algorithm base) = '''' then DefaultKDFConfig else base)"
  note d = assms [unfolded NormalizeKDFConfig_def c_def [symmetric]]
  show ?thesis
  proof (cases "kdf_alg_of (Algorithm c)")
    case Argon2id
    have "Algorithm n = ''ARGON2ID'' \<and> Iterations n = 0 \<and> ScryptN n = 0 \<and> ScryptR n = 0 \<and> ScryptP n = 0"
      using d Argon2id by (auto simp: Let_def split: if_splits)
    then show ?thesis by (simp add: canonical_algs)
  next
    case ScryptAlg
    have "Algorithm n = ''SCRYPT'' \<and> Iterations n = 0 \<and> Time n = 0 \<and> MemoryKiB n = 0"
      using d ScryptAlg by (auto simp: Let_def split: if_splits option.splits sum.splits)
    then show ?thesis by (simp add: canonical_algs)
  next
    case Pbkdf2
    have "Algorithm n = ''PBKDF2-HMAC-SHA256'' \<and> ScryptN n = 0 \<and> ScryptR n = 0 \<and> ScryptP n = 0 \<and> Time n = 0 \<and> MemoryKiB n = 0"
      using d Pbkdf2 by (auto simp: Let_def split: if_splits)
    then show ?thesis by (simp add: canonical_algs)
  next
    case UnknownAlg
    then show ?thesis using d by (simp add: Let_def)
  qed
qed

text \<open>The entry a rewrap leaves behind opens with the new password.\<close>

lemma rewrap_unlocks:
  fixes w w' :: "'z world_scheme"
  assumes "codec_law ke" and "aead_law cr" and "rand_ok w"
    and "applyPasswordRewrap ke cr pw ks c w = (Inr c', w')"
  shows "\<exists>eid. try_entries ke cr pw v WrapTypePassword (WrapEntries c') = Some (ks, eid)"
    and "unlockWith ke cr c' pw WrapTypePassword = Inr ks"
proof -
  obtain eid ekdf en ect and w1 w2 :: "'z world_scheme"
    where e: "WrapEntries c' = filter (\<lambda>e. we_Type e \<noteq> WrapTypePassword) (WrapEntries c) @
       [\<lparr>we_ID = eid, we_Type = WrapTypePassword, we_KDF = ekdf, we_Nonce = en, we_CT = ect, we_AAD = ''''\<rparr>]"
    and k: "wrapKeys ke cr pw ekdf ks w1 = (Inr (en, ect), w2)" "rand_src w1 = rand_src w"
    using assms(4) by (rule applyPasswordRewrap_Inr)
  have "open_wrap ke cr pw ekdf en ect wrapAAD = Inr ks"
    using unwrap_wrap [OF assms(1,2) _ k(1)] rand_ok_same [OF k(2) assms(3)] by simp
  then have t: "try_entries ke cr pw v WrapTypePassword (WrapEntries c') = Some (ks, eid)" for v
    by (simp add: e try_entries_append try_entries_filtered_same unwrapEntry_def wrapEntryAAD_def)
  from t show "\<exists>eid. try_entries ke cr pw v WrapTypePassword (WrapEntries c') = Some (ks, eid)" by blast
  have "WrapEntries c' \<noteq> []" by (simp add: e)
  then show "unlockWith ke cr c' pw WrapTypePassword = Inr ks" by (simp add: unlockWith_def t)
qed

text \<open>The three shapes a raised parameter set can have, with the facts the floor asks of them.\<close>

lemma raised_argon2:
  fixes t m p :: int
  shows "ValidateKDFStrength (empty_kdf\<lparr>Algorithm := ''ARGON2ID'', Time := max t 3, MemoryKiB := max m 65536,
      Parallelism := max p 1, Salt := s\<rparr>) = None"
    and "kdf_alg_of ''ARGON2ID'' = Argon2id" and "Iterations empty_kdf = 0" "ScryptN empty_kdf = 0" "ScryptR empty_kdf = 0"
      "ScryptP empty_kdf = 0"
  by (simp_all add: ValidateKDFStrength_def canonical_algs empty_kdf_def le_max_iff_disj)

lemma raised_scrypt:
  shows "ValidateKDFStrength (empty_kdf\<lparr>Algorithm := ''SCRYPT'', ScryptN := max n 32768, ScryptR := max r 8,
      ScryptP := max p 1, Salt := s\<rparr>) = None"
    and "kdf_alg_of ''SCRYPT'' = ScryptAlg" and "Iterations empty_kdf = 0" "Time empty_kdf = 0" "MemoryKiB empty_kdf = 0"
  by (simp_all add: ValidateKDFStrength_def canonical_algs empty_kdf_def)

lemma raised_pbkdf2:
  shows "ValidateKDFStrength (empty_kdf\<lparr>Algorithm := ''PBKDF2-HMAC-SHA256'', Iterations := max i 600000, Salt := s\<rparr>) = None"
    and "kdf_alg_of ''PBKDF2-HMAC-SHA256'' = Pbkdf2" and "ScryptN empty_kdf = 0" "ScryptR empty_kdf = 0" "ScryptP empty_kdf = 0"
      "Time empty_kdf = 0" "MemoryKiB empty_kdf = 0"
  by (simp_all add: ValidateKDFStrength_def canonical_algs empty_kdf_def)

section \<open>Properties\<close>

text \<open>
  The strength floor: a wrap is rebuilt either under parameters that already meet the creation
  floor, kept as they are, or under parameters of the same algorithm that meet the floor and
  lower no work factor of the stored ones.
\<close>

theorem raiseToFloor_meets_floor:
  assumes "raiseToFloor ke base = Inr k"
  shows "\<exists>n. NormalizeKDFConfig ke base True = Inr n
    \<and> (k = base \<and> ValidateKDFStrength n = None
       \<or> ValidateKDFStrength k = None \<and> kdf_alg_of (Algorithm k) = kdf_alg_of (Algorithm n)
         \<and> ScryptN n \<le> ScryptN k \<and> ScryptR n \<le> ScryptR k \<and> ScryptP n \<le> ScryptP k
         \<and> Iterations n \<le> Iterations k \<and> Time n \<le> Time k \<and> MemoryKiB n \<le> MemoryKiB k)"
proof -
  obtain n where n: "NormalizeKDFConfig ke base True = Inr n"
    using assms by (auto simp: raiseToFloor_def split: sum.splits)
  note alg = canonical_algs
  note z = normalized_zeroes [OF n]
  show ?thesis
  proof (cases "ValidateKDFStrength n = None")
    case True
    then show ?thesis using assms n by (auto simp: raiseToFloor_def)
  next
    case False
    have k: "raiseToFloor ke base = (case kdf_alg_of (Algorithm n) of
        ScryptAlg \<Rightarrow> Inr (empty_kdf\<lparr>Algorithm := ''SCRYPT'', ScryptN := max (ScryptN n) 32768,
           ScryptR := max (ScryptR n) 8, ScryptP := max (ScryptP n) 1, Salt := Salt base\<rparr>)
      | Pbkdf2 \<Rightarrow> Inr (empty_kdf\<lparr>Algorithm := ''PBKDF2-HMAC-SHA256'',
           Iterations := max (Iterations n) 600000, Salt := Salt base\<rparr>)
      | _ \<Rightarrow> Inr (empty_kdf\<lparr>Algorithm := ''ARGON2ID'', Time := max (Time n) 3,
           MemoryKiB := max (MemoryKiB n) (64 * 1024), Parallelism := max (Parallelism n) 1, Salt := Salt base\<rparr>))"
      by (simp only: raiseToFloor_def n sum.case False if_False)
    from z have "ValidateKDFStrength k = None \<and> kdf_alg_of (Algorithm k) = kdf_alg_of (Algorithm n)
         \<and> ScryptN n \<le> ScryptN k \<and> ScryptR n \<le> ScryptR k \<and> ScryptP n \<le> ScryptP k
         \<and> Iterations n \<le> Iterations k \<and> Time n \<le> Time k \<and> MemoryKiB n \<le> MemoryKiB k"
    proof (elim disjE conjE)
      assume h: "kdf_alg_of (Algorithm n) = Argon2id" "Iterations n = 0" "ScryptN n = 0" "ScryptR n = 0" "ScryptP n = 0"
      have "k = empty_kdf\<lparr>Algorithm := ''ARGON2ID'', Time := max (Time n) 3, MemoryKiB := max (MemoryKiB n) (64 * 1024),
          Parallelism := max (Parallelism n) 1, Salt := Salt base\<rparr>"
        using assms unfolding k h(1) by (simp del: max.bounded_iff)
      then show ?thesis by (simp add: h raised_argon2)
    next
      assume h: "kdf_alg_of (Algorithm n) = ScryptAlg" "Iterations n = 0" "Time n = 0" "MemoryKiB n = 0"
      have "k = empty_kdf\<lparr>Algorithm := ''SCRYPT'', ScryptN := max (ScryptN n) 32768,
          ScryptR := max (ScryptR n) 8, ScryptP := max (ScryptP n) 1, Salt := Salt base\<rparr>"
        using assms unfolding k h(1) by simp
      then show ?thesis by (simp add: h raised_scrypt)
    next
      assume h: "kdf_alg_of (Algorithm n) = Pbkdf2" "ScryptN n = 0" "ScryptR n = 0" "ScryptP n = 0" "Time n = 0" "MemoryKiB n = 0"
      have "k = empty_kdf\<lparr>Algorithm := ''PBKDF2-HMAC-SHA256'', Iterations := max (Iterations n) 600000, Salt := Salt base\<rparr>"
        using assms unfolding k h(1) by simp
      then show ?thesis by (simp add: h raised_pbkdf2)
    qed
    then show ?thesis using n by blast
  qed
qed

definition weak_scrypt :: KDFConfig where
  "weak_scrypt = empty_kdf\<lparr>Algorithm := ''SCRYPT'', ScryptN := 2 ^ 23, ScryptR := 1, ScryptP := 1, Salt := ''s''\<rparr>"

definition demo_kdf :: kdf_env where
  "demo_kdf = \<lparr>hmac256 = (\<lambda>k m. replicate 32 (CHR ''h'')), argon2_IDKey = (\<lambda>p s t m th n. take n (p @ replicate n (CHR ''a''))),
     b64enc = (\<lambda>b. b), b64dec = Some, hexenc = (\<lambda>b. b)\<rparr>"

lemma weak_scrypt_normal: "NormalizeKDFConfig ke weak_scrypt True = Inr weak_scrypt"
proof -
  have a: "normalizeKDF ''SCRYPT'' = ''scrypt''" "kdf_alg_of ''SCRYPT'' = ScryptAlg" by code_simp+
  have n: "(8388608::int) AND 8388607 = 0" by simp
  obtain key where "scryptKey (hmac256 ke) ''probe'' ''salt'' 8388608 1 1 1 = Inr key"
    using scryptKey_Inr [of 8388608 1 1 1 "hmac256 ke" "''probe''" "''salt''"] n by auto
  then show ?thesis
    by (simp add: NormalizeKDFConfig_def weak_scrypt_def empty_kdf_def a checkKDFRange_def maxScryptMemory_def Let_def)
qed

theorem raiseToFloor_meets_floor_witness:
  "\<exists>k. raiseToFloor demo_kdf weak_scrypt = Inr k \<and> ValidateKDFStrength k = None"
proof -
  have v: "ValidateKDFStrength weak_scrypt \<noteq> None" by code_simp
  have a: "kdf_alg_of (Algorithm weak_scrypt) = ScryptAlg" by code_simp
  obtain k where k: "raiseToFloor demo_kdf weak_scrypt = Inr k"
    using v a by (auto simp: raiseToFloor_def weak_scrypt_normal)
  from raiseToFloor_meets_floor [OF this] show ?thesis using k v by (auto simp: weak_scrypt_normal)
qed

text \<open>
  Raising to the floor can leave the range the client itself accepts: a stored scrypt
  configuration with a large \<open>N\<close> and a small \<open>r\<close> is usable for unlocking, but the raised parameters
  are refused, so that the password of such a vault cannot be changed.
\<close>

theorem raiseToFloor_leaves_range:
  "checkKDFRange weak_scrypt = None \<and> NormalizeKDFConfig ke weak_scrypt True = Inr weak_scrypt
   \<and> (\<exists>k. raiseToFloor ke weak_scrypt = Inr k \<and> checkKDFRange k \<noteq> None
        \<and> (\<exists>e. deriveWrapKey ke password (k\<lparr>Salt := salt\<rparr>) = Inl e))"
proof -
  have a: "normalizeKDF ''SCRYPT'' = ''scrypt''" "kdf_alg_of ''SCRYPT'' = ScryptAlg" by code_simp+
  have v: "ValidateKDFStrength weak_scrypt \<noteq> None" by code_simp
  let ?k = "empty_kdf\<lparr>Algorithm := ''SCRYPT'', ScryptN := 8388608, ScryptR := 8, ScryptP := 1, Salt := ''s''\<rparr>"
  have k: "raiseToFloor ke weak_scrypt = Inr ?k"
    using v by (simp add: raiseToFloor_def weak_scrypt_normal) (simp add: weak_scrypt_def empty_kdf_def a)
  have r: "checkKDFRange (?k\<lparr>Salt := salt\<rparr>) \<noteq> None" "checkKDFRange ?k \<noteq> None"
    by (simp_all add: checkKDFRange_def a empty_kdf_def maxScryptMemory_def)
  then have "\<exists>e. deriveWrapKey ke password (?k\<lparr>Salt := salt\<rparr>) = Inl e"
    by (auto simp: deriveWrapKey_def NormalizeKDFConfig_def a empty_kdf_def Let_def)
  moreover have "checkKDFRange weak_scrypt = None"
    by (simp add: checkKDFRange_def weak_scrypt_def a empty_kdf_def maxScryptMemory_def)
  ultimately show ?thesis using k r(2) weak_scrypt_normal by blast
qed

text \<open>The key-derivation parameters a password is tried with: those of the password entries and the legacy ones.\<close>

definition password_kdfs :: "VaultConfig \<Rightarrow> KDFConfig list" where
  "password_kdfs c = KDF c # map we_KDF (filter (\<lambda>e. we_Type e = WrapTypePassword) (WrapEntries c))"

text \<open>
  C28.  A password change does what it promises.  After a successful rewrap the new password
  unlocks the same key bundle; any other password is refused with the one generic error, through
  the entry and through the legacy top-level wrap, as long as it does not derive the same wrap key as
  the new one under the key-derivation parameters the rewrap has just stored; there is exactly one
  password entry, and every recovery secret opens exactly what it opened before.  (The cipher is taken
  to bind its key: a ciphertext does not open under another one.)
\<close>

theorem password_rewrap_effect:
  fixes w w' :: "'z world_scheme"
  assumes "codec_law ke" and "aead_law cr" and "key_binding cr" and "rand_ok w"
    and "applyPasswordRewrap ke cr pw ks c w = (Inr c', w')"
  shows "unlockWith ke cr c' pw WrapTypePassword = Inr ks
    \<and> (\<forall>old. (\<forall>kdf\<in>set (password_kdfs c'). deriveWrapKey ke old kdf \<noteq> deriveWrapKey ke pw kdf) \<longrightarrow>
           unlockWith ke cr c' old WrapTypePassword = Inl ErrWrongSecret)
    \<and> length (filter (\<lambda>e. we_Type e = WrapTypePassword) (WrapEntries c')) = 1
    \<and> (\<forall>s. recoveryEntryFor ke cr c' s = recoveryEntryFor ke cr c s)"
proof (intro conjI allI impI)
  obtain eid ekdf en ect and w1 w2 :: "'z world_scheme"
    where e: "WrapEntries c' = filter (\<lambda>e. we_Type e \<noteq> WrapTypePassword) (WrapEntries c) @
       [\<lparr>we_ID = eid, we_Type = WrapTypePassword, we_KDF = ekdf, we_Nonce = en, we_CT = ect, we_AAD = ''''\<rparr>]"
    and k: "wrapKeys ke cr pw ekdf ks w1 = (Inr (en, ect), w2)" "rand_src w1 = rand_src w"
    and l: "\<exists>(w3 :: 'z world_scheme) w4. wrapKeys ke cr pw (KDF c') ks w3 = (Inr (WrapNonce c', WrappedKeys c'), w4)
       \<and> rand_src w3 = rand_src w"
    and v: "Version c' = Version c"
    using assms(5) by (rule applyPasswordRewrap_Inr)
  show "unlockWith ke cr c' pw WrapTypePassword = Inr ks" by (rule rewrap_unlocks(2) [OF assms(1,2,4,5)])
  show "unlockWith ke cr c' old WrapTypePassword = Inl ErrWrongSecret"
    if d: "\<forall>kdf\<in>set (password_kdfs c'). deriveWrapKey ke old kdf \<noteq> deriveWrapKey ke pw kdf" for old
  proof -
    have d: "deriveWrapKey ke old ekdf \<noteq> deriveWrapKey ke pw ekdf" "deriveWrapKey ke old (KDF c') \<noteq> deriveWrapKey ke pw (KDF c')"
      using d by (simp_all add: password_kdfs_def e)
    obtain e1 where "open_wrap ke cr old ekdf en ect wrapAAD = Inl e1"
      using wrong_secret_fails [OF assms(1,3) k(1) d(1)] by blast
    moreover obtain e2 where "open_wrap ke cr old (KDF c') (WrapNonce c') (WrappedKeys c') wrapAAD = Inl e2"
      using wrong_secret_fails [OF assms(1,3) _ d(2)] l by blast
    ultimately show ?thesis
      by (simp add: unlockWith_def e try_entries_append try_entries_filtered_same unwrapEntry_def
          wrapEntryAAD_def unwrapKeys_def)
  qed
  show "length (filter (\<lambda>e. we_Type e = WrapTypePassword) (WrapEntries c')) = 1"
    by (simp add: e filter_empty_conv)
  have "WrapTypeRecovery \<noteq> WrapTypePassword" by (simp add: WrapTypeRecovery_def WrapTypePassword_def)
  then show "recoveryEntryFor ke cr c' s = recoveryEntryFor ke cr c s" for s
    by (simp add: recoveryEntryFor_def e v try_entries_append try_entries_filter_other split: option.split)
qed

text \<open>A cipher that binds the key, for evaluations.\<close>

definition box_head :: "bytes \<Rightarrow> bytes \<Rightarrow> bytes" where
  "box_head k aad = replicate (length k) (CHR ''1'') @ CHR ''0'' # k @ aad"

definition box_crypt :: crypt where
  "box_crypt = \<lparr>hmacHex = (\<lambda>k d. k @ d), aead_Seal = (\<lambda>k n pt aad. box_head k aad @ pt),
     aead_Open = (\<lambda>k n ct aad. if take (length (box_head k aad)) ct = box_head k aad
        then Some (drop (length (box_head k aad)) ct) else None), NonceSize = 12\<rparr>"

lemma box_aead: "aead_law box_crypt"
  by (simp add: aead_law_def box_crypt_def)

lemma box_seal: "seal_law box_crypt"
  by (simp add: seal_law_def box_crypt_def box_head_def)

lemma box_head_key:
  assumes "box_head k aad @ x = box_head k' aad @ y"
  shows "k = k'"
proof -
  let ?t = "takeWhile (\<lambda>c. c = CHR ''1'')"
  have t: "?t (box_head k aad @ x) = replicate (length k) (CHR ''1'')" for k x
    by (simp add: box_head_def takeWhile_append2 takeWhile_tail)
  have "replicate (length k) (CHR ''1'') = replicate (length k') (CHR ''1'')" using assms t by metis
  then have "length k = length k'" by (metis length_replicate)
  then show ?thesis using assms by (simp add: box_head_def)
qed

lemma box_binding: "key_binding box_crypt"
  unfolding key_binding_def
proof (intro allI impI)
  fix k k' n pt aad :: bytes assume ne: "k \<noteq> k'"
  let ?ct = "box_head k aad @ pt" and ?h = "box_head k' aad"
  have "take (length ?h) ?ct \<noteq> ?h"
  proof
    assume "take (length ?h) ?ct = ?h"
    then have "box_head k' aad @ drop (length ?h) ?ct = box_head k aad @ pt" by (metis append_take_drop_id)
    from box_head_key [OF this] ne show False by simp
  qed
  then show "aead_Open box_crypt k' n (aead_Seal box_crypt k n pt aad) aad = None" by (simp add: box_crypt_def)
qed

definition demo_keys :: Keys where
  "demo_keys = \<lparr>MasterKey = replicate 32 (CHR ''m''), IndexKey = replicate 32 (CHR ''i'')\<rparr>"

definition demo_config :: VaultConfig where
  "demo_config = \<lparr>Version = 2, MinReader = 0, FormatEpoch = 1, VaultID = ''v'', CreatedAt = ''t'',
     KDF = DefaultKDFConfig\<lparr>Salt := ''+s''\<rparr>,
     Crypto = \<lparr>KeyWrap = '''', ce_ChunkAEAD = '''', ce_IndexAEAD = '''', ObjectID = '''', ce_Chunker = '''', StorageMode = '''',
       ManifestMode = ''m'', ManifestShards = 256, DirIDEpoch = 0\<rparr>,
     Chunk = tiny_params, WrappedKeys = ''+old'', WrapNonce = ''+n'', WrapEntries = [], ConfigTag = ''''\<rparr>"

lemma demo_codec: "codec_law demo_kdf"
  by (simp add: codec_law_def demo_kdf_def)

lemma demo_rand: "rand_ok demo_world"
  by (simp add: rand_ok_def demo_world_def)

lemma demo_floor: "raiseToFloor demo_kdf (KDF demo_config) = Inr (KDF demo_config)"
proof -
  have "kdf_alg_of ''ARGON2ID'' = Argon2id" "normalizeKDF ''ARGON2ID'' \<noteq> ''''" by code_simp+
  then show ?thesis
    by (simp add: raiseToFloor_def NormalizeKDFConfig_def ValidateKDFStrength_def demo_config_def DefaultKDFConfig_def empty_kdf_def Let_def)
qed

lemma demo_wrap_key:
  "salt \<noteq> '''' \<Longrightarrow> deriveWrapKey demo_kdf pw ((KDF demo_config)\<lparr>Salt := salt\<rparr>) = Inr (take keySize (pw @ replicate keySize (CHR ''a'')))"
proof -
  have "kdf_alg_of ''ARGON2ID'' = Argon2id" "normalizeKDF ''ARGON2ID'' \<noteq> ''''" by code_simp+
  then show "salt \<noteq> '''' \<Longrightarrow> ?thesis"
    by (simp add: deriveWrapKey_def NormalizeKDFConfig_def checkKDFRange_def demo_kdf_def demo_config_def DefaultKDFConfig_def
        empty_kdf_def Let_def)
qed

lemma demo_random: "randomBytes n (demo_world\<lparr>rand_ix := k\<rparr>) = (Inr (replicate n (CHR ''r'')), demo_world\<lparr>rand_ix := Suc k\<rparr>)"
  by (simp add: randomBytes_def demo_world_def)

lemma demo_rewrap_runs:
  "\<exists>c' w'. applyPasswordRewrap demo_kdf box_crypt ''new'' demo_keys demo_config demo_world = (Inr c', w')
     \<and> (\<forall>kdf\<in>set (password_kdfs c'). deriveWrapKey demo_kdf ''old'' kdf \<noteq> deriveWrapKey demo_kdf ''new'' kdf)"
proof -
  let ?k = "(KDF demo_config)\<lparr>Salt := replicate 32 (CHR ''r'')\<rparr>"
  have w: "demo_world = demo_world\<lparr>rand_ix := 0\<rparr>" by (simp add: demo_world_def)
  have f: "freshWrapKDF demo_kdf (KDF demo_config) (demo_world\<lparr>rand_ix := k\<rparr>) = (Inr ?k, demo_world\<lparr>rand_ix := Suc k\<rparr>)" for k
    using demo_random [of 32 k] by (simp add: freshWrapKDF_def io_simps demo_floor) (simp add: demo_kdf_def)
  have d: "deriveWrapKey demo_kdf pw ?k = Inr (take keySize (pw @ replicate keySize (CHR ''a'')))" for pw
    by (rule demo_wrap_key) simp
  have "length (MasterKey demo_keys) = keySize" "length (IndexKey demo_keys) = keySize" by (simp_all add: demo_keys_def keySize_def)
  then have "\<exists>n ct. wrapKeys demo_kdf box_crypt ''new'' ?k demo_keys (demo_world\<lparr>rand_ix := k\<rparr>) = (Inr (n, ct), demo_world\<lparr>rand_ix := Suc k\<rparr>)" for k
    by (simp add: wrapKeys_def io_simps d newAESGCM_def demo_random keySize_def)
  then obtain n ct where wk: "\<And>k. wrapKeys demo_kdf box_crypt ''new'' ?k demo_keys (demo_world\<lparr>rand_ix := k\<rparr>) = (Inr (n k, ct k), demo_world\<lparr>rand_ix := Suc k\<rparr>)"
    by metis
  have p: "WrapEntries demo_config = []" "passwordEntryID demo_config = ''''" by (simp_all add: demo_config_def passwordEntryID_def)
  obtain c' w' where r: "applyPasswordRewrap demo_kdf box_crypt ''new'' demo_keys demo_config demo_world = (Inr c', w')" "set (password_kdfs c') \<subseteq> {?k}"
    by (subst (asm) w) (simp add: applyPasswordRewrap_def p io_simps randomHex_def demo_random f wk Let_def password_kdfs_def image_subset_iff)
  then show ?thesis by (auto simp: d keySize_def)
qed
theorem password_rewrap_effect_witness:
  "\<exists>c' w'. applyPasswordRewrap demo_kdf box_crypt ''new'' demo_keys demo_config demo_world = (Inr c', w')
     \<and> unlockWith demo_kdf box_crypt c' ''new'' WrapTypePassword = Inr demo_keys
     \<and> unlockWith demo_kdf box_crypt c' ''old'' WrapTypePassword = Inl ErrWrongSecret"
proof -
  obtain c' w' where r: "applyPasswordRewrap demo_kdf box_crypt ''new'' demo_keys demo_config demo_world = (Inr c', w')"
    "\<forall>kdf\<in>set (password_kdfs c'). deriveWrapKey demo_kdf ''old'' kdf \<noteq> deriveWrapKey demo_kdf ''new'' kdf"
    using demo_rewrap_runs by blast
  from password_rewrap_effect [OF demo_codec box_aead box_binding demo_rand r(1)] r show ?thesis by blast
qed

text \<open>
  Sealing keeps the vault openable and unsealing brings the legacy wrap back: when no entry
  is bound to a version, a password that unlocks the vault through the entries, or through the
  legacy wrap of a vault without a password entry, unlocks the same keys after sealing; the sealed
  configuration has no legacy wrap; and unsealing a sealed vault restores a legacy wrap that opens
  with what the first password entry opens with.
\<close>

theorem seal_keeps_unlock:
  assumes "seal_mutation ke c w = (Inr c', w')" and "\<forall>e\<in>set (WrapEntries c). we_AAD e = ''''"
    and "unlockWith ke cr c pw WrapTypePassword = Inr ks" and "WrappedKeys c \<noteq> ''''"
    and "firstBarePasswordEntry (WrapEntries c) = None
       \<or> try_entries ke cr pw (Version c) WrapTypePassword (WrapEntries c) \<noteq> None"
  shows "unlockWith ke cr c' pw WrapTypePassword = Inr ks \<and> WrappedKeys c' = '''' \<and> Version c' = sealedVersion
    \<and> (DirIDEpoch (Crypto c) \<le> 0 \<longrightarrow> (\<exists>c''. unseal_mutation c' w' = (Inr c'', w') \<and> Version c'' = graceVersion
         \<and> unwrapKeys ke cr s (KDF c'') (WrapNonce c'') (WrappedKeys c'')
           = unwrapEntry ke cr s (Version c') (the (firstBarePasswordEntry (WrapEntries c')))))"
proof -
  have ver: "try_entries ke cr s v t es = try_entries ke cr s v' t es" if "\<forall>e\<in>set es. we_AAD e = ''''" for s v v' t es
    using that by (induction es) (auto simp: unwrapEntry_def wrapEntryAAD_def split: sum.split)
  show ?thesis
  proof (cases "firstBarePasswordEntry (WrapEntries c)")
    case (Some e)
    then have c': "c' = c\<lparr>WrappedKeys := '''', WrapNonce := '''', Version := sealedVersion, MinReader := SupportedFormat\<rparr>"
      using assms(1,4) by (auto simp: seal_mutation_def io_simps split: if_splits)
    have ne: "WrapEntries c \<noteq> []" using Some by (auto simp: firstBarePasswordEntry_def)
    have "we_AAD e = ''''" using Some by (auto simp: firstBarePasswordEntry_def find_Some_iff)
    then show ?thesis using assms(3,5) Some c' ne ver [OF assms(2), of pw "Version c" WrapTypePassword sealedVersion]
      by (auto simp: unlockWith_def unseal_mutation_def io_simps Let_def unwrapKeys_def unwrapEntry_def wrapEntryAAD_def
          sealedVersion_def split: option.splits)
  next
    case None
    then obtain eid where c': "c' = c\<lparr>WrapEntries := WrapEntries c @ [\<lparr>we_ID = eid, we_Type = WrapTypePassword,
        we_KDF = KDF c, we_Nonce = WrapNonce c, we_CT = WrappedKeys c, we_AAD = ''''\<rparr>],
        WrappedKeys := '''', WrapNonce := '''', Version := sealedVersion, MinReader := SupportedFormat\<rparr>"
      using assms(1,4) by (auto simp: seal_mutation_def io_simps split: if_splits sum.splits prod.splits)
    have "\<forall>e\<in>set (WrapEntries c). we_Type e \<noteq> WrapTypePassword"
      using None assms(2) by (auto simp: firstBarePasswordEntry_def find_None_iff)
    then have none: "try_entries ke cr s v WrapTypePassword (WrapEntries c) = None" for s v
      by (rule try_entries_no_type)
    have f: "firstBarePasswordEntry (WrapEntries c') = Some \<lparr>we_ID = eid, we_Type = WrapTypePassword,
        we_KDF = KDF c, we_Nonce = WrapNonce c, we_CT = WrappedKeys c, we_AAD = ''''\<rparr>"
      using None unfolding firstBarePasswordEntry_def c' by (auto simp: find_None_iff find_Some_iff nth_append)
    have "unwrapKeys ke cr pw (KDF c) (WrapNonce c) (WrappedKeys c) = Inr ks"
      using assms(3,4) none by (auto simp: unlockWith_def split: if_splits sum.splits)
    then show ?thesis using none f
      by (auto simp: c' unlockWith_def try_entries_append unseal_mutation_def io_simps Let_def unwrapKeys_def
          unwrapEntry_def wrapEntryAAD_def sealedVersion_def)
  qed
qed

lemma demo_rewrap_entries:
  assumes "applyPasswordRewrap ke cr pw ks demo_config (w :: world) = (Inr c', w')"
  shows "\<forall>e\<in>set (WrapEntries c'). we_AAD e = ''''" and "Version c' = 2"
proof -
  obtain eid ekdf en ect and w1 w2 :: world
    where "WrapEntries c' = filter (\<lambda>e. we_Type e \<noteq> WrapTypePassword) (WrapEntries demo_config) @
       [\<lparr>we_ID = eid, we_Type = WrapTypePassword, we_KDF = ekdf, we_Nonce = en, we_CT = ect, we_AAD = ''''\<rparr>]"
    and "Version c' = Version demo_config"
    using assms by (rule applyPasswordRewrap_Inr)
  then show "\<forall>e\<in>set (WrapEntries c'). we_AAD e = ''''" "Version c' = 2" by (simp_all add: demo_config_def)
qed

lemma rewrap_legacy_nonempty:
  fixes w w' :: "'z world_scheme"
  assumes "applyPasswordRewrap ke cr pw ks c w = (Inr c', w')" and "codec_law ke" and "seal_law cr"
  shows "WrappedKeys c' \<noteq> '''' \<and> Version c' = Version c"
proof -
  obtain w3 w4 :: "'z world_scheme" where v: "Version c' = Version c"
    and "wrapKeys ke cr pw (KDF c') ks w3 = (Inr (WrapNonce c', WrappedKeys c'), w4)"
    using assms(1) by (rule applyPasswordRewrap_Inr) blast
  then obtain k n pt where "WrappedKeys c' = b64enc ke (aead_Seal cr k n pt wrapAAD)" by (elim wrapKeys_Inr)
  then show ?thesis using v assms(3) b64enc_empty [OF assms(2)] by (metis seal_law_def)
qed

lemma seal_after_rewrap:
  assumes "try_entries ke cr pw v WrapTypePassword (WrapEntries c) = Some r" and "Version c = 2"
    and "\<forall>e\<in>set (WrapEntries c). we_AAD e = ''''"
  shows "\<exists>c'. seal_mutation ke c w = (Inr c', w)"
proof -
  have "\<exists>e\<in>set (WrapEntries c). we_Type e = WrapTypePassword"
  proof (rule ccontr)
    assume "\<not> ?thesis"
    then show False using assms(1) try_entries_no_type [of "WrapEntries c" WrapTypePassword] by force
  qed
  then obtain e where "firstBarePasswordEntry (WrapEntries c) = Some e"
    using assms(3) by (cases "firstBarePasswordEntry (WrapEntries c)") (auto simp: firstBarePasswordEntry_def find_None_iff)
  then show ?thesis using assms(2) by (simp add: seal_mutation_def io_simps sealedVersion_def)
qed

theorem seal_keeps_unlock_witness:
  "\<exists>c c'. fst (seal_mutation demo_kdf c demo_world) = Inr c' \<and> WrappedKeys c \<noteq> '''' \<and> WrappedKeys c' = ''''
     \<and> unlockWith demo_kdf box_crypt c' ''new'' WrapTypePassword = Inr demo_keys"
proof -
  obtain c w' where r: "applyPasswordRewrap demo_kdf box_crypt ''new'' demo_keys demo_config demo_world = (Inr c, w')"
    using demo_rewrap_runs by blast
  note u = rewrap_unlocks [OF demo_codec box_aead demo_rand r]
  obtain x where t: "try_entries demo_kdf box_crypt ''new'' (Version c) WrapTypePassword (WrapEntries c) = Some x"
    using u(1) by blast
  have n: "WrappedKeys c \<noteq> ''''"
    using rewrap_legacy_nonempty [OF r demo_codec box_seal] by blast
  obtain c' where s: "seal_mutation demo_kdf c demo_world = (Inr c', demo_world)"
    using seal_after_rewrap [OF t demo_rewrap_entries(2) [OF r] demo_rewrap_entries(1) [OF r]] by blast
  have "unlockWith demo_kdf box_crypt c' ''new'' WrapTypePassword = Inr demo_keys \<and> WrappedKeys c' = ''''"
    using seal_keeps_unlock [OF s demo_rewrap_entries(1) [OF r] u(2) n] t by blast
  then show ?thesis using s n by (intro exI [of _ c] exI [of _ c']) simp
qed

text \<open>
  Sealing retires the legacy wrap, but the next password change writes it again: a rewrap of
  a sealed configuration fills the legacy top-level fields that sealing cleared, for any password
  and any key bundle.
\<close>

theorem rewrap_restores_legacy_after_seal:
  assumes "applyPasswordRewrap ke cr pw ks c w = (Inr c', w')" and "WrappedKeys c = ''''" and "Version c = sealedVersion"
    and "codec_law ke" and "seal_law cr"
  shows "WrappedKeys c' \<noteq> '''' \<and> Version c' = sealedVersion"
  using rewrap_legacy_nonempty [OF assms(1,4,5)] assms(3) by simp

theorem rewrap_restores_legacy_after_seal_witness:
  "\<exists>c c' w'. WrappedKeys c = '''' \<and> applyPasswordRewrap demo_kdf box_crypt ''pw2'' demo_keys c demo_world = (Inr c', w')
     \<and> WrappedKeys c' \<noteq> ''''"
proof -
  let ?c = "demo_config\<lparr>WrappedKeys := '''', Version := sealedVersion\<rparr>"
  have "\<not> isl (fst (applyPasswordRewrap demo_kdf box_crypt ''pw2'' demo_keys ?c demo_world))" by code_simp
  then obtain c' w' where r: "applyPasswordRewrap demo_kdf box_crypt ''pw2'' demo_keys ?c demo_world = (Inr c', w')"
    by (metis prod.collapse sum.collapse(2))
  from rewrap_restores_legacy_after_seal [OF r _ _ demo_codec box_seal] have "WrappedKeys c' \<noteq> ''''" by simp
  then show ?thesis using r by (intro exI [of _ ?c] exI [of _ c'] exI [of _ w']) simp
qed

end
