(* ===== verification/AppDir.thy ===== *)
theory AppDir
  imports Fs
begin

text \<open>
  The application directories of \<^verbatim>\<open>internal/appdir/appdir.go\<close> as functions of the process environment,
  and the stable device id of \<^verbatim>\<open>internal/appdir/deviceid.go\<close>, the writer key of the vector clocks:
  read from its file, or minted once and then read back from the file.  The results: a valid id on
  disk is returned and nothing is written, and an id that was minted is the one every later call
  returns.
\<close>

section \<open>Directories\<close>

text \<open>What the process environment answers.\<close>

record os_env =
  Getenv :: "string \<Rightarrow> string"
  GOOS :: string
  UserHomeDir :: "error + string"
  filepath_Abs :: "string \<Rightarrow> error + string"

definition appName :: string where "appName = ''open-seavault-rclone''"

definition join_under :: "string \<Rightarrow> string list \<Rightarrow> string" where
  "join_under base parts = foldl path_Join base parts"

definition ConfigDir :: "os_env \<Rightarrow> error + string" where
  "ConfigDir e =
     (let appHome = TrimSpace (Getenv e ''SEAVAULT_APP_HOME'');
          cfgDir = TrimSpace (Getenv e ''SEAVAULT_CONFIG_DIR'');
          fromHome = (case UserHomeDir e of
              Inl err \<Rightarrow> Inl err
            | Inr home \<Rightarrow>
                if GOOS e = ''windows'' then Inr (join_under home [''AppData'', ''Roaming'', appName])
                else Inr (join_under home [''.config'', ''seavault'']))
      in if appHome \<noteq> '''' then Inr (path_Join appHome ''config'')
         else if cfgDir \<noteq> '''' then filepath_Abs e cfgDir
         else if GOOS e = ''windows'' then
           (if Getenv e ''APPDATA'' \<noteq> '''' then Inr (path_Join (Getenv e ''APPDATA'') appName) else fromHome)
         else if GOOS e = ''darwin'' then
           (case UserHomeDir e of
              Inl err \<Rightarrow> Inl err
            | Inr home \<Rightarrow> Inr (join_under home [''Library'', ''Application Support'', appName]))
         else (if Getenv e ''XDG_CONFIG_HOME'' \<noteq> '''' then Inr (path_Join (Getenv e ''XDG_CONFIG_HOME'') ''seavault'')
               else fromHome))"

definition DataDir :: "os_env \<Rightarrow> error + string" where
  "DataDir e =
     (let appHome = TrimSpace (Getenv e ''SEAVAULT_APP_HOME'');
          dataDir = TrimSpace (Getenv e ''SEAVAULT_DATA_DIR'');
          fromHome = (case UserHomeDir e of
              Inl err \<Rightarrow> Inl err
            | Inr home \<Rightarrow>
                if GOOS e = ''windows'' then Inr (join_under home [''AppData'', ''Local'', appName])
                else Inr (join_under home [''.local'', ''share'', ''seavault'']))
      in if appHome \<noteq> '''' then Inr (path_Join appHome ''data'')
         else if dataDir \<noteq> '''' then filepath_Abs e dataDir
         else if GOOS e = ''windows'' then
           (if Getenv e ''LOCALAPPDATA'' \<noteq> '''' then Inr (path_Join (Getenv e ''LOCALAPPDATA'') appName)
            else if Getenv e ''APPDATA'' \<noteq> '''' then Inr (path_Join (Getenv e ''APPDATA'') appName)
            else fromHome)
         else if GOOS e = ''darwin'' then
           (case UserHomeDir e of
              Inl err \<Rightarrow> Inl err
            | Inr home \<Rightarrow> Inr (join_under home [''Library'', ''Application Support'', appName]))
         else (if Getenv e ''XDG_DATA_HOME'' \<noteq> '''' then Inr (path_Join (Getenv e ''XDG_DATA_HOME'') ''seavault'')
               else fromHome))"

definition EnsureConfigDir :: "os_env \<Rightarrow> string list \<Rightarrow> (string, 'z) io" where
  "EnsureConfigDir e parts =
     io_bind (io_lift (ConfigDir e)) (\<lambda>base.
       let p = join_under base parts in io_bind (os_MkdirAll p) (\<lambda>_. io_ret p))"

definition EnsureDataDir :: "os_env \<Rightarrow> string list \<Rightarrow> (string, 'z) io" where
  "EnsureDataDir e parts =
     io_bind (io_lift (DataDir e)) (\<lambda>base.
       let p = join_under base parts in io_bind (os_MkdirAll p) (\<lambda>_. io_ret p))"

definition RuntimeDir :: "os_env \<Rightarrow> (string, 'z) io" where
  "RuntimeDir e = EnsureDataDir e [''rclone'']"

section \<open>Device id\<close>

text \<open>\<^verbatim>\<open>encoding/json\<close> on \<^verbatim>\<open>deviceIDStore\<close> and \<^verbatim>\<open>hex.EncodeToString\<close>.\<close>

record device_codec =
  marshalDevice :: "string \<Rightarrow> bytes"
  unmarshalDevice :: "bytes \<Rightarrow> string option"
  hexEncode :: "bytes \<Rightarrow> string"

definition deviceIDPath :: "os_env \<Rightarrow> error + string" where
  "deviceIDPath e = (case DataDir e of Inl err \<Rightarrow> Inl err | Inr base \<Rightarrow> Inr (path_Join base ''device-id.json''))"

definition validDeviceID :: "string \<Rightarrow> bool" where
  "validDeviceID s \<longleftrightarrow> length s = 32 \<and> list_all (\<lambda>r. (CHR ''0'' \<le> r \<and> r \<le> CHR ''9'') \<or> (CHR ''a'' \<le> r \<and> r \<le> CHR ''f'')) s"

definition readDeviceID :: "device_codec \<Rightarrow> string \<Rightarrow> (string option, 'z) io" where
  "readDeviceID dc path =
     io_try (os_ReadFile path) (\<lambda>r. case r of
        Inl _ \<Rightarrow> io_ret None
      | Inr d \<Rightarrow> (case unmarshalDevice dc d of
          None \<Rightarrow> io_ret None
        | Some s \<Rightarrow> let did = TrimSpace s in io_ret (if validDeviceID did then Some did else None)))"

text \<open>One plain rename, without the retries of the vault's own writer.\<close>

definition writeDeviceID :: "device_codec \<Rightarrow> string \<Rightarrow> string \<Rightarrow> (unit, 'z) io" where
  "writeDeviceID dc path did =
     io_bind (check_fault OpTemp (path_Dir path)) (\<lambda>_.
     io_bind time_Now (\<lambda>t.
     (\<lambda>w. case rename_fault w path 0 of
            Some (m, _) \<Rightarrow> (Inl (EMsg (''persist device id: '' @ m)), w)
          | None \<Rightarrow> put_file path \<lparr>data = marshalDevice dc did @ [CHR 0x0A], mtime = t\<rparr> w)))"

definition DeviceID :: "os_env \<Rightarrow> device_codec \<Rightarrow> (string, 'z) io" where
  "DeviceID e dc =
     io_bind (io_lift (deviceIDPath e)) (\<lambda>path.
     io_bind (readDeviceID dc path) (\<lambda>found. case found of
       Some did \<Rightarrow> io_ret did
     | None \<Rightarrow>
         io_bind (randomBytes 16) (\<lambda>buf. let did = hexEncode dc buf in
         io_bind (os_MkdirAll (path_Dir path)) (\<lambda>_.
         io_bind (writeDeviceID dc path did) (\<lambda>_.
         io_bind (readDeviceID dc path) (\<lambda>landed. case landed of
           Some l \<Rightarrow> io_ret l
         | None \<Rightarrow> io_ret did))))))"

text \<open>\<^verbatim>\<open>resolveDeviceID\<close> of \<^verbatim>\<open>vault.go\<close>: no id when none can be had.\<close>

definition resolveDeviceID :: "os_env \<Rightarrow> device_codec \<Rightarrow> (string, 'z) io" where
  "resolveDeviceID e dc = io_try (DeviceID e dc) (\<lambda>r. io_ret (case r of Inl _ \<Rightarrow> '''' | Inr did \<Rightarrow> did))"

section \<open>Laws\<close>

text \<open>The codec round-trips, and hexadecimal digits of 16 bytes are a valid id.\<close>

definition device_law :: "device_codec \<Rightarrow> bool" where
  "device_law dc \<longleftrightarrow> (\<forall>s. unmarshalDevice dc (marshalDevice dc s @ [CHR 0x0A]) = Some s)
     \<and> (\<forall>b. length b = 16 \<longrightarrow> validDeviceID (hexEncode dc b))"

lemma readDeviceID_same: "\<exists>r. readDeviceID dc p w = (Inr r, w)"
  by (auto simp: readDeviceID_def io_simps os_ReadFile_def check_fault_def lookup_file_def Let_def
      split: option.splits)

lemma valid_no_space:
  assumes "validDeviceID s"
  shows "TrimSpace s = s"
proof -
  have "\<not> is_space c \<and> ascii_char c" if "c \<in> set s" for c
    using assms that unfolding validDeviceID_def list_all_iff is_space_def
    by (cases c) (fastforce simp: less_eq_char_def)
  moreover have "s \<noteq> []" using assms by (auto simp: validDeviceID_def)
  ultimately show ?thesis by (intro TrimSpace_id) auto
qed

lemma read_after_write:
  assumes "device_law dc" and "validDeviceID did" and "fault w OpRead p = None"
    and "writeDeviceID dc p did w = (Inr u, w')"
  shows "readDeviceID dc p w' = (Inr (Some did), w')"
  using assms by (auto simp: writeDeviceID_def readDeviceID_def io_simps check_fault_def time_Now_def put_file_def
      os_ReadFile_def lookup_file_def device_law_def valid_no_space Let_def split: option.splits prod.splits)

lemma write_keeps_faults: "writeDeviceID dc p did w = (r, w') \<Longrightarrow> fault w' = fault w"
  by (auto simp: writeDeviceID_def io_simps check_fault_def time_Now_def put_file_def split: option.splits prod.splits)

lemma DeviceID_stored:
  "deviceIDPath e = Inr p \<Longrightarrow> readDeviceID dc p w = (Inr (Some did), w) \<Longrightarrow> DeviceID e dc w = (Inr did, w)"
  by (simp add: DeviceID_def io_simps)

section \<open>Properties\<close>

text \<open>
  C34.  The device id is minted at most once: on a host whose disk can be read, a successful
  \<^const>\<open>DeviceID\<close> returns a valid id, and every later call returns the same id and changes nothing.
\<close>

theorem DeviceID_stable:
  assumes "device_law dc" and "\<forall>i b. rand_src w i 16 = Some b \<longrightarrow> length b = 16"
    and "\<forall>p. fault w OpRead p = None" and "DeviceID e dc w = (Inr did, w')"
  shows "validDeviceID did \<and> DeviceID e dc w' = (Inr did, w')"
proof -
  obtain p where p: "deviceIDPath e = Inr p" using assms(4) by (cases "deviceIDPath e") (auto simp: DeviceID_def io_simps)
  obtain r where r: "readDeviceID dc p w = (Inr r, w)" using readDeviceID_same by blast
  show ?thesis
  proof (cases r)
    case (Some d)
    have "validDeviceID d" using r Some
      by (auto simp: readDeviceID_def io_simps os_ReadFile_def check_fault_def lookup_file_def Let_def split: option.splits if_splits)
    then show ?thesis using assms(4) DeviceID_stored [OF p, of dc w d] r Some by auto
  next
    case None
    obtain b w1 where b: "randomBytes 16 w = (Inr b, w1)" "length b = 16" "fault w1 = fault w"
      using assms(2,4) p r None by (auto simp: DeviceID_def io_simps randomBytes_def split: option.splits)
    let ?d = "hexEncode dc b"
    have v: "validDeviceID ?d" using assms(1) b(2) by (simp add: device_law_def)
    obtain u w2 where m: "os_MkdirAll (path_Dir p) w1 = (Inr u, w2)" "fault w2 = fault w1"
      using assms(4) p r None b by (auto simp: DeviceID_def io_simps os_MkdirAll_def check_fault_def Let_def split: option.splits)
    obtain u' w3 where wr: "writeDeviceID dc p ?d w2 = (Inr u', w3)"
      using assms(4) p r None b m
      by (cases "writeDeviceID dc p ?d w2") (auto simp: DeviceID_def io_simps Let_def split: sum.splits)
    have f: "fault w2 OpRead p = None" using assms(3) b(3) m(2) by simp
    have l: "readDeviceID dc p w3 = (Inr (Some ?d), w3)" by (rule read_after_write [OF assms(1) v f wr])
    then have "did = ?d \<and> w' = w3" using assms(4) p r None b m wr by (auto simp: DeviceID_def io_simps Let_def)
    then show ?thesis using v DeviceID_stored [OF p l] by simp
  qed
qed

definition demo_device :: device_codec where
  "demo_device = \<lparr>marshalDevice = (\<lambda>s. s), unmarshalDevice = (\<lambda>b. if b = [] then None else Some (butlast b)),
     hexEncode = (\<lambda>b. replicate 32 (CHR ''a''))\<rparr>"

definition demo_os :: os_env where
  "demo_os = \<lparr>Getenv = (\<lambda>n. if n = ''SEAVAULT_APP_HOME'' then ''/app'' else ''''), GOOS = ''linux'',
     UserHomeDir = Inr ''/home/u'', filepath_Abs = Inr\<rparr>"

definition blank_world :: world where
  "blank_world = \<lparr>files = [], fault = (\<lambda>_ _. None), rename_fault = (\<lambda>_ _. None), clock_src = int, clock_ix = 0,
     rand_src = (\<lambda>i n. Some (replicate n (CHR ''r''))), rand_ix = 0\<rparr>"

lemma demo_device_law: "device_law demo_device"
  by (simp add: device_law_def demo_device_def validDeviceID_def list_all_iff less_eq_char_def)

theorem DeviceID_stable_witness:
  "\<exists>w'. DeviceID demo_os demo_device blank_world = (Inr (replicate 32 (CHR ''a'')), w')
     \<and> DeviceID demo_os demo_device w' = (Inr (replicate 32 (CHR ''a'')), w')"
proof -
  have "fst (DeviceID demo_os demo_device blank_world) = Inr (replicate 32 (CHR ''a''))" by code_simp
  then obtain w' where r: "DeviceID demo_os demo_device blank_world = (Inr (replicate 32 (CHR ''a'')), w')"
    by (metis prod.collapse)
  from DeviceID_stable [OF demo_device_law _ _ r] show ?thesis using r by (simp add: blank_world_def)
qed

end
