(* ===== verification/Frames.thy ===== *)
theory Frames
  imports Fs
begin

text \<open>
  What an action of the host keeps: a relation between the state before and after that holds for
  every start.  The combinators of the model carry any such relation that is reflexive and
  transitive; the locale proves that once, for actions that leave the disk alone, that leave some
  files alone, that only draw random bytes, and that leave a field of the state alone.
\<close>

definition keeps :: "('w \<Rightarrow> 'w \<Rightarrow> bool) \<Rightarrow> ('w \<Rightarrow> 'r \<times> 'w) \<Rightarrow> bool" where
  "keeps R m \<longleftrightarrow> (\<forall>w. R w (snd (m w)))"

lemma keepsD: "keeps R m \<Longrightarrow> m w = (r, w') \<Longrightarrow> R w w'"
  unfolding keeps_def by (metis snd_conv)

lemma keeps_mono: "keeps R m \<Longrightarrow> (\<And>w w'. R w w' \<Longrightarrow> S w w') \<Longrightarrow> keeps S m"
  by (simp add: keeps_def)

lemma keeps_cases:
  "(\<And>e. r = Inl e \<Longrightarrow> keeps R (f e)) \<Longrightarrow> (\<And>x. r = Inr x \<Longrightarrow> keeps R (g x)) \<Longrightarrow> keeps R (case r of Inl e \<Rightarrow> f e | Inr x \<Rightarrow> g x)"
  "(ov = None \<Longrightarrow> keeps R a) \<Longrightarrow> (\<And>x. ov = Some x \<Longrightarrow> keeps R (h x)) \<Longrightarrow> keeps R (case ov of None \<Rightarrow> a | Some x \<Rightarrow> h x)"
  "(\<And>x y. pr = (x, y) \<Longrightarrow> keeps R (k x y)) \<Longrightarrow> keeps R (case pr of (x, y) \<Rightarrow> k x y)"
  "(P \<Longrightarrow> keeps R c) \<Longrightarrow> (\<not> P \<Longrightarrow> keeps R d) \<Longrightarrow> keeps R (if P then c else d)"
  by (auto split: sum.split option.split prod.split)

locale frame =
  fixes R :: "'z world_scheme \<Rightarrow> 'z world_scheme \<Rightarrow> bool"
  assumes refl: "R w w"
    and trans: "R w w' \<Longrightarrow> R w' w'' \<Longrightarrow> R w w''"
begin

lemma keeps_pure: "keeps R (io_ret x)" "keeps R (io_fail e)" "keeps R (io_lift r)"
  by (simp_all add: keeps_def io_simps refl)

lemma keeps_bind:
  assumes "keeps R m" and "\<And>w x w'. m w = (Inr x, w') \<Longrightarrow> keeps R (f x)"
  shows "keeps R (io_bind m f)"
  unfolding keeps_def
proof
  fix w
  obtain r w1 where m: "m w = (r, w1)" by fastforce
  have 1: "R w w1" by (rule keepsD [OF assms(1) m])
  show "R w (snd (io_bind m f w))"
  proof (cases r)
    case (Inr x)
    then have "R w1 (snd (f x w1))" using assms(2) m unfolding keeps_def by blast
    with 1 have "R w (snd (f x w1))" by (rule trans)
    then show ?thesis using m Inr by (simp add: io_simps)
  qed (use m 1 in \<open>simp add: io_simps\<close>)
qed

lemma keeps_try:
  assumes "keeps R m" and "\<And>w r w'. m w = (r, w') \<Longrightarrow> keeps R (f r)"
  shows "keeps R (io_try m f)"
  unfolding keeps_def
proof
  fix w
  obtain r w1 where m: "m w = (r, w1)" by fastforce
  have "R w1 (snd (f r w1))" using assms(2) m unfolding keeps_def by blast
  with keepsD [OF assms(1) m] have "R w (snd (f r w1))" by (rule trans)
  then show "R w (snd (io_try m f w))" using m by (simp add: io_simps)
qed

lemma keeps_fold:
  "(\<And>s x. x \<in> set xs \<Longrightarrow> keeps R (f s x)) \<Longrightarrow> keeps R (io_fold f s xs)"
  by (induction xs arbitrary: s) (auto intro: keeps_bind simp: keeps_pure)

lemmas keeps_core = keeps_pure keeps_bind keeps_try keeps_fold keeps_cases

end

section \<open>Four frames\<close>

definition same_disk :: "'z world_scheme \<Rightarrow> 'z world_scheme \<Rightarrow> bool" where
  "same_disk w w' \<longleftrightarrow> files w' = files w \<and> same_host w w'"

definition same_at :: "string set \<Rightarrow> 'z world_scheme \<Rightarrow> 'z world_scheme \<Rightarrow> bool" where
  "same_at S w w' \<longleftrightarrow> (\<forall>p\<in>S. map_of (files w') p = map_of (files w) p) \<and> same_host w w'"

definition rand_only :: "'z world_scheme \<Rightarrow> 'z world_scheme \<Rightarrow> bool" where
  "rand_only w w' \<longleftrightarrow> (\<exists>k. w' = w\<lparr>rand_ix := k\<rparr>)"

definition same_field :: "('z world_scheme \<Rightarrow> 'c) \<Rightarrow> 'z world_scheme \<Rightarrow> 'z world_scheme \<Rightarrow> bool" where
  "same_field g w w' \<longleftrightarrow> g w' = g w"

interpretation disk: frame same_disk
  by unfold_locales (auto simp: same_disk_def intro: same_host_trans)

interpretation part: frame "same_at S" for S
  by unfold_locales (auto simp: same_at_def intro: same_host_trans)

interpretation rnd: frame rand_only
proof
  show "rand_only w w" for w :: "'z world_scheme" by (auto simp: rand_only_def intro!: exI [of _ "rand_ix w"])
qed (auto simp: rand_only_def)

interpretation fld: frame "same_field g" for g
  by unfold_locales (auto simp: same_field_def)

abbreviation read_only :: "('a, 'z) io \<Rightarrow> bool" where "read_only m \<equiv> keeps same_disk m"
abbreviation leaves :: "string set \<Rightarrow> ('a, 'z) io \<Rightarrow> bool" where "leaves S m \<equiv> keeps (same_at S) m"
abbreviation quiet :: "('a, 'z) io \<Rightarrow> bool" where "quiet m \<equiv> keeps rand_only m"

lemma read_only_def: "read_only m \<longleftrightarrow> (\<forall>w. files (snd (m w)) = files w \<and> same_host w (snd (m w)))"
  by (simp add: keeps_def same_disk_def)

lemma leaves_def:
  "leaves S m \<longleftrightarrow> (\<forall>w. (\<forall>p\<in>S. map_of (files (snd (m w))) p = map_of (files w) p) \<and> same_host w (snd (m w)))"
  by (simp add: keeps_def same_at_def)

lemma quiet_def: "quiet m \<longleftrightarrow> (\<forall>w. \<exists>k. snd (m w) = w\<lparr>rand_ix := k\<rparr>)"
  by (simp add: keeps_def rand_only_def)

lemma leaves_read_only: "read_only m \<Longrightarrow> leaves S m"
  by (simp add: read_only_def leaves_def)

lemma leavesD:
  "leaves S m \<Longrightarrow> p \<in> S \<Longrightarrow> m w = (r, w') \<Longrightarrow> map_of (files w') p = map_of (files w) p"
  "leaves S m \<Longrightarrow> m w = (r, w') \<Longrightarrow> same_host w w'"
  by (auto dest: keepsD simp: same_at_def)

named_theorems read_only_intros
named_theorems leaves_intros

declare disk.keeps_core [read_only_intros]
declare part.keeps_core [leaves_intros]

text \<open>The primitive operations.\<close>

lemma read_only_host [read_only_intros]:
  "read_only (check_fault op p)" "read_only time_Now" "read_only (lookup_file p)" "read_only (randomBytes n)"
  by (auto simp: read_only_def io_simps check_fault_def time_Now_def lookup_file_def randomBytes_def same_host_def
      split: option.split)

lemma read_only_os [read_only_intros]: "read_only (os_Stat p)" "read_only (os_ReadFile p)" "read_only (os_MkdirAll p)"
  unfolding os_Stat_def os_ReadFile_def os_MkdirAll_def by (intro read_only_intros)+

lemma read_only_dir [read_only_intros]: "read_only (os_ReadDir d)"
  unfolding os_ReadDir_def by (intro read_only_intros) (simp add: read_only_def)

lemma leaves_write [leaves_intros]: "p \<notin> S \<Longrightarrow> leaves S (atomicWriteFile p d)"
  unfolding leaves_def
proof (intro allI)
  fix w assume "p \<notin> S"
  obtain r w' where aw: "atomicWriteFile p d w = (r, w')" by fastforce
  from aw show "(\<forall>q\<in>S. map_of (files (snd (atomicWriteFile p d w))) q = map_of (files w) q) \<and> same_host w (snd (atomicWriteFile p d w))"
    using \<open>p \<notin> S\<close> by (cases rule: atomicWriteFile_cases) (auto simp: aw update_conv')
qed

end
