(* ===== verification/UserPath.thy ===== *)
theory UserPath
  imports Fs
begin

text \<open>
  User-entered host paths (\<^verbatim>\<open>internal/userpath/userpath.go\<close>): the expansion of \<^verbatim>\<open>~\<close>, of \<^verbatim>\<open>$NAME\<close> and
  \<^verbatim>\<open>${NAME}\<close> by \<^verbatim>\<open>os.ExpandEnv\<close> and of \<^verbatim>\<open>%NAME%\<close>, and the absolute, cleaned path they stand for on a
  host with the separator \<^verbatim>\<open>/\<close>.  A host has an environment, a home directory and a working directory,
  any of which may be missing.
\<close>

section \<open>Environment\<close>

record user_env =
  LookupEnv :: "string \<Rightarrow> string option"
  UserHome :: "string option"
  Getwd :: "error + string"

definition os_Getenv :: "user_env \<Rightarrow> string \<Rightarrow> string" where
  "os_Getenv e n = (case LookupEnv e n of None \<Rightarrow> '''' | Some x \<Rightarrow> x)"

section \<open>os.ExpandEnv\<close>

definition isShellSpecialVar :: "char \<Rightarrow> bool" where
  "isShellSpecialVar c \<longleftrightarrow> c \<in> set ''*#$@!?-0123456789''"

definition isAlphaNum :: "char \<Rightarrow> bool" where
  "isAlphaNum c \<longleftrightarrow> c = CHR ''_'' \<or> (let n = of_char c :: nat in 48 \<le> n \<and> n \<le> 57 \<or> 65 \<le> n \<and> n \<le> 90 \<or> 97 \<le> n \<and> n \<le> 122)"

text \<open>The name behind a dollar and the number of characters it takes, none for a bad one.\<close>

definition getShellName :: "string \<Rightarrow> string \<times> nat" where
  "getShellName s = (case s of [] \<Rightarrow> ('''', 0)
   | c # cs \<Rightarrow>
       if c = CHR ''{'' then
         (if length s > 2 \<and> isShellSpecialVar (s ! 1) \<and> s ! 2 = CHR ''}'' then ([s ! 1], 3)
          else (case Index_of ''}'' cs of
             None \<Rightarrow> ('''', 1)
           | Some i \<Rightarrow> if i = 0 then ('''', 2) else (take i cs, i + 2)))
       else if isShellSpecialVar c then ([c], 1)
       else let name = takeWhile isAlphaNum s in (name, length name))"

fun os_ExpandEnv :: "user_env \<Rightarrow> string \<Rightarrow> string" where
  "os_ExpandEnv e [] = []"
| "os_ExpandEnv e (c # cs) =
     (if c = CHR ''$'' \<and> cs \<noteq> [] then
        (case getShellName cs of (name, k) \<Rightarrow>
           (if name = '''' \<and> k > 0 then '''' else if name = '''' then [c] else os_Getenv e name) @ os_ExpandEnv e (drop k cs))
      else c # os_ExpandEnv e cs)"

section \<open>userpath.go\<close>

fun expandPercentEnv :: "user_env \<Rightarrow> string \<Rightarrow> string" where
  "expandPercentEnv e [] = []"
| "expandPercentEnv e (c # cs) =
     (if c \<noteq> CHR ''%'' then c # expandPercentEnv e cs
      else (case Index_of ''%'' cs of
         None \<Rightarrow> c # expandPercentEnv e cs
       | Some j \<Rightarrow>
           let name = take j cs in
           if name = '''' then ''%%'' @ expandPercentEnv e (drop 1 cs)
           else (case LookupEnv e name of Some val \<Rightarrow> val | None \<Rightarrow> c # take (j + 1) cs)
             @ expandPercentEnv e (drop (j + 1) cs)))"

definition Expand :: "user_env \<Rightarrow> string \<Rightarrow> error + string" where
  "Expand e input =
     (let s0 = TrimSpace input in
      if s0 = '''' then Inl (EMsg ''vault path is required'')
      else let s = expandPercentEnv e (os_ExpandEnv e s0) in
        if s = ''~'' \<or> HasPrefix s ''~/'' \<or> HasPrefix s (CHR ''~'' # [CHR 0x5C]) then
          (case UserHome e of
             None \<Rightarrow> Inl (EMsg ''cannot expand ~ because the user home directory is unknown'')
           | Some home \<Rightarrow>
               if TrimSpace home = '''' then Inl (EMsg ''cannot expand ~ because the user home directory is unknown'')
               else Inr (path_Clean (if s = ''~'' then home else path_Join home (drop 2 s))))
        else if HasPrefix s ''~'' then Inl (EMsg ''cannot expand another user's home shortcut'')
        else Inr (path_Clean s))"

text \<open>\<^verbatim>\<open>filepath.Abs\<close>.\<close>

definition filepath_Absolute :: "user_env \<Rightarrow> string \<Rightarrow> error + string" where
  "filepath_Absolute e p =
     (if path_IsAbs p then Inr (path_Clean p)
      else case Getwd e of Inl err \<Rightarrow> Inl err | Inr wd \<Rightarrow> Inr (path_Join wd p))"

definition Abs :: "user_env \<Rightarrow> string \<Rightarrow> error + string" where
  "Abs e input =
     (case Expand e input of
        Inl err \<Rightarrow> Inl err
      | Inr expanded \<Rightarrow> (case filepath_Absolute e expanded of Inl err \<Rightarrow> Inl err | Inr p \<Rightarrow> Inr (path_Clean p)))"

end
