(* ===== verification/ConfigGuard.thy ===== *)
theory ConfigGuard
  imports Config AppDir Frames UserPath
begin

text \<open>
  Authenticity and freshness of \<^verbatim>\<open>vault.json\<close>: the configuration tag of \<^verbatim>\<open>internal/vault/configmac.go\<close>,
  the device-local anchor of \<^verbatim>\<open>anchor.go\<close>, the one funnel \<^verbatim>\<open>rewriteConfig\<close> of \<^verbatim>\<open>rotation.go\<close> with the
  operations that go through it (also those of \<^verbatim>\<open>seal.go\<close>), the reader inventory of \<^verbatim>\<open>readers.go\<close>, and the
  steps of opening a vault that come before and at the gate (\<^verbatim>\<open>vault.go\<close>, \<^verbatim>\<open>metadir.go\<close>).  The mutable fields
  of the handle, the configuration and the note, extend the host state.  The results: what the gate
  decides, that the anchor never moves back, and that after a rotation every older configuration
  is refused.
\<close>

section \<open>State\<close>

record freshnessAnchor =
  anc_FormatEpoch :: int
  anc_HasTag :: bool
  anc_ConfigTag :: string

record ReaderRecord =
  rr_DeviceID :: string
  rr_SupportedFormat :: int
  rr_Version :: int
  rr_LastSeen :: string

record OpenOptions =
  AcceptRollback :: bool

text \<open>
  The mutable fields of \<^verbatim>\<open>Vault\<close> the guard reads and writes.
\<close>

record handle = world +
  vConfig :: VaultConfig
  anchorNote :: string

text \<open>
  What the guard calls outside the repository: the crypto libraries, the process environment and
  \<^verbatim>\<open>encoding/json\<close> on the types below (whose marshalling cannot fail: they hold strings, integers,
  booleans and string-keyed maps only), and the environment a user-typed path is expanded in.
\<close>

record guard_env =
  g_ke :: kdf_env
  g_cr :: crypt
  g_os :: os_env
  g_dev :: device_codec
  marshalConfig :: "VaultConfig \<Rightarrow> bytes"
  marshalIndentConfig :: "VaultConfig \<Rightarrow> bytes"
  unmarshalConfig :: "bytes \<Rightarrow> VaultConfig option"
  marshalAnchor :: "freshnessAnchor \<Rightarrow> bytes"
  unmarshalAnchor :: "bytes \<Rightarrow> freshnessAnchor option"
  marshalReaders :: "ReaderRecord gomap \<Rightarrow> bytes"
  unmarshalReaders :: "bytes \<Rightarrow> ReaderRecord gomap option"
  marshalLegacyID :: "string \<Rightarrow> string \<Rightarrow> bytes"
  g_user :: user_env
  fmtNano :: "int \<Rightarrow> string"

type_synonym ('a, 'z) vio = "('a, 'z handle_ext) io"

definition get_config :: "(VaultConfig, 'z) vio" where "get_config w = (Inr (vConfig w), w)"
definition set_config :: "VaultConfig \<Rightarrow> (unit, 'z) vio" where "set_config c w = (Inr (), w\<lparr>vConfig := c\<rparr>)"
definition set_note :: "string \<Rightarrow> (unit, 'z) vio" where
  "set_note n w = (Inr (), if n = '''' then w else w\<lparr>anchorNote := n\<rparr>)"

section \<open>configmac.go: the tag\<close>

definition configMACInfo :: string where "configMACInfo = ''seavault-config-mac-v1''"

definition configMACKey :: "guard_env \<Rightarrow> bytes \<Rightarrow> bytes option" where
  "configMACKey g master = deriveSubkey (g_ke g) master configMACInfo"

definition canonicalConfigBytes :: "guard_env \<Rightarrow> VaultConfig \<Rightarrow> bytes" where
  "canonicalConfigBytes g cfg = marshalConfig g (cfg\<lparr>ConfigTag := ''''\<rparr>)"

definition computeConfigTag :: "guard_env \<Rightarrow> bytes \<Rightarrow> VaultConfig \<Rightarrow> error + string" where
  "computeConfigTag g master cfg =
     (case configMACKey g master of
        None \<Rightarrow> Inl (EPanic ''hkdf'')
      | Some k \<Rightarrow> Inr (b64enc (g_ke g) (hmac256 (g_ke g) k (canonicalConfigBytes g cfg))))"

definition verifyConfigTag :: "guard_env \<Rightarrow> bytes \<Rightarrow> VaultConfig \<Rightarrow> bool" where
  "verifyConfigTag g master cfg =
     (if ConfigTag cfg = '''' then False
      else case computeConfigTag g master cfg of Inl _ \<Rightarrow> False | Inr got \<Rightarrow> got = ConfigTag cfg)"

section \<open>anchor.go\<close>

definition anchorUnavailableNote :: string where
  "anchorUnavailableNote = ''freshness anchoring unavailable (app data directory not writable); rollback protection is disabled for this open''"

definition anchorInfo :: string where "anchorInfo = ''seavault-anchor-id-v1''"

definition empty_anchor :: freshnessAnchor where
  "empty_anchor = \<lparr>anc_FormatEpoch = 0, anc_HasTag = False, anc_ConfigTag = ''''\<rparr>"

definition anchorStorePath :: "guard_env \<Rightarrow> string \<Rightarrow> error + string" where
  "anchorStorePath g aid =
     (case DataDir (g_os g) of
        Inl e \<Rightarrow> Inl e
      | Inr base \<Rightarrow> Inr (join_under base [''vault-anchors'', aid @ ''.json'']))"

definition anchorID :: "guard_env \<Rightarrow> 'v store_scheme \<Rightarrow> string" where
  "anchorID g v = take 32 (hmacHex (g_cr g) (MasterKey (keys v)) anchorInfo)"

definition anchorPath :: "guard_env \<Rightarrow> 'v store_scheme \<Rightarrow> error + string" where
  "anchorPath g v = anchorStorePath g (anchorID g v)"

definition loadAnchor :: "guard_env \<Rightarrow> string \<Rightarrow> (freshnessAnchor \<times> bool, 'z) io" where
  "loadAnchor g path =
     io_try (os_ReadFile path) (\<lambda>r. case r of
        Inl e \<Rightarrow> if is_not_exist e then io_ret (empty_anchor, False) else io_fail e
      | Inr d \<Rightarrow> (case unmarshalAnchor g d of
          None \<Rightarrow> io_ret (empty_anchor, False)
        | Some a \<Rightarrow> io_ret (a, True)))"

definition saveAnchor :: "guard_env \<Rightarrow> string \<Rightarrow> freshnessAnchor \<Rightarrow> (unit, 'z) io" where
  "saveAnchor g path a = atomicWriteFile path (marshalAnchor g a)"

text \<open>The anchor that the switch of \<^verbatim>\<open>recordAnchor\<close> computes.\<close>

definition next_anchor :: "freshnessAnchor \<Rightarrow> int \<Rightarrow> bool \<Rightarrow> string \<Rightarrow> freshnessAnchor" where
  "next_anchor cur epoch hasTag tag =
     (let n1 = (if epoch > anc_FormatEpoch cur
                then (let n = cur\<lparr>anc_FormatEpoch := epoch\<rparr> in if tag \<noteq> '''' then n\<lparr>anc_ConfigTag := tag\<rparr> else n)
                else if epoch = anc_FormatEpoch cur \<and> anc_ConfigTag cur = '''' \<and> tag \<noteq> ''''
                then cur\<lparr>anc_ConfigTag := tag\<rparr>
                else cur)
      in if hasTag then n1\<lparr>anc_HasTag := True\<rparr> else n1)"

definition recordAnchor :: "guard_env \<Rightarrow> 'v store_scheme \<Rightarrow> int \<Rightarrow> bool \<Rightarrow> string \<Rightarrow> (string, 'z) io" where
  "recordAnchor g v epoch hasTag tag =
     (case anchorPath g v of
        Inl _ \<Rightarrow> io_ret anchorUnavailableNote
      | Inr path \<Rightarrow>
          io_try (loadAnchor g path) (\<lambda>r.
            let (cur, existed) = (case r of Inl _ \<Rightarrow> (empty_anchor, False) | Inr x \<Rightarrow> x);
                nxt = next_anchor cur epoch hasTag tag
            in if existed \<and> nxt = cur then io_ret ''''
               else io_try (saveAnchor g path nxt) (\<lambda>s. case s of
                      Inl _ \<Rightarrow> io_ret anchorUnavailableNote
                    | Inr _ \<Rightarrow> io_ret '''')))"

definition clearAnchor :: "guard_env \<Rightarrow> 'v store_scheme \<Rightarrow> (string, 'z) io" where
  "clearAnchor g v =
     (case anchorPath g v of
        Inl _ \<Rightarrow> io_ret anchorUnavailableNote
      | Inr path \<Rightarrow>
          io_try (os_Remove path) (\<lambda>r. case r of
            Inl e \<Rightarrow> io_ret (if is_not_exist e then '''' else anchorUnavailableNote)
          | Inr _ \<Rightarrow> io_ret ''''))"

section \<open>configmac.go: the gate\<close>

definition checkFreshness :: "guard_env \<Rightarrow> 'v store_scheme \<Rightarrow> OpenOptions \<Rightarrow> (unit, 'z) vio" where
  "checkFreshness g v opts =
     (case anchorPath g v of
        Inl _ \<Rightarrow> set_note anchorUnavailableNote
      | Inr path \<Rightarrow>
          io_try (loadAnchor g path) (\<lambda>r. case r of
            Inl _ \<Rightarrow> set_note anchorUnavailableNote
          | Inr (anc, existed) \<Rightarrow>
              io_bind get_config (\<lambda>c. let epoch = FormatEpoch c; tag = ConfigTag c in
              io_bind (if \<not> existed then io_ret ()
                       else if epoch < anc_FormatEpoch anc then
                         (if AcceptRollback opts then io_bind (clearAnchor g v) set_note
                          else io_fail ErrConfigRolledBack)
                       else if epoch = anc_FormatEpoch anc \<and> anc_ConfigTag anc \<noteq> '''' \<and> tag \<noteq> anc_ConfigTag anc
                       then io_fail ErrConfigDiverged
                       else io_ret ()) (\<lambda>_.
              io_bind (recordAnchor g v epoch True tag) set_note))))"

definition checkConfigIntegrity :: "guard_env \<Rightarrow> 'v store_scheme \<Rightarrow> OpenOptions \<Rightarrow> (unit, 'z) vio" where
  "checkConfigIntegrity g v opts =
     io_bind get_config (\<lambda>c.
       if ConfigTag c \<noteq> '''' then
         (if \<not> verifyConfigTag g (MasterKey (keys v)) c then io_fail ErrConfigTampered
          else checkFreshness g v opts)
       else (case anchorPath g v of
               Inl _ \<Rightarrow> set_note anchorUnavailableNote
             | Inr path \<Rightarrow>
                 io_try (loadAnchor g path) (\<lambda>r. case r of
                   Inl _ \<Rightarrow> set_note anchorUnavailableNote
                 | Inr (anc, existed) \<Rightarrow>
                     if existed \<and> anc_HasTag anc then io_fail ErrConfigTampered else io_ret ())))"

definition ConfigFileName :: string where "ConfigFileName = ''vault.json''"

definition writeConfigFile :: "guard_env \<Rightarrow> 'v store_scheme \<Rightarrow> VaultConfig \<Rightarrow> (unit, 'z) io" where
  "writeConfigFile g v cfg = atomicWriteFile (path_Join (MetaRoot v) ConfigFileName) (marshalIndentConfig g cfg)"

text \<open>Publishing: tag, write, adopt, then anchor; the common tail of the ratchet and of \<^verbatim>\<open>rewriteConfig\<close>.\<close>

definition publish_config :: "guard_env \<Rightarrow> 'v store_scheme \<Rightarrow> VaultConfig \<Rightarrow> (unit, 'z) vio" where
  "publish_config g v next0 =
     io_bind (io_lift (computeConfigTag g (MasterKey (keys v)) next0)) (\<lambda>tag.
       let nxt = next0\<lparr>ConfigTag := tag\<rparr> in
       io_bind (writeConfigFile g v nxt) (\<lambda>_.
       io_bind (set_config nxt) (\<lambda>_.
       io_bind (recordAnchor g v (FormatEpoch nxt) True (ConfigTag nxt)) set_note)))"

definition EnsureConfigMAC :: "guard_env \<Rightarrow> 'v store_scheme \<Rightarrow> (bool, 'z) vio" where
  "EnsureConfigMAC g v =
     io_bind get_config (\<lambda>c.
       if ConfigTag c \<noteq> '''' then io_ret False
       else io_bind (publish_config g v (c\<lparr>FormatEpoch := i64 (FormatEpoch c + 1)\<rparr>)) (\<lambda>_. io_ret True))"

section \<open>rotation.go and seal.go: the funnel and its callers\<close>

definition rewriteConfig :: "guard_env \<Rightarrow> 'v store_scheme \<Rightarrow> (VaultConfig \<Rightarrow> (VaultConfig, 'z) vio) \<Rightarrow> (unit, 'z) vio" where
  "rewriteConfig g v mutate =
     io_bind get_config (\<lambda>c.
     io_bind (mutate c) (\<lambda>n. publish_config g v (n\<lparr>FormatEpoch := i64 (FormatEpoch c + 1)\<rparr>)))"

definition ChangePassword :: "guard_env \<Rightarrow> 'v store_scheme \<Rightarrow> string \<Rightarrow> (unit, 'z) vio" where
  "ChangePassword g v newPassword =
     (if newPassword = '''' then io_fail (EMsg ''new password must not be empty'')
      else rewriteConfig g v (applyPasswordRewrap (g_ke g) (g_cr g) newPassword (keys v)))"

text \<open>The closure that \<^verbatim>\<open>PrepareRecovery\<close> returns.\<close>

definition recovery_commit :: "guard_env \<Rightarrow> 'v store_scheme \<Rightarrow> string \<Rightarrow> (unit, 'z) vio" where
  "recovery_commit g v secret =
     rewriteConfig g v (\<lambda>c. io_bind (makeRecoveryEntry (g_ke g) (g_cr g) secret (KDF c) (keys v))
       (\<lambda>entry. io_ret (c\<lparr>WrapEntries := WrapEntries c @ [entry]\<rparr>)))"

definition remove_or_fail :: "string \<Rightarrow> VaultConfig \<Rightarrow> (VaultConfig, 'z) io" where
  "remove_or_fail eid c =
     (case removeWrapEntry eid WrapTypeRecovery c of
        (c', removed) \<Rightarrow> if removed then io_ret c' else io_fail (EMsg (''recovery entry '' @ eid @ '' not found'')))"

definition RedeemRecovery :: "guard_env \<Rightarrow> 'v store_scheme \<Rightarrow> string \<Rightarrow> string \<Rightarrow> (unit, 'z) vio" where
  "RedeemRecovery g v redeemedEntryID newPassword =
     (if newPassword = '''' then io_fail (EMsg ''new password must not be empty'')
      else if redeemedEntryID = '''' then io_fail (EMsg ''no recovery entry to redeem'')
      else rewriteConfig g v (\<lambda>c. io_bind (remove_or_fail redeemedEntryID c)
             (applyPasswordRewrap (g_ke g) (g_cr g) newPassword (keys v))))"

definition RevokeRecovery :: "guard_env \<Rightarrow> 'v store_scheme \<Rightarrow> string \<Rightarrow> (unit, 'z) vio" where
  "RevokeRecovery g v entryID =
     (if entryID = '''' then io_fail (EMsg ''a recovery entry ID is required'')
      else rewriteConfig g v (remove_or_fail entryID))"

definition WrapEntryRefs :: "VaultConfig \<Rightarrow> (string \<times> string) list" where
  "WrapEntryRefs c = map (\<lambda>e. (we_ID e, we_Type e)) (WrapEntries c)"

definition SealFormat :: "guard_env \<Rightarrow> 'v store_scheme \<Rightarrow> (unit, 'z) vio" where
  "SealFormat g v = rewriteConfig g v (seal_mutation (g_ke g))"

definition UnsealFormat :: "guard_env \<Rightarrow> 'v store_scheme \<Rightarrow> (unit, 'z) vio" where
  "UnsealFormat g v = rewriteConfig g v unseal_mutation"

section \<open>Before the unlock\<close>

definition ResolveMetaDir :: "string \<Rightarrow> (string \<times> bool, 'z) io" where
  "ResolveMetaDir root =
     io_bind (io_fold (\<lambda>found n. io_try (os_Stat (join_under root [n, ConfigFileName])) (\<lambda>r. case r of
                 Inr _ \<Rightarrow> io_ret (found @ [n])
               | Inl e \<Rightarrow> if is_not_exist e then io_ret found else io_fail e)) [] MetadataDirNames)
       (\<lambda>found. case found of
          [] \<Rightarrow> io_ret (hd MetadataDirNames, False)
        | [n] \<Rightarrow> io_ret (n, True)
        | _ \<Rightarrow> io_fail ErrAmbiguousMetadataDir)"

definition maxConfigBytes :: nat where "maxConfigBytes = 1048576"
definition maxWrapEntries :: nat where "maxWrapEntries = 64"

definition readCapped :: "string \<Rightarrow> nat \<Rightarrow> (bytes, 'z) io" where
  "readCapped path mx =
     io_bind (os_ReadFile path) (\<lambda>b.
       if length b > mx then io_fail (ErrConfigTooLarge ''larger than the limit'') else io_ret b)"

definition legacyVaultID :: "guard_env \<Rightarrow> string \<Rightarrow> VaultConfig \<Rightarrow> string" where
  "legacyVaultID g root cfg = take 32 (hmacHex (g_cr g) ''seavault-legacy-vault-id'' (marshalLegacyID g root (Salt (KDF cfg))))"

definition ReadConfig :: "guard_env \<Rightarrow> string \<Rightarrow> (VaultConfig, 'z) io" where
  "ReadConfig g root0 =
     io_bind (io_lift (Abs (g_user g) root0)) (\<lambda>root.
     io_bind (ResolveMetaDir root) (\<lambda>(name, _).
     io_bind (readCapped (join_under root [name, ConfigFileName]) maxConfigBytes) (\<lambda>cfgBytes.
       case unmarshalConfig g cfgBytes of
         None \<Rightarrow> io_fail (EMsg ''invalid vault.json'')
       | Some cfg \<Rightarrow>
           if length (WrapEntries cfg) > maxWrapEntries then io_fail (ErrConfigTooLarge ''too many wrap entries'')
           else io_ret (if VaultID cfg = '''' then cfg\<lparr>VaultID := legacyVaultID g root cfg\<rparr> else cfg))))"

definition prepareOpen :: "guard_env \<Rightarrow> string \<Rightarrow> string \<Rightarrow> (string \<times> VaultConfig \<times> string \<times> bool, 'z) io" where
  "prepareOpen g root secret =
     io_bind (io_lift (Abs (g_user g) root)) (\<lambda>abs.
       if secret = '''' then io_fail (EMsg ''password must not be empty'')
       else io_bind (ReadConfig g abs) (\<lambda>cfg.
         if Version cfg \<noteq> 1 \<and> Version cfg \<noteq> 2 \<and> Version cfg \<noteq> 3
         then io_fail (EMsg (''unsupported vault version '' @ show_int (Version cfg)))
         else (case formatTooNew (MinReader cfg) SupportedFormat of
                 Some e \<Rightarrow> io_fail e
               | None \<Rightarrow> io_bind (ResolveMetaDir abs) (\<lambda>(metaName, metaExists).
                   io_ret (abs, cfg, metaName, metaExists)))))"

section \<open>readers.go\<close>

definition readerStorePath :: "guard_env \<Rightarrow> string \<Rightarrow> error + string" where
  "readerStorePath g vaultID =
     (case DataDir (g_os g) of
        Inl e \<Rightarrow> Inl e
      | Inr base \<Rightarrow> Inr (join_under base [''vault-readers'', vaultID @ ''.json'']))"

text \<open>The inventory, which is empty beside an error.\<close>

definition loadReaderInventory :: "guard_env \<Rightarrow> string \<Rightarrow> (error option \<times> ReaderRecord gomap, 'z) io" where
  "loadReaderInventory g path =
     io_try (os_ReadFile path) (\<lambda>r. case r of
        Inl e \<Rightarrow> io_ret (if is_not_exist e then None else Some e, [])
      | Inr d \<Rightarrow> (case unmarshalReaders g d of None \<Rightarrow> io_ret (None, []) | Some m \<Rightarrow> io_ret (None, m)))"

definition vault_ID :: "guard_env \<Rightarrow> string \<Rightarrow> VaultConfig \<Rightarrow> string" where
  "vault_ID g root c = (if VaultID c \<noteq> '''' then VaultID c else legacyVaultID g root c)"

definition recordReaderSignal :: "guard_env \<Rightarrow> string \<Rightarrow> string \<Rightarrow> (unit, 'z) vio" where
  "recordReaderSignal g root deviceID =
     (if deviceID = '''' then io_ret ()
      else io_bind get_config (\<lambda>c. case readerStorePath g (vault_ID g root c) of
        Inl _ \<Rightarrow> io_ret ()
      | Inr path \<Rightarrow>
          io_bind (loadReaderInventory g path) (\<lambda>(_, inv).
          io_bind time_Now (\<lambda>t.
            let inv' = AList.update deviceID \<lparr>rr_DeviceID = deviceID, rr_SupportedFormat = SupportedFormat,
                         rr_Version = Version c, rr_LastSeen = fmtNano g t\<rparr> inv
            in io_try (atomicWriteFile path (marshalReaders g inv')) (\<lambda>_. io_ret ())))))"

definition ReaderInventory :: "guard_env \<Rightarrow> string \<Rightarrow> (ReaderRecord list, 'z) vio" where
  "ReaderInventory g root =
     io_bind get_config (\<lambda>c. case readerStorePath g (vault_ID g root c) of
        Inl _ \<Rightarrow> io_ret []
      | Inr path \<Rightarrow>
          io_bind (loadReaderInventory g path) (\<lambda>(e, inv). case e of
            Some _ \<Rightarrow> io_ret []
          | None \<Rightarrow> io_ret (sort_key rr_DeviceID (map snd inv))))"

section \<open>What the steps touch\<close>

lemma rand_ix_self [simp]: "\<exists>k. w = w\<lparr>rand_ix := k\<rparr>"
  by (rule exI [of _ "rand_ix w"]) simp

text \<open>All mutations of the configuration only draw random bytes.\<close>

lemmas quiet_bind = rnd.keeps_bind

lemma quiet_basic [simp]: "quiet (io_ret x)" "quiet (io_fail e)" "quiet (io_lift r)" "quiet (randomBytes n)"
  by (rule rnd.keeps_pure)+ (auto simp: quiet_def randomBytes_def split: option.splits)

lemma quiet_wrap [simp]: "quiet (randomHex ke n)" "quiet (freshWrapKDF ke b)" "quiet (wrapKeys ke cr pw cfg ks)"
  by (auto simp: randomHex_def freshWrapKDF_def wrapKeys_def intro!: quiet_bind)

lemma quiet_rewrap [simp]: "quiet (applyPasswordRewrap ke cr pw ks c)"
  unfolding applyPasswordRewrap_def by (auto simp: Let_def intro!: quiet_bind split: prod.splits)

lemma quiet_mutations [simp]:
  "quiet (makeRecoveryEntry ke cr s b ks)" "quiet (remove_or_fail i c)" "quiet (seal_mutation ke c)"
  "quiet (unseal_mutation c)"
  by (auto simp: makeRecoveryEntry_def remove_or_fail_def seal_mutation_def unseal_mutation_def Let_def
      intro!: quiet_bind split: prod.splits)

lemma quietD:
  assumes "quiet m" and "m w = (r, w')"
  obtains k where "w' = w\<lparr>rand_ix := k\<rparr>"
  using assms unfolding quiet_def by (metis snd_conv)

lemma atomicWriteFile_shape:
  assumes "atomicWriteFile p d w = (r, w')"
  shows "\<exists>k. w' = (if isl r then w\<lparr>clock_ix := k\<rparr>
     else w\<lparr>clock_ix := k, files := AList.update p \<lparr>data = d, mtime = clock_src w (clock_ix w)\<rparr> (files w)\<rparr>)"
  using assms
  by (auto simp: atomicWriteFile_def io_simps os_MkdirAll_def check_fault_def time_Now_def put_file_def
      intro: exI [of _ "clock_ix w"] split: option.splits)

section \<open>The anchor on disk\<close>

text \<open>The anchor a device holds for the vault, when its file is there and parses.\<close>

definition anchor_in :: "guard_env \<Rightarrow> string \<Rightarrow> 'z world_scheme \<Rightarrow> freshnessAnchor option" where
  "anchor_in g p w = (case map_of (files w) p of None \<Rightarrow> None | Some f \<Rightarrow> unmarshalAnchor g (data f))"

definition anchor_law :: "guard_env \<Rightarrow> bool" where
  "anchor_law g \<longleftrightarrow> (\<forall>a. unmarshalAnchor g (marshalAnchor g a) = Some a)"

definition anchor_le :: "freshnessAnchor \<Rightarrow> freshnessAnchor \<Rightarrow> bool" where
  "anchor_le a b \<longleftrightarrow> anc_FormatEpoch a \<le> anc_FormatEpoch b \<and> (anc_HasTag a \<longrightarrow> anc_HasTag b)
     \<and> (anc_FormatEpoch a = anc_FormatEpoch b \<and> anc_ConfigTag a \<noteq> '''' \<longrightarrow> anc_ConfigTag b = anc_ConfigTag a)"

lemma anchor_le_refl [simp]: "anchor_le a a" by (simp add: anchor_le_def)
lemma anchor_le_trans: "anchor_le a b \<Longrightarrow> anchor_le b c \<Longrightarrow> anchor_le a c" by (auto simp: anchor_le_def)

lemma next_anchor_le: "anchor_le a (next_anchor a e h t)"
  by (auto simp: next_anchor_def anchor_le_def Let_def)

lemma next_anchor_le2: "anchor_le a b \<Longrightarrow> anchor_le a (next_anchor b e h t)"
  by (rule anchor_le_trans [OF _ next_anchor_le])

lemma next_anchor_epoch: "anc_FormatEpoch (next_anchor a e h t) = max (anc_FormatEpoch a) e"
  by (auto simp: next_anchor_def Let_def)

lemma next_anchor_tag:
  "anc_FormatEpoch a < e \<Longrightarrow> t \<noteq> '''' \<Longrightarrow> anc_ConfigTag (next_anchor a e h t) = t"
  "anc_FormatEpoch a = e \<Longrightarrow> anc_ConfigTag a = t \<Longrightarrow> anc_ConfigTag (next_anchor a e h t) = t"
  "anc_FormatEpoch a = e \<Longrightarrow> anc_ConfigTag a = '''' \<Longrightarrow> anc_ConfigTag (next_anchor a e h t) = t"
  "anc_HasTag (next_anchor a e True t)"
  by (auto simp: next_anchor_def Let_def)

lemma loadAnchor_read:
  assumes "fault w OpRead p = None"
  shows "loadAnchor g p w = (Inr (case anchor_in g p w of None \<Rightarrow> (empty_anchor, False) | Some a \<Rightarrow> (a, True)), w)"
  using assms by (auto simp: loadAnchor_def io_simps os_ReadFile_def check_fault_def lookup_file_def anchor_in_def
      is_not_exist_def split: option.splits)

lemma loadAnchor_same: "\<exists>r. loadAnchor g p w = (r, w)"
  by (auto simp: loadAnchor_def io_simps os_ReadFile_def check_fault_def lookup_file_def is_not_exist_def
      split: option.splits)

text \<open>
  Recording: it reports no error; it leaves every other file alone; and the anchor is the next one,
  or the old one with the note that anchoring is unavailable.
\<close>

lemma recordAnchor_effect:
  assumes "anchor_law g" and "anchorPath g v = Inr p" and "fault w OpRead p = None"
    and "recordAnchor g v e h t w = (r, w')"
  obtains nt fs k where "r = Inr nt" "w' = w\<lparr>clock_ix := k, files := fs\<rparr>" "\<forall>q. q \<noteq> p \<longrightarrow> map_of fs q = map_of (files w) q"
    "nt = '''' \<and> anchor_in g p w' = Some (next_anchor (case anchor_in g p w of None \<Rightarrow> empty_anchor | Some a \<Rightarrow> a) e h t)
     \<or> nt = anchorUnavailableNote \<and> anchor_in g p w' = anchor_in g p w"
    "no_faults w \<longrightarrow> nt = ''''"
proof -
  define cur where "cur = (case anchor_in g p w of None \<Rightarrow> empty_anchor | Some a \<Rightarrow> a)"
  define nxt where "nxt = next_anchor cur e h t"
  have rec: "recordAnchor g v e h t w =
      (if anchor_in g p w \<noteq> None \<and> nxt = cur then (Inr '''', w)
       else case saveAnchor g p nxt w of (Inl _, w1) \<Rightarrow> (Inr anchorUnavailableNote, w1) | (Inr _, w1) \<Rightarrow> (Inr '''', w1))"
    unfolding recordAnchor_def nxt_def cur_def
    by (simp add: assms(2) io_simps loadAnchor_read [OF assms(3)] Let_def split: option.split prod.split sum.split)
  show thesis
  proof (cases "anchor_in g p w \<noteq> None \<and> nxt = cur")
    case True
    then have "r = Inr ''''" "w' = w" using rec assms(4) by auto
    moreover have "anchor_in g p w = Some nxt" using True by (auto simp: cur_def)
    ultimately show thesis by (intro that [where nt = "''''" and fs = "files w" and k = "clock_ix w"]) (auto simp: nxt_def cur_def)
  next
    case False
    obtain s w1 where sv: "atomicWriteFile p (marshalAnchor g nxt) w = (s, w1)" by fastforce
    have rw: "r = Inr (if isl s then anchorUnavailableNote else '''')" "w' = w1"
      using rec assms(4) False sv by (auto simp: saveAnchor_def split: sum.splits)
    obtain k where k: "w1 = (if isl s then w\<lparr>clock_ix := k\<rparr>
        else w\<lparr>clock_ix := k, files := AList.update p \<lparr>data = marshalAnchor g nxt, mtime = clock_src w (clock_ix w)\<rparr> (files w)\<rparr>)"
      using atomicWriteFile_shape [OF sv] by blast
    have nf: "no_faults w \<longrightarrow> \<not> isl s" using atomicWriteFile_ok [OF _ sv] by (metis isl_def sum.distinct(1))
    show thesis
    proof (cases "isl s")
      case True
      then show thesis using rw k nf
        by (intro that [where nt = anchorUnavailableNote and fs = "files w" and k = k]) (auto simp: anchor_in_def)
    next
      case False
      then show thesis using rw k assms(1)
        by (intro that [where nt = "''''" and k = k
             and fs = "AList.update p \<lparr>data = marshalAnchor g nxt, mtime = clock_src w (clock_ix w)\<rparr> (files w)"])
           (auto simp: anchor_in_def anchor_law_def nxt_def cur_def)
    qed
  qed
qed

section \<open>Publishing\<close>

text \<open>The tag does not depend on the tag field.\<close>

lemma computeConfigTag_tag [simp]: "computeConfigTag g m (c\<lparr>ConfigTag := t\<rparr>) = computeConfigTag g m c"
  by (simp add: computeConfigTag_def canonicalConfigBytes_def split: option.split)

abbreviation config_path :: "'v store_scheme \<Rightarrow> string" where
  "config_path v \<equiv> path_Join (MetaRoot v) ConfigFileName"

abbreviation anchor_or_empty :: "guard_env \<Rightarrow> string \<Rightarrow> 'z world_scheme \<Rightarrow> freshnessAnchor" where
  "anchor_or_empty g p w \<equiv> (case anchor_in g p w of None \<Rightarrow> empty_anchor | Some a \<Rightarrow> a)"

text \<open>The device's anchor file is readable and is not the vault's own configuration file.\<close>

definition anchored_host :: "guard_env \<Rightarrow> 'v store_scheme \<Rightarrow> string \<Rightarrow> 'z world_scheme \<Rightarrow> bool" where
  "anchored_host g v p w \<longleftrightarrow> anchor_law g \<and> anchorPath g v = Inr p \<and> config_path v \<noteq> p \<and> fault w OpRead p = None"

lemma anchored_hostD:
  assumes "anchored_host g v p w"
  shows "anchor_law g" "anchorPath g v = Inr p" "config_path v \<noteq> p" "fault w OpRead p = None"
  using assms by (auto simp: anchored_host_def)

lemma anchored_host_same: "anchored_host g v p w \<Longrightarrow> fault w' = fault w \<Longrightarrow> anchored_host g v p w'"
  by (simp add: anchored_host_def)

lemma set_note_shape: "set_note n w = (Inr (), w\<lparr>anchorNote := (if n = '''' then anchorNote w else n)\<rparr>)"
  by (simp add: set_note_def)

lemma publish_effect:
  assumes "anchored_host g v p w" and "publish_config g v c w = (r, w')"
  obtains (err) e k where "r = Inl e" "w' = w\<lparr>clock_ix := k\<rparr>"
  | (ok) tag where "r = Inr ()" "computeConfigTag g (MasterKey (keys v)) c = Inr tag" "vConfig w' = c\<lparr>ConfigTag := tag\<rparr>"
      "map_option data (map_of (files w') (config_path v)) = Some (marshalIndentConfig g (c\<lparr>ConfigTag := tag\<rparr>))"
      "same_host w w'"
      "anchor_in g p w' = Some (next_anchor (anchor_or_empty g p w) (FormatEpoch c) True tag)
       \<or> anchor_in g p w' = anchor_in g p w \<and> \<not> no_faults w"
proof -
  note h = anchored_hostD [OF assms(1)]
  show thesis
  proof (cases "computeConfigTag g (MasterKey (keys v)) c")
    case (Inl e)
    then show thesis using assms(2) by (intro err [of e "clock_ix w"]) (auto simp: publish_config_def io_simps)
  next
    case (Inr tag)
    let ?c = "c\<lparr>ConfigTag := tag\<rparr>"
    obtain s w1 where sv: "atomicWriteFile (config_path v) (marshalIndentConfig g ?c) w = (s, w1)" by fastforce
    show thesis
      using sv
    proof (cases rule: atomicWriteFile_cases)
      case (err e)
      then obtain k where "w1 = w\<lparr>clock_ix := k\<rparr>" using atomicWriteFile_shape [OF sv] by auto
      then show thesis using err(1) assms(2) Inr sv
        by (intro that(1) [of e k]) (auto simp: publish_config_def io_simps writeConfigFile_def Let_def)
    next
      case (ok t)
      let ?w2 = "w1\<lparr>vConfig := ?c\<rparr>"
      have f2: "fault ?w2 OpRead p = None" using ok(3) h(4) by (simp add: same_host_def)
      obtain rr w3 where rec: "recordAnchor g v (FormatEpoch c) True tag ?w2 = (rr, w3)" by fastforce
      obtain nt fs k where rx: "rr = Inr nt" "w3 = ?w2\<lparr>clock_ix := k, files := fs\<rparr>"
        "\<forall>q. q \<noteq> p \<longrightarrow> map_of fs q = map_of (files ?w2) q"
        "nt = '''' \<and> anchor_in g p w3 = Some (next_anchor (anchor_or_empty g p ?w2) (FormatEpoch c) True tag)
         \<or> nt = anchorUnavailableNote \<and> anchor_in g p w3 = anchor_in g p ?w2" "no_faults ?w2 \<longrightarrow> nt = ''''"
        using recordAnchor_effect [OF h(1,2) f2 rec] .
      have w': "r = Inr ()" "w' = w3\<lparr>anchorNote := (if nt = '''' then anchorNote w3 else nt)\<rparr>"
        using assms(2) Inr sv ok(1) rec rx(1)
        by (auto simp: publish_config_def io_simps writeConfigFile_def Let_def set_config_def set_note_shape)
      have same: "anchor_in g p ?w2 = anchor_in g p w" using ok(2) h(3) by (simp add: anchor_in_def)
      have after: "anchor_in g p w' = anchor_in g p w3" using w'(2) by (simp add: anchor_in_def)
      have nf: "no_faults ?w2 = no_faults w" using ok(3) by (simp add: no_faults_def same_host_def)
      show thesis
      proof (rule that(2) [of tag])
        show "anchor_in g p w' = Some (next_anchor (anchor_or_empty g p w) (FormatEpoch c) True tag)
            \<or> anchor_in g p w' = anchor_in g p w \<and> \<not> no_faults w"
          using rx(4,5) nf unfolding after same by (auto simp: anchorUnavailableNote_def)
        show "map_option data (map_of (files w') (config_path v)) = Some (marshalIndentConfig g ?c)"
          using w'(2) rx(2,3) ok(2) h(3) by auto
      qed (use w' rx ok Inr in \<open>auto simp: same_host_def\<close>)
    qed
  qed
qed

lemma rewriteConfig_effect:
  assumes "anchored_host g v p w" and "quiet (mutate (vConfig w))" and "rewriteConfig g v mutate w = (r, w')"
  obtains (err) e where "r = Inl e" "files w' = files w" "vConfig w' = vConfig w" "same_host w w'"
  | (ok) c tag w1 k where "r = Inr ()" "mutate (vConfig w) w = (Inr c, w1)" "w1 = w\<lparr>rand_ix := k\<rparr>"
      "computeConfigTag g (MasterKey (keys v)) (vConfig w') = Inr tag" "ConfigTag (vConfig w') = tag"
      "vConfig w' = c\<lparr>FormatEpoch := i64 (FormatEpoch (vConfig w) + 1), ConfigTag := tag\<rparr>"
      "map_option data (map_of (files w') (config_path v)) = Some (marshalIndentConfig g (vConfig w'))"
      "same_host w w'"
      "anchor_in g p w' = Some (next_anchor (anchor_or_empty g p w) (FormatEpoch (vConfig w')) True tag)
       \<or> anchor_in g p w' = anchor_in g p w \<and> \<not> no_faults w"
proof -
  obtain s w1 where m: "mutate (vConfig w) w = (s, w1)" by fastforce
  obtain k where k: "w1 = w\<lparr>rand_ix := k\<rparr>" using assms(2) m by (rule quietD)
  show thesis
  proof (cases s)
    case (Inl e)
    then show thesis using m k assms(3)
      by (intro err [of e]) (auto simp: rewriteConfig_def io_simps get_config_def same_host_def)
  next
    case (Inr c)
    let ?c = "c\<lparr>FormatEpoch := i64 (FormatEpoch (vConfig w) + 1)\<rparr>"
    have pub: "publish_config g v ?c w1 = (r, w')"
      using assms(3) m Inr by (simp add: rewriteConfig_def io_simps get_config_def)
    have a: "anchored_host g v p w1" using assms(1) k by (simp add: anchored_host_def)
    have i: "anchor_in g p w1 = anchor_in g p w" "no_faults w1 = no_faults w"
      using k by (simp_all add: anchor_in_def no_faults_def)
    show thesis
      using a pub
    proof (cases rule: publish_effect)
      case (err e k')
      then show thesis using k by (intro that(1) [of e]) (auto simp: same_host_def)
    next
      case (ok tag)
      have "computeConfigTag g (MasterKey (keys v)) (vConfig w') = Inr tag" using ok(2,3) by simp
      then show thesis using ok m k Inr unfolding i
        by (intro that(2) [of c w1 k tag]) (auto simp: same_host_def)
    qed
  qed
qed

section \<open>The gate\<close>

definition strict :: OpenOptions where "strict = \<lparr>AcceptRollback = False\<rparr>"

text \<open>What a device that holds the anchor \<open>oa\<close> makes of a configuration.\<close>

definition gate_accepts :: "guard_env \<Rightarrow> 'v store_scheme \<Rightarrow> freshnessAnchor option \<Rightarrow> VaultConfig \<Rightarrow> bool" where
  "gate_accepts g v oa c \<longleftrightarrow>
     (if ConfigTag c = '''' then (case oa of Some a \<Rightarrow> \<not> anc_HasTag a | None \<Rightarrow> True)
      else verifyConfigTag g (MasterKey (keys v)) c
        \<and> (case oa of None \<Rightarrow> True
             | Some a \<Rightarrow> anc_FormatEpoch a < FormatEpoch c
                 \<or> anc_FormatEpoch a = FormatEpoch c \<and> (anc_ConfigTag a = '''' \<or> anc_ConfigTag a = ConfigTag c)))"

lemma checkFreshness_effect:
  assumes "anchored_host g v p w" and "checkFreshness g v strict w = (r, w')" and "ConfigTag (vConfig w) \<noteq> ''''"
    and "verifyConfigTag g (MasterKey (keys v)) (vConfig w)"
  obtains (err) e where "r = Inl e" "w' = w" "\<not> gate_accepts g v (anchor_in g p w) (vConfig w)"
  | (ok) "r = Inr ()" "gate_accepts g v (anchor_in g p w) (vConfig w)" "vConfig w' = vConfig w" "same_host w w'"
      "anchor_in g p w' = Some (next_anchor (anchor_or_empty g p w) (FormatEpoch (vConfig w)) True (ConfigTag (vConfig w)))
       \<or> anchor_in g p w' = anchor_in g p w \<and> \<not> no_faults w"
proof -
  note h = anchored_hostD [OF assms(1)]
  let ?c = "vConfig w"
  show thesis
  proof (cases "gate_accepts g v (anchor_in g p w) ?c")
    case False
    then obtain a where "anchor_in g p w = Some a" "FormatEpoch ?c < anc_FormatEpoch a
        \<or> FormatEpoch ?c = anc_FormatEpoch a \<and> anc_ConfigTag a \<noteq> '''' \<and> ConfigTag ?c \<noteq> anc_ConfigTag a"
      using assms(3,4) unfolding gate_accepts_def by (cases "anchor_in g p w") (auto simp: not_less le_less)
    then have "\<exists>e. checkFreshness g v strict w = (Inl e, w)"
      by (auto simp: checkFreshness_def h(2) io_simps loadAnchor_read [OF h(4)] get_config_def strict_def Let_def)
    then show thesis using assms(2) False that(1) by force
  next
    case True
    obtain rr w3 where rec: "recordAnchor g v (FormatEpoch ?c) True (ConfigTag ?c) w = (rr, w3)" by fastforce
    obtain nt fs k where rx: "rr = Inr nt" "w3 = w\<lparr>clock_ix := k, files := fs\<rparr>"
      "nt = '''' \<and> anchor_in g p w3 = Some (next_anchor (anchor_or_empty g p w) (FormatEpoch ?c) True (ConfigTag ?c))
       \<or> nt = anchorUnavailableNote \<and> anchor_in g p w3 = anchor_in g p w" "no_faults w \<longrightarrow> nt = ''''"
      using recordAnchor_effect [OF h(1,2,4) rec] by metis
    have "checkFreshness g v strict w = (Inr (), w3\<lparr>anchorNote := (if nt = '''' then anchorNote w3 else nt)\<rparr>)"
    proof (cases "anchor_in g p w")
      case None
      then show ?thesis using rec rx(1)
        by (simp add: checkFreshness_def h(2) io_simps loadAnchor_read [OF h(4)] get_config_def Let_def set_note_shape)
    next
      case (Some a)
      then have "\<not> FormatEpoch ?c < anc_FormatEpoch a"
        "\<not> (FormatEpoch ?c = anc_FormatEpoch a \<and> anc_ConfigTag a \<noteq> '''' \<and> ConfigTag ?c \<noteq> anc_ConfigTag a)"
        using True assms(3) by (auto simp: gate_accepts_def)
      then show ?thesis using rec rx(1) Some
        by (simp add: checkFreshness_def h(2) io_simps loadAnchor_read [OF h(4)] get_config_def Let_def set_note_shape)
    qed
    then have w': "r = Inr ()" "w' = w3\<lparr>anchorNote := (if nt = '''' then anchorNote w3 else nt)\<rparr>"
      using assms(2) by simp_all
    have after: "anchor_in g p w' = anchor_in g p w3" using w'(2) by (simp add: anchor_in_def)
    show thesis
    proof (rule that(2))
      show "anchor_in g p w' = Some (next_anchor (anchor_or_empty g p w) (FormatEpoch ?c) True (ConfigTag ?c))
          \<or> anchor_in g p w' = anchor_in g p w \<and> \<not> no_faults w"
        using rx(3,4) unfolding after by (auto simp: anchorUnavailableNote_def)
    qed (use w' rx True in \<open>auto simp: same_host_def\<close>)
  qed
qed

lemma gate_effect:
  assumes "anchored_host g v p w" and "checkConfigIntegrity g v strict w = (r, w')"
  obtains (err) e where "r = Inl e" "w' = w" "\<not> gate_accepts g v (anchor_in g p w) (vConfig w)"
  | (ok) "r = Inr ()" "gate_accepts g v (anchor_in g p w) (vConfig w)" "vConfig w' = vConfig w" "same_host w w'"
      "ConfigTag (vConfig w) \<noteq> '''' \<and>
       anchor_in g p w' = Some (next_anchor (anchor_or_empty g p w) (FormatEpoch (vConfig w)) True (ConfigTag (vConfig w)))
       \<or> anchor_in g p w' = anchor_in g p w \<and> (ConfigTag (vConfig w) = '''' \<or> \<not> no_faults w)"
proof -
  note h = anchored_hostD [OF assms(1)]
  let ?c = "vConfig w"
  show thesis
  proof (cases "ConfigTag ?c = ''''")
    case True
    show thesis
    proof (cases "gate_accepts g v (anchor_in g p w) ?c")
      case acc: True
      then have "checkConfigIntegrity g v strict w = (Inr (), w)" using True
        by (auto simp: checkConfigIntegrity_def io_simps get_config_def h(2) loadAnchor_read [OF h(4)] gate_accepts_def
            split: option.splits)
      then show thesis using assms(2) acc True that(2) by auto
    next
      case rej: False
      then have "checkConfigIntegrity g v strict w = (Inl ErrConfigTampered, w)" using True
        by (auto simp: checkConfigIntegrity_def io_simps get_config_def h(2) loadAnchor_read [OF h(4)] gate_accepts_def
            split: option.splits)
      then show thesis using assms(2) rej that(1) by auto
    qed
  next
    case False
    show thesis
    proof (cases "verifyConfigTag g (MasterKey (keys v)) ?c")
      case ver: True
      have "checkFreshness g v strict w = (r, w')"
        using assms(2) False ver by (simp add: checkConfigIntegrity_def io_simps get_config_def)
      from checkFreshness_effect [OF assms(1) this False ver] show thesis
        by (metis that(1) that(2) False)
    next
      case bad: False
      then have "checkConfigIntegrity g v strict w = (Inl ErrConfigTampered, w)"
        using False by (simp add: checkConfigIntegrity_def io_simps get_config_def)
      moreover have "\<not> gate_accepts g v (anchor_in g p w) ?c" using False bad by (simp add: gate_accepts_def)
      ultimately show thesis using assms(2) that(1) by auto
    qed
  qed
qed

section \<open>Runs of a device\<close>

text \<open>
  What can happen between two unlocks on one device: the vault's own configuration operations, an
  opening of whatever configuration is served, strict or with \<open>AcceptRollback\<close>, any change of any
  file (the sync client, another program), and any change of the disk's faults.
\<close>

datatype guard_op =
    OpenGate OpenOptions VaultConfig | Ratchet | PwChange string | RecoveryCommit string | Redeem string string
  | Revoke string | Seal | Unseal

datatype guard_event =
    Do guard_op
  | External string "fsfile option"
  | Faults "fsop \<Rightarrow> string \<Rightarrow> string option" "string \<Rightarrow> nat \<Rightarrow> (string \<times> bool) option"

fun run_op :: "guard_env \<Rightarrow> 'v store_scheme \<Rightarrow> guard_op \<Rightarrow> 'z handle_scheme \<Rightarrow> 'z handle_scheme" where
  "run_op g v (OpenGate opts c) w = snd (checkConfigIntegrity g v opts (w\<lparr>vConfig := c\<rparr>))"
| "run_op g v Ratchet w = snd (EnsureConfigMAC g v w)"
| "run_op g v (PwChange pw) w = snd (ChangePassword g v pw w)"
| "run_op g v (RecoveryCommit s) w = snd (recovery_commit g v s w)"
| "run_op g v (Redeem i pw) w = snd (RedeemRecovery g v i pw w)"
| "run_op g v (Revoke i) w = snd (RevokeRecovery g v i w)"
| "run_op g v Seal w = snd (SealFormat g v w)"
| "run_op g v Unseal w = snd (UnsealFormat g v w)"

inductive guard_step :: "guard_env \<Rightarrow> 'v store_scheme \<Rightarrow> 'z handle_scheme \<Rightarrow> guard_event \<Rightarrow> 'z handle_scheme \<Rightarrow> bool"
  for g v where
  do_op: "guard_step g v w (Do opn) (run_op g v opn w)"
| file_put: "guard_step g v w (External q (Some f)) (w\<lparr>files := AList.update q f (files w)\<rparr>)"
| file_del: "guard_step g v w (External q None) (w\<lparr>files := AList.delete q (files w)\<rparr>)"
| disk: "guard_step g v w (Faults fl rf) (w\<lparr>fault := fl, rename_fault := rf\<rparr>)"

text \<open>
  The events under which the anchor at \<open>p\<close> can be trusted: no opening with \<open>AcceptRollback\<close>, nobody
  but the vault code writes or removes the anchor file, and the disk does not refuse to read it.
\<close>

fun strict_op :: "guard_op \<Rightarrow> bool" where
  "strict_op (OpenGate opts c) = (\<not> AcceptRollback opts)"
| "strict_op _ = True"

fun calm :: "string \<Rightarrow> guard_event \<Rightarrow> bool" where
  "calm p (Do opn) = strict_op opn"
| "calm p (External q f) = (q \<noteq> p)"
| "calm p (Faults fl rf) = (fl OpRead p = None)"

lemma run_of_restrict:
  "run_of step s es s' \<Longrightarrow> \<forall>e\<in>set es. P e \<Longrightarrow> run_of (\<lambda>s e s'. step s e s' \<and> P e) s es s'"
  by (induction rule: run_of.induct) (auto intro: run_of.intros)

lemma strict_options: "\<not> AcceptRollback opts \<Longrightarrow> opts = strict"
  by (cases opts) (simp add: strict_def)

definition guard_inv :: "guard_env \<Rightarrow> 'v store_scheme \<Rightarrow> string \<Rightarrow> freshnessAnchor \<Rightarrow> 'z handle_scheme \<Rightarrow> bool" where
  "guard_inv g v p a w \<longleftrightarrow> anchored_host g v p w \<and> (\<exists>a'. anchor_in g p w = Some a' \<and> anchor_le a a')"

lemma guard_inv_advance:
  assumes "guard_inv g v p a w" and "same_host w w'"
    and "anchor_in g p w' = Some (next_anchor (anchor_or_empty g p w) e h t) \<or> anchor_in g p w' = anchor_in g p w"
  shows "guard_inv g v p a w'"
  using assms unfolding guard_inv_def
  by (auto simp: same_host_def anchored_host_def next_anchor_le2)

lemma guard_inv_rewrite:
  assumes "guard_inv g v p a w" and "quiet (mutate (vConfig w))"
  shows "guard_inv g v p a (snd (rewriteConfig g v mutate w))"
proof -
  obtain r w' where r: "rewriteConfig g v mutate w = (r, w')" by fastforce
  have h: "anchored_host g v p w" using assms(1) by (simp add: guard_inv_def)
  from h assms(2) r have "guard_inv g v p a w'"
  proof (cases rule: rewriteConfig_effect)
    case (err e)
    then show ?thesis by (intro guard_inv_advance [OF assms(1)]) (auto simp: anchor_in_def)
  next
    case (ok c tag w1 k)
    then show ?thesis by (intro guard_inv_advance [OF assms(1) ok(8)]) auto
  qed
  then show ?thesis using r by simp
qed

lemma guard_inv_publish:
  assumes "guard_inv g v p a w"
  shows "guard_inv g v p a (snd (publish_config g v c w))"
proof -
  obtain r w' where r: "publish_config g v c w = (r, w')" by fastforce
  have h: "anchored_host g v p w" using assms(1) by (simp add: guard_inv_def)
  from h r have "guard_inv g v p a w'"
  proof (cases rule: publish_effect)
    case (err e k)
    then show ?thesis by (intro guard_inv_advance [OF assms(1)]) (auto simp: anchor_in_def same_host_def)
  next
    case (ok tag)
    then show ?thesis by (intro guard_inv_advance [OF assms(1) ok(5)]) auto
  qed
  then show ?thesis using r by simp
qed

lemma guard_inv_gate:
  assumes "guard_inv g v p a w"
  shows "guard_inv g v p a (snd (checkConfigIntegrity g v strict (w\<lparr>vConfig := c\<rparr>)))"
proof -
  let ?w = "w\<lparr>vConfig := c\<rparr>"
  obtain r w' where r: "checkConfigIntegrity g v strict ?w = (r, w')" by fastforce
  have i: "guard_inv g v p a ?w" using assms by (simp add: guard_inv_def anchored_host_def anchor_in_def)
  then have h: "anchored_host g v p ?w" by (simp add: guard_inv_def)
  from h r have "guard_inv g v p a w'"
  proof (cases rule: gate_effect)
    case (err e)
    then show ?thesis using i by simp
  next
    case ok
    then show ?thesis by (intro guard_inv_advance [OF i ok(4)]) auto
  qed
  then show ?thesis using r by simp
qed

lemma guard_inv_op:
  assumes "guard_inv g v p a w" and "strict_op opn"
  shows "guard_inv g v p a (run_op g v opn w)"
proof (cases opn)
  case Ratchet
  show ?thesis
  proof (cases "ConfigTag (vConfig w) = ''''")
    case True
    let ?p = "publish_config g v (vConfig w\<lparr>FormatEpoch := i64 (FormatEpoch (vConfig w) + 1)\<rparr>) w"
    have "snd (EnsureConfigMAC g v w) = snd ?p"
      using True by (cases ?p) (auto simp: EnsureConfigMAC_def io_simps get_config_def split: sum.split)
    then show ?thesis using Ratchet guard_inv_publish [OF assms(1)] by simp
  qed (use assms Ratchet in \<open>simp add: EnsureConfigMAC_def io_simps get_config_def\<close>)
next
  case (RecoveryCommit s)
  show ?thesis unfolding RecoveryCommit run_op.simps recovery_commit_def
    by (rule guard_inv_rewrite [OF assms(1)]) (auto intro!: quiet_bind)
next
  case (Redeem i pw)
  then show ?thesis using assms
    by (auto simp: RedeemRecovery_def io_simps intro!: guard_inv_rewrite quiet_bind)
next
  case (Revoke i)
  then show ?thesis using assms by (auto simp: RevokeRecovery_def io_simps intro!: guard_inv_rewrite)
next
  case (PwChange pw)
  then show ?thesis using assms by (auto simp: ChangePassword_def io_simps intro!: guard_inv_rewrite)
qed (use assms in \<open>auto simp: SealFormat_def UnsealFormat_def dest: strict_options intro!: guard_inv_rewrite guard_inv_gate\<close>)

interpretation guard: stepped "\<lambda>w e w'. guard_step g v w e w' \<and> calm p e" "guard_inv g v p a" for g v p a
proof
  fix w w' :: "'z handle_scheme" and e
  assume i: "guard_inv g v p a w" and s: "guard_step g v w e w' \<and> calm p e"
  from s [THEN conjunct1] show "guard_inv g v p a w'"
    by cases (use i s in \<open>auto simp: guard_inv_op, auto simp: guard_inv_def anchored_host_def anchor_in_def\<close>)
qed

lemmas calm_run_inv = guard.run_inv [OF run_of_restrict]

text \<open>
  What the anchor's order buys: a device whose anchor is at least \<open>n\<close> refuses, after any calm run,
  every configuration that \<open>n\<close> outdates, and the refusal writes nothing.
\<close>

definition outdated :: "freshnessAnchor \<Rightarrow> VaultConfig \<Rightarrow> bool" where
  "outdated n c \<longleftrightarrow>
     (if ConfigTag c = '''' then anc_HasTag n
      else FormatEpoch c < anc_FormatEpoch n
        \<or> FormatEpoch c = anc_FormatEpoch n \<and> anc_ConfigTag n \<noteq> '''' \<and> ConfigTag c \<noteq> anc_ConfigTag n)"

lemma outdated_le: "outdated n c \<Longrightarrow> anchor_le n a \<Longrightarrow> \<not> gate_accepts g v (Some a) c"
  by (auto simp: outdated_def anchor_le_def gate_accepts_def split: if_splits)

lemma outdated_refused:
  assumes "guard_inv g v p n w" and "run_of (guard_step g v) w es w2" and "\<forall>e\<in>set es. calm p e" and "outdated n c"
  shows "\<exists>e. checkConfigIntegrity g v strict (w2\<lparr>vConfig := c\<rparr>) = (Inl e, w2\<lparr>vConfig := c\<rparr>)"
proof -
  let ?w = "w2\<lparr>vConfig := c\<rparr>"
  from calm_run_inv [OF assms(2,3,1)] obtain a where a: "anchored_host g v p w2" "anchor_in g p w2 = Some a" "anchor_le n a"
    by (auto simp: guard_inv_def)
  have h: "anchored_host g v p ?w" "anchor_in g p ?w = Some a" using a by (simp_all add: anchored_host_def anchor_in_def)
  have rej: "\<not> gate_accepts g v (anchor_in g p ?w) (vConfig ?w)" using outdated_le [OF assms(4) a(3)] h(2) by simp
  obtain r w3 where r: "checkConfigIntegrity g v strict ?w = (r, w3)" by fastforce
  from h(1) r show ?thesis by (cases rule: gate_effect) (use r rej in auto)
qed

section \<open>Rotation\<close>

text \<open>An HMAC is never empty.\<close>

definition mac_law :: "kdf_env \<Rightarrow> bool" where
  "mac_law ke \<longleftrightarrow> (\<forall>k m. hmac256 ke k m \<noteq> [])"

lemma tag_nonempty:
  assumes "codec_law (g_ke g)" and "mac_law (g_ke g)" and "computeConfigTag g m c = Inr tag"
  shows "tag \<noteq> ''''"
  using assms(3) b64enc_empty [OF assms(1)] assms(2)
  by (auto simp: computeConfigTag_def mac_law_def split: option.splits)

lemma gate_after_rotation:
  assumes "anc_FormatEpoch a < FormatEpoch c'" and "verifyConfigTag g (MasterKey (keys v)) c'"
  shows "gate_accepts g v (Some (next_anchor a (FormatEpoch c') True (ConfigTag c'))) c \<longleftrightarrow>
    verifyConfigTag g (MasterKey (keys v)) c
    \<and> (FormatEpoch c' < FormatEpoch c \<or> FormatEpoch c' = FormatEpoch c \<and> ConfigTag c' = ConfigTag c)"
proof -
  have t: "ConfigTag c' \<noteq> ''''" using assms(2) by (auto simp: verifyConfigTag_def split: if_splits)
  show ?thesis using assms(1) t
    by (auto simp: gate_accepts_def next_anchor_epoch next_anchor_tag verifyConfigTag_def max_def)
qed

lemma try_entries_none:
  "\<forall>e\<in>set es. we_Type e = t \<longrightarrow> isl (unwrapEntry ke cr s ver e) \<Longrightarrow> try_entries ke cr s ver t es = None"
  by (induction es) (auto split: sum.splits)

text \<open>What an accepted configuration outdates once it is recorded.\<close>

lemma outdated_accepted:
  assumes "gate_accepts g v oa c'" and "ConfigTag c' \<noteq> ''''"
    and "ConfigTag c = '''' \<or> FormatEpoch c < FormatEpoch c'
       \<or> FormatEpoch c = FormatEpoch c' \<and> ConfigTag c \<noteq> ConfigTag c'"
  shows "outdated (next_anchor (case oa of None \<Rightarrow> empty_anchor | Some a \<Rightarrow> a) (FormatEpoch c') True (ConfigTag c')) c"
  using assms
  by (cases oa) (auto simp: outdated_def gate_accepts_def next_anchor_def empty_anchor_def Let_def)

text \<open>
  An authorised rollback is the one opening that lets the anchor fall: with \<open>AcceptRollback\<close> a verified
  configuration older than the anchor is opened, the anchor is cleared and recorded anew at the
  restored epoch.
\<close>

lemma accept_rollback_rebases:
  assumes "anchored_host g v p w" and "no_faults w" and "AcceptRollback opts"
    and "ConfigTag (vConfig w) \<noteq> ''''" and "verifyConfigTag g (MasterKey (keys v)) (vConfig w)"
    and "anchor_in g p w = Some a" and "FormatEpoch (vConfig w) < anc_FormatEpoch a"
    and "checkConfigIntegrity g v opts w = (r, w')"
  shows "r = Inr () \<and> anchor_in g p w' = Some (next_anchor empty_anchor (FormatEpoch (vConfig w)) True (ConfigTag (vConfig w)))"
proof -
  note h = anchored_hostD [OF assms(1)]
  let ?c = "vConfig w" and ?w1 = "w\<lparr>files := AList.delete p (files w)\<rparr>"
  obtain f where f: "map_of (files w) p = Some f" using assms(6) by (auto simp: anchor_in_def split: option.splits)
  have rm: "os_Remove p w = (Inr (), ?w1)"
    using assms(2) f by (simp add: os_Remove_def check_fault_def no_faults_def io_simps lookup_file_def)
  obtain rr w3 where rec: "recordAnchor g v (FormatEpoch ?c) True (ConfigTag ?c) ?w1 = (rr, w3)" by fastforce
  have f1: "fault ?w1 OpRead p = None" "no_faults ?w1" using h(4) assms(2) by (simp_all add: no_faults_def)
  have em: "anchor_in g p ?w1 = None" by (simp add: anchor_in_def AList.delete_conv')
  obtain nt fs k where rx: "rr = Inr nt" "w3 = ?w1\<lparr>clock_ix := k, files := fs\<rparr>"
    "nt = '''' \<and> anchor_in g p w3 = Some (next_anchor (anchor_or_empty g p ?w1) (FormatEpoch ?c) True (ConfigTag ?c))
     \<or> nt = anchorUnavailableNote \<and> anchor_in g p w3 = anchor_in g p ?w1" "no_faults ?w1 \<longrightarrow> nt = ''''"
    using recordAnchor_effect [OF h(1,2) f1(1) rec] by metis
  have "checkConfigIntegrity g v opts w = (Inr (), w3)"
    using assms(3-7) rm rec rx(1,4) f1(2)
    by (simp add: checkConfigIntegrity_def checkFreshness_def h(2) io_simps loadAnchor_read [OF h(4)] get_config_def Let_def
        clearAnchor_def set_note_shape)
  then show ?thesis using assms(8) rx(3,4) f1(2) em by (auto simp: anchorUnavailableNote_def)
qed

text \<open>
  A stale handle: when the device's anchor already outdates the configuration a mutation writes, the
  mutation reports success and the very next strict opening refuses what it wrote.
\<close>

lemma stale_rotation_refused:
  assumes "anchored_host g v p w" and "quiet (mutate (vConfig w))" and "rewriteConfig g v mutate w = (Inr (), w')"
    and "anchor_in g p w = Some a" and "outdated a (vConfig w')"
  shows "\<exists>e. checkConfigIntegrity g v strict w' = (Inl e, w')"
proof -
  have "guard_inv g v p a w" using assms(1,4) by (simp add: guard_inv_def)
  from guard_inv_rewrite [where mutate = mutate, OF this assms(2)] have "guard_inv g v p a w'" using assms(3) by simp
  from outdated_refused [OF this run_Nil _ assms(5)] show ?thesis by simp
qed

text \<open>An environment and a handle for evaluations.\<close>

definition encode_anchor :: "freshnessAnchor \<Rightarrow> bytes" where
  "encode_anchor a = (if anc_HasTag a then CHR ''1'' else CHR ''0'') # (if anc_FormatEpoch a < 0 then CHR ''-'' else CHR ''+'')
     # replicate (nat (abs (anc_FormatEpoch a))) (CHR ''x'') @ CHR '';'' # anc_ConfigTag a"

definition decode_anchor :: "bytes \<Rightarrow> freshnessAnchor option" where
  "decode_anchor b = (case b of
     h # s # r \<Rightarrow> (let n = length (takeWhile (\<lambda>c. c = CHR ''x'') r)
        in Some \<lparr>anc_FormatEpoch = (if s = CHR ''-'' then - int n else int n), anc_HasTag = (h = CHR ''1''),
                 anc_ConfigTag = drop (Suc n) r\<rparr>)
   | _ \<Rightarrow> None)"

definition demo_user :: user_env where
  "demo_user = \<lparr>LookupEnv = (\<lambda>_. None), UserHome = Some ''/home/u'', Getwd = Inr ''/vault/SeaVaultData''\<rparr>"

definition demo_guard :: guard_env where
  "demo_guard = \<lparr>g_ke = demo_kdf, g_cr = box_crypt, g_os = demo_os, g_dev = demo_device,
     marshalConfig = (\<lambda>c. show_int (FormatEpoch c)), marshalIndentConfig = (\<lambda>c. show_int (FormatEpoch c)),
     unmarshalConfig = (\<lambda>b. None), marshalAnchor = encode_anchor, unmarshalAnchor = decode_anchor,
     marshalReaders = (\<lambda>m. []), unmarshalReaders = (\<lambda>b. None), marshalLegacyID = (\<lambda>r s. r @ s), g_user = demo_user,
     fmtNano = show_int\<rparr>"

definition demo_vault :: store where
  "demo_vault = \<lparr>MetaRoot = ''/vault/SeaVaultData'', keys = demo_keys, chunkAEAD = ''c'', indexAEAD = ''i''\<rparr>"

definition demo_handle :: "VaultConfig \<Rightarrow> handle" where
  "demo_handle c = \<lparr>files = [], fault = (\<lambda>_ _. None), rename_fault = (\<lambda>_ _. None), clock_src = int, clock_ix = 0,
     rand_src = (\<lambda>i n. Some (replicate n (CHR ''r''))), rand_ix = 0, vConfig = c, anchorNote = ''''\<rparr>"

definition demo_anchor_path :: string where
  "demo_anchor_path = (case anchorPath demo_guard demo_vault of Inr p \<Rightarrow> p | Inl _ \<Rightarrow> '''')"

lemma demo_anchor_law: "anchor_law demo_guard"
proof -
  have "takeWhile (\<lambda>c. c = CHR ''x'') (replicate n (CHR ''x'') @ CHR '';'' # t) = replicate n (CHR ''x'')" for n t
    by (induction n) auto
  then show ?thesis by (auto simp: anchor_law_def demo_guard_def encode_anchor_def decode_anchor_def)
qed

lemma demo_anchored: "anchored_host demo_guard demo_vault demo_anchor_path (demo_handle c)"
proof -
  have "anchorPath demo_guard demo_vault = Inr demo_anchor_path" by code_simp
  moreover have "config_path demo_vault \<noteq> demo_anchor_path" by code_simp
  ultimately show ?thesis using demo_anchor_law by (simp add: anchored_host_def demo_handle_def)
qed

lemma demo_handle_ok: "no_faults (demo_handle c)" "rand_ok (demo_handle c)" "vConfig (demo_handle c) = c"
  by (simp_all add: no_faults_def rand_ok_def demo_handle_def)

lemma demo_mac: "mac_law (g_ke demo_guard)" "codec_law (g_ke demo_guard)" "aead_law (g_cr demo_guard)"
  using demo_codec box_aead by (simp_all add: mac_law_def demo_guard_def demo_kdf_def)

definition tagged_demo :: VaultConfig where
  "tagged_demo = demo_config\<lparr>FormatEpoch := 5, ConfigTag := replicate 32 (CHR ''h'')\<rparr>"

section \<open>Properties\<close>

text \<open>
  C19.  The freshness anchor moves back only where the code lets it.  Through any run of a device in
  which every opening is strict (whatever configuration is served), nobody but the vault code touches
  the anchor file and that file stays readable (rotations, redemptions, seals, changes of every other
  file by the sync client and failing writes included), the recorded epoch never falls, the record that
  a tag was once verified is never lost, and the tag recorded for an epoch is not replaced by another
  one of the same epoch.  The two ways out are stated beside it: an opening with \<open>AcceptRollback\<close>
  clears the anchor by design (lemma \<open>accept_rollback_rebases\<close>) and an unreadable anchor is
  rewritten from nothing (theorem \<open>recordAnchor_read_error_resets\<close>).
\<close>

theorem anchor_never_moves_back:
  assumes "anchored_host g v p w" and "anchor_in g p w = Some a"
    and "run_of (guard_step g v) w es w'" and "\<forall>e\<in>set es. calm p e"
  shows "\<exists>a'. anchor_in g p w' = Some a' \<and> anc_FormatEpoch a \<le> anc_FormatEpoch a' \<and> (anc_HasTag a \<longrightarrow> anc_HasTag a')
     \<and> (anc_FormatEpoch a = anc_FormatEpoch a' \<and> anc_ConfigTag a \<noteq> '''' \<longrightarrow> anc_ConfigTag a' = anc_ConfigTag a)"
proof -
  have "guard_inv g v p a w" using assms(1,2) by (simp add: guard_inv_def)
  from calm_run_inv [OF assms(3,4) this] show ?thesis by (auto simp: guard_inv_def anchor_le_def)
qed

definition anchored_demo :: handle where
  "anchored_demo = (demo_handle tagged_demo)\<lparr>files := [(demo_anchor_path, \<lparr>data = encode_anchor
     \<lparr>anc_FormatEpoch = 5, anc_HasTag = True, anc_ConfigTag = ConfigTag tagged_demo\<rparr>, mtime = 0\<rparr>)]\<rparr>"

lemma anchored_demo_in:
  "anchor_in demo_guard demo_anchor_path anchored_demo
     = Some \<lparr>anc_FormatEpoch = 5, anc_HasTag = True, anc_ConfigTag = ConfigTag tagged_demo\<rparr>"
  using demo_anchor_law by (simp add: anchor_in_def anchored_demo_def anchor_law_def demo_guard_def)

lemma anchored_demo_host: "anchored_host demo_guard demo_vault demo_anchor_path anchored_demo"
  using demo_anchored [of tagged_demo] by (simp add: anchored_host_def anchored_demo_def)

theorem anchor_never_moves_back_witness:
  "\<exists>a'. anchor_in demo_guard demo_anchor_path (run_op demo_guard demo_vault Seal
       (run_op demo_guard demo_vault (OpenGate strict demo_config) anchored_demo)) = Some a'
     \<and> anc_FormatEpoch a' \<ge> 5 \<and> anc_HasTag a'"
proof -
  have "run_of (guard_step demo_guard demo_vault) anchored_demo [Do (OpenGate strict demo_config), Do Seal]
      (run_op demo_guard demo_vault Seal (run_op demo_guard demo_vault (OpenGate strict demo_config) anchored_demo))"
    by (rule run_Cons, rule do_op, rule run_Cons, rule do_op) simp
  from anchor_never_moves_back [OF anchored_demo_host anchored_demo_in this] show ?thesis
    by (auto simp: strict_def)
qed

text \<open>
  C3.  No rollback after an accepted open: once a device has opened a tagged configuration on a disk
  without faults, then after any later run whose openings are strict and in which the anchor file
  stays readable and is left to the vault code, it refuses every configuration without a tag, every
  configuration with a smaller epoch and every other configuration of the same epoch, and the refusal
  writes nothing.  (An opening with \<open>AcceptRollback\<close> gives this up by design, and an unreadable
  anchor fails open.)
\<close>

theorem no_rollback_after_accept:
  assumes "anchored_host g v p w" and "no_faults w" and "ConfigTag (vConfig w) \<noteq> ''''"
    and "checkConfigIntegrity g v strict w = (Inr (), w1)"
    and "run_of (guard_step g v) w1 es w2" and "\<forall>e\<in>set es. calm p e"
    and "ConfigTag c = '''' \<or> FormatEpoch c < FormatEpoch (vConfig w)
       \<or> FormatEpoch c = FormatEpoch (vConfig w) \<and> ConfigTag c \<noteq> ConfigTag (vConfig w)"
  shows "\<exists>e. checkConfigIntegrity g v strict (w2\<lparr>vConfig := c\<rparr>) = (Inl e, w2\<lparr>vConfig := c\<rparr>)"
proof -
  let ?n = "next_anchor (anchor_or_empty g p w) (FormatEpoch (vConfig w)) True (ConfigTag (vConfig w))"
  have acc: "anchor_in g p w1 = Some ?n \<and> same_host w w1 \<and> gate_accepts g v (anchor_in g p w) (vConfig w)"
    using assms(1,4) by (cases rule: gate_effect) (use assms(2,3) in auto)
  then have "guard_inv g v p ?n w1" using assms(1) by (auto simp: guard_inv_def anchored_host_def same_host_def)
  moreover have "outdated ?n c" using acc assms(3,7) by (auto simp: outdated_accepted)
  ultimately show ?thesis using assms(5,6) by (intro outdated_refused)
qed

theorem no_rollback_after_accept_witness:
  "\<exists>w1 e. checkConfigIntegrity demo_guard demo_vault strict (demo_handle tagged_demo) = (Inr (), w1)
     \<and> (let w2 = run_op demo_guard demo_vault (OpenGate strict demo_config) (run_op demo_guard demo_vault Seal w1)
        in checkConfigIntegrity demo_guard demo_vault strict (w2\<lparr>vConfig := demo_config\<rparr>) = (Inl e, w2\<lparr>vConfig := demo_config\<rparr>))"
proof -
  have "fst (checkConfigIntegrity demo_guard demo_vault strict (demo_handle tagged_demo)) = Inr ()" by code_simp
  then obtain w1 where g: "checkConfigIntegrity demo_guard demo_vault strict (demo_handle tagged_demo) = (Inr (), w1)"
    by (metis prod.collapse)
  have t: "ConfigTag (vConfig (demo_handle tagged_demo)) \<noteq> ''''" "ConfigTag demo_config = ''''"
    by (simp_all add: demo_handle_def tagged_demo_def demo_config_def)
  have r: "run_of (guard_step demo_guard demo_vault) w1 [Do Seal, Do (OpenGate strict demo_config)]
      (run_op demo_guard demo_vault (OpenGate strict demo_config) (run_op demo_guard demo_vault Seal w1))"
    by (rule run_Cons, rule do_op, rule run_Cons, rule do_op, rule run_Nil)
  have c: "\<forall>e\<in>set [Do Seal, Do (OpenGate strict demo_config)]. calm demo_anchor_path e" by (simp add: strict_def)
  from no_rollback_after_accept [OF demo_anchored demo_handle_ok(1) t(1) g r c disjI1 [OF t(2)]] g
  show ?thesis unfolding Let_def by blast
qed

text \<open>
  C20.  A rotation takes effect for good.  When a configuration mutation succeeds on a disk without
  faults, on a handle that is not stale (the device's anchor is not above the handle's epoch), the new
  configuration is on disk under the next epoch with a tag that verifies; the device then accepts exactly
  the configurations with a valid tag that are newer or carry the very same tag, so that the new one
  opens; and after any later run of strict openings with a readable anchor left to the vault code it
  refuses every configuration that is untagged, older, or another one of the same epoch: the one
  replaced never opens again.  On a stale handle the mutation is written all the same and the next
  strict opening refuses it (lemma \<open>stale_rotation_refused\<close>).
\<close>

theorem rotation_retires_old_config:
  fixes w w' :: "'z handle_scheme"
  assumes "anchored_host g v p w" and "no_faults w" and "codec_law (g_ke g)" and "mac_law (g_ke g)"
    and "quiet (mutate (vConfig w))" and "rewriteConfig g v mutate w = (Inr (), w')"
    and "anc_FormatEpoch (anchor_or_empty g p w) \<le> FormatEpoch (vConfig w)"
    and "FormatEpoch (vConfig w) < max_i64" and "min_i64 \<le> FormatEpoch (vConfig w)"
  shows "map_option data (map_of (files w') (config_path v)) = Some (marshalIndentConfig g (vConfig w'))
    \<and> FormatEpoch (vConfig w') = FormatEpoch (vConfig w) + 1
    \<and> verifyConfigTag g (MasterKey (keys v)) (vConfig w')
    \<and> (\<forall>c. (\<exists>w''. checkConfigIntegrity g v strict (w'\<lparr>vConfig := c\<rparr>) = (Inr (), w'')) \<longleftrightarrow>
         verifyConfigTag g (MasterKey (keys v)) c
         \<and> (FormatEpoch (vConfig w') < FormatEpoch c
            \<or> FormatEpoch (vConfig w') = FormatEpoch c \<and> ConfigTag (vConfig w') = ConfigTag c))
    \<and> (\<forall>es w2 c. run_of (guard_step g v) w' es w2 \<and> (\<forall>e\<in>set es. calm p e)
         \<and> (c = vConfig w \<or> ConfigTag c = '''' \<or> FormatEpoch c < FormatEpoch (vConfig w')
            \<or> FormatEpoch c = FormatEpoch (vConfig w') \<and> ConfigTag c \<noteq> ConfigTag (vConfig w')) \<longrightarrow>
         (\<exists>e. checkConfigIntegrity g v strict (w2\<lparr>vConfig := c\<rparr>) = (Inl e, w2\<lparr>vConfig := c\<rparr>)))"
  using assms(1,5,6)
proof (cases rule: rewriteConfig_effect)
  case (ok c1 tag w1 k)
  have e: "FormatEpoch (vConfig w') = FormatEpoch (vConfig w) + 1" using ok(6) assms(8,9) by simp
  have ne: "tag \<noteq> ''''" using tag_nonempty [OF assms(3,4) ok(4)] .
  then have ver: "verifyConfigTag g (MasterKey (keys v)) (vConfig w')" using ok(4,5) by (simp add: verifyConfigTag_def)
  have a: "anchor_in g p w' = Some (next_anchor (anchor_or_empty g p w) (FormatEpoch (vConfig w')) True (ConfigTag (vConfig w')))"
    using ok(5,9) assms(2) by simp
  have gate: "(\<exists>w''. checkConfigIntegrity g v strict (w'\<lparr>vConfig := c\<rparr>) = (Inr (), w'')) \<longleftrightarrow> gate_accepts g v (anchor_in g p w') c" for c
  proof -
    let ?w = "w'\<lparr>vConfig := c\<rparr>"
    have h: "anchored_host g v p ?w" using assms(1) ok(8) by (simp add: anchored_host_def same_host_def)
    have i: "anchor_in g p ?w = anchor_in g p w'" by (simp add: anchor_in_def)
    obtain r w3 where r: "checkConfigIntegrity g v strict ?w = (r, w3)" by fastforce
    from h r show ?thesis by (cases rule: gate_effect) (use r i in auto)
  qed
  let ?n = "next_anchor (anchor_or_empty g p w) (FormatEpoch (vConfig w')) True (ConfigTag (vConfig w'))"
  have inv: "guard_inv g v p ?n w'" using assms(1) ok(8) a by (auto simp: guard_inv_def anchored_host_def same_host_def)
  have out: "outdated ?n c" if "c = vConfig w \<or> ConfigTag c = '''' \<or> FormatEpoch c < FormatEpoch (vConfig w')
      \<or> FormatEpoch c = FormatEpoch (vConfig w') \<and> ConfigTag c \<noteq> ConfigTag (vConfig w')" for c
    using that e assms(7) ok(5) ne by (auto simp: outdated_def next_anchor_epoch next_anchor_tag)
  have later: "\<forall>es w2 c. run_of (guard_step g v) w' es w2 \<and> (\<forall>e\<in>set es. calm p e)
         \<and> (c = vConfig w \<or> ConfigTag c = '''' \<or> FormatEpoch c < FormatEpoch (vConfig w')
            \<or> FormatEpoch c = FormatEpoch (vConfig w') \<and> ConfigTag c \<noteq> ConfigTag (vConfig w')) \<longrightarrow>
         (\<exists>e. checkConfigIntegrity g v strict (w2\<lparr>vConfig := c\<rparr>) = (Inl e, w2\<lparr>vConfig := c\<rparr>))"
    using outdated_refused [OF inv] out by blast
  have "\<forall>c. (\<exists>w''. checkConfigIntegrity g v strict (w'\<lparr>vConfig := c\<rparr>) = (Inr (), w'')) \<longleftrightarrow>
         verifyConfigTag g (MasterKey (keys v)) c
         \<and> (FormatEpoch (vConfig w') < FormatEpoch c
            \<or> FormatEpoch (vConfig w') = FormatEpoch c \<and> ConfigTag (vConfig w') = ConfigTag c)"
    unfolding gate a using gate_after_rotation [OF _ ver] e assms(7) by simp
  then show ?thesis using e ver ok(7) later by blast
qed simp

theorem rotation_retires_old_config_witness:
  "\<exists>w'. SealFormat demo_guard demo_vault anchored_demo = (Inr (), w') \<and> FormatEpoch (vConfig w') = 6
     \<and> \<not> (\<exists>w''. checkConfigIntegrity demo_guard demo_vault strict (w'\<lparr>vConfig := tagged_demo\<rparr>) = (Inr (), w''))
     \<and> (\<exists>e. let w2 = run_op demo_guard demo_vault Unseal w'
        in checkConfigIntegrity demo_guard demo_vault strict (w2\<lparr>vConfig := tagged_demo\<rparr>) = (Inl e, w2\<lparr>vConfig := tagged_demo\<rparr>))"
proof -
  have "fst (rewriteConfig demo_guard demo_vault (seal_mutation (g_ke demo_guard)) anchored_demo) = Inr ()" by code_simp
  then obtain w' where r: "rewriteConfig demo_guard demo_vault (seal_mutation (g_ke demo_guard)) anchored_demo = (Inr (), w')"
    by (metis prod.collapse)
  have c: "vConfig anchored_demo = tagged_demo" "FormatEpoch tagged_demo = 5"
    by (simp_all add: anchored_demo_def demo_handle_def tagged_demo_def)
  have n: "no_faults anchored_demo" using demo_handle_ok(1) by (simp add: anchored_demo_def no_faults_def)
  have q: "\<And>x. quiet (seal_mutation (g_ke demo_guard) x)" by simp
  have a: "anc_FormatEpoch (anchor_or_empty demo_guard demo_anchor_path anchored_demo) \<le> FormatEpoch (vConfig anchored_demo)"
    "FormatEpoch (vConfig anchored_demo) < max_i64" "min_i64 \<le> FormatEpoch (vConfig anchored_demo)"
    using c anchored_demo_in by simp_all
  note rot = rotation_retires_old_config [OF anchored_demo_host n demo_mac(2,1) q r a]
  have run: "run_of (guard_step demo_guard demo_vault) w' [Do Unseal] (run_op demo_guard demo_vault Unseal w')"
    by (rule run_Cons, rule do_op, rule run_Nil)
  have "\<forall>e\<in>set [Do Unseal]. calm demo_anchor_path e" by simp
  with rot run c(1) have "\<exists>e. checkConfigIntegrity demo_guard demo_vault strict ((run_op demo_guard demo_vault Unseal w')\<lparr>vConfig := tagged_demo\<rparr>)
      = (Inl e, (run_op demo_guard demo_vault Unseal w')\<lparr>vConfig := tagged_demo\<rparr>)" by metis
  moreover have "FormatEpoch (vConfig w') = 6 \<and> \<not> (\<exists>w''. checkConfigIntegrity demo_guard demo_vault strict
      (w'\<lparr>vConfig := tagged_demo\<rparr>) = (Inr (), w''))"
    using rot c by simp
  ultimately show ?thesis using r unfolding Let_def by (auto simp: SealFormat_def)
qed

text \<open>
  C21.  Redeeming a recovery phrase retires it: after a successful redemption the redeemed entry is gone,
  a secret that no other recovery entry accepts no longer opens the vault, and the new password
  unlocks the same keys.
\<close>

theorem redeem_retires_phrase:
  fixes w w' :: "'z handle_scheme"
  assumes "anchored_host g v p w" and "codec_law (g_ke g)" and "aead_law (g_cr g)" and "rand_ok w"
    and "RedeemRecovery g v eid pw w = (Inr (), w')"
    and "\<forall>e\<in>set (WrapEntries (vConfig w)). we_Type e = WrapTypeRecovery \<and> we_ID e \<noteq> eid \<longrightarrow>
           isl (unwrapEntry (g_ke g) (g_cr g) phrase (Version (vConfig w)) e)"
  shows "\<not> (\<exists>e\<in>set (WrapEntries (vConfig w')). we_ID e = eid \<and> we_Type e = WrapTypeRecovery)
    \<and> recoveryEntryFor (g_ke g) (g_cr g) (vConfig w') phrase = Inl ErrWrongSecret
    \<and> unlockWith (g_ke g) (g_cr g) (vConfig w') pw WrapTypePassword = Inr (keys v)"
proof -
  let ?ke = "g_ke g" and ?cr = "g_cr g"
  define mutate :: "VaultConfig \<Rightarrow> (VaultConfig, 'z) vio"
    where "mutate = (\<lambda>c. io_bind (remove_or_fail eid c) (applyPasswordRewrap ?ke ?cr pw (keys v)))"
  have rw: "rewriteConfig g v mutate w = (Inr (), w')"
    using assms(5) by (auto simp: RedeemRecovery_def mutate_def io_simps split: if_splits)
  have q: "quiet (mutate (vConfig w))" by (auto simp: mutate_def intro!: quiet_bind)
  from assms(1) q rw show ?thesis
  proof (cases rule: rewriteConfig_effect)
    case (ok c tag w1 k)
    let ?c0 = "fst (removeWrapEntry eid WrapTypeRecovery (vConfig w))"
    have c0: "WrapEntries ?c0 = filter (\<lambda>e. \<not> (we_ID e = eid \<and> we_Type e = WrapTypeRecovery)) (WrapEntries (vConfig w))"
      "Version ?c0 = Version (vConfig w)" by (simp_all add: removeWrapEntry_def Let_def)
    have ap: "applyPasswordRewrap ?ke ?cr pw (keys v) ?c0 w = (Inr c, w1)"
      using ok(2) by (auto simp: mutate_def io_simps remove_or_fail_def split: prod.splits if_splits)
    have same: "WrapEntries (vConfig w') = WrapEntries c" "Version (vConfig w') = Version c"
      "KDF (vConfig w') = KDF c" "WrappedKeys (vConfig w') = WrappedKeys c" "WrapNonce (vConfig w') = WrapNonce c"
      using ok(6) by simp_all
    have u: "unlockWith ?ke ?cr (vConfig w') pw WrapTypePassword = Inr (keys v)"
      using rewrap_unlocks(2) [OF assms(2,3,4) ap] unfolding unlockWith_def same .
    obtain i kd n ct and w2 w3 :: "'z handle_scheme"
      where e: "WrapEntries c = filter (\<lambda>e. we_Type e \<noteq> WrapTypePassword) (WrapEntries ?c0) @
        [\<lparr>we_ID = i, we_Type = WrapTypePassword, we_KDF = kd, we_Nonce = n, we_CT = ct, we_AAD = ''''\<rparr>]" "Version c = Version ?c0"
      using ap by (rule applyPasswordRewrap_Inr)
    have ty: "WrapTypeRecovery \<noteq> WrapTypePassword" by (simp add: WrapTypeRecovery_def WrapTypePassword_def)
    have "try_entries ?ke ?cr phrase (Version (vConfig w)) WrapTypeRecovery (WrapEntries ?c0) = None"
      using assms(6) by (intro try_entries_none) (auto simp: c0(1))
    then have r: "recoveryEntryFor ?ke ?cr (vConfig w') phrase = Inl ErrWrongSecret"
      using ty by (simp add: recoveryEntryFor_def same e c0(2) try_entries_append try_entries_filter_other)
    show ?thesis using u r ty by (auto simp: same(1) e(1) c0(1))
  qed simp
qed

definition recovery_demo :: VaultConfig where
  "recovery_demo = demo_config\<lparr>WrapEntries := [\<lparr>we_ID = ''r1'', we_Type = WrapTypeRecovery, we_KDF = KDF demo_config,
     we_Nonce = ''n'', we_CT = ''c'', we_AAD = ''''\<rparr>]\<rparr>"

theorem redeem_retires_phrase_witness:
  "\<exists>w'. RedeemRecovery demo_guard demo_vault ''r1'' ''new'' (demo_handle recovery_demo) = (Inr (), w')
     \<and> recoveryEntryFor demo_kdf box_crypt (vConfig w') ''phrase'' = Inl ErrWrongSecret
     \<and> unlockWith demo_kdf box_crypt (vConfig w') ''new'' WrapTypePassword = Inr demo_keys"
proof -
  have "fst (RedeemRecovery demo_guard demo_vault ''r1'' ''new'' (demo_handle recovery_demo)) = Inr ()" by code_simp
  then obtain w' where r: "RedeemRecovery demo_guard demo_vault ''r1'' ''new'' (demo_handle recovery_demo) = (Inr (), w')"
    by (metis prod.collapse)
  have "\<forall>e\<in>set (WrapEntries (vConfig (demo_handle recovery_demo))). we_Type e = WrapTypeRecovery \<and> we_ID e \<noteq> ''r1'' \<longrightarrow>
      isl (unwrapEntry (g_ke demo_guard) (g_cr demo_guard) ''phrase'' (Version (vConfig (demo_handle recovery_demo))) e)"
    by (simp add: demo_handle_def recovery_demo_def)
  from redeem_retires_phrase [OF demo_anchored demo_mac(2,3) demo_handle_ok(2) r this] r show ?thesis
    by (auto simp: demo_guard_def demo_vault_def)
qed

text \<open>
  C36.  Recording can lower the anchor after all: when the anchor file cannot be read at that moment,
  it is taken for absent and rewritten from nothing, so that whatever epoch it held, the new one is
  the epoch of the configuration just written.
\<close>

theorem recordAnchor_read_error_resets:
  assumes "anchor_law g" and "anchorPath g v = Inr p" and "fault w OpRead p = Some m"
    and "recordAnchor g v e True t w = (Inr '''', w')"
  shows "anchor_in g p w' = Some (next_anchor empty_anchor e True t)"
proof -
  have l: "loadAnchor g p w = (Inl (EMsg m), w)"
    using assms(3) by (simp add: loadAnchor_def io_simps os_ReadFile_def check_fault_def is_not_exist_def)
  obtain s w1 where sv: "atomicWriteFile p (marshalAnchor g (next_anchor empty_anchor e True t)) w = (s, w1)" by fastforce
  have "\<not> isl s \<and> w' = w1"
    using assms(2,4) l sv by (auto simp: recordAnchor_def io_simps saveAnchor_def anchorUnavailableNote_def split: sum.splits)
  then show ?thesis using atomicWriteFile_shape [OF sv] assms(1) by (auto simp: anchor_in_def anchor_law_def)
qed

theorem recordAnchor_read_error_resets_witness:
  "\<exists>w'. recordAnchor demo_guard demo_vault 2 True ''t'' (anchored_demo\<lparr>fault := (\<lambda>o' q. if o' = OpRead then Some ''busy'' else None)\<rparr>)
       = (Inr '''', w') \<and> map_option anc_FormatEpoch (anchor_in demo_guard demo_anchor_path w') = Some 2
     \<and> map_option anc_FormatEpoch (anchor_in demo_guard demo_anchor_path anchored_demo) = Some 5"
proof -
  let ?w = "anchored_demo\<lparr>fault := (\<lambda>o' q. if o' = OpRead then Some ''busy'' else None)\<rparr>"
  have "fst (recordAnchor demo_guard demo_vault 2 True ''t'' ?w) = Inr ''''" by code_simp
  then obtain w' where r: "recordAnchor demo_guard demo_vault 2 True ''t'' ?w = (Inr '''', w')" by (metis prod.collapse)
  have p: "anchorPath demo_guard demo_vault = Inr demo_anchor_path" using demo_anchored by (auto dest: anchored_hostD(2))
  have f: "fault ?w OpRead demo_anchor_path = Some ''busy''" by simp
  from recordAnchor_read_error_resets [OF demo_anchor_law p f r] r anchored_demo_in show ?thesis
    by (simp add: next_anchor_epoch empty_anchor_def)
qed

end
