(* ===== verification/Reconcile.thy ===== *)
theory Reconcile
  imports Paths Clock
begin

text \<open>
  Reconciliation of the on-disk manifest copies of one virtual path: the records, comparison
  functions and \<^verbatim>\<open>reconcilePathCandidates\<close> of \<^verbatim>\<open>internal/vault/manifest.go\<close>.  What the code takes from the
  host (RFC 3339 parsing, the stamp format, the wall clock, SHA-256 in hex) is one record of
  functions, the environment \<open>env\<close>.  The results: the winner is never causally superseded, every
  copy is accounted for exactly once, no edit disappears without one of the reasons the code
  names, and the outcome does not depend on the load order for a fleet whose records all carry
  clocks, while it does for a mixed one.
\<close>

section \<open>Data\<close>

record host_env =
  parseTime :: "string \<Rightarrow> int option"   \<comment> \<open>\<^verbatim>\<open>time.Parse(time.RFC3339Nano, s)\<close>, in nanoseconds\<close>
  fmtStamp :: "int \<Rightarrow> string"           \<comment> \<open>\<^verbatim>\<open>t.UTC().Format("20060102T150405Z")\<close>\<close>
  nowNano :: int                       \<comment> \<open>\<^verbatim>\<open>time.Now().UTC().UnixNano()\<close>\<close>
  sha256hex :: "bytes \<Rightarrow> string"        \<comment> \<open>hex of SHA-256\<close>

record ManifestRecord =
  mr_Version :: int
  mr_Path :: string
  mr_UpdatedAt :: string
  Deleted :: bool
  DeletedGeneration :: int
  mr_Clock :: clock
  File :: FileRecord

record manifestCandidate =
  Record :: ManifestRecord
  cand_ID :: string
  cand_Name :: string
  Source :: string

record plannedConflict =
  pc_Path :: string
  pc_Rec :: FileRecord
  pc_Source :: string

section \<open>Comparisons\<close>

definition unixNanoOrNow :: "host_env \<Rightarrow> string \<Rightarrow> int" where
  "unixNanoOrNow env ts =
     (case parseTime env ts of Some t \<Rightarrow> i64 t | None \<Rightarrow> nowNano env)"

definition normalizeRecordMetadata :: "host_env \<Rightarrow> FileRecord \<Rightarrow> string \<Rightarrow> FileRecord" where
  "normalizeRecordMetadata env rec updatedAt =
     (let rec1 = (if UpdatedAt rec = '''' then rec\<lparr>UpdatedAt := updatedAt\<rparr> else rec)
      in if Generation rec1 = 0
         then rec1\<lparr>Generation := unixNanoOrNow env (UpdatedAt rec1)\<rparr> else rec1)"

definition clockOf :: "ManifestRecord \<Rightarrow> clock" where
  "clockOf rec = (if Clock (File rec) \<noteq> [] then Clock (File rec) else mr_Clock rec)"

definition bothClocked :: "ManifestRecord \<Rightarrow> ManifestRecord \<Rightarrow> bool" where
  "bothClocked a b \<longleftrightarrow> clockOf a \<noteq> [] \<and> clockOf b \<noteq> []"

definition chunk_lines :: "ChunkRef list \<Rightarrow> bytes" where
  "chunk_lines cs = concat (map (\<lambda>c. ref_ID c @ '':'' @ show_int (ref_Size c) @ [CHR 0x0A]) cs)"

definition contentKey :: "host_env \<Rightarrow> ManifestRecord \<Rightarrow> string" where
  "contentKey env rec =
     sha256hex env (chunk_lines (Chunks (File rec))
       @ ''gen='' @ show_int (Generation (File rec)) @ [CHR 0x0A]
       @ ''updated='' @ UpdatedAt (File rec) @ [CHR 0x0A]
       @ ''deleted='' @ (if Deleted rec then ''true'' else ''false'') @ [CHR 0x0A])"

definition clockString :: "clock \<Rightarrow> string" where
  "clockString c =
     (if c = [] then ''''
      else concat (map (\<lambda>k. k @ ''='' @ show_int (clk c k) @ '';'') (sort (map fst c))))"

text \<open>Three-way comparison on a linear order: the shape \<^verbatim>\<open>if x > y { return 1 }; return -1\<close>, 0 when equal.\<close>

definition cmp3 :: "'a::linorder \<Rightarrow> 'a \<Rightarrow> int" where
  "cmp3 x y = (if x > y then 1 else if x < y then -1 else 0)"

definition cmp_bool :: "bool \<Rightarrow> bool \<Rightarrow> int" where
  "cmp_bool a b = (if a = b then 0 else if a then 1 else -1)"

definition effGen :: "host_env \<Rightarrow> ManifestRecord \<Rightarrow> int" where
  "effGen env r = (if Deleted r \<and> Generation (File r) = 0 then unixNanoOrNow env (mr_UpdatedAt r)
                   else Generation (File r))"

definition generationCompare :: "host_env \<Rightarrow> manifestCandidate \<Rightarrow> manifestCandidate \<Rightarrow> int" where
  "generationCompare env a b =
     (let ar = Record a; br = Record b; ag = effGen env ar; bg = effGen env br
      in if ag \<noteq> bg then cmp3 ag bg
         else case (parseTime env (mr_UpdatedAt ar), parseTime env (mr_UpdatedAt br)) of
                (Some at, Some bt) \<Rightarrow>
                  if at \<noteq> bt then cmp3 at bt
                  else if mr_UpdatedAt ar \<noteq> mr_UpdatedAt br then cmp3 (mr_UpdatedAt ar) (mr_UpdatedAt br)
                  else if Deleted ar \<noteq> Deleted br then cmp_bool (Deleted ar) (Deleted br)
                  else cmp3 (cand_ID a) (cand_ID b)
              | _ \<Rightarrow>
                  if mr_UpdatedAt ar \<noteq> mr_UpdatedAt br then cmp3 (mr_UpdatedAt ar) (mr_UpdatedAt br)
                  else if Deleted ar \<noteq> Deleted br then cmp_bool (Deleted ar) (Deleted br)
                  else cmp3 (cand_ID a) (cand_ID b))"

definition concurrentTiebreak :: "host_env \<Rightarrow> manifestCandidate \<Rightarrow> manifestCandidate \<Rightarrow> int" where
  "concurrentTiebreak env a b =
     (if Deleted (Record a) \<noteq> Deleted (Record b)
      then cmp_bool (Deleted (Record a)) (Deleted (Record b))
      else if contentKey env (Record a) \<noteq> contentKey env (Record b)
      then cmp3 (contentKey env (Record a)) (contentKey env (Record b))
      else cmp3 (clockString (clockOf (Record a))) (clockString (clockOf (Record b))))"

definition candidateCompare :: "host_env \<Rightarrow> manifestCandidate \<Rightarrow> manifestCandidate \<Rightarrow> int" where
  "candidateCompare env a b =
     (let ac = clockOf (Record a); bc = clockOf (Record b)
      in if ac \<noteq> [] \<and> bc \<noteq> [] then
           (if clockDominates ac bc then 1
            else if clockDominates bc ac then -1
            else concurrentTiebreak env a b)
         else generationCompare env a b)"

definition isCausallyDominated :: "manifestCandidate \<Rightarrow> manifestCandidate list \<Rightarrow> bool" where
  "isCausallyDominated target all \<longleftrightarrow>
     (let tc = clockOf (Record target)
      in tc \<noteq> [] \<and>
         (\<exists>c \<in> set all. Source c \<noteq> Source target \<and> clockOf (Record c) \<noteq> []
            \<and> clockDominates (clockOf (Record c)) tc))"

definition sameFileRecord :: "FileRecord \<Rightarrow> FileRecord \<Rightarrow> bool" where
  "sameFileRecord a b \<longleftrightarrow> Size a = Size b \<and> Chunks a = Chunks b"

section \<open>Conflict names\<close>

fun replace_stamp :: "string \<Rightarrow> string" where
  "replace_stamp [] = []"
| "replace_stamp (c # cs) =
     (if c = CHR '':'' then replace_stamp cs
      else if c = CHR ''/'' \<or> c = CHR 0x5C \<or> c = CHR ''.'' then CHR ''-'' # replace_stamp cs
      else c # replace_stamp cs)"

definition conflictSuffix :: "host_env \<Rightarrow> FileRecord \<Rightarrow> string" where
  "conflictSuffix env rec =
     (let stamp = (case parseTime env (UpdatedAt rec) of Some t \<Rightarrow> fmtStamp env t | None \<Rightarrow> UpdatedAt rec);
          h = sha256hex env (chunk_lines (Chunks rec)
                @ ''gen='' @ show_int (Generation rec) @ [CHR 0x0A]
                @ ''updated='' @ UpdatedAt rec @ [CHR 0x0A])
      in ''conflict-'' @ replace_stamp stamp @ ''-'' @ take 12 h)"

definition conflictPath :: "host_env \<Rightarrow> string \<Rightarrow> FileRecord \<Rightarrow> string" where
  "conflictPath env original rec =
     (let (dir, f) = path_Split original;
          file = (if f = '''' then ''conflict'' else f)
      in path_Join (TrimSuffix dir ''/'') (file @ ''.'' @ conflictSuffix env rec))"

section \<open>Reconciling one path\<close>

text \<open>What happens to one loser: \<^const>\<open>None\<close> plans the removal of its file, \<^const>\<open>Some\<close> materialises it.\<close>

definition reconcile_loser ::
  "host_env \<Rightarrow> string \<Rightarrow> manifestCandidate \<Rightarrow> manifestCandidate \<Rightarrow> plannedConflict option" where
  "reconcile_loser env p winner loser =
     (let w = Record winner; l = Record loser in
      if Deleted l = Deleted w \<and> sameFileRecord (File l) (File w) then None
      else if Deleted l then None
      else if Deleted w \<and> DeletedGeneration w > 0 \<and> \<not> bothClocked w l
              \<and> (if Generation (File l) = 0 then unixNanoOrNow env (mr_UpdatedAt l)
                 else Generation (File l)) \<le> DeletedGeneration w
      then None
      else let rec = normalizeRecordMetadata env (File l) (mr_UpdatedAt l)
           in Some \<lparr>pc_Path = conflictPath env p rec, pc_Rec = rec\<lparr>ConflictOf := p\<rparr>, pc_Source = Source loser\<rparr>)"

fun reconcile_losers ::
  "host_env \<Rightarrow> string \<Rightarrow> manifestCandidate \<Rightarrow> manifestCandidate list \<Rightarrow>
   plannedConflict list \<times> string list" where
  "reconcile_losers env p winner [] = ([], [])"
| "reconcile_losers env p winner (l # ls) =
     (let (cs, rs) = reconcile_losers env p winner ls
      in case reconcile_loser env p winner l of
           None \<Rightarrow> (cs, Source l # rs)
         | Some c \<Rightarrow> (c # cs, rs))"

definition antichain :: "manifestCandidate list \<Rightarrow> manifestCandidate list" where
  "antichain list = filter (\<lambda>c. \<not> isCausallyDominated c list) list"

text \<open>The whole function; \<^const>\<open>None\<close> is the run-time panic of \<^verbatim>\<open>sorted[0]\<close> on an empty slice.\<close>

definition reconcilePathCandidates ::
  "host_env \<Rightarrow> string \<Rightarrow> manifestCandidate list \<Rightarrow>
   (FileRecord option \<times> plannedConflict list \<times> string list) option" where
  "reconcilePathCandidates env p list =
     (if list = [] then Some (None, [], [])
      else let removed = map Source (filter (\<lambda>c. isCausallyDominated c list) list)
      in case SliceStable (\<lambda>a b. candidateCompare env a b > 0) (antichain list) of
           [] \<Rightarrow> None
         | winner # losers \<Rightarrow>
             let live = (if Deleted (Record winner) then None
                         else Some (normalizeRecordMetadata env (File (Record winner))
                                      (mr_UpdatedAt (Record winner))));
                 (conflicts, rs) = reconcile_losers env p winner losers
             in Some (live, conflicts, removed @ rs))"

section \<open>Comparators\<close>

lemma cmp3_zero [simp]: "cmp3 x y = 0 \<longleftrightarrow> x = y"
  by (auto simp: cmp3_def)

lemma cmp3_ge [simp]: "0 \<le> cmp3 x y \<longleftrightarrow> y \<le> x"
  by (auto simp: cmp3_def)

lemma cmp_bool_facts:
  "cmp_bool x y = 0 \<longleftrightarrow> x = y" "0 \<le> cmp_bool x y \<longleftrightarrow> (y \<longrightarrow> x)"
  by (auto simp: cmp_bool_def)

definition tie_key :: "host_env \<Rightarrow> manifestCandidate \<Rightarrow> bool \<times> string \<times> string" where
  "tie_key env c =
     (Deleted (Record c), contentKey env (Record c), clockString (clockOf (Record c)))"

interpretation ct: comparator "concurrentTiebreak env" "\<lambda>_. True" "tie_key env" for env
proof
  fix x y z :: manifestCandidate
  show "concurrentTiebreak env x y = - concurrentTiebreak env y x"
    by (auto simp: concurrentTiebreak_def cmp3_def cmp_bool_def)
  show "concurrentTiebreak env x y = 0 \<longleftrightarrow> tie_key env x = tie_key env y"
    by (auto simp: concurrentTiebreak_def tie_key_def cmp_bool_facts)
  show "0 \<le> concurrentTiebreak env x z"
    if "0 \<le> concurrentTiebreak env x y" "0 \<le> concurrentTiebreak env y z"
    using that unfolding concurrentTiebreak_def
    by (auto simp: cmp_bool_facts split: if_splits)
qed

definition gen_key :: "host_env \<Rightarrow> manifestCandidate \<Rightarrow> int \<times> int option \<times> string \<times> bool \<times> string" where
  "gen_key env c =
     (effGen env (Record c), parseTime env (mr_UpdatedAt (Record c)), mr_UpdatedAt (Record c),
      Deleted (Record c), cand_ID c)"

definition time_ok :: "host_env \<Rightarrow> manifestCandidate \<Rightarrow> bool" where
  "time_ok env c \<longleftrightarrow> parseTime env (mr_UpdatedAt (Record c)) \<noteq> None"

interpretation gn: comparator "generationCompare env" "time_ok env" "gen_key env" for env
proof
  fix x y z :: manifestCandidate
  assume ok: "time_ok env x" "time_ok env y"
  then show "generationCompare env x y = - generationCompare env y x"
    by (auto simp: generationCompare_def Let_def time_ok_def cmp3_def cmp_bool_def)
  show "generationCompare env x y = 0 \<longleftrightarrow> gen_key env x = gen_key env y"
    using ok by (auto simp: generationCompare_def Let_def time_ok_def gen_key_def cmp_bool_facts
        split: if_splits)
  show "0 \<le> generationCompare env x z"
    if "time_ok env z" "0 \<le> generationCompare env x y" "0 \<le> generationCompare env y z"
    using that ok unfolding generationCompare_def Let_def time_ok_def
    by (auto simp: cmp_bool_facts split: if_splits)
qed

section \<open>Pruning and the winner\<close>

text \<open>What a directory walk delivers: distinct files whose clocks are well formed.\<close>

definition wf_candidates :: "manifestCandidate list \<Rightarrow> bool" where
  "wf_candidates list \<longleftrightarrow>
     distinct (map Source list) \<and> (\<forall>c\<in>set list. wf_clock (clockOf (Record c)))"

lemma wf_candidates_perm: "mset xs = mset ys \<Longrightarrow> wf_candidates xs = wf_candidates ys"
  unfolding wf_candidates_def by (metis mset_eq_setD mset_eq_imp_distinct_iff mset_map)

lemma Source_inj:
  "wf_candidates list \<Longrightarrow> a \<in> set list \<Longrightarrow> b \<in> set list \<Longrightarrow> Source a = Source b \<Longrightarrow> a = b"
  unfolding wf_candidates_def by (auto simp: distinct_map dest: inj_onD)

abbreviation superseded_by :: "manifestCandidate \<Rightarrow> manifestCandidate \<Rightarrow> bool" where
  "superseded_by t c \<equiv> clockDominates (clockOf (Record c)) (clockOf (Record t))"

lemma isCausallyDominated_iff:
  assumes "wf_candidates list" and "t \<in> set list"
  shows "isCausallyDominated t list \<longleftrightarrow> (\<exists>c\<in>set list. superseded_by t c)"
proof
  assume "\<exists>c\<in>set list. superseded_by t c"
  then obtain c where c: "c \<in> set list" "superseded_by t c" by blast
  have "Source c \<noteq> Source t"
  proof
    assume "Source c = Source t"
    then have "c = t" using Source_inj assms c by blast
    then show False using c assms vc.dom_irrefl by (auto simp: wf_candidates_def)
  qed
  then show "isCausallyDominated t list"
    using c clockDominates_nonempty by (auto simp: isCausallyDominated_def Let_def)
qed (auto simp: isCausallyDominated_def Let_def)

lemma antichain_ne:
  assumes "wf_candidates list" and "list \<noteq> []"
  shows "antichain list \<noteq> []"
proof -
  let ?C = "(\<lambda>c. clockOf (Record c)) ` set list"
  have "\<exists>m\<in>?C. \<forall>y\<in>?C. \<not> clockDominates y m"
    using assms by (intro vc.undominated_exists) (auto simp: wf_candidates_def)
  then obtain m where "m \<in> set list" "\<forall>c\<in>set list. \<not> superseded_by m c" by auto
  then have "m \<in> set (antichain list)"
    using isCausallyDominated_iff [OF assms(1)] by (auto simp: antichain_def)
  then show ?thesis by auto
qed

lemma pruned_dominated_by_survivor:
  assumes "wf_candidates list" and "t \<in> set list" and "isCausallyDominated t list"
  shows "\<exists>s\<in>set (antichain list). superseded_by t s"
proof -
  let ?C = "(\<lambda>c. clockOf (Record c)) ` set list"
  obtain c where c: "c \<in> set list" "superseded_by t c"
    using assms isCausallyDominated_iff by blast
  have "\<exists>m\<in>?C. clockDominates m (clockOf (Record t)) \<and> (\<forall>z\<in>?C. \<not> clockDominates z m)"
    using assms c by (intro vc.dominated_by_undominated) (auto simp: wf_candidates_def)
  then obtain s where "s \<in> set list" "superseded_by t s" "\<forall>z\<in>set list. \<not> superseded_by s z" by auto
  then show ?thesis using isCausallyDominated_iff [OF assms(1)] by (auto simp: antichain_def)
qed

text \<open>The elected candidate and the rest, as the sort leaves them.\<close>

abbreviation ranked :: "host_env \<Rightarrow> manifestCandidate list \<Rightarrow> manifestCandidate list" where
  "ranked env list \<equiv> SliceStable (\<lambda>a b. candidateCompare env a b > 0) (antichain list)"

definition live_of :: "host_env \<Rightarrow> ManifestRecord \<Rightarrow> FileRecord option" where
  "live_of env r = (if Deleted r then None
     else Some (normalizeRecordMetadata env (File r) (mr_UpdatedAt r)))"

lemma reconcile_Some:
  assumes "reconcilePathCandidates env p list = Some (live, cs, rs)" and "list \<noteq> []"
  obtains w losers rs' where "ranked env list = w # losers" and "live = live_of env (Record w)"
    and "reconcile_losers env p w losers = (cs, rs')"
    and "rs = map Source (filter (\<lambda>c. isCausallyDominated c list) list) @ rs'"
  using assms unfolding reconcilePathCandidates_def Let_def live_of_def
  by (auto split: list.splits prod.splits)

lemma reconcile_losers_mset:
  "reconcile_losers env p w ls = (cs, rs) \<Longrightarrow> mset (map Source ls) = mset (map pc_Source cs) + mset rs"
proof (induction ls arbitrary: cs rs)
  case (Cons l ls)
  obtain cs0 rs0 where r: "reconcile_losers env p w ls = (cs0, rs0)" by fastforce
  then show ?case using Cons.IH [OF r] Cons.prems
    by (auto simp: reconcile_loser_def Let_def split: option.splits if_splits)
qed simp

lemma reconcile_losers_set:
  "reconcile_losers env p w ls = (cs, rs) \<Longrightarrow>
     set cs = {c. \<exists>l\<in>set ls. reconcile_loser env p w l = Some c}
   \<and> set rs = Source ` {l\<in>set ls. reconcile_loser env p w l = None}"
proof (induction ls arbitrary: cs rs)
  case (Cons l ls)
  obtain cs0 rs0 where r: "reconcile_losers env p w ls = (cs0, rs0)" by fastforce
  show ?case using Cons.IH [OF r] Cons.prems r
    by (cases "reconcile_loser env p w l") auto
qed simp

lemma reconcile_count:
  assumes "reconcilePathCandidates env p list = Some (live, cs, rs)" and "list \<noteq> []"
  shows "length list = Suc (length cs + length rs)"
proof -
  obtain w losers rs' where r: "ranked env list = w # losers"
    "reconcile_losers env p w losers = (cs, rs')"
    "rs = map Source (filter (\<lambda>c. isCausallyDominated c list) list) @ rs'"
    using reconcile_Some assms by blast
  have "length (ranked env list) + length (filter (\<lambda>c. isCausallyDominated c list) list) = length list"
    by (simp add: antichain_def sum_length_filter_compl add.commute)
  moreover have "length losers = length cs + length rs'"
    using reconcile_losers_mset [OF r(2)] by (metis length_map size_mset size_union)
  ultimately show ?thesis using r by simp
qed

lemma mset_ranked: "mset (ranked env list) + mset (filter (\<lambda>c. isCausallyDominated c list) list) = mset list"
  by (simp add: antichain_def)

section \<open>Order independence\<close>

lemma isCausallyDominated_cong: "set xs = set ys \<Longrightarrow> isCausallyDominated c xs = isCausallyDominated c ys"
  by (simp add: isCausallyDominated_def)

lemma mset_antichain:
  assumes "mset xs = mset ys"
  shows "mset (antichain xs) = mset (antichain ys)"
proof -
  have "set xs = set ys" using assms by (rule mset_eq_setD)
  then have "(\<lambda>c. \<not> isCausallyDominated c xs) = (\<lambda>c. \<not> isCausallyDominated c ys)"
    using isCausallyDominated_cong by blast
  then show ?thesis using assms by (simp add: antichain_def)
qed

lemma antichain_no_dominance:
  assumes "wf_candidates list" and "a \<in> set (antichain list)" and "b \<in> set list"
  shows "\<not> superseded_by a b"
  using assms isCausallyDominated_iff by (auto simp: antichain_def)

definition all_clocked :: "manifestCandidate list \<Rightarrow> bool" where
  "all_clocked list \<longleftrightarrow> (\<forall>c\<in>set list. clockOf (Record c) \<noteq> [])"

definition all_unclocked :: "host_env \<Rightarrow> manifestCandidate list \<Rightarrow> bool" where
  "all_unclocked env list \<longleftrightarrow> (\<forall>c\<in>set list. clockOf (Record c) = [] \<and> time_ok env c)"

text \<open>The sort key that decides among the surviving copies, and that it identifies the record.\<close>

definition keys_identify :: "(manifestCandidate \<Rightarrow> 'k) \<Rightarrow> manifestCandidate list \<Rightarrow> bool" where
  "keys_identify key list \<longleftrightarrow> (\<forall>a\<in>set list. \<forall>b\<in>set list. key a = key b \<longrightarrow> Record a = Record b)"

lemma keys_identify_map:
  assumes "keys_identify key list"
  shows "map key xs = map key ys \<Longrightarrow> set xs \<subseteq> set list \<Longrightarrow> set ys \<subseteq> set list \<Longrightarrow> map Record xs = map Record ys"
proof (induction xs arbitrary: ys)
  case (Cons x xs)
  then obtain y zs where "ys = y # zs" by (cases ys) auto
  then show ?case using Cons assms by (auto simp: keys_identify_def)
qed simp

lemma ranked_clocked:
  assumes "wf_candidates list" and "all_clocked list"
  shows "ranked env list = SliceStable (\<lambda>a b. 0 < concurrentTiebreak env a b) (antichain list)"
proof (rule SliceStable_cong)
  fix a b assume "a \<in> set (antichain list)" "b \<in> set (antichain list)"
  moreover have "set (antichain list) \<subseteq> set list" by (auto simp: antichain_def)
  ultimately have "\<not> superseded_by a b" "\<not> superseded_by b a"
    "clockOf (Record a) \<noteq> []" "clockOf (Record b) \<noteq> []"
    using antichain_no_dominance [OF assms(1)] assms(2) by (auto simp: all_clocked_def)
  then show "(0 < candidateCompare env a b) = (0 < concurrentTiebreak env a b)"
    by (simp add: candidateCompare_def)
qed

lemma ranked_unclocked:
  assumes "all_unclocked env list"
  shows "ranked env list = SliceStable (\<lambda>a b. 0 < generationCompare env a b) (antichain list)"
  using assms by (intro SliceStable_cong) (auto simp: all_unclocked_def antichain_def candidateCompare_def)

lemma ranked_records:
  assumes "mset xs = mset ys" and "wf_candidates xs"
    and "all_clocked xs \<and> keys_identify (tie_key env) xs
       \<or> all_unclocked env xs \<and> keys_identify (gen_key env) xs"
  shows "map Record (ranked env xs) = map Record (ranked env ys)"
proof -
  have s: "set ys = set xs" using assms(1) mset_eq_setD by metis
  have sub: "set (ranked env xs) \<subseteq> set xs" "set (ranked env ys) \<subseteq> set xs"
    using s by (auto simp: antichain_def)
  have wy: "wf_candidates ys" using assms(1,2) wf_candidates_perm by blast
  from assms(3) show ?thesis
  proof
    assume c: "all_clocked xs \<and> keys_identify (tie_key env) xs"
    then have "all_clocked ys" using s by (simp add: all_clocked_def)
    then have "map (tie_key env) (ranked env xs) = map (tie_key env) (ranked env ys)"
      using c assms(2) wy ct.SliceStable_keys [OF mset_antichain [OF assms(1)]]
      by (simp add: ranked_clocked)
    then show ?thesis using keys_identify_map c sub by blast
  next
    assume u: "all_unclocked env xs \<and> keys_identify (gen_key env) xs"
    then have "all_unclocked env ys" using s by (simp add: all_unclocked_def)
    moreover have "\<forall>c\<in>set (antichain xs). time_ok env c"
      using u by (auto simp: all_unclocked_def antichain_def)
    ultimately have "map (gen_key env) (ranked env xs) = map (gen_key env) (ranked env ys)"
      using u gn.SliceStable_keys [OF mset_antichain [OF assms(1)]] by (simp add: ranked_unclocked)
    then show ?thesis using keys_identify_map u sub by blast
  qed
qed

abbreviation conflict_view :: "plannedConflict \<Rightarrow> string \<times> FileRecord" where
  "conflict_view k \<equiv> (pc_Path k, pc_Rec k)"

lemma reconcile_loser_cong:
  assumes "Record w = Record w'" and "Record l = Record l'"
  shows "map_option conflict_view (reconcile_loser env p w l)
       = map_option conflict_view (reconcile_loser env p w' l')"
  using assms by (simp add: reconcile_loser_def Let_def)

lemma reconcile_losers_cong:
  assumes w: "Record w = Record w'"
  shows "map Record ls = map Record ls' \<Longrightarrow>
    map conflict_view (fst (reconcile_losers env p w ls)) = map conflict_view (fst (reconcile_losers env p w' ls'))"
proof (induction ls arbitrary: ls')
  case (Cons l ls)
  then obtain m ms where ls': "ls' = m # ms" by (cases ls') auto
  then have "map_option conflict_view (reconcile_loser env p w l)
       = map_option conflict_view (reconcile_loser env p w' m)"
    using Cons.prems w by (intro reconcile_loser_cong) auto
  moreover have "map conflict_view (fst (reconcile_losers env p w ls))
      = map conflict_view (fst (reconcile_losers env p w' ms))"
    using Cons ls' by simp
  ultimately show ?case using ls'
    by (cases "reconcile_loser env p w l"; cases "reconcile_loser env p w' m")
       (auto simp: split_def Let_def)
qed simp

text \<open>A small host for concrete evaluations: nothing parses, and the digest is the identity.\<close>

definition demo_env :: host_env where
  "demo_env = \<lparr>parseTime = (\<lambda>s. Some 0), fmtStamp = (\<lambda>_. ''T''), nowNano = 0, sha256hex = (\<lambda>s. s)\<rparr>"

definition demo_cand :: "string \<Rightarrow> int \<Rightarrow> clock \<Rightarrow> bool \<Rightarrow> manifestCandidate" where
  "demo_cand s g c d = \<lparr>Record = \<lparr>mr_Version = 1, mr_Path = ''content/f'', mr_UpdatedAt = ''t'',
     Deleted = d, DeletedGeneration = 0, mr_Clock = [],
     File = \<lparr>Size = g, Mode = 0, ModTime = '''', UpdatedAt = ''t'', Generation = g, Chunks = [],
       ConflictOf = '''', Clock = c, ClockAge = []\<rparr>\<rparr>, cand_ID = s, cand_Name = s, Source = s\<rparr>"

definition demo_pair :: "manifestCandidate list" where
  "demo_pair = [demo_cand ''a'' 1 [(''x'', 1)] False, demo_cand ''b'' 2 [(''x'', 2)] False]"

definition demo_live :: "FileRecord option" where
  "demo_live = Some (File (Record (demo_pair ! 1)))"

lemma demo_pair_wf: "wf_candidates demo_pair"
  by (simp add: wf_candidates_def demo_pair_def demo_cand_def clockOf_def wf_clock_def)

lemma demo_pair_run:
  "reconcilePathCandidates demo_env ''content/f'' demo_pair = Some (demo_live, [], [''a''])"
  by code_simp

section \<open>Properties\<close>

text \<open>
  Reconciling a non-empty set of well-formed copies never panics: dominance pruning always
  leaves at least one candidate to elect.
\<close>

theorem reconcile_total:
  assumes "wf_candidates list"
  shows "\<exists>live cs rs. reconcilePathCandidates env p list = Some (live, cs, rs)"
proof (cases "list = []")
  case False
  then have "ranked env list \<noteq> []"
    using antichain_ne assms by (metis length_0_conv length_SliceStable)
  then show ?thesis using False
    by (auto simp: reconcilePathCandidates_def Let_def split: list.splits prod.splits)
qed (simp add: reconcilePathCandidates_def)

theorem reconcile_total_witness:
  "\<exists>live cs rs. reconcilePathCandidates demo_env ''content/f'' demo_pair = Some (live, cs, rs)"
  by (rule reconcile_total [OF demo_pair_wf])

text \<open>
  C27.  The elected record is causally maximal and every copy is accounted for exactly once: no copy
  of the path dominates the winner, the live record is the winner's (or the path is deleted when
  the winner is a tombstone), and the files of all copies are the winner's, the materialised
  conflicts' and the planned removals', with none listed twice or left out.
\<close>

theorem reconcile_winner_maximal:
  assumes "wf_candidates list" and "list \<noteq> []"
    and "reconcilePathCandidates env p list = Some (live, cs, rs)"
  shows "\<exists>w\<in>set list. (\<forall>c\<in>set list. \<not> superseded_by w c)
    \<and> live = live_of env (Record w)
    \<and> mset (map Source list) = {#Source w#} + mset (map pc_Source cs) + mset rs"
proof -
  obtain w losers rs' where r: "ranked env list = w # losers" "live = live_of env (Record w)"
    "reconcile_losers env p w losers = (cs, rs')"
    "rs = map Source (filter (\<lambda>c. isCausallyDominated c list) list) @ rs'"
    using reconcile_Some assms(2,3) by blast
  have "w \<in> set (antichain list)" using r(1) set_SliceStable by (metis list.set_intros(1))
  then have w: "w \<in> set list" "\<forall>c\<in>set list. \<not> superseded_by w c"
    using isCausallyDominated_iff [OF assms(1)] by (auto simp: antichain_def)
  have "mset (map Source list) =
      mset (map Source (w # losers)) + mset (map Source (filter (\<lambda>c. isCausallyDominated c list) list))"
    using mset_ranked [of env list] r(1) by (metis image_mset_union mset_map)
  then have "mset (map Source list) = {#Source w#} + mset (map pc_Source cs) + mset rs"
    using reconcile_losers_mset [OF r(3)] r(4) by simp
  then show ?thesis using w r(2) by blast
qed

theorem reconcile_winner_maximal_witness:
  "\<exists>w\<in>set demo_pair. demo_live = live_of demo_env (Record w)
     \<and> mset (map Source demo_pair) = {#Source w#} + mset [] + mset [''a'']"
proof -
  have "demo_pair \<noteq> []" by (simp add: demo_pair_def)
  from reconcile_winner_maximal [OF demo_pair_wf this demo_pair_run] show ?thesis by auto
qed

text \<open>
  C1.  No edit is lost silently.  A live copy whose file is planned for removal is either
  causally superseded by a copy that survives, or carries the very content of the winning live
  record, or is an old copy (generation at or below the deleted generation) under a delete
  tombstone where one of the two has no clock; every other losing edit is kept as a conflict entry
  that remembers its origin and its chunks.
\<close>

theorem reconcile_no_lost_edit:
  assumes "wf_candidates list" and "reconcilePathCandidates env p list = Some (live, cs, rs)"
    and "c \<in> set list" and "\<not> Deleted (Record c)"
  shows "(\<exists>s\<in>set list. superseded_by c s \<and> \<not> isCausallyDominated s list)
    \<or> (\<exists>rec. live = Some rec \<and> Size rec = Size (File (Record c)) \<and> Chunks rec = Chunks (File (Record c)))
    \<or> (\<exists>w\<in>set list. live = None \<and> Deleted (Record w) \<and> \<not> bothClocked (Record w) (Record c)
         \<and> (if Generation (File (Record c)) = 0 then unixNanoOrNow env (mr_UpdatedAt (Record c))
            else Generation (File (Record c))) \<le> DeletedGeneration (Record w))
    \<or> (\<exists>k\<in>set cs. pc_Source k = Source c \<and> ConflictOf (pc_Rec k) = p
         \<and> Chunks (pc_Rec k) = Chunks (File (Record c)))"
proof (cases "isCausallyDominated c list")
  case True
  then show ?thesis
    using pruned_dominated_by_survivor [OF assms(1,3)] by (auto simp: antichain_def)
next
  case False
  have ne: "list \<noteq> []" using assms(3) by auto
  obtain w losers rs' where r: "ranked env list = w # losers" "live = live_of env (Record w)"
    "reconcile_losers env p w losers = (cs, rs')"
    using reconcile_Some assms(2) ne by blast
  have "c \<in> set (ranked env list)" using False assms(3) by (simp add: antichain_def)
  then consider "c = w" | "c \<in> set losers" using r(1) by auto
  then show ?thesis
  proof cases
    case 1
    then show ?thesis using assms(4) r(2)
      by (auto simp: live_of_def normalizeRecordMetadata_def Let_def)
  next
    case 2
    have w: "w \<in> set list" using r(1) set_SliceStable [of _ "antichain list"]
      by (metis antichain_def filter_is_subset list.set_intros(1) subsetD)
    show ?thesis
    proof (cases "reconcile_loser env p w c")
      case None
      then show ?thesis using assms(4) r(2) w
        by (auto simp: reconcile_loser_def live_of_def normalizeRecordMetadata_def sameFileRecord_def
            Let_def split: if_splits)
    next
      case (Some k)
      then have "k \<in> set cs" using reconcile_losers_set [OF r(3)] 2 by blast
      moreover have "pc_Source k = Source c \<and> ConflictOf (pc_Rec k) = p
         \<and> Chunks (pc_Rec k) = Chunks (File (Record c))"
        using Some by (auto simp: reconcile_loser_def normalizeRecordMetadata_def Let_def split: if_splits)
      ultimately show ?thesis by blast
    qed
  qed
qed

theorem reconcile_no_lost_edit_witness:
  "\<exists>s\<in>set demo_pair. superseded_by (demo_pair ! 0) s \<and> \<not> isCausallyDominated s demo_pair"
proof -
  have "demo_pair ! 0 \<in> set demo_pair" "\<not> Deleted (Record (demo_pair ! 0))"
    by (simp_all add: demo_pair_def demo_cand_def)
  note reconcile_no_lost_edit [OF demo_pair_wf demo_pair_run this]
  moreover have "demo_live \<noteq> None"
    "\<forall>rec. demo_live = Some rec \<longrightarrow> Size rec \<noteq> Size (File (Record (demo_pair ! 0)))"
    by (simp_all add: demo_live_def demo_pair_def demo_cand_def)
  ultimately show ?thesis by auto
qed

text \<open>
  C30.  Load order does not matter within one generation of writers: when all copies carry clocks
  and the tie-break key identifies the record, or when none does, all timestamps parse and the
  generation key identifies the record, then any two orders of the same copies elect the same
  live record, materialise the same conflicts in the same order, and plan equally many removals.
\<close>

theorem reconcile_order_independent:
  assumes "mset xs = mset ys" and "wf_candidates xs"
    and "all_clocked xs \<and> keys_identify (tie_key env) xs
       \<or> all_unclocked env xs \<and> keys_identify (gen_key env) xs"
    and "reconcilePathCandidates env p xs = Some (live, cs, rs)"
    and "reconcilePathCandidates env p ys = Some (live', cs', rs')"
  shows "live = live' \<and> map conflict_view cs = map conflict_view cs' \<and> length rs = length rs'"
proof (cases "xs = []")
  case True
  then show ?thesis using assms by (simp add: reconcilePathCandidates_def)
next
  case False
  then have ne: "ys \<noteq> []" using assms(1) by auto
  obtain w l r where a: "ranked env xs = w # l" "live = live_of env (Record w)"
    "reconcile_losers env p w l = (cs, r)" using reconcile_Some assms(4) False by blast
  obtain w' l' r' where b: "ranked env ys = w' # l'" "live' = live_of env (Record w')"
    "reconcile_losers env p w' l' = (cs', r')" using reconcile_Some assms(5) ne by blast
  have "map Record (w # l) = map Record (w' # l')"
    using ranked_records [OF assms(1-3)] a(1) b(1) by simp
  then have m: "Record w = Record w'" "map Record l = map Record l'" by auto
  have v: "map conflict_view cs = map conflict_view cs'"
    using reconcile_losers_cong [OF m, of env p] a(3) b(3) by simp
  have "length xs = length ys" using assms(1) by (rule mset_eq_length)
  then have "length cs + length rs = length cs' + length rs'"
    using reconcile_count [OF assms(4) False] reconcile_count [OF assms(5) ne] by simp
  then show ?thesis using v map_eq_imp_length_eq [OF v] m a(2) b(2) by simp
qed

theorem reconcile_order_independent_witness:
  "map_option fst (reconcilePathCandidates demo_env ''content/f'' demo_pair)
   = map_option fst (reconcilePathCandidates demo_env ''content/f'' (rev demo_pair))"
proof -
  have r: "reconcilePathCandidates demo_env ''content/f'' (rev demo_pair) = Some (demo_live, [], [''a''])"
    by code_simp
  have "all_clocked demo_pair \<and> keys_identify (tie_key demo_env) demo_pair"
    by (simp add: all_clocked_def keys_identify_def) code_simp
  moreover have "mset demo_pair = mset (rev demo_pair)" by simp
  ultimately have "demo_live = demo_live"
    using reconcile_order_independent [OF _ demo_pair_wf _ demo_pair_run r] by blast
  then show ?thesis using r demo_pair_run by simp
qed

text \<open>
  The outcome of a mixed set does depend on the load order, against the comment on
  \<^verbatim>\<open>reconcilePathCandidates\<close>: two concurrent clocked copies and one copy without a clock whose
  generation lies between theirs form a cycle under \<^const>\<open>candidateCompare\<close>, and two orders of the
  same three files elect different live records.
\<close>

theorem reconcile_mixed_order_dependent:
  "map_option fst (reconcilePathCandidates demo_env ''content/f''
      [demo_cand ''a'' 3 [(''x'', 1)] False, demo_cand ''b'' 10 [(''y'', 1)] False, demo_cand ''c'' 5 [] False])
   \<noteq> map_option fst (reconcilePathCandidates demo_env ''content/f''
      [demo_cand ''b'' 10 [(''y'', 1)] False, demo_cand ''c'' 5 [] False, demo_cand ''a'' 3 [(''x'', 1)] False])"
  by code_simp

text \<open>
  A clock with a negative counter (a corrupt or forged manifest) can leave no candidate:
  the two copies below dominate each other, pruning removes both and electing a winner panics.
\<close>

theorem reconcile_negative_clock_panics:
  "reconcilePathCandidates demo_env ''content/f''
     [demo_cand ''a'' 1 [(''x'', 1), (''z'', - 1)] False, demo_cand ''b'' 1 [(''x'', 1), (''y'', - 1)] False] = None"
  by code_simp

end
