(* ===== verification/Codec.thy ===== *)
theory Codec
  imports Reconcile
begin

text \<open>
  A concrete injective wire format for manifest records.  The program uses \<^verbatim>\<open>encoding/json\<close>, which is a
  parameter of the model; the functions here instantiate that parameter when a statement is
  evaluated.  Each encoder is prefix-free: its decoder recovers the value and the rest of the input.
\<close>

definition enc_nat :: "nat \<Rightarrow> bytes" where "enc_nat n = replicate n (CHR ''1'') @ ''0''"

fun dec_nat :: "bytes \<Rightarrow> (nat \<times> bytes) option" where
  "dec_nat [] = None"
| "dec_nat (c # cs) =
     (if c = CHR ''1'' then (case dec_nat cs of None \<Rightarrow> None | Some (n, r) \<Rightarrow> Some (Suc n, r)) else Some (0, cs))"

definition enc_int :: "int \<Rightarrow> bytes" where
  "enc_int i = (if i < 0 then CHR ''-'' else CHR ''+'') # show_nat (nat (abs i)) @ '';''"

definition dec_int :: "bytes \<Rightarrow> (int \<times> bytes) option" where
  "dec_int b = (case b of [] \<Rightarrow> None | c # r \<Rightarrow>
     (let d = takeWhile (\<lambda>x. x \<noteq> CHR '';'') r;
          n = int (foldl (\<lambda>a x. 10 * a + (of_char x - 48)) 0 d)
      in Some (if c = CHR ''-'' then - n else n, drop (Suc (length d)) r)))"

definition enc_str :: "string \<Rightarrow> bytes" where "enc_str s = enc_nat (length s) @ s"

definition dec_str :: "bytes \<Rightarrow> (string \<times> bytes) option" where
  "dec_str b = (case dec_nat b of None \<Rightarrow> None | Some (n, r) \<Rightarrow> Some (take n r, drop n r))"

definition enc_pair :: "('a \<Rightarrow> bytes) \<Rightarrow> ('b \<Rightarrow> bytes) \<Rightarrow> 'a \<times> 'b \<Rightarrow> bytes" where
  "enc_pair f g x = f (fst x) @ g (snd x)"

definition dec_pair :: "(bytes \<Rightarrow> ('a \<times> bytes) option) \<Rightarrow> (bytes \<Rightarrow> ('b \<times> bytes) option) \<Rightarrow> bytes \<Rightarrow> (('a \<times> 'b) \<times> bytes) option" where
  "dec_pair f g b = (case f b of None \<Rightarrow> None | Some (x, r) \<Rightarrow> (case g r of None \<Rightarrow> None | Some (y, r') \<Rightarrow> Some ((x, y), r')))"

definition enc_list :: "('a \<Rightarrow> bytes) \<Rightarrow> 'a list \<Rightarrow> bytes" where
  "enc_list f xs = enc_nat (length xs) @ concat (map f xs)"

fun dec_many :: "(bytes \<Rightarrow> ('a \<times> bytes) option) \<Rightarrow> nat \<Rightarrow> bytes \<Rightarrow> ('a list \<times> bytes) option" where
  "dec_many f 0 b = Some ([], b)"
| "dec_many f (Suc n) b =
     (case f b of None \<Rightarrow> None | Some (x, r) \<Rightarrow> (case dec_many f n r of None \<Rightarrow> None | Some (xs, r') \<Rightarrow> Some (x # xs, r')))"

definition dec_list :: "(bytes \<Rightarrow> ('a \<times> bytes) option) \<Rightarrow> bytes \<Rightarrow> ('a list \<times> bytes) option" where
  "dec_list f b = (case dec_nat b of None \<Rightarrow> None | Some (n, r) \<Rightarrow> dec_many f n r)"

text \<open>The contract every encoder and decoder pair satisfies.\<close>

locale codec =
  fixes enc :: "'a \<Rightarrow> bytes" and dec :: "bytes \<Rightarrow> ('a \<times> bytes) option"
  assumes dec_enc [simp]: "dec (enc x @ r) = Some (x, r)"
begin

lemma enc_inj: "enc x = enc y \<Longrightarrow> x = y"
  using dec_enc [of x "[]"] dec_enc [of y "[]"] by simp

lemma pair_codec:
  assumes "codec enc' dec'"
  shows "codec (enc_pair enc enc') (dec_pair dec dec')"
  using assms by unfold_locales (simp add: enc_pair_def dec_pair_def codec_def)

lemma dec_many_enc: "dec_many dec (length xs) (concat (map enc xs) @ r) = Some (xs, r)"
  by (induction xs) auto

end

lemma dec_enc_nat [simp]: "dec_nat (enc_nat n @ r) = Some (n, r)"
  by (induction n) (auto simp: enc_nat_def)

interpretation nat_codec: codec enc_nat dec_nat
  by unfold_locales simp

interpretation str_codec: codec enc_str dec_str
  by unfold_locales (simp add: enc_str_def dec_str_def)

lemma show_nat_digits: "c \<in> set (show_nat n) \<Longrightarrow> c \<noteq> CHR '';''"
proof (induction n rule: show_nat.induct)
  case (1 n)
  have "(char_of (48 + m) :: char) \<noteq> CHR '';''" if "m < 10" for m :: nat
  proof -
    have "of_char (char_of (48 + m) :: char) \<noteq> (of_char CHR '';'' :: nat)" using that by simp
    then show ?thesis by metis
  qed
  then show ?case using 1 show_nat.simps [of n] by (cases "n < 10") (auto simp: mod_less_divisor, metis mod_less_divisor zero_less_numeral)
qed

lemma show_nat_value: "foldl (\<lambda>a x. 10 * a + (of_char x - 48)) 0 (show_nat n) = (n::nat)"
proof (induction n rule: show_nat.induct)
  case (1 n)
  have d: "of_char (char_of (48 + m) :: char) = 48 + m" if "m < 10" for m :: nat
    using that by simp
  show ?case
  proof (cases "n < 10")
    case True
    then show ?thesis by (subst show_nat.simps) (simp add: d)
  next
    case False
    then show ?thesis using 1 by (subst show_nat.simps) (simp add: d)
  qed
qed

lemma dec_enc_int: "dec_int (enc_int i @ r) = Some (i, r)"
proof -
  let ?d = "show_nat (nat \<bar>i\<bar>)"
  have t: "takeWhile (\<lambda>x. x \<noteq> CHR '';'') (?d @ '';'' @ r) = ?d"
    by (subst takeWhile_append2) (auto dest: show_nat_digits)
  then show ?thesis by (auto simp: enc_int_def dec_int_def show_nat_value Let_def)
qed

interpretation int_codec: codec enc_int dec_int
  by unfold_locales (rule dec_enc_int)

lemma list_codec: "codec f g \<Longrightarrow> codec (enc_list f) (dec_list g)"
  by unfold_locales (simp add: enc_list_def dec_list_def codec.dec_many_enc)

section \<open>Records\<close>

definition enc_ref :: "ChunkRef \<Rightarrow> bytes" where "enc_ref c = enc_str (ref_ID c) @ enc_int (ref_Size c)"

definition dec_ref :: "bytes \<Rightarrow> (ChunkRef \<times> bytes) option" where
  "dec_ref b = (case dec_pair dec_str dec_int b of
     None \<Rightarrow> None | Some ((i, n), r) \<Rightarrow> Some (\<lparr>ref_ID = i, ref_Size = n\<rparr>, r))"

interpretation ref_codec: codec enc_ref dec_ref
  by unfold_locales (simp add: enc_ref_def dec_ref_def dec_pair_def)

abbreviation "enc_clock \<equiv> enc_list (enc_pair enc_str enc_int)"
abbreviation "dec_clock \<equiv> dec_list (dec_pair dec_str dec_int)"

interpretation clock_codec: codec enc_clock dec_clock
  by (rule list_codec, rule str_codec.pair_codec, rule int_codec.codec_axioms)

interpretation refs_codec: codec "enc_list enc_ref" "dec_list dec_ref"
  by (rule list_codec, rule ref_codec.codec_axioms)

definition enc_file :: "FileRecord \<Rightarrow> bytes" where
  "enc_file f = enc_int (Size f) @ enc_int (Mode f) @ enc_str (ModTime f) @ enc_str (UpdatedAt f) @ enc_int (Generation f)
     @ enc_list enc_ref (Chunks f) @ enc_str (ConflictOf f) @ enc_clock (Clock f) @ enc_clock (ClockAge f)"

definition dec_file :: "bytes \<Rightarrow> (FileRecord \<times> bytes) option" where
  "dec_file b = (case dec_pair dec_int (dec_pair dec_int (dec_pair dec_str (dec_pair dec_str (dec_pair dec_int
       (dec_pair (dec_list dec_ref) (dec_pair dec_str (dec_pair dec_clock dec_clock))))))) b of
     None \<Rightarrow> None
   | Some ((sz, md, mt, ua, gn, ch, co, ck, ca), r) \<Rightarrow>
       Some (\<lparr>Size = sz, Mode = md, ModTime = mt, UpdatedAt = ua, Generation = gn, Chunks = ch, ConflictOf = co,
              Clock = ck, ClockAge = ca\<rparr>, r))"

interpretation file_codec: codec enc_file dec_file
  by unfold_locales (simp add: enc_file_def dec_file_def dec_pair_def)

definition enc_manifest :: "ManifestRecord \<Rightarrow> bytes" where
  "enc_manifest m = enc_int (mr_Version m) @ enc_str (mr_Path m) @ enc_str (mr_UpdatedAt m) @ enc_nat (if Deleted m then 1 else 0)
     @ enc_int (DeletedGeneration m) @ enc_clock (mr_Clock m) @ enc_file (File m)"

definition dec_manifest :: "bytes \<Rightarrow> ManifestRecord option" where
  "dec_manifest b = (case dec_pair dec_int (dec_pair dec_str (dec_pair dec_str (dec_pair dec_nat (dec_pair dec_int
       (dec_pair dec_clock dec_file))))) b of
     None \<Rightarrow> None
   | Some ((ver, p, u, dl, dg, ck, f), r) \<Rightarrow>
       Some \<lparr>mr_Version = ver, mr_Path = p, mr_UpdatedAt = u, Deleted = (dl = 1), DeletedGeneration = dg, mr_Clock = ck, File = f\<rparr>)"

lemma manifest_roundtrip: "dec_manifest (enc_manifest m) = Some m"
proof -
  have "dec_file (enc_file (File m)) = Some (File m, [])" using file_codec.dec_enc [of "File m" "[]"] by simp
  then show ?thesis by (simp add: enc_manifest_def dec_manifest_def dec_pair_def)
qed

end
