(* ===== verification/ManifestRefine.thy ===== *)
theory ManifestRefine
  imports ManifestStore
begin

text \<open>
  The manifest store refines a map from paths to records: what one save writes, where manifests live,
  what a load of a canonical store finds, and how commits, deletes and loads act on the map.
\<close>

section \<open>What one save writes\<close>

text \<open>
  The manifest of a live record and of a delete, as they reach the disk; a record is stamped when
  it carries its time and generation, as every record the vault creates.
\<close>

definition stamped :: "FileRecord \<Rightarrow> bool" where
  "stamped rec \<longleftrightarrow> UpdatedAt rec \<noteq> '''' \<and> Generation rec \<noteq> 0"

definition file_manifest :: "string \<Rightarrow> FileRecord \<Rightarrow> ManifestRecord" where
  "file_manifest p rec = \<lparr>mr_Version = 1, mr_Path = p, mr_UpdatedAt = UpdatedAt rec, Deleted = False, DeletedGeneration = 0,
     mr_Clock = Clock rec, File = rec\<lparr>ConflictOf := ''''\<rparr>\<rparr>"

definition tomb_manifest :: "string \<Rightarrow> string \<Rightarrow> int \<Rightarrow> int \<Rightarrow> clock \<Rightarrow> ManifestRecord" where
  "tomb_manifest p now gen dg cl = \<lparr>mr_Version = 1, mr_Path = p, mr_UpdatedAt = now, Deleted = True,
     DeletedGeneration = max dg 0, mr_Clock = cl, File = empty_record\<lparr>UpdatedAt := now, Generation := gen, Clock := cl\<rparr>\<rparr>"

definition sealed_manifest :: "store_env \<Rightarrow> 'v vault_scheme \<Rightarrow> bytes \<Rightarrow> ManifestRecord \<Rightarrow> bytes" where
  "sealed_manifest s v nonce m = encodeEncrypted manifestMagic nonce
     (aead_Seal (s_cr s) (indexAEAD v) nonce (marshalManifest s m) (manifestAADPrefix @ manifestID s v (mr_Path m)))"

text \<open>The effect of a save: nothing, or exactly the one manifest file, sealed under a fresh nonce.\<close>

definition wrote_manifest :: "store_env \<Rightarrow> 'v vault_scheme \<Rightarrow> ManifestRecord \<Rightarrow> 'z vault_state_scheme \<Rightarrow> 'z vault_state_scheme \<Rightarrow> bool" where
  "wrote_manifest s v m w w' \<longleftrightarrow> (\<exists>nonce i t. rand_src w i (NonceSize (s_cr s)) = Some nonce
     \<and> files w' = AList.update (manifestPath v (manifestID s v (mr_Path m))) \<lparr>data = sealed_manifest s v nonce m, mtime = t\<rparr> (files w))"

definition same_index :: "'z vault_state_scheme \<Rightarrow> 'z vault_state_scheme \<Rightarrow> bool" where
  "same_index w w' \<longleftrightarrow> cached w' = cached w \<and> maxGen w' = maxGen w \<and> vConfig w' = vConfig w"

lemma io_bind_ret [simp]: "io_bind (io_ret x) f = f x"
  by (simp add: io_bind_def io_ret_def fun_eq_iff)

lemma saveManifestRecord_effect:
  assumes "CleanVirtualPath (mr_Path m) = Inr (mr_Path m)" "mr_Path m \<noteq> ''''" "mr_Version m \<noteq> 0" "mr_UpdatedAt m \<noteq> ''''"
    "stamped (File m)" "mr_Clock m = [] \<longrightarrow> Clock (File m) = []" and "saveManifestRecord s v m w = (r, w')"
  shows "same_host w w' \<and> same_index w w' \<and> (isl r \<and> files w' = files w \<or> r = Inr () \<and> wrote_manifest s v m w w')"
proof -
  let ?mid = "manifestID s v (mr_Path m)"
  let ?d = "\<lambda>nonce. encodeEncrypted manifestMagic nonce
      (aead_Seal (s_cr s) (indexAEAD v) nonce (marshalManifest s m) (manifestAADPrefix @ ?mid))"
  have sv: "saveManifestRecord s v m w = io_bind (randomBytes (NonceSize (s_cr s))) (\<lambda>nonce. atomicWriteFile (manifestPath v ?mid) (?d nonce)) w"
  proof -
    have "\<not> (mr_Clock m = [] \<and> Clock (File m) \<noteq> [])" using assms(6) by blast
    then show ?thesis using assms(1-5) by (simp add: saveManifestRecord_def stamped_def Let_def del: de_Morgan_conj)
  qed
  obtain rr w1 where rb: "randomBytes (NonceSize (s_cr s)) w = (rr, w1)" by fastforce
  have w1: "files w1 = files w" "same_host w w1" "same_index w w1"
    using rb by (auto simp: randomBytes_def same_host_def same_index_def split: option.splits)
  show ?thesis
  proof (cases rr)
    case (Inl e)
    then show ?thesis using assms(7) sv rb w1 by (auto simp: io_simps)
  next
    case (Inr nonce)
    then have n: "rand_src w (rand_ix w) (NonceSize (s_cr s)) = Some nonce"
      using rb by (auto simp: randomBytes_def split: option.splits)
    have aw: "atomicWriteFile (manifestPath v ?mid) (?d nonce) w1 = (r, w')" using assms(7) sv rb Inr by (simp add: io_simps)
    obtain k where k: "w' = (if isl r then w1\<lparr>clock_ix := k\<rparr> else w1\<lparr>clock_ix := k, files := AList.update (manifestPath v ?mid)
        \<lparr>data = ?d nonce, mtime = clock_src w1 (clock_ix w1)\<rparr> (files w1)\<rparr>)"
      using atomicWriteFile_shape [OF aw] by blast
    have r: "isl r \<or> r = Inr ()" by (cases r) auto
    show ?thesis
    proof (cases "isl r")
      case True
      then show ?thesis using k w1 by (auto simp: same_host_def same_index_def)
    next
      case False
      then have "files w' = AList.update (manifestPath v ?mid) \<lparr>data = sealed_manifest s v nonce m, mtime = clock_src w1 (clock_ix w1)\<rparr> (files w)"
        using k w1 by (simp add: sealed_manifest_def)
      then have "wrote_manifest s v m w w'" using n unfolding wrote_manifest_def by blast
      then show ?thesis using False r k w1 by (auto simp: same_host_def same_index_def)
    qed
  qed
qed

lemma wrote_later:
  "same_host w w1 \<Longrightarrow> files w1 = files w \<Longrightarrow> wrote_manifest s v m w1 w' \<Longrightarrow> wrote_manifest s v m w w'"
  unfolding wrote_manifest_def same_host_def by simp

lemma saveFileManifest_effect:
  assumes "CleanVirtualPath p = Inr p" "p \<noteq> ''''" "stamped rec" and "saveFileManifest s v p rec w = (r, w')"
  shows "same_host w w' \<and> same_index w w' \<and> (isl r \<and> files w' = files w \<or> r = Inr () \<and> wrote_manifest s v (file_manifest p rec) w w')"
proof -
  let ?w1 = "w\<lparr>clock_ix := Suc (clock_ix w)\<rparr>"
  let ?m0 = "\<lparr>mr_Version = 1, mr_Path = p, mr_UpdatedAt = UpdatedAt rec, Deleted = False,
      DeletedGeneration = 0, mr_Clock = [], File = rec\<lparr>ConflictOf := ''''\<rparr>\<rparr>"
  have sv: "saveManifestRecord s v ?m0 ?w1 = (r, w')"
    using assms by (simp add: saveFileManifest_def io_simps now_string_def time_Now_def stamped_def)
  have "saveManifestRecord s v ?m0 ?w1 = saveManifestRecord s v (file_manifest p rec) ?w1"
    using assms(1-3) by (cases "Clock rec = []") (simp_all add: saveManifestRecord_def file_manifest_def stamped_def Let_def)
  then have sv2: "saveManifestRecord s v (file_manifest p rec) ?w1 = (r, w')" using sv by simp
  have h: "CleanVirtualPath (mr_Path (file_manifest p rec)) = Inr (mr_Path (file_manifest p rec))" "mr_Path (file_manifest p rec) \<noteq> ''''"
    "mr_Version (file_manifest p rec) \<noteq> 0" "mr_UpdatedAt (file_manifest p rec) \<noteq> ''''" "stamped (File (file_manifest p rec))"
    "mr_Clock (file_manifest p rec) = [] \<longrightarrow> Clock (File (file_manifest p rec)) = []"
    using assms(1-3) by (simp_all add: file_manifest_def stamped_def)
  have "same_host w ?w1" "files ?w1 = files w" "same_index w ?w1" by (simp_all add: same_host_def same_index_def)
  then show ?thesis using saveManifestRecord_effect [OF h sv2] wrote_later [of w ?w1]
    by (auto simp: same_host_def same_index_def)
qed

lemma saveTombstone_effect:
  assumes "CleanVirtualPath p = Inr p" "p \<noteq> ''''" "0 < gen" "\<forall>t. fmtNano (s_guard s) t \<noteq> ''''"
    and "saveTombstoneWithClock s v p gen dg cl w = (r, w')"
  shows "same_host w w' \<and> same_index w w' \<and> (isl r \<and> files w' = files w
     \<or> r = Inr () \<and> wrote_manifest s v (tomb_manifest p (fmtNano (s_guard s) (clock_src w (clock_ix w))) gen dg cl) w w')"
proof -
  let ?w1 = "w\<lparr>clock_ix := Suc (clock_ix w)\<rparr>"
  let ?now = "fmtNano (s_guard s) (clock_src w (clock_ix w))"
  let ?m = "tomb_manifest p ?now gen dg cl"
  have sv: "saveManifestRecord s v ?m ?w1 = (r, w')"
    using assms(1-3,5) by (simp add: saveTombstoneWithClock_def io_simps now_string_def time_Now_def tomb_manifest_def)
  have h: "CleanVirtualPath (mr_Path ?m) = Inr (mr_Path ?m)" "mr_Path ?m \<noteq> ''''" "mr_Version ?m \<noteq> 0" "mr_UpdatedAt ?m \<noteq> ''''"
    "stamped (File ?m)" "mr_Clock ?m = [] \<longrightarrow> Clock (File ?m) = []"
    using assms(1-4) by (simp_all add: tomb_manifest_def stamped_def)
  have "same_host w ?w1" "files ?w1 = files w" "same_index w ?w1" by (simp_all add: same_host_def same_index_def)
  then show ?thesis using saveManifestRecord_effect [OF h sv] wrote_later [of w ?w1]
    by (auto simp: same_host_def same_index_def)
qed

text \<open>Opening what was sealed.\<close>

lemma decrypt_sealed:
  assumes "aead_law (s_cr s)" and "length nonce = NonceSize (s_cr s)" and "unmarshalManifest s (marshalManifest s m) = Some m'"
  shows "decryptManifest s v (sealed_manifest s v nonce m) (manifestID s v (mr_Path m)) = Inr m'"
  using assms by (simp add: decryptManifest_def sealed_manifest_def encodeEncrypted_def decodeEncrypted_def aead_law_def)

section \<open>Paths of manifests\<close>

definition tidy_root :: "'v vault_scheme \<Rightarrow> bool" where
  "tidy_root v \<longleftrightarrow> (\<exists>a. MetaRoot v = CHR ''/'' # a \<and> clean_path a)"

text \<open>Object ids are 64 lower-case hexadecimal digits.\<close>

definition hex_digits :: "char set" where "hex_digits = set ''0123456789abcdef''"

definition hex_id :: "string \<Rightarrow> bool" where
  "hex_id i \<longleftrightarrow> length i = 64 \<and> set i \<subseteq> hex_digits"

lemma path_Clean_abs_clean: "clean_path p \<Longrightarrow> path_Clean (CHR ''/'' # p) = CHR ''/'' # p"
  by (simp add: path_Clean_def path_IsAbs_def HasPrefix_def clean_segs_def clean_path_def clean_segs_proper)

lemma path_Join_abs:
  "clean_path a \<Longrightarrow> clean_path b \<Longrightarrow> path_Join (CHR ''/'' # a) b = CHR ''/'' # a @ CHR ''/'' # b"
  using path_Clean_abs_clean [of "a @ CHR ''/'' # b"] by (simp add: path_Join_def clean_path_append)

lemma clean_path_seg: "CHR ''/'' \<notin> set b \<Longrightarrow> b \<noteq> '''' \<Longrightarrow> b \<noteq> ''.'' \<Longrightarrow> b \<noteq> ''..'' \<Longrightarrow> clean_path b"
  by (simp add: clean_path_def Split_single proper_seg_def)

lemma hex_idD:
  assumes "hex_id i"
  shows "length i = 64" "CHR ''/'' \<notin> set i" "CHR ''.'' \<notin> set i" "ToLower i = i" "isHex i" "i \<noteq> ''''"
proof -
  have c: "\<forall>c\<in>hex_digits. lower_char c = c \<and> c \<noteq> CHR ''/'' \<and> c \<noteq> CHR ''.'' \<and> isHex [c]"
    by code_simp
  have i: "length i = 64" "\<forall>c\<in>set i. lower_char c = c \<and> c \<noteq> CHR ''/'' \<and> c \<noteq> CHR ''.'' \<and> isHex [c]"
    using assms c unfolding hex_id_def by blast+
  show "length i = 64" by (rule i(1))
  show "CHR ''/'' \<notin> set i" "CHR ''.'' \<notin> set i" using i(2) by blast+
  show ne: "i \<noteq> ''''" using i(1) by force
  show x: "isHex i" using i(2) ne unfolding isHex_def by simp
  have "map lower_char i = i" using i(2) by (intro map_idI) blast
  then show "ToLower i = i" by (simp add: ToLower_ascii isHex_ascii [OF x])
qed

lemma Index_of_skip: "d \<notin> set a \<Longrightarrow> Index_of (d # x) (a @ d # x @ r) = Some (length a)"
  by (induction a) (auto simp: HasPrefix_def)

lemma name_id_id: "hex_id i \<Longrightarrow> name_id (i @ ''.manifest'') = i"
proof -
  assume i: "hex_id i"
  note h = hex_idD [OF i]
  have "ToLower (i @ ''.manifest'') = i @ ''.manifest''"
    using h(4) ToLower_append [OF isHex_ascii [OF h(5)], of "''.manifest''"] ToLower_ascii [OF isHex_ascii [OF h(5)]]
    by (simp add: lower_char_def)
  then show ?thesis
    using Index_of_skip [of "CHR ''.''" i "''manifest''" "''''"] h by (simp add: name_id_def manifestIDFromFileName_def)
qed

lemma name_id_some: "name_id n \<noteq> '''' \<Longrightarrow> manifestIDFromFileName n = Inr (name_id n)"
  by (auto simp: name_id_def split: sum.splits)

lemma name_id_eq: "manifestIDFromFileName n = Inr i \<Longrightarrow> i = name_id n"
  by (simp add: name_id_def)

lemma name_id_none: "manifestIDFromFileName n = Inr '''' \<Longrightarrow> name_id n = ''''"
  by (simp add: name_id_def)

lemma path_Base_last:
  assumes "CHR ''/'' \<notin> set b" and "b \<noteq> ''''"
  shows "path_Base (a @ CHR ''/'' # b) = b"
proof -
  have t: "trim_right (\<lambda>c. c = CHR ''/'') (a @ CHR ''/'' # b) = a @ CHR ''/'' # b"
    using assms by (intro trim_right_id) (metis append_is_Nil_conv last_appendR last_ConsR last_in_set list.distinct(1))
  have "takeWhile (\<lambda>c. c \<noteq> CHR ''/'') (rev (a @ CHR ''/'' # b)) = rev b"
    using assms(1) takeWhile_append2 [of "rev b" "\<lambda>c. c \<noteq> CHR ''/''" "CHR ''/'' # rev a"] by auto
  then show ?thesis using assms(2) t by (simp add: path_Base_def path_Split_def)
qed

definition mroot :: "'v vault_scheme \<Rightarrow> string" where "mroot v = path_Join (MetaRoot v) ManifestDirName"

lemma manifestPath_eq:
  assumes "tidy_root v" and "hex_id i"
  shows "mroot v = MetaRoot v @ ''/manifests''"
    and "manifestPath v i = mroot v @ ''/'' @ take 2 i @ ''/'' @ i @ ''.manifest''"
proof -
  obtain a where a: "MetaRoot v = CHR ''/'' # a" "clean_path a" using assms(1) by (auto simp: tidy_root_def)
  note h = hex_idD [OF assms(2)]
  have m: "clean_path ''manifests''" by code_simp
  have t: "set (take 2 i) \<subseteq> set i" by (rule set_take_subset)
  have p: "clean_path (take 2 i)" using t h(1-3) by (intro clean_path_seg) auto
  have l: "clean_path (i @ ''.manifest'')" using h(1,2) by (intro clean_path_seg) auto
  show "mroot v = MetaRoot v @ ''/manifests''" using a m by (simp add: mroot_def ManifestDirName_def path_Join_abs)
  have 1: "clean_path (a @ ''/manifests'')" using clean_path_append [of a "''manifests''"] a(2) m by simp
  have 2: "clean_path (a @ ''/manifests'' @ CHR ''/'' # take 2 i)"
    using clean_path_append [of "a @ ''/manifests''"] 1 p by simp
  show "manifestPath v i = mroot v @ ''/'' @ take 2 i @ ''/'' @ i @ ''.manifest''"
    using a m p l 1 2 h(1) path_Join_abs [OF 1 p] path_Join_abs [OF 2 l]
    by (simp add: manifestPath_def join_under_def mroot_def ManifestDirName_def path_Join_abs)
qed

lemma manifestPath_base:
  assumes "tidy_root v" and "hex_id i"
  shows "path_Base (manifestPath v i) = i @ ''.manifest''"
  using path_Base_last [of "i @ ''.manifest''" "mroot v @ ''/'' @ take 2 i"] hex_idD [OF assms(2)]
  by (simp add: manifestPath_eq [OF assms])

lemma manifestPath_inj: "tidy_root v \<Longrightarrow> hex_id i \<Longrightarrow> hex_id j \<Longrightarrow> manifestPath v i = manifestPath v j \<Longrightarrow> i = j"
  using manifestPath_base by (metis append_same_eq)

section \<open>The store as a map\<close>

text \<open>
  The laws of the environment on a set of paths: ids are hexadecimal and distinct, the paths are
  clean, the run time iterates each key of a map once.
\<close>

definition store_laws :: "store_env \<Rightarrow> 'v vault_scheme \<Rightarrow> string set \<Rightarrow> bool" where
  "store_laws s v P \<longleftrightarrow> tidy_root v \<and> (\<forall>k d. hex_id (hmacHex (s_cr s) k d)) \<and> inj_on (manifestID s v) P
     \<and> (\<forall>p\<in>P. CleanVirtualPath p = Inr p \<and> p \<noteq> '''') \<and> (\<forall>ks. mset (map_order s ks) = mset ks)"

text \<open>
  The disk holds the records \<open>M\<close>, one canonical manifest per path, and no legacy index; other files
  in the directory do not have the name of a manifest.
\<close>

abbreviation legacy_path :: "'v vault_scheme \<Rightarrow> string" where
  "legacy_path v \<equiv> path_Join (MetaRoot v) IndexFileName"

definition holds :: "store_env \<Rightarrow> 'v vault_scheme \<Rightarrow> string set \<Rightarrow> (string \<rightharpoonup> ManifestRecord) \<Rightarrow> 'z world_scheme \<Rightarrow> bool" where
  "holds s v P M w \<longleftrightarrow> wf_map (files w) \<and> dom M \<subseteq> P \<and> map_of (files w) (legacy_path v) = None
     \<and> (\<forall>p\<in>set (walk_files (mroot v) (files w)). manifestIDFromFileName (path_Base p) = Inr ''''
          \<or> (\<exists>q\<in>dom M. p = manifestPath v (manifestID s v q)))
     \<and> (\<forall>q m. M q = Some m \<longrightarrow> mr_Path m = q \<and> (\<not> Deleted m \<longrightarrow> stamped (File m))
          \<and> (\<exists>f. map_of (files w) (manifestPath v (manifestID s v q)) = Some f
                \<and> decryptManifest s v (data f) (manifestID s v q) = Inr m))"

text \<open>The index such a store stands for.\<close>

definition live :: "(string \<rightharpoonup> ManifestRecord) \<Rightarrow> (string \<rightharpoonup> FileRecord)" where
  "live M q = (case M q of None \<Rightarrow> None | Some m \<Rightarrow> if Deleted m then None else Some (File m))"

definition cand_at :: "store_env \<Rightarrow> 'v vault_scheme \<Rightarrow> fsfile gomap \<Rightarrow> string \<Rightarrow> manifestCandidate" where
  "cand_at s v fs p = (let mid = name_id (path_Base p) in
     \<lparr>Record = (case decryptManifest s v (data (the (map_of fs p))) mid of Inr m \<Rightarrow> m | Inl _ \<Rightarrow> undefined),
      cand_ID = mid, cand_Name = path_Base p, Source = p\<rparr>)"

lemma fold_read:
  assumes "\<forall>p\<in>set ps. manifestIDFromFileName (path_Base p) = Inr '''' \<or> name_id (path_Base p) \<noteq> '''' \<and> (\<exists>f m. map_of fs p = Some f
      \<and> decryptManifest s v (data f) (name_id (path_Base p)) = Inr m \<and> mr_Path m \<noteq> '''')"
    and "files w = fs"
  shows "\<exists>k r. io_fold (read_candidate s v) acc ps w = (r, w\<lparr>maxGen := k\<rparr>) \<and> (no_faults w \<longrightarrow> \<not> isl r)
    \<and> (\<not> isl r \<longrightarrow> r = Inr (acc @ map (cand_at s v fs) (filter (\<lambda>p. name_id (path_Base p) \<noteq> '''') ps)))"
  using assms
proof (induction ps arbitrary: acc w)
  case Nil
  then show ?case by (intro exI [of _ "maxGen w"] exI [of _ "Inr acc"]) (simp add: io_simps)
next
  case (Cons p ps)
  let ?i = "name_id (path_Base p)"
  show ?case
  proof (cases "?i = ''''")
    case True
    then have "manifestIDFromFileName (path_Base p) = Inr ''''"
      using Cons.prems(1) by auto
    then have "read_candidate s v acc p w = (Inr acc, w)" by (simp add: read_candidate_def io_simps Let_def)
    then show ?thesis using Cons.IH [of w acc] Cons.prems True by (simp add: io_simps)
  next
    case False
    then obtain f m where f: "map_of fs p = Some f" "decryptManifest s v (data f) ?i = Inr m" "mr_Path m \<noteq> ''''"
      using Cons.prems(1) name_id_none by auto
    have c: "Contains (ToLower (path_Base p)) ''.manifest''"
      using False by (auto simp: name_id_def manifestIDFromFileName_def Contains_def split: option.splits)
    note i = name_id_some [OF False]
    have a: "cand_at s v fs p = \<lparr>Record = m, cand_ID = ?i, cand_Name = path_Base p, Source = p\<rparr>"
      using f by (simp add: cand_at_def Let_def)
    show ?thesis
    proof (cases "fault w OpRead p")
      case (Some e)
      then have "read_candidate s v acc p w = (Inl (EMsg e), w)" using c False
        by (simp add: read_candidate_def i io_simps os_ReadFile_def check_fault_def Let_def)
      moreover have "\<not> no_faults w" using Some by (auto simp: no_faults_def)
      ultimately show ?thesis
        by (intro exI [of _ "maxGen w"] exI [of _ "Inl (EMsg e)"]) (simp add: io_simps)
    next
      case None
      let ?w1 = "if Generation (File m) > maxGen w then w\<lparr>maxGen := Generation (File m)\<rparr> else w"
      have r: "read_candidate s v acc p w = (Inr (acc @ [cand_at s v fs p]), ?w1)"
        using f c False None Cons.prems(2)
        by (simp add: read_candidate_def i io_simps os_ReadFile_def check_fault_def lookup_file_def bump_gen_def a Let_def)
      have n: "no_faults ?w1 = no_faults w" by (simp add: no_faults_def)
      have "files ?w1 = fs" using Cons.prems(2) by simp
      then obtain k rr where "io_fold (read_candidate s v) (acc @ [cand_at s v fs p]) ps ?w1 = (rr, ?w1\<lparr>maxGen := k\<rparr>)"
        "no_faults w \<longrightarrow> \<not> isl rr" "\<not> isl rr \<longrightarrow> rr = Inr ((acc @ [cand_at s v fs p])
          @ map (cand_at s v fs) (filter (\<lambda>p. name_id (path_Base p) \<noteq> '''') ps))"
        using Cons.IH [of ?w1 "acc @ [cand_at s v fs p]"] Cons.prems(1) n by auto
      then show ?thesis using r False
        by (intro exI [of _ k] exI [of _ rr]) (simp add: io_simps split: if_split)
    qed
  qed
qed

lemma update_new: "k \<notin> fst ` set m \<Longrightarrow> AList.update k x m = m @ [(k, x)]"
  by (induction m) auto

lemma fold_group:
  assumes "\<forall>c\<in>set cs. CleanVirtualPath (mr_Path (Record c)) = Inr (mr_Path (Record c)) \<and> mr_Path (Record c) \<noteq> ''''
      \<and> manifestID s v (mr_Path (Record c)) = cand_ID c"
    and "distinct (map (\<lambda>c. mr_Path (Record c)) cs)" and "\<forall>c\<in>set cs. mr_Path (Record c) \<notin> fst ` set bp"
  shows "foldl (group_path s v) bp cs = bp @ map (\<lambda>c. (mr_Path (Record c), [c])) cs"
  using assms
proof (induction cs arbitrary: bp)
  case (Cons c cs)
  have n: "mr_Path (Record c) \<notin> fst ` set bp" using Cons.prems(3) by simp
  then have "map_of bp (mr_Path (Record c)) = None" by (simp add: map_of_eq_None_iff)
  then have g: "group_path s v bp c = bp @ [(mr_Path (Record c), [c])]"
    using Cons.prems(1) n by (simp add: group_path_def update_new)
  have "foldl (group_path s v) (bp @ [(mr_Path (Record c), [c])]) cs
      = (bp @ [(mr_Path (Record c), [c])]) @ map (\<lambda>c. (mr_Path (Record c), [c])) cs"
    using Cons.prems by (intro Cons.IH) (auto simp: image_iff)
  then show ?case using g by simp
qed simp

lemma reconcile_single:
  "reconcilePathCandidates env p [c] = Some (if Deleted (Record c) then None
     else Some (normalizeRecordMetadata env (File (Record c)) (mr_UpdatedAt (Record c))), [], [])"
  by (simp add: reconcilePathCandidates_def antichain_def isCausallyDominated_def SliceStable_def Let_def)

definition add_live :: "(string \<rightharpoonup> FileRecord) \<Rightarrow> string \<Rightarrow> FileRecord gomap \<Rightarrow> FileRecord gomap" where
  "add_live L q fs = (case L q of None \<Rightarrow> fs | Some rec \<Rightarrow> AList.update q rec fs)"

lemma merge_singles:
  assumes "\<forall>q\<in>set qs. \<exists>c. map_of bp q = Some [c] \<and> L q = (if Deleted (Record c) then None
      else Some (normalizeRecordMetadata env (File (Record c)) (mr_UpdatedAt (Record c))))"
  shows "merge_paths env bp qs fs cs rs = Inr (fold (add_live L) qs fs, cs, rs)"
  using assms
proof (induction qs arbitrary: fs)
  case (Cons q qs)
  then obtain c where c: "map_of bp q = Some [c]" "L q = (if Deleted (Record c) then None
      else Some (normalizeRecordMetadata env (File (Record c)) (mr_UpdatedAt (Record c))))" by auto
  have "merge_paths env bp (q # qs) fs cs rs = merge_paths env bp qs (add_live L q fs) cs rs"
    using c by (simp add: reconcile_single add_live_def)
  then show ?case using Cons by simp
qed simp

lemma map_of_fold_live:
  "map_of (fold (add_live L) qs fs) q = (if q \<in> set qs \<and> L q \<noteq> None then L q else map_of fs q)"
  by (induction qs arbitrary: fs) (auto simp: add_live_def split: option.splits)

section \<open>Loading a canonical store\<close>

lemma set_walk: "set (walk_files root fs) = {p \<in> fst ` set fs. HasPrefix p (root @ ''/'')}"
  by (auto simp: walk_files_def)

lemma distinct_walk: "wf_map fs \<Longrightarrow> distinct (walk_files root fs)"
  by (simp add: walk_files_def)

lemma store_id:
  assumes "store_laws s v P"
  shows "hex_id (manifestID s v q)" "name_id (path_Base (manifestPath v (manifestID s v q))) = manifestID s v q"
    "HasPrefix (manifestPath v (manifestID s v q)) (mroot v @ ''/'')"
proof -
  have t: "tidy_root v" and h: "hex_id (manifestID s v q)" using assms by (auto simp: store_laws_def manifestID_def)
  show "hex_id (manifestID s v q)" by (rule h)
  show "name_id (path_Base (manifestPath v (manifestID s v q))) = manifestID s v q"
    by (simp add: manifestPath_base [OF t h] name_id_id [OF h])
  show "HasPrefix (manifestPath v (manifestID s v q)) (mroot v @ ''/'')"
    unfolding manifestPath_eq(2) [OF t h] by (simp add: HasPrefix_iff)
qed

lemma holdsD:
  assumes "holds s v P M w"
  shows "wf_map (files w)" "dom M \<subseteq> P" "map_of (files w) (legacy_path v) = None"
    "p \<in> set (walk_files (mroot v) (files w)) \<Longrightarrow> manifestIDFromFileName (path_Base p) = Inr ''''
          \<or> (\<exists>q\<in>dom M. p = manifestPath v (manifestID s v q))"
    "M q = Some m \<Longrightarrow> mr_Path m = q \<and> (\<not> Deleted m \<longrightarrow> stamped (File m))
          \<and> (\<exists>f. map_of (files w) (manifestPath v (manifestID s v q)) = Some f
                \<and> decryptManifest s v (data f) (manifestID s v q) = Inr m)"
  using assms unfolding holds_def by blast+

text \<open>The files of a store and the candidates the walk delivers for them.\<close>

lemma store_candidates:
  assumes "store_laws s v P" and "holds s v P M w"
  defines "ps \<equiv> filter (\<lambda>p. name_id (path_Base p) \<noteq> '''') (walk_files (mroot v) (files w))"
  shows "set ps = (\<lambda>q. manifestPath v (manifestID s v q)) ` dom M" and "distinct ps"
    and "M q = Some m \<Longrightarrow> cand_at s v (files w) (manifestPath v (manifestID s v q)) =
      \<lparr>Record = m, cand_ID = manifestID s v q, cand_Name = path_Base (manifestPath v (manifestID s v q)),
       Source = manifestPath v (manifestID s v q)\<rparr>"
proof -
  have ne: "manifestID s v q \<noteq> ''''" for q using store_id(1) [OF assms(1)] hex_idD(6) by blast
  show "set ps = (\<lambda>q. manifestPath v (manifestID s v q)) ` dom M"
  proof (rule set_eqI, rule iffI)
    fix p assume "p \<in> set ps"
    then have p: "p \<in> set (walk_files (mroot v) (files w))" "name_id (path_Base p) \<noteq> ''''" by (auto simp: ps_def)
    from holdsD(4) [OF assms(2) p(1)] p(2) show "p \<in> (\<lambda>q. manifestPath v (manifestID s v q)) ` dom M" using name_id_none by blast
  next
    fix p assume "p \<in> (\<lambda>q. manifestPath v (manifestID s v q)) ` dom M"
    then obtain q m where q: "p = manifestPath v (manifestID s v q)" "M q = Some m" by auto
    then obtain f where "map_of (files w) p = Some f" using holdsD(5) [OF assms(2)] by blast
    then have "p \<in> fst ` set (files w)" by (metis domI dom_map_of_conv_image_fst)
    then show "p \<in> set ps"
      using q(1) store_id(2,3) [OF assms(1)] ne by (simp add: ps_def set_walk)
  qed
  show "distinct ps" using distinct_walk holdsD(1) [OF assms(2)] by (simp add: ps_def)
  show "cand_at s v (files w) (manifestPath v (manifestID s v q)) =
      \<lparr>Record = m, cand_ID = manifestID s v q, cand_Name = path_Base (manifestPath v (manifestID s v q)),
       Source = manifestPath v (manifestID s v q)\<rparr>" if m: "M q = Some m"
    using holdsD(5) [OF assms(2) m] store_id(2) [OF assms(1)] by (auto simp: cand_at_def Let_def)
qed

lemma map_of_single: "distinct (map f xs) \<Longrightarrow> x \<in> set xs \<Longrightarrow> map_of (map (\<lambda>x. (f x, [x])) xs) (f x) = Some [x]"
  by (rule map_of_is_SomeI) (auto simp: comp_def)

lemma merge_store:
  assumes "store_laws s v P" and "holds s v P M w"
    and c1: "\<And>c. c \<in> set cs \<Longrightarrow> M (mr_Path (Record c)) = Some (Record c) \<and> cand_ID c = manifestID s v (mr_Path (Record c))"
    and c2: "\<And>q m. M q = Some m \<Longrightarrow> \<exists>c\<in>set cs. Record c = m \<and> mr_Path (Record c) = q"
    and dist: "distinct (map (\<lambda>c. mr_Path (Record c)) cs)"
  defines "bp \<equiv> map (\<lambda>c. (mr_Path (Record c), [c])) cs"
  shows "foldl (group_path s v) [] cs = bp"
    and "\<exists>fs. merge_paths env bp (map_order s (map fst bp)) [] [] [] = Inr (fs, [], []) \<and> map_of fs = live M"
proof -
  have clean: "CleanVirtualPath q = Inr q" "q \<noteq> ''''" if "M q = Some m" for q m
    using assms(1) holdsD(2) [OF assms(2)] that by (auto simp: store_laws_def)
  have "foldl (group_path s v) [] cs = [] @ bp"
    unfolding bp_def using c1 clean by (intro fold_group dist) auto
  then show "foldl (group_path s v) [] cs = bp" by simp
  let ?ks = "map_order s (map fst bp)"
  have keys: "set ?ks = set (map fst bp)" using assms(1) unfolding store_laws_def by (metis mset_eq_setD)
  have key: "q \<in> set ?ks \<longleftrightarrow> (\<exists>c\<in>set cs. mr_Path (Record c) = q)" for q
    unfolding keys by (auto simp: bp_def)
  have m: "merge_paths env bp ?ks [] [] [] = Inr (fold (add_live (live M)) ?ks [], [], [])"
  proof (rule merge_singles, rule ballI)
    fix q assume "q \<in> set ?ks"
    then obtain c where c: "c \<in> set cs" "mr_Path (Record c) = q" using key by blast
    have mm: "M q = Some (Record c)" using c1 [OF c(1)] c(2) by simp
    have "map_of bp q = Some [c]" using map_of_single [OF dist c(1)] c(2) by (simp add: bp_def)
    moreover have "live M q = (if Deleted (Record c) then None
        else Some (normalizeRecordMetadata env (File (Record c)) (mr_UpdatedAt (Record c))))"
      using mm holdsD(5) [OF assms(2) mm] by (auto simp: live_def normalizeRecordMetadata_def stamped_def)
    ultimately show "\<exists>c. map_of bp q = Some [c] \<and> live M q = (if Deleted (Record c) then None
        else Some (normalizeRecordMetadata env (File (Record c)) (mr_UpdatedAt (Record c))))" by blast
  qed
  have "map_of (fold (add_live (live M)) ?ks []) q = live M q" for q
    using key [of q] c2 [of q] by (auto simp: map_of_fold_live live_def split: option.split)
  then have "map_of (fold (add_live (live M)) ?ks []) = live M" by blast
  then show "\<exists>fs. merge_paths env bp ?ks [] [] [] = Inr (fs, [], []) \<and> map_of fs = live M" using m by blast
qed

lemma load_canonical:
  assumes "store_laws s v P" and "holds s v P M w"
  shows "\<exists>k c r. loadManifestIndex s v w = (r, w\<lparr>maxGen := k, clock_ix := c\<rparr>) \<and> (no_faults w \<longrightarrow> \<not> isl r)
    \<and> (\<forall>idx plan. r = Inr (idx, plan) \<longrightarrow> map_of (Files idx) = live M \<and> rp_conflicts plan = [] \<and> rp_removeManifests plan = []
         \<and> sawManifest plan = (M \<noteq> Map.empty))"
proof (cases "fault w OpStat (mroot v) = None \<and> fault w OpList (mroot v) = None")
  case False
  then have nf: "\<not> no_faults w" by (auto simp: no_faults_def)
  have "\<exists>e. loadManifestIndex s v w = (Inl (EMsg e), w)"
  proof (cases "fault w OpStat (mroot v)")
    case None
    then obtain e where "fault w OpList (mroot v) = Some e" using False by auto
    then show ?thesis using None
      by (simp add: loadManifestIndex_def mroot_def [symmetric] io_bind_def os_walk_def check_fault_def Let_def)
  qed (simp add: loadManifestIndex_def mroot_def [symmetric] io_bind_def check_fault_def Let_def)
  then obtain e where "loadManifestIndex s v w = (Inl (EMsg e), w)" by blast
  with nf show ?thesis by (intro exI [of _ "maxGen w"] exI [of _ "clock_ix w"] exI [of _ "Inl (EMsg e)"]) auto
next
  case True
  let ?fs = "files w"
  let ?ps = "walk_files (mroot v) ?fs"
  let ?qs = "filter (\<lambda>p. name_id (path_Base p) \<noteq> '''') ?ps"
  note sc = store_candidates [OF assms]
  have clean: "CleanVirtualPath q = Inr q" "q \<noteq> ''''" if "q \<in> dom M" for q
    using assms(1) holdsD(2) [OF assms(2)] that by (auto simp: store_laws_def)
  have ok: "\<forall>p\<in>set ?ps. manifestIDFromFileName (path_Base p) = Inr '''' \<or> name_id (path_Base p) \<noteq> '''' \<and> (\<exists>f m. map_of ?fs p = Some f
      \<and> decryptManifest s v (data f) (name_id (path_Base p)) = Inr m \<and> mr_Path m \<noteq> '''')"
  proof
    fix p assume "p \<in> set ?ps"
    from holdsD(4) [OF assms(2) this] show "manifestIDFromFileName (path_Base p) = Inr '''' \<or> name_id (path_Base p) \<noteq> '''' \<and> (\<exists>f m. map_of ?fs p = Some f
      \<and> decryptManifest s v (data f) (name_id (path_Base p)) = Inr m \<and> mr_Path m \<noteq> '''')"
    proof
      assume "\<exists>q\<in>dom M. p = manifestPath v (manifestID s v q)"
      then obtain q m where q: "M q = Some m" "p = manifestPath v (manifestID s v q)" by blast
      have "name_id (path_Base p) = manifestID s v q" "manifestID s v q \<noteq> ''''"
        using store_id [OF assms(1), of q] hex_idD(6) q(2) by simp_all
      then show ?thesis using holdsD(5) [OF assms(2) q(1)] clean(2) [of q] q by auto
    qed simp
  qed
  obtain k r where f: "io_fold (read_candidate s v) [] ?ps w = (r, w\<lparr>maxGen := k\<rparr>)" "no_faults w \<longrightarrow> \<not> isl r"
    "\<not> isl r \<longrightarrow> r = Inr (map (cand_at s v ?fs) ?qs)"
    using fold_read [OF ok refl, of "[]"] by auto
  have walk: "loadManifestIndex s v w = io_bind (io_fold (read_candidate s v) [] ?ps) (\<lambda>cands.
      io_bind time_Now (\<lambda>t. let now = fmtNano (s_guard s) t in
        if cands = [] then io_ret (NewIndex now, empty_plan)
        else let byPath = foldl (group_path s v) [] cands in
          (case merge_paths ((s_host s)\<lparr>nowNano := t\<rparr>) byPath (map_order s (map fst byPath)) [] [] [] of
             Inl e \<Rightarrow> io_fail e
           | Inr (fs, cs, rs) \<Rightarrow>
               io_ret (\<lparr>idx_Version = 2, idx_UpdatedAt = now, Files = fs\<rparr>,
                 \<lparr>rp_conflicts = cs, rp_removeManifests = rs, sawManifest = True\<rparr>)))) w"
    using True by (simp add: loadManifestIndex_def mroot_def [symmetric] io_bind_def os_walk_def check_fault_def Let_def)
  show ?thesis
  proof (cases "isl r")
    case True
    then obtain e where "r = Inl e" by (auto simp: isl_def)
    then show ?thesis using f walk True
      by (intro exI [of _ k] exI [of _ "clock_ix w"] exI [of _ "Inl e"]) (auto simp: io_bind_def)
  next
    case False
    define cs where "cs = map (cand_at s v ?fs) ?qs"
    let ?t = "clock_src w (clock_ix w)"
    have at: "\<exists>q m. M q = Some m \<and> p = manifestPath v (manifestID s v q) \<and> Record (cand_at s v ?fs p) = m \<and> mr_Path m = q
        \<and> cand_ID (cand_at s v ?fs p) = manifestID s v q" if p: "p \<in> set ?qs" for p
    proof -
      have "p \<in> (\<lambda>q. manifestPath v (manifestID s v q)) ` dom M" using p unfolding sc(1) .
      then obtain q m where q: "M q = Some m" "p = manifestPath v (manifestID s v q)" by auto
      then show ?thesis using sc(3) [OF q(1)] holdsD(5) [OF assms(2) q(1)] by (intro exI [of _ q] exI [of _ m]) simp
    qed
    have c1: "M (mr_Path (Record c)) = Some (Record c) \<and> cand_ID c = manifestID s v (mr_Path (Record c))" if c: "c \<in> set cs" for c
    proof -
      obtain p where "p \<in> set ?qs" "c = cand_at s v ?fs p" using c by (auto simp: cs_def)
      then show ?thesis using at [of p] by auto
    qed
    have c2: "\<exists>c\<in>set cs. Record c = m \<and> mr_Path (Record c) = q" if m: "M q = Some m" for q m
    proof -
      have "manifestPath v (manifestID s v q) \<in> set ?qs" using sc(1) m by blast
      then have i: "cand_at s v ?fs (manifestPath v (manifestID s v q)) \<in> set cs" unfolding cs_def by (simp only: set_map) (rule imageI)
      show ?thesis using sc(3) [OF m] holdsD(5) [OF assms(2) m] by (intro bexI [OF _ i]) simp
    qed
    have dist: "distinct (map (\<lambda>c. mr_Path (Record c)) cs)"
    proof -
      have "inj_on (\<lambda>p. mr_Path (Record (cand_at s v ?fs p))) (set ?qs)"
        by (rule inj_onI) (metis at)
      then show ?thesis using sc(2) unfolding cs_def by (simp add: distinct_map comp_def)
    qed
    obtain fs where ms: "foldl (group_path s v) [] cs = map (\<lambda>c. (mr_Path (Record c), [c])) cs"
      "merge_paths ((s_host s)\<lparr>nowNano := ?t\<rparr>) (map (\<lambda>c. (mr_Path (Record c), [c])) cs)
         (map_order s (map fst (map (\<lambda>c. (mr_Path (Record c), [c])) cs))) [] [] [] = Inr (fs, [], [])" "map_of fs = live M"
      using merge_store [OF assms c1 c2 dist] by blast
    have r: "r = Inr cs" using f(3) False by (simp add: cs_def)
    have e: "cs = [] \<longleftrightarrow> M = Map.empty"
    proof
      assume "cs = []"
      then have "M q = None" for q using c2 [of q] by (cases "M q") auto
      then show "M = Map.empty" by blast
    next
      assume "M = Map.empty"
      then show "cs = []" using c1 by (cases cs) auto
    qed
    show ?thesis
    proof (cases "cs = []")
      case True
      then show ?thesis using f(1) walk r e
        by (intro exI [of _ k] exI [of _ "Suc (clock_ix w)"] exI [of _ "Inr (NewIndex (fmtNano (s_guard s) ?t), empty_plan)"])
           (auto simp: io_bind_def io_ret_def time_Now_def NewIndex_def empty_plan_def live_def)
    next
      case ne: False
      have "loadManifestIndex s v w = (Inr (\<lparr>idx_Version = 2, idx_UpdatedAt = fmtNano (s_guard s) ?t, Files = fs\<rparr>,
              \<lparr>rp_conflicts = [], rp_removeManifests = [], sawManifest = True\<rparr>), w\<lparr>maxGen := k, clock_ix := Suc (clock_ix w)\<rparr>)"
        unfolding walk using f(1) r ms(1,2) ne by (simp add: io_bind_def io_ret_def time_Now_def Let_def del: map_map)
      then show ?thesis using ms(3) ne e by (intro exI conjI) (assumption, auto)
    qed
  qed
qed

section \<open>Commits\<close>

lemma legacy_not_manifest:
  assumes "store_laws s v P"
  shows "legacy_path v \<noteq> manifestPath v (manifestID s v q)"
proof
  assume "legacy_path v = manifestPath v (manifestID s v q)"
  moreover obtain a where a: "MetaRoot v = CHR ''/'' # a" "clean_path a"
    using assms by (auto simp: store_laws_def tidy_root_def)
  have "clean_path ''index.dat''" by code_simp
  then have "legacy_path v = (CHR ''/'' # a) @ CHR ''/'' # ''index.dat''"
    using a by (simp add: IndexFileName_def path_Join_abs)
  then have "path_Base (legacy_path v) = ''index.dat''" using path_Base_last [of "''index.dat''" "CHR ''/'' # a"] by simp
  moreover have "path_Base (manifestPath v (manifestID s v q)) = manifestID s v q @ ''.manifest''"
    using assms store_id(1) [OF assms] by (intro manifestPath_base) (auto simp: store_laws_def)
  ultimately have "manifestID s v q @ ''.manifest'' = ''index.dat''" by simp
  then show False using arg_cong [of _ _ length] hex_idD(1) [OF store_id(1) [OF assms, of q]] by fastforce
qed

lemma holds_update:
  assumes "store_laws s v P" and "holds s v P M w" and "wrote_manifest s v m w w'" and "mr_Path m \<in> P"
    and "aead_law (s_cr s)" and "rand_ok w" and "unmarshalManifest s (marshalManifest s m) = Some m"
    and "\<not> Deleted m \<longrightarrow> stamped (File m)"
  shows "holds s v P (M(mr_Path m \<mapsto> m)) w'"
proof -
  let ?q = "mr_Path m"
  let ?p = "manifestPath v (manifestID s v ?q)"
  obtain nonce i t where wr: "rand_src w i (NonceSize (s_cr s)) = Some nonce"
    "files w' = AList.update ?p \<lparr>data = sealed_manifest s v nonce m, mtime = t\<rparr> (files w)"
    using assms(3) by (auto simp: wrote_manifest_def)
  have len: "length nonce = NonceSize (s_cr s)" using wr(1) assms(6) by (auto simp: rand_ok_def)
  note dec = decrypt_sealed [OF assms(5) len assms(7)]
  have other: "manifestPath v (manifestID s v q) \<noteq> ?p" if "M q = Some m'" "q \<noteq> ?q" for q m'
  proof
    assume "manifestPath v (manifestID s v q) = ?p"
    then have "manifestID s v q = manifestID s v ?q"
      using manifestPath_inj store_id(1) [OF assms(1)] assms(1) by (metis store_laws_def)
    then show False
      using that assms(1,4) holdsD(2) [OF assms(2)] by (auto simp: store_laws_def dest: inj_onD)
  qed
  have walk: "set (walk_files (mroot v) (files w')) \<subseteq> insert ?p (set (walk_files (mroot v) (files w)))"
    by (auto simp: set_walk wr(2) AList.dom_update)
  show ?thesis
    unfolding holds_def
  proof (intro conjI ballI allI impI)
    show "wf_map (files w')" using holdsD(1) [OF assms(2)] wr(2) by simp
    show "dom (M(?q \<mapsto> m)) \<subseteq> P" using holdsD(2) [OF assms(2)] assms(4) by auto
    show "map_of (files w') (legacy_path v) = None"
      using holdsD(3) [OF assms(2)] wr(2) legacy_not_manifest [OF assms(1)] by simp
    show "manifestIDFromFileName (path_Base p) = Inr '''' \<or> (\<exists>q\<in>dom (M(?q \<mapsto> m)). p = manifestPath v (manifestID s v q))"
      if "p \<in> set (walk_files (mroot v) (files w'))" for p
      using that walk holdsD(4) [OF assms(2), of p] by auto
    fix q m' assume q: "(M(?q \<mapsto> m)) q = Some m'"
    show "mr_Path m' = q" "\<not> Deleted m' \<Longrightarrow> stamped (File m')"
      using q holdsD(5) [OF assms(2)] assms(8) by (auto split: if_splits)
    show "\<exists>f. map_of (files w') (manifestPath v (manifestID s v q)) = Some f \<and> decryptManifest s v (data f) (manifestID s v q) = Inr m'"
      using q holdsD(5) [OF assms(2)] dec other wr(2) by (auto split: if_splits)
  qed
qed

lemma holds_same_files:
  assumes "holds s v P M w" and "files w' = files w"
  shows "holds s v P M w'"
  using assms(1) unfolding holds_def assms(2) .

text \<open>The disk holds some records, and a cache that is there shows their live part.\<close>

definition coherent :: "store_env \<Rightarrow> 'v vault_scheme \<Rightarrow> string set \<Rightarrow> (string \<rightharpoonup> ManifestRecord) \<Rightarrow> 'z vault_state_scheme \<Rightarrow> bool" where
  "coherent s v P M w \<longleftrightarrow> store_laws s v P \<and> aead_law (s_cr s) \<and> rand_ok w \<and> holds s v P M w
     \<and> usesManifestStore (vConfig w) \<and> Version (vConfig w) \<noteq> 1
     \<and> (\<forall>idx. cached w = Some idx \<longrightarrow> map_of (Files idx) = live M)"

lemma coherentD:
  assumes "coherent s v P M w"
  shows "store_laws s v P" "aead_law (s_cr s)" "rand_ok w" "holds s v P M w" "usesManifestStore (vConfig w)"
    "Version (vConfig w) \<noteq> 1" "cached w = Some idx \<Longrightarrow> map_of (Files idx) = live M"
  using assms by (auto simp: coherent_def)

lemma cacheKey_stable: "store_laws s v P \<Longrightarrow> p \<in> P \<Longrightarrow> cacheKey p = p"
  by (simp add: store_laws_def cacheKey_def)

lemma live_put: "\<not> Deleted m \<Longrightarrow> live (M(q \<mapsto> m)) = (live M)(q \<mapsto> File m)"
  by (auto simp: live_def)

lemma live_del: "Deleted m \<Longrightarrow> live (M(q \<mapsto> m)) = (live M)(q := None)"
  by (auto simp: live_def)

text \<open>The refinement of one commit: the abstract map is updated, or nothing changed at all.\<close>

lemma commitFileManifest_refines:
  assumes "coherent s v P M w" and "p \<in> P" and "stamped rec"
    and "unmarshalManifest s (marshalManifest s (file_manifest p rec)) = Some (file_manifest p rec)"
    and "commitFileManifest s v p rec w = (r, w')"
  shows "same_host w w' \<and> (isl r \<and> coherent s v P M w' \<and> files w' = files w \<and> cached w' = cached w
    \<or> r = Inr () \<and> coherent s v P (M(p \<mapsto> file_manifest p rec)) w')"
proof -
  note h = coherentD [OF assms(1)]
  have p: "CleanVirtualPath p = Inr p" "p \<noteq> ''''" using h(1) assms(2) by (auto simp: store_laws_def)
  obtain r1 w1 where sv: "saveFileManifest s v p rec w = (r1, w1)" by fastforce
  have e: "same_host w w1" "same_index w w1" "isl r1 \<and> files w1 = files w \<or> r1 = Inr () \<and> wrote_manifest s v (file_manifest p rec) w w1"
    using saveFileManifest_effect [OF p assms(3) sv] by auto
  show ?thesis
  proof (cases "isl r1")
    case True
    then obtain x where x: "r = Inl x" "w' = w1" using assms(5) sv by (auto simp: commitFileManifest_def io_simps isl_def)
    then show ?thesis using True e h
      by (auto simp: coherent_def same_host_def same_index_def rand_ok_def intro: holds_same_files)
  next
    case False
    then have w': "r = Inr ()" "w' = w1\<lparr>cached := map_option (\<lambda>idx. idx\<lparr>Files := AList.update p (rec\<lparr>ConflictOf := ''''\<rparr>) (Files idx)\<rparr>) (cached w1)\<rparr>"
      using assms(5) sv e(3) cacheKey_stable [OF h(1) assms(2)]
      by (auto simp: commitFileManifest_def io_simps update_cache_def)
    have m: "mr_Path (file_manifest p rec) = p" "\<not> Deleted (file_manifest p rec)" "File (file_manifest p rec) = rec\<lparr>ConflictOf := ''''\<rparr>"
      by (simp_all add: file_manifest_def)
    have "holds s v P (M(p \<mapsto> file_manifest p rec)) w1"
      using holds_update [OF h(1,4) _ _ h(2,3) assms(4)] False e(3) assms(2,3) by (simp add: m stamped_def)
    then have "holds s v P (M(p \<mapsto> file_manifest p rec)) w'" by (rule holds_same_files) (simp add: w')
    then have "coherent s v P (M(p \<mapsto> file_manifest p rec)) w'"
      using h e w'(2) by (auto simp: coherent_def same_host_def same_index_def rand_ok_def live_put m)
    then show ?thesis using w' e(1) by (simp add: same_host_def)
  qed
qed

lemma commitTombstone_refines:
  assumes "coherent s v P M w" and "p \<in> P" and "0 < gen" and "\<forall>t. fmtNano (s_guard s) t \<noteq> ''''"
    and "\<forall>now. unmarshalManifest s (marshalManifest s (tomb_manifest p now gen dg cl)) = Some (tomb_manifest p now gen dg cl)"
    and "commitTombstone s v p gen dg cl w = (r, w')"
  shows "same_host w w' \<and> (isl r \<and> coherent s v P M w' \<and> files w' = files w \<and> cached w' = cached w
    \<or> r = Inr () \<and> (\<exists>now. coherent s v P (M(p \<mapsto> tomb_manifest p now gen dg cl)) w'))"
proof -
  note h = coherentD [OF assms(1)]
  have p: "CleanVirtualPath p = Inr p" "p \<noteq> ''''" using h(1) assms(2) by (auto simp: store_laws_def)
  let ?now = "fmtNano (s_guard s) (clock_src w (clock_ix w))"
  let ?m = "tomb_manifest p ?now gen dg cl"
  obtain r1 w1 where sv: "saveTombstoneWithClock s v p gen dg cl w = (r1, w1)" by fastforce
  have e: "same_host w w1" "same_index w w1" "isl r1 \<and> files w1 = files w \<or> r1 = Inr () \<and> wrote_manifest s v ?m w w1"
    using saveTombstone_effect [OF p assms(3,4) sv] by auto
  show ?thesis
  proof (cases "isl r1")
    case True
    then obtain x where x: "r = Inl x" "w' = w1" using assms(6) sv by (auto simp: commitTombstone_def io_simps isl_def)
    then show ?thesis using True e h
      by (auto simp: coherent_def same_host_def same_index_def rand_ok_def intro: holds_same_files)
  next
    case False
    then have w': "r = Inr ()" "w' = w1\<lparr>cached := map_option (\<lambda>idx. idx\<lparr>Files := AList.delete p (Files idx)\<rparr>) (cached w1)\<rparr>"
      using assms(6) sv e(3) cacheKey_stable [OF h(1) assms(2)]
      by (auto simp: commitTombstone_def io_simps update_cache_def)
    have m: "mr_Path ?m = p" "Deleted ?m" by (simp_all add: tomb_manifest_def)
    have u: "unmarshalManifest s (marshalManifest s ?m) = Some ?m" using assms(5) by blast
    have "holds s v P (M(p \<mapsto> ?m)) w1"
      using holds_update [OF h(1,4) _ _ h(2,3) u] False e(3) assms(2) by (simp add: m)
    then have "holds s v P (M(p \<mapsto> ?m)) w'" by (rule holds_same_files) (simp add: w')
    then have "coherent s v P (M(p \<mapsto> ?m)) w'"
      using h e w'(2) by (auto simp: coherent_def same_host_def same_index_def rand_ok_def live_del m)
    then show ?thesis using w' e(1) by (auto simp: same_host_def)
  qed
qed

text \<open>Loading keeps the store coherent and shows its live part.\<close>

lemma fold_bump: "\<exists>k. io_fold (\<lambda>_ rec. bump_gen (Generation rec)) () rs w = (Inr (), w\<lparr>maxGen := k\<rparr>)"
proof (induction rs arbitrary: w)
  case Nil
  show ?case by (intro exI [of _ "maxGen w"]) (simp add: io_simps)
next
  case (Cons rec rs)
  let ?w1 = "if Generation rec > maxGen w then w\<lparr>maxGen := Generation rec\<rparr> else w"
  obtain k where "io_fold (\<lambda>_ rec. bump_gen (Generation rec)) () rs ?w1 = (Inr (), ?w1\<lparr>maxGen := k\<rparr>)" using Cons.IH by blast
  then have "io_fold (\<lambda>_ rec. bump_gen (Generation rec)) () (rec # rs) w = (Inr (), ?w1\<lparr>maxGen := k\<rparr>)"
    by (simp add: io_bind_def bump_gen_def [of "Generation rec" w])
  moreover have "?w1\<lparr>maxGen := k\<rparr> = w\<lparr>maxGen := k\<rparr>" by simp
  ultimately show ?case by (intro exI [of _ k]) simp
qed

lemma loadIndexFromDisk_coherent:
  assumes "coherent s v P M w" and "loadIndexFromDisk s v w = (r, w')"
  shows "\<exists>k c. w' = w\<lparr>maxGen := k, clock_ix := c\<rparr> \<and> (no_faults w \<longrightarrow> \<not> isl r) \<and> (\<forall>idx. r = Inr idx \<longrightarrow> map_of (Files idx) = live M)"
proof -
  note h = coherentD [OF assms(1)]
  obtain k c r1 where ld: "loadManifestIndex s v w = (r1, w\<lparr>maxGen := k, clock_ix := c\<rparr>)" "no_faults w \<longrightarrow> \<not> isl r1"
    "\<forall>idx plan. r1 = Inr (idx, plan) \<longrightarrow> map_of (Files idx) = live M \<and> rp_conflicts plan = [] \<and> rp_removeManifests plan = []
         \<and> sawManifest plan = (M \<noteq> Map.empty)"
    using load_canonical [OF h(1,4)] by blast
  let ?w1 = "w\<lparr>maxGen := k, clock_ix := c\<rparr>"
  have cfg: "usesManifestStore (vConfig w)" "\<not> (\<not> usesManifestStore (vConfig w) \<or> Version (vConfig w) = 1)" using h(5,6) by auto
  show ?thesis
  proof (cases r1)
    case (Inl e)
    then have "loadIndexFromDisk s v w = (Inl e, ?w1)"
      using ld(1) cfg by (simp add: loadIndexFromDisk_def io_bind_def io_ret_def get_config_def)
    then show ?thesis using assms(2) ld(2) Inl by auto
  next
    case (Inr x)
    obtain idx plan where x: "x = (idx, plan)" by fastforce
    show ?thesis
    proof (cases "sawManifest plan")
      case True
      then have "loadIndexFromDisk s v w = (Inr idx, ?w1)"
        using ld(1) cfg Inr x by (simp add: loadIndexFromDisk_def io_bind_def io_ret_def get_config_def)
      then show ?thesis using assms(2) ld(3) Inr x by auto
    next
      case False
      then have m: "live M = Map.empty" using ld(3) Inr x by (auto simp: live_def fun_eq_iff)
      have tl: "loadIndexFromDisk s v w = io_try (loadLegacyIndex s v) (\<lambda>r. case r of
           Inl e \<Rightarrow> if is_not_exist e then io_bind (now_string s) (\<lambda>n. io_ret (NewIndex n)) else io_fail e
         | Inr idx \<Rightarrow> io_ret idx) ?w1"
        using ld(1) cfg Inr x False by (simp add: loadIndexFromDisk_def io_bind_def io_ret_def get_config_def)
      have nl: "map_of (files ?w1) (legacy_path v) = None" using holdsD(3) [OF h(4)] by simp
      show ?thesis
      proof (cases "fault w OpRead (legacy_path v)")
        case None
        then have "loadLegacyIndex s v ?w1 = (Inl (ENotExist (legacy_path v)), ?w1)"
          using nl by (simp add: loadLegacyIndex_def io_bind_def os_ReadFile_def check_fault_def lookup_file_def)
        then have "loadIndexFromDisk s v w = (Inr (NewIndex (fmtNano (s_guard s) (clock_src w c))), ?w1\<lparr>clock_ix := Suc c\<rparr>)"
          unfolding tl by (simp add: io_try_def is_not_exist_def now_string_def io_bind_def io_ret_def time_Now_def)
        then show ?thesis using assms(2) m by (auto simp: NewIndex_def)
      next
        case (Some e)
        then have "loadLegacyIndex s v ?w1 = (Inl (EMsg e), ?w1)"
          by (simp add: loadLegacyIndex_def io_bind_def os_ReadFile_def check_fault_def)
        then have "loadIndexFromDisk s v w = (Inl (EMsg e), ?w1)" unfolding tl by (simp add: io_try_def is_not_exist_def io_fail_def)
        moreover have "\<not> no_faults w" using Some by (auto simp: no_faults_def)
        ultimately show ?thesis using assms(2) by auto
      qed
    qed
  qed
qed

lemma coherent_cached:
  assumes "coherent s v P M w" and "cachedIndexLocked s v w = (r, w')"
  shows "coherent s v P M w' \<and> same_host w w' \<and> files w' = files w \<and> (no_faults w \<longrightarrow> \<not> isl r)
    \<and> (\<forall>idx. r = Inr idx \<longrightarrow> map_of (Files idx) = live M \<and> cached w' = Some idx)"
proof (cases "cached w")
  case (Some idx)
  then have "r = Inr idx" "w' = w" using assms(2) by (auto simp: cachedIndexLocked_def io_simps get_state_def)
  then show ?thesis using assms(1) Some coherentD(7) [OF assms(1) Some] by simp
next
  case None
  obtain r1 w1 where ld: "loadIndexFromDisk s v w = (r1, w1)" by fastforce
  obtain k c where w1: "w1 = w\<lparr>maxGen := k, clock_ix := c\<rparr>" "no_faults w \<longrightarrow> \<not> isl r1"
    "\<forall>idx. r1 = Inr idx \<longrightarrow> map_of (Files idx) = live M"
    using loadIndexFromDisk_coherent [OF assms(1) ld] by blast
  note h = coherentD [OF assms(1)]
  show ?thesis
  proof (cases r1)
    case (Inl e)
    then have "r = Inl e" "w' = w1" using assms(2) None ld by (auto simp: cachedIndexLocked_def io_simps get_state_def)
    then show ?thesis using w1 h Inl None
      by (auto simp: coherent_def same_host_def rand_ok_def intro: holds_same_files)
  next
    case (Inr idx)
    obtain k' where "io_fold (\<lambda>_ rec. bump_gen (Generation rec)) () (map snd (Files idx)) w1 = (Inr (), w1\<lparr>maxGen := k'\<rparr>)"
      using fold_bump by blast
    then have e: "r = Inr idx" "w' = w1\<lparr>maxGen := k', cached := Some idx\<rparr>"
      using assms(2) None ld Inr by (auto simp: cachedIndexLocked_def io_simps get_state_def set_cached_def)
    have "holds s v P M w'" by (rule holds_same_files [OF h(4)]) (simp add: e w1)
    then show ?thesis using e w1 h Inr by (auto simp: coherent_def same_host_def rand_ok_def)
  qed
qed

end
