(* ===== verification/ManifestRuns.thy ===== *)
theory ManifestRuns
  imports ManifestRefine
begin

text \<open>
  Runs of the manifest store, the agreement of cache and disk along them, and the properties of
  saving, loading and committing.
\<close>

section \<open>Runs of the store\<close>

definition faithful :: "store_env \<Rightarrow> ManifestRecord \<Rightarrow> bool" where
  "faithful s m \<longleftrightarrow> unmarshalManifest s (marshalManifest s m) = Some m"

datatype store_event =
    CommitFile string FileRecord
  | CommitTomb string int int clock
  | Load
  | Reload
  | DiskFaults "fsop \<Rightarrow> string \<Rightarrow> string option" "string \<Rightarrow> nat \<Rightarrow> (string \<times> bool) option"

text \<open>Any interleaving of commits, loads and reloads, each of which may fail, with a disk whose faults come and go.\<close>

inductive store_step :: "store_env \<Rightarrow> 'v vault_scheme \<Rightarrow> string set \<Rightarrow> 'z vault_state_scheme \<Rightarrow> store_event \<Rightarrow> 'z vault_state_scheme \<Rightarrow> bool"
  for s v P where
  put: "p \<in> P \<Longrightarrow> stamped rec \<Longrightarrow> faithful s (file_manifest p rec) \<Longrightarrow>
     store_step s v P w (CommitFile p rec) (snd (commitFileManifest s v p rec w))"
| del: "p \<in> P \<Longrightarrow> 0 < gen \<Longrightarrow> \<forall>now. faithful s (tomb_manifest p now gen dg cl) \<Longrightarrow>
     store_step s v P w (CommitTomb p gen dg cl) (snd (commitTombstone s v p gen dg cl w))"
| load: "store_step s v P w Load (snd (LoadIndex s v w))"
| reload: "store_step s v P w Reload (snd (ReloadIndex s v w))"
| faults: "store_step s v P w (DiskFaults fl rf) (w\<lparr>fault := fl, rename_fault := rf\<rparr>)"

inductive_cases store_stepE: "store_step s v P w e w'"

definition store_inv :: "store_env \<Rightarrow> 'v vault_scheme \<Rightarrow> string set \<Rightarrow> 'z vault_state_scheme \<Rightarrow> bool" where
  "store_inv s v P w \<longleftrightarrow> (\<forall>t. fmtNano (s_guard s) t \<noteq> '''') \<and> (\<exists>M. coherent s v P M w)"

lemma coherent_drop_cache: "coherent s v P M w \<Longrightarrow> coherent s v P M (w\<lparr>cached := None\<rparr>)"
  by (auto simp: coherent_def rand_ok_def intro: holds_same_files)

lemma store_inv_step:
  assumes "store_inv s v P w" and "store_step s v P w e w'"
  shows "store_inv s v P w'"
proof -
  obtain M where c: "coherent s v P M w" using assms(1) by (auto simp: store_inv_def)
  have t: "\<forall>t. fmtNano (s_guard s) t \<noteq> ''''" using assms(1) by (simp add: store_inv_def)
  from assms(2) have "\<exists>M. coherent s v P M w'"
  proof cases
    case (put p rec)
    then show ?thesis
      using commitFileManifest_refines [OF c, of p rec] unfolding faithful_def by (metis prod.collapse)
  next
    case (del p gen dg cl)
    then show ?thesis
      using commitTombstone_refines [OF c _ _ t, of p gen dg cl] unfolding faithful_def by (metis prod.collapse)
  next
    case load
    then show ?thesis using coherent_cached [OF c] unfolding LoadIndex_def by (metis prod.collapse)
  next
    case reload
    have "snd (ReloadIndex s v w) = snd (cachedIndexLocked s v (w\<lparr>cached := None\<rparr>))"
      by (cases "cachedIndexLocked s v (w\<lparr>cached := None\<rparr>)")
         (auto simp: ReloadIndex_def io_bind_def io_ret_def set_cached_def split: sum.split)
    then show ?thesis using coherent_cached [OF coherent_drop_cache [OF c]] reload by (metis prod.collapse)
  next
    case (faults fl rf)
    then show ?thesis using c by (auto simp: coherent_def rand_ok_def intro!: exI [of _ M] intro: holds_same_files)
  qed
  then show ?thesis using t by (simp add: store_inv_def)
qed

interpretation mstore: stepped "store_step s v P" "store_inv s v P" for s v P
  by unfold_locales (rule store_inv_step)

lemma read_only_files: "read_only m \<Longrightarrow> files (snd (m w)) = files w"
  by (simp add: read_only_def)

text \<open>A save on a working disk succeeds.\<close>

lemma saveFileManifest_ok:
  fixes w w' :: "'z vault_state_scheme"
  assumes "no_faults w" "CleanVirtualPath p = Inr p" "p \<noteq> ''''" "stamped rec" and "saveFileManifest s v p rec w = (r, w')"
  shows "r = Inr ()"
proof -
  obtain w1 d where "no_faults w1" "saveFileManifest s v p rec w = atomicWriteFile (manifestPath v (manifestID s v p)) d w1"
  proof -
    let ?w1 = "w\<lparr>clock_ix := Suc (clock_ix w)\<rparr>"
    obtain b where b: "rand_src w (rand_ix w) (NonceSize (s_cr s)) = Some b"
      using assms(1) unfolding no_faults_def by metis
    have "no_faults (?w1\<lparr>rand_ix := Suc (rand_ix w)\<rparr>)" using assms(1) by (simp add: no_faults_def)
    moreover have "\<exists>d. saveFileManifest s v p rec w = atomicWriteFile (manifestPath v (manifestID s v p)) d (?w1\<lparr>rand_ix := Suc (rand_ix w)\<rparr>)"
      using assms(2-4) b
      by (cases "Clock rec = []")
         (auto simp: saveFileManifest_def saveManifestRecord_def now_string_def io_bind_def [of time_Now] io_bind_def [of "randomBytes _"]
           time_Now_def stamped_def randomBytes_def Let_def io_ret_def io_bind_def)
    ultimately show thesis using that by blast
  qed
  then show ?thesis using assms(5) atomicWriteFile_ok by metis
qed

lemma commitFileManifest_ok:
  fixes w w' :: "'z vault_state_scheme"
  assumes "no_faults w" "CleanVirtualPath p = Inr p" "p \<noteq> ''''" "stamped rec" and "commitFileManifest s v p rec w = (r, w')"
  shows "r = Inr ()"
proof -
  obtain r1 w1 where sv: "saveFileManifest s v p rec w = (r1, w1)" by fastforce
  then have "r1 = Inr ()" using saveFileManifest_ok assms by blast
  then show ?thesis using assms(5) sv by (auto simp: commitFileManifest_def io_bind_def update_cache_def)
qed

section \<open>A small store for concrete evaluations\<close>

definition hex_digit :: "nat \<Rightarrow> char" where "hex_digit n = ''0123456789abcdef'' ! (n mod 16)"

definition hex_of :: "bytes \<Rightarrow> string" where
  "hex_of d = concat (map (\<lambda>c. [hex_digit (of_char c div 16), hex_digit (of_char c)]) d)"

definition hex_crypt :: crypt where
  "hex_crypt = box_crypt\<lparr>hmacHex := (\<lambda>k d. take 64 (hex_of d @ replicate 64 (CHR ''0'')))\<rparr>"

definition demo_senv :: store_env where
  "demo_senv = \<lparr>s_guard = demo_guard\<lparr>g_cr := hex_crypt\<rparr>, s_host = demo_env, marshalManifest = enc_manifest,
     unmarshalManifest = dec_manifest, marshalIndex = (\<lambda>_. []), unmarshalIndex = (\<lambda>_. None), map_order = (\<lambda>ks. ks)\<rparr>"

definition demo_vlt :: vault where
  "demo_vlt = \<lparr>MetaRoot = ''/vault/SeaVaultData'', keys = demo_keys, chunkAEAD = ''c'', indexAEAD = ''i'', vRoot = ''/vault'',
     deviceID = ''dev''\<rparr>"

definition demo_vstate :: "Index option \<Rightarrow> vault_state" where
  "demo_vstate c = \<lparr>files = [], fault = (\<lambda>_ _. None), rename_fault = (\<lambda>_ _. None), clock_src = int, clock_ix = 0,
     rand_src = (\<lambda>i n. Some (replicate n (CHR ''r''))), rand_ix = 0, vConfig = demo_config, anchorNote = '''',
     cached = c, maxGen = 0, lastFP = 0, fpKnown = False\<rparr>"

definition demo_file :: FileRecord where
  "demo_file = empty_record\<lparr>UpdatedAt := ''t'', Generation := 7\<rparr>"

abbreviation demo_paths :: "string set" where "demo_paths \<equiv> {''content/a'', ''content/b''}"

lemma hex_digit_in: "hex_digit n \<in> hex_digits"
proof -
  have "n mod 16 < length ''0123456789abcdef''" by simp
  then show ?thesis unfolding hex_digit_def hex_digits_def by (rule nth_mem)
qed

lemma hex_of_in: "set (hex_of d) \<subseteq> hex_digits"
  using hex_digit_in by (auto simp: hex_of_def)

lemma hex_crypt_id: "hex_id (hmacHex hex_crypt k d)"
proof -
  have "set (take 64 (hex_of d @ replicate 64 (CHR ''0''))) \<subseteq> set (hex_of d) \<union> {CHR ''0''}"
    by (metis set_append set_take_subset set_replicate zero_neq_numeral)
  moreover have "CHR ''0'' \<in> hex_digits" by (simp add: hex_digits_def)
  ultimately show ?thesis using hex_of_in [of d] by (auto simp: hex_id_def hex_crypt_def)
qed

lemma hex_crypt_aead: "aead_law hex_crypt"
  using box_aead by (simp add: aead_law_def hex_crypt_def)

lemma show_int_nonempty: "show_int i \<noteq> ''''"
proof -
  have "show_nat n \<noteq> ''''" for n by (subst show_nat.simps) simp
  then show ?thesis by (simp add: show_int_def)
qed

lemma demo_senv_cr: "s_cr demo_senv = hex_crypt" "fmtNano (s_guard demo_senv) t \<noteq> ''''" "faithful demo_senv m"
  by (simp_all add: demo_senv_def demo_guard_def faithful_def manifest_roundtrip show_int_nonempty)

lemma demo_store_laws: "store_laws demo_senv demo_vlt demo_paths"
proof -
  have "tidy_root demo_vlt"
    unfolding tidy_root_def by (rule exI [of _ "''vault/SeaVaultData''"]) code_simp
  moreover have "manifestID demo_senv demo_vlt ''content/a'' \<noteq> manifestID demo_senv demo_vlt ''content/b''" by code_simp
  moreover have "CleanVirtualPath ''content/a'' = Inr ''content/a''" "CleanVirtualPath ''content/b'' = Inr ''content/b''"
    by code_simp+
  ultimately show ?thesis
    using hex_crypt_id by (auto simp: store_laws_def demo_senv_cr inj_on_def) (simp add: demo_senv_def)
qed

lemma demo_vstate_ok: "no_faults (demo_vstate c)" "rand_ok (demo_vstate c)"
  by (simp_all add: no_faults_def rand_ok_def demo_vstate_def)

lemma demo_coherent: "coherent demo_senv demo_vlt demo_paths Map.empty (demo_vstate None)"
  using demo_store_laws demo_vstate_ok(2) hex_crypt_aead
  by (simp add: coherent_def demo_senv_cr holds_def demo_vstate_def walk_files_def usesManifestStore_def demo_config_def)

lemma demo_stamped: "stamped demo_file"
  by (simp add: stamped_def demo_file_def)

section \<open>Properties\<close>

text \<open>
  A saved record reads back.  On any disk, a save that succeeds leaves under the record's own name a
  file that decrypts to exactly the saved record, its conflict mark cleared, and changes no other
  file; a save that fails changes no file at all.
\<close>

theorem saved_manifest_decrypts:
  fixes w w' :: "'z vault_state_scheme"
  assumes "aead_law (s_cr s)" and "rand_ok w" and "CleanVirtualPath p = Inr p" and "p \<noteq> ''''" and "stamped rec"
    and "faithful s (file_manifest p rec)" and "saveFileManifest s v p rec w = (r, w')"
  shows "isl r \<and> files w' = files w
    \<or> (\<exists>f. map_of (files w') (manifestPath v (manifestID s v p)) = Some f
         \<and> decryptManifest s v (data f) (manifestID s v p) = Inr (file_manifest p rec)
         \<and> (\<forall>q. q \<noteq> manifestPath v (manifestID s v p) \<longrightarrow> map_of (files w') q = map_of (files w) q))"
proof -
  have p: "mr_Path (file_manifest p rec) = p" by (simp add: file_manifest_def)
  from saveFileManifest_effect [OF assms(3-5,7)]
  show ?thesis
  proof (elim conjE disjE)
    assume "wrote_manifest s v (file_manifest p rec) w w'"
    then obtain nonce i t where wr: "rand_src w i (NonceSize (s_cr s)) = Some nonce"
      "files w' = AList.update (manifestPath v (manifestID s v p)) \<lparr>data = sealed_manifest s v nonce (file_manifest p rec), mtime = t\<rparr> (files w)"
      by (auto simp: wrote_manifest_def p)
    have "length nonce = NonceSize (s_cr s)" using wr(1) assms(2) by (auto simp: rand_ok_def)
    from decrypt_sealed [OF assms(1) this, of "file_manifest p rec" "file_manifest p rec" v] assms(6) show ?thesis
      by (simp add: wr(2) faithful_def p)
  qed simp
qed

theorem saved_manifest_decrypts_witness:
  "\<exists>w' f. saveFileManifest demo_senv demo_vlt ''content/a'' demo_file (demo_vstate None) = (Inr (), w')
     \<and> map_of (files w') (manifestPath demo_vlt (manifestID demo_senv demo_vlt ''content/a'')) = Some f
     \<and> decryptManifest demo_senv demo_vlt (data f) (manifestID demo_senv demo_vlt ''content/a'')
         = Inr (file_manifest ''content/a'' demo_file)"
proof -
  obtain r w' where sv: "saveFileManifest demo_senv demo_vlt ''content/a'' demo_file (demo_vstate None) = (r, w')" by fastforce
  have p: "CleanVirtualPath ''content/a'' = Inr ''content/a''" "''content/a'' \<noteq> ''''" by code_simp+
  have r: "r = Inr ()" by (rule saveFileManifest_ok [OF demo_vstate_ok(1) p demo_stamped sv])
  from saved_manifest_decrypts [OF _ demo_vstate_ok(2) p demo_stamped demo_senv_cr(3) sv] show ?thesis
    using r sv hex_crypt_aead by (auto simp: demo_senv_cr)
qed

text \<open>
  Reading never writes: loading the index, reloading it, checking for changes and inspecting the
  store leave every file as it was, on any disk, with any content and any pattern of errors.
\<close>

theorem load_is_pure:
  fixes w :: "'z vault_state_scheme"
  shows "files (snd (LoadIndex s v w)) = files w \<and> files (snd (ReloadIndex s v w)) = files w
   \<and> files (snd (ReloadIfChanged s v w)) = files w \<and> files (snd (inspectManifestStore s v w)) = files w"
  unfolding LoadIndex_def
  by (intro conjI read_only_files read_only_intros)

text \<open>
  C15.  The cache never drifts from the disk.  After any interleaving of commits, deletes, loads and
  reloads, with writes and reads that fail along the way, a fresh load of the manifests succeeds on
  a disk that works, plans no repair, and finds exactly what the cache shows.
\<close>

theorem cache_is_fresh_load:
  assumes "store_inv s v P w" and "run_of (store_step s v P) w es w'" and "no_faults w'"
  shows "\<exists>idx plan w''. loadManifestIndex s v w' = (Inr (idx, plan), w'') \<and> rp_conflicts plan = [] \<and> rp_removeManifests plan = []
    \<and> (\<forall>c. cached w' = Some c \<longrightarrow> map_of (Files c) = map_of (Files idx))"
proof -
  have "store_inv s v P w'" by (rule mstore.run_inv [OF assms(2,1)])
  then obtain M where c: "coherent s v P M w'" by (auto simp: store_inv_def)
  obtain k cl r where l: "loadManifestIndex s v w' = (r, w'\<lparr>maxGen := k, clock_ix := cl\<rparr>)" "\<not> isl r"
    "\<forall>idx plan. r = Inr (idx, plan) \<longrightarrow> map_of (Files idx) = live M \<and> rp_conflicts plan = [] \<and> rp_removeManifests plan = []
       \<and> sawManifest plan = (M \<noteq> Map.empty)"
    using load_canonical [OF coherentD(1) [OF c] coherentD(4) [OF c]] assms(3) by blast
  obtain idx plan where "r = Inr (idx, plan)" using l(2) by (metis sum.collapse(2) surj_pair)
  then show ?thesis using l(1,3) coherentD(7) [OF c] by auto
qed

theorem cache_is_fresh_load_witness:
  "\<exists>w'. run_of (store_step demo_senv demo_vlt demo_paths) (demo_vstate None) [CommitFile ''content/a'' demo_file, Load] w'
     \<and> (\<exists>idx plan w''. loadManifestIndex demo_senv demo_vlt w' = (Inr (idx, plan), w'') \<and> rp_conflicts plan = []
          \<and> (\<forall>c. cached w' = Some c \<longrightarrow> map_of (Files c) = map_of (Files idx)))"
proof -
  let ?w1 = "snd (commitFileManifest demo_senv demo_vlt ''content/a'' demo_file (demo_vstate None))"
  let ?w2 = "snd (LoadIndex demo_senv demo_vlt ?w1)"
  have run: "run_of (store_step demo_senv demo_vlt demo_paths) (demo_vstate None) [CommitFile ''content/a'' demo_file, Load] ?w2"
    by (rule run_Cons, rule put, simp, rule demo_stamped, rule demo_senv_cr, rule run_Cons, rule load, rule run_Nil)
  have inv: "store_inv demo_senv demo_vlt demo_paths (demo_vstate None)"
    using demo_coherent demo_senv_cr(2) by (auto simp: store_inv_def)
  obtain M where c1: "same_host (demo_vstate None) ?w1" "coherent demo_senv demo_vlt demo_paths M ?w1"
    using commitFileManifest_refines [OF demo_coherent _ demo_stamped, of "''content/a''"] demo_senv_cr(3)
    by (metis faithful_def insertI1 prod.collapse)
  have "no_faults ?w2"
    using coherent_cached [OF c1(2)] c1(1) demo_vstate_ok(1) unfolding LoadIndex_def by (metis no_faults_same prod.collapse)
  from cache_is_fresh_load [OF inv run this] run show ?thesis by blast
qed

text \<open>
  A committed record is what the next load finds: after a successful commit on a working disk, a
  fresh load maps the path to the record and every other path to what it was.
\<close>

theorem commit_then_load:
  assumes "coherent s v P M w" and "p \<in> P" and "stamped rec" and "faithful s (file_manifest p rec)"
    and "commitFileManifest s v p rec w = (Inr (), w')" and "no_faults w"
  shows "\<exists>idx plan w''. loadManifestIndex s v w' = (Inr (idx, plan), w'')
    \<and> map_of (Files idx) = (live M)(p \<mapsto> rec\<lparr>ConflictOf := ''''\<rparr>)"
proof -
  have r: "same_host w w'" "coherent s v P (M(p \<mapsto> file_manifest p rec)) w'"
    using commitFileManifest_refines [OF assms(1-3) _ assms(5)] assms(4) by (auto simp: faithful_def)
  have nf: "no_faults w'" using r(1) assms(6) no_faults_same by blast
  obtain k cl rr where l: "loadManifestIndex s v w' = (rr, w'\<lparr>maxGen := k, clock_ix := cl\<rparr>)" "\<not> isl rr"
    "\<forall>idx plan. rr = Inr (idx, plan) \<longrightarrow> map_of (Files idx) = live (M(p \<mapsto> file_manifest p rec))"
    using load_canonical [OF coherentD(1) [OF r(2)] coherentD(4) [OF r(2)]] nf by blast
  obtain idx plan where "rr = Inr (idx, plan)" using l(2) by (metis sum.collapse(2) surj_pair)
  then show ?thesis using l(1,3) by (auto simp: live_put file_manifest_def)
qed

theorem commit_then_load_witness:
  "\<exists>w' idx plan w''. commitFileManifest demo_senv demo_vlt ''content/a'' demo_file (demo_vstate None) = (Inr (), w')
     \<and> loadManifestIndex demo_senv demo_vlt w' = (Inr (idx, plan), w'')
     \<and> map_of (Files idx) ''content/a'' = Some (demo_file\<lparr>ConflictOf := ''''\<rparr>)"
proof -
  obtain r w' where sv: "commitFileManifest demo_senv demo_vlt ''content/a'' demo_file (demo_vstate None) = (r, w')" by fastforce
  have p: "CleanVirtualPath ''content/a'' = Inr ''content/a''" "''content/a'' \<noteq> ''''" by code_simp+
  have r: "r = Inr ()" by (rule commitFileManifest_ok [OF demo_vstate_ok(1) p demo_stamped sv])
  have "''content/a'' \<in> demo_paths" by simp
  from commit_then_load [OF demo_coherent this demo_stamped demo_senv_cr(3) sv [unfolded r] demo_vstate_ok(1)] show ?thesis
    using sv r by (metis fun_upd_same)
qed

text \<open>
  C37.  A file can vanish by its name alone.  The manifest id is computed from the raw bytes of the path,
  the stored path goes through JSON.  When the encoding does not preserve the path (Go replaces each
  byte that is not valid UTF-8), a put succeeds and is shown by the cache, but the next load drops
  the manifest without a word.
\<close>

theorem unencodable_path_vanishes:
  assumes "store_laws s v {p}" and "aead_law (s_cr s)" and "rand_ok w" and "no_faults w" and "stamped rec"
    and "unmarshalManifest s (marshalManifest s (file_manifest p rec)) = Some m'"
    and "CleanVirtualPath (mr_Path m') = Inr (mr_Path m')" and "mr_Path m' \<noteq> ''''"
    and "manifestID s v (mr_Path m') \<noteq> manifestID s v p"
    and "files w = []" and "cached w = Some c" and "commitFileManifest s v p rec w = (r, w')"
  shows "r = Inr () \<and> (\<exists>c'. cached w' = Some c' \<and> map_of (Files c') p = Some (rec\<lparr>ConflictOf := ''''\<rparr>))
    \<and> (\<exists>idx plan w''. loadManifestIndex s v w' = (Inr (idx, plan), w'') \<and> Files idx = [])"
proof -
  let ?mp = "manifestPath v (manifestID s v p)"
  have p: "CleanVirtualPath p = Inr p" "p \<noteq> ''''" using assms(1) by (auto simp: store_laws_def)
  obtain r1 w1 where sv: "saveFileManifest s v p rec w = (r1, w1)" by fastforce
  have e: "same_host w w1" "same_index w w1" "isl r1 \<and> files w1 = files w \<or> r1 = Inr () \<and> wrote_manifest s v (file_manifest p rec) w w1"
    using saveFileManifest_effect [OF p assms(5) sv] by auto
  have "\<not> isl r1" using saveFileManifest_ok [OF assms(4) p assms(5) sv] by simp
  then have wr: "r1 = Inr ()" "wrote_manifest s v (file_manifest p rec) w w1" using e(3) by auto
  have w': "r = Inr ()" "w' = w1\<lparr>cached := Some (c\<lparr>Files := AList.update p (rec\<lparr>ConflictOf := ''''\<rparr>) (Files c)\<rparr>)\<rparr>"
    using assms(11,12) sv wr(1) e(2) cacheKey_stable [OF assms(1), of p]
    by (auto simp: commitFileManifest_def io_bind_def update_cache_def same_index_def)
  obtain nonce i t where f: "rand_src w i (NonceSize (s_cr s)) = Some nonce"
    "files w' = [(?mp, \<lparr>data = sealed_manifest s v nonce (file_manifest p rec), mtime = t\<rparr>)]"
    using wr(2) assms(10) w'(2) by (auto simp: wrote_manifest_def file_manifest_def)
  have "length nonce = NonceSize (s_cr s)" using f(1) assms(3) by (auto simp: rand_ok_def)
  from decrypt_sealed [OF assms(2) this assms(6)]
  have dec: "decryptManifest s v (sealed_manifest s v nonce (file_manifest p rec)) (manifestID s v p) = Inr m'"
    by (simp add: file_manifest_def)
  note ids = store_id [OF assms(1), of p]
  have walk: "walk_files (mroot v) (files w') = [?mp]" using f(2) ids(3) by (simp add: walk_files_def)
  have nf: "no_faults w'" using no_faults_same [OF e(1) assms(4)] w'(2) by (simp add: no_faults_def)
  have idne: "manifestID s v p \<noteq> ''''" using hex_idD(6) [OF ids(1)] .
  obtain k rr where fr: "io_fold (read_candidate s v) [] [?mp] w' = (rr, w'\<lparr>maxGen := k\<rparr>)"
    "rr = Inr [cand_at s v (files w') ?mp]"
    using fold_read [of "[?mp]" "files w'" s v w' "[]"] f(2) dec ids(2) assms(8) nf idne by auto
  have cand: "Record (cand_at s v (files w') ?mp) = m'" "cand_ID (cand_at s v (files w') ?mp) = manifestID s v p"
    using f(2) dec ids(2) by (simp_all add: cand_at_def Let_def)
  have mo: "map_order s [] = []" using assms(1) by (metis store_laws_def mset_zero_iff)
  have "group_path s v [] (cand_at s v (files w') ?mp) = []"
    using assms(7,8,9) cand by (simp add: group_path_def)
  then have "\<exists>idx plan w''. loadManifestIndex s v w' = (Inr (idx, plan), w'') \<and> Files idx = []"
    using walk fr nf mo
    by (simp add: loadManifestIndex_def mroot_def [symmetric] io_bind_def os_walk_def check_fault_def no_faults_def
        time_Now_def io_ret_def Let_def)
  then show ?thesis using w' by simp
qed

text \<open>An encoding that, like JSON in Go, replaces a byte that is not valid UTF-8.\<close>

definition lossy_senv :: store_env where
  "lossy_senv = demo_senv\<lparr>marshalManifest := (\<lambda>m. enc_manifest (m\<lparr>mr_Path := map (\<lambda>c. if c = CHR 0xFF then CHR ''?'' else c) (mr_Path m)\<rparr>))\<rparr>"

definition lossy_path :: string where "lossy_path = ''content/'' @ [CHR 0xFF]"

theorem unencodable_path_vanishes_witness:
  "\<exists>w' c'. commitFileManifest lossy_senv demo_vlt lossy_path demo_file (demo_vstate (Some (NewIndex ''t''))) = (Inr (), w')
     \<and> cached w' = Some c' \<and> map_of (Files c') lossy_path = Some demo_file
     \<and> (\<exists>idx plan w''. loadManifestIndex lossy_senv demo_vlt w' = (Inr (idx, plan), w'') \<and> Files idx = [])"
proof -
  let ?m = "(file_manifest lossy_path demo_file)\<lparr>mr_Path := ''content/?''\<rparr>"
  have cl: "CleanVirtualPath lossy_path = Inr lossy_path" "lossy_path \<noteq> ''''"
    "CleanVirtualPath (mr_Path ?m) = Inr (mr_Path ?m)" "mr_Path ?m \<noteq> ''''" by code_simp+
  have ne: "manifestID lossy_senv demo_vlt (mr_Path ?m) \<noteq> manifestID lossy_senv demo_vlt lossy_path" by code_simp
  have cr: "s_cr lossy_senv = hex_crypt" by (simp add: lossy_senv_def demo_senv_cr)
  have laws: "store_laws lossy_senv demo_vlt {lossy_path}"
    using demo_store_laws cl by (simp add: store_laws_def cr lossy_senv_def demo_senv_cr)
  have um: "unmarshalManifest lossy_senv (marshalManifest lossy_senv (file_manifest lossy_path demo_file)) = Some ?m"
    by (simp add: lossy_senv_def demo_senv_def manifest_roundtrip file_manifest_def lossy_path_def)
  have w: "files (demo_vstate (Some (NewIndex ''t''))) = []" "cached (demo_vstate (Some (NewIndex ''t''))) = Some (NewIndex ''t'')"
    by (simp_all add: demo_vstate_def)
  obtain r w' where cm: "commitFileManifest lossy_senv demo_vlt lossy_path demo_file (demo_vstate (Some (NewIndex ''t''))) = (r, w')"
    by fastforce
  have "demo_file\<lparr>ConflictOf := ''''\<rparr> = demo_file" by (simp add: demo_file_def empty_record_def)
  with unencodable_path_vanishes [OF laws _ demo_vstate_ok(2,1) demo_stamped um cl(3,4) ne w cm] show ?thesis
    using cm hex_crypt_aead by (auto simp: cr)
qed

lemma fold_stuck:
  assumes "p \<in> set ps" and "\<And>acc w. isl (fst (f acc p w))"
  shows "\<exists>e w'. io_fold f acc ps w = (Inl e, w')"
  using assms(1)
proof (induction ps arbitrary: acc w)
  case (Cons q ps)
  obtain r w1 where f: "f acc q w = (r, w1)" by fastforce
  show ?case
  proof (cases r)
    case (Inl e)
    then show ?thesis using f by (simp add: io_bind_def)
  next
    case (Inr acc1)
    then have "p \<in> set ps" using Cons.prems f assms(2) [of acc w] by auto
    then show ?thesis using Cons.IH f Inr by (simp add: io_bind_def)
  qed
qed simp

lemma hostile_names:
  "Index_of ''.manifest'' (ToLower (replicate 5 (CHR 0xFF) @ ''.manifest'')) = Some 15"
  "Index_of ''.manifest'' (ToLower (concat (replicate 10 [CHR 0xC8, CHR 0xBA]) @ ''.manifest'')) = Some 30"
  by code_simp+

text \<open>
  C38.  One file name stops a vault.  A name is cut at the position of \<^verbatim>\<open>.manifest\<close> in its lower case; where that
  position lies beyond the end of the name itself, the cut panics.  A lower case can be that much longer:
  an invalid byte becomes three, so that five bytes 0xFF before \<^verbatim>\<open>.manifest\<close> are enough, and so are ten
  letters of two bytes whose lower case has three (lemma \<open>hostile_names\<close>).  One file with such a
  name among the manifests makes every load of the index and every run of the collector's gate end
  in a panic or an error, whatever else the store holds and whatever the disk does.
\<close>

theorem hostile_manifest_name:
  fixes w :: "'z vault_state_scheme"
  assumes "p \<in> set (walk_files (mroot v) (files w))"
    and "Index_of ''.manifest'' (ToLower (path_Base p)) = Some i" and "length (path_Base p) < i"
  shows "manifestIDFromFileName (path_Base p) = Inl (EPanic ''slice bounds out of range'')
    \<and> isl (fst (loadManifestIndex s v w)) \<and> isl (fst (inspectManifestStore s v w))"
proof -
  have n: "manifestIDFromFileName (path_Base p) = Inl (EPanic ''slice bounds out of range'')"
    "Contains (ToLower (path_Base p)) ''.manifest''"
    using assms(2,3) by (simp_all add: manifestIDFromFileName_def Contains_def)
  have r: "isl (fst (read_candidate s v acc p w))" "isl (fst (inspect_manifest s v st p w))" for acc st and w :: "'z vault_state_scheme"
    using n by (simp_all add: read_candidate_def inspect_manifest_def io_simps)
  let ?ps = "walk_files (mroot v) (files w)"
  obtain e w1 where f1: "io_fold (read_candidate s v) [] ?ps w = (Inl e, w1)"
    using fold_stuck [OF assms(1), of "read_candidate s v" "[]" w, OF r(1)] by blast
  obtain e' w2 where f2: "io_fold (inspect_manifest s v) \<lparr>hasAny = False, hasNonTombstone = False\<rparr> ?ps w = (Inl e', w2)"
    using fold_stuck [OF assms(1), of "inspect_manifest s v" _ w, OF r(2)] by blast
  have "isl (fst (loadManifestIndex s v w))" "isl (fst (inspectManifestStore s v w))"
    using f1 f2 by (auto simp: loadManifestIndex_def inspectManifestStore_def mroot_def os_walk_def check_fault_def io_bind_def Let_def
        split: option.split)
  then show ?thesis using n(1) by simp
qed

theorem hostile_manifest_name_witness:
  "\<exists>p w. p \<in> set (walk_files (mroot demo_vlt) (files w)) \<and> w = (demo_vstate None)\<lparr>files := [(p, \<lparr>data = ''x'', mtime = 0\<rparr>)]\<rparr>
     \<and> isl (fst (loadManifestIndex demo_senv demo_vlt w))"
proof -
  let ?p = "mroot demo_vlt @ ''/'' @ replicate 5 (CHR 0xFF) @ ''.manifest''"
  let ?w = "(demo_vstate None)\<lparr>files := [(?p, \<lparr>data = ''x'', mtime = 0\<rparr>)]\<rparr>"
  have m: "?p \<in> set (walk_files (mroot demo_vlt) (files ?w))" by (simp add: set_walk HasPrefix_iff)
  have "path_Base ?p = replicate 5 (CHR 0xFF) @ ''.manifest''" by code_simp
  then have b: "Index_of ''.manifest'' (ToLower (path_Base ?p)) = Some 15" "length (path_Base ?p) < 15"
    using hostile_names(1) by simp_all
  from hostile_manifest_name [OF m b, of demo_senv] m show ?thesis by blast
qed

end
