(* ===== verification/Compact.thy ===== *)
theory Compact
  imports ManifestRuns
begin

text \<open>
  Compaction (\<^verbatim>\<open>internal/vault/compact.go\<close>): the repairs a pure load plans are applied to the disk.  Each
  losing edit is written as a conflict copy before the file it came from is removed, superseded
  manifests are removed, and temporary files that a crash left behind are swept once they are older
  than a fence.  The results: a plan-only run writes nothing; an edit that compaction removes from
  one file is readable from its conflict copy, whatever fails along the way; and everything outside
  the plan is left alone.
\<close>

section \<open>Removal and time\<close>

text \<open>
  \<^verbatim>\<open>removeWithRetry\<close> of \<^verbatim>\<open>rename.go\<close> on the disk of the model: the attempts of a removal fail as the attempts of
  a rename of the same path do, and a file that is not there counts as removed.
\<close>

definition remove_attempt :: "'z world_scheme \<Rightarrow> string \<Rightarrow> nat \<Rightarrow> (error \<times> bool) option" where
  "remove_attempt w p i = (case rename_fault w p i of
     Some (m, again) \<Rightarrow> Some (EMsg m, again)
   | None \<Rightarrow> (case map_of (files w) p of None \<Rightarrow> Some (ENotExist p, False) | Some _ \<Rightarrow> None))"

definition remove_retry :: "string \<Rightarrow> (unit, 'z) io" where
  "remove_retry p w = (case fst (removeWithRetry (remove_attempt w p) (\<lambda>e. is_not_exist (fst e)) snd) of
     Some (e, _) \<Rightarrow> (Inl e, w)
   | None \<Rightarrow> (Inr (), w\<lparr>files := AList.delete p (files w)\<rparr>))"

definition Hour :: int where "Hour = 3600000000000"
definition GCFenceDefault :: int where "GCFenceDefault = 72 * Hour"
definition GCIntentDirName :: string where "GCIntentDirName = ''gc-intents''"

section \<open>compact.go\<close>

text \<open>An entry of \<^verbatim>\<open>Errors\<close>: what was attempted, on which path, and the error; the code joins them to one string.\<close>

type_synonym step_error = "string \<times> string \<times> error"

record CompactReport =
  Conflicts :: "string list"
  RemovedManifests :: int
  TmpOrphans :: "string list"
  Errors :: "step_error list"

definition empty_compact :: CompactReport where
  "empty_compact = \<lparr>Conflicts = [], RemovedManifests = 0, TmpOrphans = [], Errors = []\<rparr>"

definition Materialised :: "CompactReport \<Rightarrow> bool" where
  "Materialised r \<longleftrightarrow> length (Conflicts r) > 0 \<or> RemovedManifests r > 0 \<or> length (TmpOrphans r) > 0"

definition add_error :: "string \<Rightarrow> string \<Rightarrow> error \<Rightarrow> CompactReport \<Rightarrow> CompactReport" where
  "add_error what p e r = r\<lparr>Errors := Errors r @ [(what, p, e)]\<rparr>"

definition count_removed :: "CompactReport \<Rightarrow> CompactReport" where
  "count_removed r = r\<lparr>RemovedManifests := RemovedManifests r + 1\<rparr>"

text \<open>The bodies of the two loops over the plan; \<open>app\<close> is the flag \<^verbatim>\<open>apply\<close>.\<close>

definition materialise_conflict :: "store_env \<Rightarrow> 'v vault_scheme \<Rightarrow> bool \<Rightarrow> CompactReport \<Rightarrow> plannedConflict \<Rightarrow> (CompactReport, 'z) io" where
  "materialise_conflict s v app report c =
     (let noted = report\<lparr>Conflicts := Conflicts report @ [pc_Path c]\<rparr> in
      if \<not> app then io_ret (count_removed noted)
      else io_try (saveFileManifest s v (pc_Path c) (pc_Rec c)) (\<lambda>r. case r of
        Inl e \<Rightarrow> io_ret (add_error ''materialise conflict'' (pc_Path c) e report)
      | Inr _ \<Rightarrow> io_try (remove_retry (pc_Source c)) (\<lambda>r. case r of
          Inl e \<Rightarrow> io_ret (add_error ''remove superseded'' (pc_Source c) e noted)
        | Inr _ \<Rightarrow> io_ret (count_removed noted))))"

definition remove_planned :: "bool \<Rightarrow> CompactReport \<Rightarrow> string \<Rightarrow> (CompactReport, 'z) io" where
  "remove_planned app report p =
     (if \<not> app then io_ret (count_removed report)
      else io_try (remove_retry p) (\<lambda>r. case r of
        Inl e \<Rightarrow> io_ret (add_error ''remove'' p e report)
      | Inr _ \<Rightarrow> io_ret (count_removed report)))"

definition sweep_file :: "int \<Rightarrow> bool \<Rightarrow> int \<Rightarrow> string list \<times> step_error list \<Rightarrow> string \<Rightarrow> (string list \<times> step_error list, 'z) io" where
  "sweep_file now app fence st p = (case st of (orphans, errs) \<Rightarrow>
     if \<not> HasPrefix (path_Base p) ''.tmp-'' then io_ret st
     else io_try (os_Stat p) (\<lambda>r. case r of
       Inl e \<Rightarrow> if is_not_exist e then io_ret st else io_ret (orphans, errs @ [(''stat'', p, e)])
     | Inr info \<Rightarrow>
         if time_Sub now (mtime info) < fence then io_ret st
         else if \<not> app then io_ret (orphans @ [p], errs)
         else io_try (remove_retry p) (\<lambda>r. case r of
           Inl e \<Rightarrow> io_ret (orphans @ [p], errs @ [(''sweep'', p, e)])
         | Inr _ \<Rightarrow> io_ret (orphans @ [p], errs))))"

definition sweep_root :: "int \<Rightarrow> bool \<Rightarrow> int \<Rightarrow> string list \<times> step_error list \<Rightarrow> string \<Rightarrow> (string list \<times> step_error list, 'z) io" where
  "sweep_root now app fence st root =
     io_try (os_walk root) (\<lambda>r. case r of
       Inl e \<Rightarrow> (case st of (orphans, errs) \<Rightarrow> if is_not_exist e then io_ret st else io_ret (orphans, errs @ [(''walk'', root, e)]))
     | Inr ps \<Rightarrow> io_fold (sweep_file now app fence) st ps)"

definition sweep_roots :: "'v vault_scheme \<Rightarrow> string list" where
  "sweep_roots v = [path_Join (path_Join (MetaRoot v) ''objects'') ''chunks'', path_Join (MetaRoot v) ManifestDirName,
     path_Join (MetaRoot v) GCIntentDirName]"

definition sweepTmpOrphans :: "'v vault_scheme \<Rightarrow> int \<Rightarrow> bool \<Rightarrow> int \<Rightarrow> (string list \<times> step_error list, 'z) io" where
  "sweepTmpOrphans v now app fence = io_fold (sweep_root now app fence) ([], []) (sweep_roots v)"

text \<open>The engine: the report and, as the code's second result, an error when the load or any step failed.\<close>

definition compact :: "store_env \<Rightarrow> 'v vault_scheme \<Rightarrow> int \<Rightarrow> bool \<Rightarrow> int \<Rightarrow> (CompactReport \<times> error option, 'z) mio" where
  "compact s v now app fence =
     io_try (loadManifestIndex s v) (\<lambda>r. case r of
       Inl e \<Rightarrow> io_ret (empty_compact, Some e)
     | Inr (_, plan) \<Rightarrow>
         io_bind (io_fold (materialise_conflict s v app) empty_compact (rp_conflicts plan)) (\<lambda>r1.
         io_bind (io_fold (remove_planned app) r1 (rp_removeManifests plan)) (\<lambda>r2.
         io_bind (sweepTmpOrphans v now app fence) (\<lambda>(orphans, sweepErrs).
         let report = r2\<lparr>TmpOrphans := orphans, Errors := Errors r2 @ sweepErrs\<rparr> in
         io_bind (if app \<and> Materialised report then set_cached None else io_ret ()) (\<lambda>_.
         io_ret (report, if length (Errors report) > 0
           then Some (EMsg (''compact completed with '' @ show_nat (length (Errors report)) @ '' error(s)'')) else None))))))"

definition Compact :: "store_env \<Rightarrow> 'v vault_scheme \<Rightarrow> (CompactReport \<times> error option, 'z) mio" where
  "Compact s v = io_bind time_Now (\<lambda>now. compact s v now True GCFenceDefault)"

definition CompactPlan :: "store_env \<Rightarrow> 'v vault_scheme \<Rightarrow> (CompactReport \<times> error option, 'z) mio" where
  "CompactPlan s v = io_bind time_Now (\<lambda>now. compact s v now False GCFenceDefault)"

section \<open>A plan-only run is read-only\<close>

lemma read_only_materialise [read_only_intros]: "read_only (materialise_conflict s v False rep c)"
  by (simp add: materialise_conflict_def Let_def disk.keeps_pure)

lemma read_only_remove [read_only_intros]: "read_only (remove_planned False rep p)"
  by (simp add: remove_planned_def disk.keeps_pure)

lemma read_only_sweep [read_only_intros]: "read_only (sweepTmpOrphans v now False fence)"
proof -
  have "read_only (sweep_file now False fence st p)" for st p
    unfolding sweep_file_def simp_thms if_True by (intro read_only_intros)
  then show ?thesis unfolding sweepTmpOrphans_def sweep_root_def by (intro read_only_intros)
qed

lemma read_only_compact [read_only_intros]: "read_only (compact s v now False fence)"
  unfolding compact_def Let_def simp_thms if_False by (intro read_only_intros)

section \<open>Actions that leave files alone\<close>

lemmas leaves_pure = part.keeps_pure read_only_host [THEN leaves_read_only] read_only_os [THEN leaves_read_only]
  read_only_now [THEN leaves_read_only] read_only_walk [THEN leaves_read_only] read_only_state [THEN leaves_read_only]

lemma leaves_remove [leaves_intros]: "p \<notin> S \<Longrightarrow> leaves S (remove_retry p)"
  by (auto simp: leaves_def remove_retry_def same_host_def delete_conv' split: option.split)

section \<open>What a load plans\<close>

text \<open>
  The plan of a load over any store: the files it would remove are distinct manifests of paths that
  are on the disk, and its conflict copies go to paths that are not.
\<close>

lemma distinct_submset:
  assumes "mset xs \<subseteq># mset ys" and "distinct ys"
  shows "distinct xs"
  unfolding distinct_count_atmost_1
proof
  fix a
  define n where "n = count (mset xs) a"
  have "n \<le> count (mset ys) a" unfolding n_def by (rule mset_subset_eq_count [OF assms(1)])
  also have "\<dots> \<le> 1" using assms(2) by (simp add: distinct_count_atmost_1)
  finally have "n \<le> 1" .
  moreover have "n \<noteq> 0 \<longleftrightarrow> a \<in> set xs" unfolding n_def by (metis count_eq_zero_iff set_mset_mset)
  ultimately have "n = (if a \<in> set xs then 1 else 0)" by (auto simp: le_Suc_eq)
  then show "count (mset xs) a = (if a \<in> set xs then 1 else 0)" by (simp only: n_def)
qed

lemma reconcile_sources:
  assumes "reconcilePathCandidates env p list = Some (lv, cs, rs)"
  shows "mset (map pc_Source cs) + mset rs \<subseteq># mset (map Source list)"
proof (cases "list = []")
  case False
  obtain w losers rs' where r: "ranked env list = w # losers" "reconcile_losers env p w losers = (cs, rs')"
    "rs = map Source (filter (\<lambda>c. isCausallyDominated c list) list) @ rs'"
    using reconcile_Some [OF _ False] assms by blast
  have "mset (map Source list) =
      mset (map Source (w # losers)) + mset (map Source (filter (\<lambda>c. isCausallyDominated c list) list))"
    using mset_ranked [of env list] r(1) by (metis image_mset_union mset_map)
  then have "mset (map Source list) = {#Source w#} + (mset (map pc_Source cs) + mset rs)"
    using reconcile_losers_mset [OF r(2)] r(3) by simp
  then show ?thesis by simp
qed (use assms in \<open>simp add: reconcilePathCandidates_def\<close>)

definition group_of :: "manifestCandidate list gomap \<Rightarrow> string \<Rightarrow> manifestCandidate list" where
  "group_of bp p = (case map_of bp p of None \<Rightarrow> [] | Some l \<Rightarrow> l)"

lemma merge_paths_plan:
  assumes "merge_paths env bp ps fs cs rs = Inr (fs', cs', rs')"
  shows "\<exists>cn rn. cs' = cs @ cn \<and> rs' = rs @ rn \<and> (\<forall>c\<in>set cn. map_of bp (pc_Path c) = None)
    \<and> mset (map pc_Source cn) + mset rn \<subseteq># mset (map Source (concat (map (group_of bp) ps)))"
  using assms
proof (induction ps arbitrary: fs cs rs)
  case (Cons p ps)
  obtain lv cf rm where r: "reconcilePathCandidates env p (group_of bp p) = Some (lv, cf, rm)"
    using Cons.prems by (auto simp: group_of_def split: option.splits)
  define new where "new = filter (\<lambda>c. map_of bp (pc_Path c) = None) cf"
  obtain fs1 where m: "merge_paths env bp ps fs1 (cs @ new) (rs @ rm) = Inr (fs', cs', rs')"
    using Cons.prems r by (simp add: group_of_def [symmetric] Let_def new_def)
  obtain cn rn where n: "cs' = (cs @ new) @ cn" "rs' = (rs @ rm) @ rn" "\<forall>c\<in>set cn. map_of bp (pc_Path c) = None"
    "mset (map pc_Source cn) + mset rn \<subseteq># mset (map Source (concat (map (group_of bp) ps)))"
    using Cons.IH [OF m] by blast
  have "mset (map pc_Source new) \<subseteq># mset (map pc_Source cf)"
    unfolding new_def mset_map mset_filter by (intro image_mset_subseteq_mono multiset_filter_subset)
  then have "mset (map pc_Source new) + mset rm \<subseteq># mset (map Source (group_of bp p))"
    using reconcile_sources [OF r] by (meson subset_mset.add_right_mono subset_mset.order_trans)
  then have "(mset (map pc_Source new) + mset rm) + (mset (map pc_Source cn) + mset rn)
      \<subseteq># mset (map Source (group_of bp p)) + mset (map Source (concat (map (group_of bp) ps)))"
    using n(4) by (rule subset_mset.add_mono)
  moreover have "\<forall>c\<in>set (new @ cn). map_of bp (pc_Path c) = None" using n(3) by (auto simp: new_def)
  ultimately show ?case using n(1,2)
    by (intro exI [of _ "new @ cn"] exI [of _ "rm @ rn"]) (simp add: add_ac)
qed simp

lemma concat_groups:
  assumes "wf_map bp" and "mset ps = mset (map fst bp)"
  shows "mset (map Source (concat (map (group_of bp) ps))) = mset (map Source (concat (map snd bp)))"
proof -
  have "map (group_of bp) (map fst bp) = map snd bp"
    using assms(1) by (auto simp: group_of_def)
  moreover have "mset (concat (map (group_of bp) ps)) = mset (concat (map (group_of bp) (map fst bp)))"
    unfolding mset_concat using assms(2) by (metis mset_map sum_mset_sum_list)
  ultimately show ?thesis by (metis mset_map)
qed

text \<open>The groups hold each candidate once, under a path that has the id of its file name.\<close>

definition wf_groups :: "store_env \<Rightarrow> 'v vault_scheme \<Rightarrow> string set \<Rightarrow> manifestCandidate list gomap \<Rightarrow> bool" where
  "wf_groups s v K bp \<longleftrightarrow> wf_map bp \<and> fst ` set bp \<subseteq> K \<and> (\<forall>q l c. (q, l) \<in> set bp \<longrightarrow> c \<in> set l \<longrightarrow>
       manifestID s v q = cand_ID c \<and> cand_ID c = name_id (path_Base (Source c)))"

lemma mset_group_update:
  "wf_map bp \<Longrightarrow> mset (concat (map snd (AList.update q (group_of bp q @ [c]) bp))) = add_mset c (mset (concat (map snd bp)))"
proof (induction bp)
  case (Cons b bp)
  show ?case
  proof (cases "q = fst b")
    case False
    then have "group_of (b # bp) q = group_of bp q" by (cases b) (simp add: group_of_def)
    then show ?thesis using Cons False by (cases b) simp
  qed (cases b, simp add: group_of_def)
qed (simp add: group_of_def)

definition cand_ok :: "string set \<Rightarrow> manifestCandidate \<Rightarrow> bool" where
  "cand_ok K c \<longleftrightarrow> cand_ID c = name_id (path_Base (Source c))
     \<and> (\<forall>q. CleanVirtualPath (mr_Path (Record c)) = Inr q \<longrightarrow> q \<in> K)"

lemma group_path_step:
  assumes "wf_groups s v K bp" and "cand_ok K c"
  shows "wf_groups s v K (group_path s v bp c)
    \<and> mset (map Source (concat (map snd (group_path s v bp c)))) \<subseteq># mset (map Source (concat (map snd bp))) + {#Source c#}"
proof (cases "group_path s v bp c = bp")
  case False
  then obtain q where q: "manifestID s v q = cand_ID c" "CleanVirtualPath (mr_Path (Record c)) = Inr q"
    "group_path s v bp c = AList.update q (group_of bp q @ [c\<lparr>Record := (Record c)\<lparr>mr_Path := q\<rparr>\<rparr>]) bp"
    by (auto simp: group_path_def group_of_def Let_def split: sum.splits if_splits)
  have w: "wf_map bp" using assms by (simp add: wf_groups_def)
  have "\<forall>d\<in>set (group_of bp q). manifestID s v q = cand_ID d \<and> cand_ID d = name_id (path_Base (Source d))"
    using assms by (auto simp: wf_groups_def group_of_def split: option.splits dest: map_of_SomeD)
  then have "wf_groups s v K (group_path s v bp c)"
    using assms q unfolding wf_groups_def cand_ok_def by (fastforce dest: in_update)
  moreover have "mset (map Source (concat (map snd (group_path s v bp c)))) = mset (map Source (concat (map snd bp))) + {#Source c#}"
    unfolding q(3) mset_map mset_group_update [OF w] by simp
  ultimately show ?thesis by simp
qed (use assms in simp)

lemma fold_groups:
  assumes "wf_groups s v K bp" and "\<forall>c\<in>set cs. cand_ok K c"
  shows "wf_groups s v K (foldl (group_path s v) bp cs)
    \<and> mset (map Source (concat (map snd (foldl (group_path s v) bp cs)))) \<subseteq># mset (map Source (concat (map snd bp))) + mset (map Source cs)"
  using assms
proof (induction cs arbitrary: bp)
  case (Cons c cs)
  note g = group_path_step [OF Cons.prems(1), of c]
  have c: "cand_ok K c" "\<forall>c\<in>set cs. cand_ok K c"
    using Cons.prems(2) by auto
  let ?bp = "group_path s v bp c"
  have "mset (map Source (concat (map snd (foldl (group_path s v) ?bp cs)))) \<subseteq># mset (map Source (concat (map snd ?bp))) + mset (map Source cs)"
    using Cons.IH [of ?bp] g c by blast
  also have "\<dots> \<subseteq># (mset (map Source (concat (map snd bp))) + {#Source c#}) + mset (map Source cs)"
    using g c by (intro subset_mset.add_right_mono) blast
  finally show ?case using Cons.IH [of ?bp] g c by (simp add: add_ac)
qed simp

text \<open>The paths that the manifests on a disk name.\<close>

definition names_on :: "store_env \<Rightarrow> 'v vault_scheme \<Rightarrow> fsfile gomap \<Rightarrow> string set" where
  "names_on s v fs = {q. \<exists>p f m. map_of fs p = Some f \<and> decryptManifest s v (data f) (name_id (path_Base p)) = Inr m
     \<and> CleanVirtualPath (mr_Path m) = Inr q}"

lemma fold_read_any:
  assumes "io_fold (read_candidate s v) acc ps w = (Inr cs, w')"
  shows "\<exists>cn. cs = acc @ cn \<and> mset (map Source cn) \<subseteq># mset ps
    \<and> (\<forall>c\<in>set cn. cand_ok (names_on s v (files w)) c)"
  using assms
proof (induction ps arbitrary: acc w)
  case (Cons p ps)
  obtain acc1 w1 where r: "read_candidate s v acc p w = (Inr acc1, w1)" "io_fold (read_candidate s v) acc1 ps w1 = (Inr cs, w')"
    using Cons.prems by (auto simp: io_simps split: prod.splits sum.splits)
  have "acc1 = acc \<and> files w1 = files w \<or> files w1 = files w \<and> (\<exists>c. acc1 = acc @ [c] \<and> Source c = p \<and> cand_ok (names_on s v (files w)) c)"
    using r(1) by (auto simp: read_candidate_def io_simps Let_def os_ReadFile_def check_fault_def lookup_file_def bump_gen_def cand_ok_def
        names_on_def split: prod.splits sum.splits if_splits option.splits dest!: name_id_eq)
  moreover obtain cn where n: "cs = acc1 @ cn" "mset (map Source cn) \<subseteq># mset ps" "\<forall>c\<in>set cn. cand_ok (names_on s v (files w1)) c"
    using r Cons.IH by blast
  ultimately show ?case
  proof (elim disjE conjE)
    assume w: "files w1 = files w" and "\<exists>c. acc1 = acc @ [c] \<and> Source c = p \<and> cand_ok (names_on s v (files w)) c"
    then obtain c where "acc1 = acc @ [c]" "Source c = p" "cand_ok (names_on s v (files w)) c" by blast
    then show ?thesis using n w by (intro exI [of _ "c # cn"]) auto
  qed (use n in \<open>auto intro: subset_mset.order_trans\<close>)
qed (simp add: io_simps)

lemma load_plan:
  fixes w w' :: "'z vault_state_scheme"
  assumes "loadManifestIndex s v w = (Inr (idx, plan), w')" and "wf_map (files w)" and "\<forall>ks. mset (map_order s ks) = mset ks"
  obtains qs where "distinct (map pc_Source (rp_conflicts plan) @ rp_removeManifests plan)"
    "set (map pc_Source (rp_conflicts plan) @ rp_removeManifests plan) \<subseteq> set (walk_files (mroot v) (files w))"
    "\<forall>x \<in> set (map pc_Source (rp_conflicts plan) @ rp_removeManifests plan). \<exists>q\<in>qs. manifestID s v q = name_id (path_Base x)"
    "\<forall>c\<in>set (rp_conflicts plan). pc_Path c \<notin> qs" "qs \<subseteq> names_on s v (files w)"
proof -
  obtain cands w1 ps where ps: "ps = walk_files (mroot v) (files w)" "io_fold (read_candidate s v) [] ps w = (Inr cands, w1)"
    and rest: "rp_conflicts plan = [] \<and> rp_removeManifests plan = []
      \<or> (\<exists>env fs. merge_paths env (foldl (group_path s v) [] cands) (map_order s (map fst (foldl (group_path s v) [] cands))) [] [] []
             = Inr (fs, rp_conflicts plan, rp_removeManifests plan))"
    using assms(1)
    by (auto simp: loadManifestIndex_def io_simps os_walk_def check_fault_def time_Now_def Let_def mroot_def empty_plan_def
        split: prod.splits sum.splits option.splits if_splits) blast
  show thesis
  proof (cases "rp_conflicts plan = [] \<and> rp_removeManifests plan = []")
    case True
    then show ?thesis using that [of "{}"] by simp
  next
    case False
    define bp where "bp = foldl (group_path s v) [] cands"
    obtain env fs where m: "merge_paths env bp (map_order s (map fst bp)) [] [] [] = Inr (fs, rp_conflicts plan, rp_removeManifests plan)"
      using rest False unfolding bp_def by blast
    have sub: "mset (map Source cands) \<subseteq># mset ps" "\<forall>c\<in>set cands. cand_ok (names_on s v (files w)) c"
      using fold_read_any [OF ps(2)] by auto
    have g: "wf_groups s v (names_on s v (files w)) bp" "mset (map Source (concat (map snd bp))) \<subseteq># mset (map Source cands)"
      using fold_groups [of s v "names_on s v (files w)" "[]" cands] sub(2) by (auto simp: wf_groups_def bp_def)
    let ?xs = "map pc_Source (rp_conflicts plan) @ rp_removeManifests plan"
    have pl: "\<forall>c\<in>set (rp_conflicts plan). map_of bp (pc_Path c) = None"
      "mset ?xs \<subseteq># mset (map Source (concat (map snd bp)))"
      using merge_paths_plan [OF m] concat_groups [of bp "map_order s (map fst bp)"] assms(3) g(1) by (auto simp: wf_groups_def)
    have "distinct (map Source cands)" using sub(1) distinct_walk [OF assms(2)] ps(1) by (metis distinct_submset)
    then have d: "distinct ?xs" using pl(2) g(2) by (meson distinct_submset subset_mset.order_trans)
    have w: "set ?xs \<subseteq> set (walk_files (mroot v) (files w))"
      using pl(2) g(2) sub(1) ps(1) by (metis set_mset_mono set_mset_mset subset_mset.order_trans)
    have "\<forall>x\<in>set ?xs. \<exists>q\<in>fst ` set bp. manifestID s v q = name_id (path_Base x)"
    proof
      fix x assume "x \<in> set ?xs"
      then have "x \<in> set (map Source (concat (map snd bp)))" using pl(2) by (metis set_mset_mono set_mset_mset subsetD)
      then obtain q l c where c: "(q, l) \<in> set bp" "c \<in> set l" "x = Source c" by auto
      then have "manifestID s v q = cand_ID c" "cand_ID c = name_id (path_Base x)"
        using g(1) unfolding wf_groups_def by blast+
      then show "\<exists>q\<in>fst ` set bp. manifestID s v q = name_id (path_Base x)" using c(1) by force
    qed
    moreover have "\<forall>c\<in>set (rp_conflicts plan). pc_Path c \<notin> fst ` set bp" using pl(1) by (simp add: map_of_eq_None_iff)
    moreover have "fst ` set bp \<subseteq> names_on s v (files w)" using g(1) by (simp add: wf_groups_def)
    ultimately show ?thesis using that [OF d w] by blast
  qed
qed

section \<open>What compaction leaves alone\<close>

lemma leaves_save_manifest [leaves_intros]:
  assumes "\<And>q. manifestPath v (manifestID s v q) \<notin> S"
  shows "leaves S (saveManifestRecord s v m)" "leaves S (saveFileManifest s v p rec)" "leaves S (saveTombstoneWithClock s v p gen dg cl)"
proof -
  show 1: "leaves S (saveManifestRecord s v m)" for m
    unfolding saveManifestRecord_def Let_def
    by (intro leaves_intros assms leaves_pure)
  show "leaves S (saveFileManifest s v p rec)" "leaves S (saveTombstoneWithClock s v p gen dg cl)"
    unfolding saveFileManifest_def saveTombstoneWithClock_def Let_def
    by (intro leaves_intros 1 leaves_pure)+
qed

lemma leaves_sweep [leaves_intros]:
  assumes "\<forall>p\<in>S. \<not> HasPrefix (path_Base p) ''.tmp-''"
  shows "leaves S (sweepTmpOrphans v now app fence)"
proof -
  have "leaves S (sweep_file now app fence st p)" for st p
    unfolding sweep_file_def by (intro leaves_intros leaves_pure) (use assms in blast)
  then show ?thesis unfolding sweepTmpOrphans_def sweep_root_def
    by (intro leaves_intros leaves_pure)
qed

lemma leaves_materialise:
  assumes "\<And>q. manifestPath v (manifestID s v q) \<notin> S" and "pc_Source c \<notin> S"
  shows "leaves S (materialise_conflict s v app rep c)"
  unfolding materialise_conflict_def Let_def by (intro leaves_intros leaves_pure assms)

lemma leaves_remove_planned: "p \<notin> S \<Longrightarrow> leaves S (remove_planned app rep p)"
  unfolding remove_planned_def by (intro leaves_intros leaves_pure)

text \<open>Files outside the manifest directory that are not temporary files stay as they are.\<close>

definition outside_manifests :: "'v vault_scheme \<Rightarrow> string set" where
  "outside_manifests v = {p. \<not> HasPrefix p (mroot v @ ''/'') \<and> \<not> HasPrefix (path_Base p) ''.tmp-''}"

lemma load_plan_under:
  fixes w w' :: "'z vault_state_scheme"
  assumes "loadManifestIndex s v w = (Inr (idx, plan), w')" and "wf_map (files w)" and "store_laws s v P"
  shows "c \<in> set (rp_conflicts plan) \<Longrightarrow> HasPrefix (pc_Source c) (mroot v @ ''/'')"
    "p \<in> set (rp_removeManifests plan) \<Longrightarrow> HasPrefix p (mroot v @ ''/'')"
proof -
  have "\<forall>ks. mset (map_order s ks) = mset ks" using assms(3) by (simp add: store_laws_def)
  from load_plan [OF assms(1,2) this]
  have "set (map pc_Source (rp_conflicts plan) @ rp_removeManifests plan) \<subseteq> set (walk_files (mroot v) (files w))" by metis
  then show "c \<in> set (rp_conflicts plan) \<Longrightarrow> HasPrefix (pc_Source c) (mroot v @ ''/'')"
    "p \<in> set (rp_removeManifests plan) \<Longrightarrow> HasPrefix p (mroot v @ ''/'')" by (auto simp: set_walk)
qed

lemma compact_frame:
  fixes w w' :: "'z vault_state_scheme"
  assumes "store_laws s v P" and "wf_map (files w)" and "compact s v now app fence w = (r, w')"
  shows "same_host w w' \<and> (\<forall>p\<in>outside_manifests v. map_of (files w') p = map_of (files w) p)"
proof -
  obtain r0 w0 where ld: "loadManifestIndex s v w = (r0, w0)" by fastforce
  have 0: "files w0 = files w" "same_host w w0" using read_only_load [of s v] ld unfolding read_only_def by (metis snd_conv)+
  show ?thesis
  proof (cases r0)
    case (Inl e)
    then show ?thesis using assms(3) ld 0 by (auto simp: compact_def io_simps)
  next
    case (Inr x)
    obtain idx plan where x: "x = (idx, plan)" by fastforce
    note u = load_plan_under [OF ld [unfolded Inr x] assms(2,1)]
    let ?rest = "io_bind (io_fold (materialise_conflict s v app) empty_compact (rp_conflicts plan)) (\<lambda>r1.
         io_bind (io_fold (remove_planned app) r1 (rp_removeManifests plan)) (\<lambda>r2.
         io_bind (sweepTmpOrphans v now app fence) (\<lambda>(orphans, sweepErrs).
         let report = r2\<lparr>TmpOrphans := orphans, Errors := Errors r2 @ sweepErrs\<rparr> in
         io_bind (if app \<and> Materialised report then set_cached None else io_ret ()) (\<lambda>_.
         io_ret (report, if length (Errors report) > 0
           then Some (EMsg (''compact completed with '' @ show_nat (length (Errors report)) @ '' error(s)'')) else None)))))"
    have id: "manifestPath v (manifestID s v q) \<notin> outside_manifests v" for q
      using store_id(3) [OF assms(1)] by (simp add: outside_manifests_def)
    have "leaves (outside_manifests v) (io_fold (materialise_conflict s v app) empty_compact (rp_conflicts plan))"
      using u(1) id by (intro part.keeps_fold leaves_materialise) (auto simp: outside_manifests_def)
    moreover have "leaves (outside_manifests v) (io_fold (remove_planned app) r1 (rp_removeManifests plan))" for r1
      using u(2) by (intro part.keeps_fold leaves_remove_planned) (auto simp: outside_manifests_def)
    moreover have "leaves (outside_manifests v) (sweepTmpOrphans v now app fence)"
      by (rule leaves_sweep) (simp add: outside_manifests_def)
    ultimately have "leaves (outside_manifests v) ?rest"
      unfolding Let_def by (intro part.keeps_bind keeps_cases leaves_pure)
    moreover have "?rest w0 = (r, w')" using assms(3) ld Inr x by (simp add: compact_def io_try_def)
    ultimately show ?thesis using leavesD(1) [of "outside_manifests v" ?rest _ w0 r w'] leavesD(2) [of "outside_manifests v" ?rest w0 r w'] 0
      by (auto intro: same_host_trans)
  qed
qed

section \<open>No edit is lost\<close>

text \<open>
  The invariant of the two loops: each planned conflict still has its source file, or its copy is
  on the disk, readable, with the edit of a conflict planned for that path.
\<close>

definition copied :: "store_env \<Rightarrow> 'v vault_scheme \<Rightarrow> plannedConflict list \<Rightarrow> 'z world_scheme \<Rightarrow> plannedConflict \<Rightarrow> bool" where
  "copied s v cs w c \<longleftrightarrow> (\<exists>f d. d \<in> set cs \<and> pc_Path d = pc_Path c
     \<and> map_of (files w) (manifestPath v (manifestID s v (pc_Path c))) = Some f
     \<and> decryptManifest s v (data f) (manifestID s v (pc_Path c)) = Inr (file_manifest (pc_Path c) (pc_Rec d)))"

definition edit_safe :: "store_env \<Rightarrow> 'v vault_scheme \<Rightarrow> plannedConflict list \<Rightarrow> 'z world_scheme \<Rightarrow> 'z world_scheme \<Rightarrow> bool" where
  "edit_safe s v cs w0 w \<longleftrightarrow> same_host w0 w
     \<and> (\<forall>c\<in>set cs. map_of (files w) (pc_Source c) = map_of (files w0) (pc_Source c) \<or> copied s v cs w c)"

definition planned_ok :: "store_env \<Rightarrow> 'v vault_scheme \<Rightarrow> string set \<Rightarrow> plannedConflict list \<Rightarrow> string list \<Rightarrow> bool" where
  "planned_ok s v P cs rs \<longleftrightarrow> store_laws s v P \<and> aead_law (s_cr s) \<and> distinct (map pc_Source cs @ rs)
     \<and> (\<forall>c\<in>set cs. pc_Path c \<in> P \<and> stamped (pc_Rec c) \<and> faithful s (file_manifest (pc_Path c) (pc_Rec c))
          \<and> manifestPath v (manifestID s v (pc_Path c)) \<notin> set (map pc_Source cs @ rs))"

lemma copied_frame:
  "copied s v cs w c \<Longrightarrow> map_of (files w') (manifestPath v (manifestID s v (pc_Path c))) = map_of (files w) (manifestPath v (manifestID s v (pc_Path c)))
     \<Longrightarrow> copied s v cs w' c"
  by (simp add: copied_def)

lemma remove_retry_cases:
  assumes "remove_retry p w = (r, w')"
  obtains "w' = w" | "files w' = AList.delete p (files w)" "same_host w w'"
  using assms by (auto simp: remove_retry_def same_host_def split: option.splits)

lemma edit_safe_frame:
  assumes "edit_safe s v cs w0 w" and "same_host w w'"
    and "\<And>c. c \<in> set cs \<Longrightarrow> map_of (files w') (pc_Source c) = map_of (files w) (pc_Source c)"
    and "\<And>c. c \<in> set cs \<Longrightarrow> map_of (files w') (manifestPath v (manifestID s v (pc_Path c))) = map_of (files w) (manifestPath v (manifestID s v (pc_Path c)))"
  shows "edit_safe s v cs w0 w'"
  using assms(1,2) same_host_trans [of w0 w w'] assms(3) copied_frame [OF _ assms(4)] unfolding edit_safe_def by simp blast

lemma edit_safe_remove:
  assumes "planned_ok s v P cs rs" and "edit_safe s v cs w0 w" and "remove_retry p w = (r, w')" and "p \<in> set (map pc_Source cs @ rs)"
    and "\<And>c. c \<in> set cs \<Longrightarrow> pc_Source c = p \<Longrightarrow> copied s v cs w c"
  shows "edit_safe s v cs w0 w'"
  using assms(3)
proof (cases rule: remove_retry_cases)
  case 2
  have t: "map_of (files w') (manifestPath v (manifestID s v (pc_Path c))) = map_of (files w) (manifestPath v (manifestID s v (pc_Path c)))"
    if "c \<in> set cs" for c
    using assms(1,4) that 2(1) unfolding planned_ok_def by (metis delete_conv' fun_upd_apply)
  have "map_of (files w') (pc_Source c) = map_of (files w0) (pc_Source c) \<or> copied s v cs w' c" if c: "c \<in> set cs" for c
  proof (cases "copied s v cs w c")
    case True
    then show ?thesis using copied_frame t [OF c] by blast
  next
    case False
    then have "map_of (files w) (pc_Source c) = map_of (files w0) (pc_Source c)" "pc_Source c \<noteq> p"
      using assms(2,5) c by (auto simp: edit_safe_def)
    then show ?thesis using 2(1) by (simp add: delete_conv')
  qed
  then show ?thesis using assms(2) 2(2) by (auto simp: edit_safe_def intro: same_host_trans)
qed (use assms(2) in simp)

lemma edit_safe_save:
  fixes w0 w w' :: "'z vault_state_scheme"
  assumes "planned_ok s v P cs rs" and "rand_ok w0" and "edit_safe s v cs w0 w" and "x \<in> set cs"
    and "saveFileManifest s v (pc_Path x) (pc_Rec x) w = (r, w')"
  shows "edit_safe s v cs w0 w' \<and> (isl r \<or> copied s v cs w' x)"
proof -
  let ?T = "\<lambda>c. manifestPath v (manifestID s v (pc_Path c))"
  have laws: "store_laws s v P" "aead_law (s_cr s)" using assms(1) by (auto simp: planned_ok_def)
  have x: "pc_Path x \<in> P" "stamped (pc_Rec x)" "faithful s (file_manifest (pc_Path x) (pc_Rec x))"
    using assms(1,4) unfolding planned_ok_def by blast+
  have cl: "CleanVirtualPath (pc_Path x) = Inr (pc_Path x)" "pc_Path x \<noteq> ''''" using laws(1) x(1) by (auto simp: store_laws_def)
  from saveFileManifest_effect [OF cl x(2) assms(5)]
  have e: "same_host w w'" "isl r \<and> files w' = files w \<or> r = Inr () \<and> wrote_manifest s v (file_manifest (pc_Path x) (pc_Rec x)) w w'" by auto
  have sh: "same_host w0 w'" using assms(3) e(1) by (auto simp: edit_safe_def intro: same_host_trans)
  show ?thesis
  proof (cases "isl r")
    case True
    then have "files w' = files w" using e(2) by auto
    then show ?thesis using True assms(3) sh unfolding edit_safe_def copied_def by metis
  next
    case False
    then obtain nonce i t where wr: "rand_src w i (NonceSize (s_cr s)) = Some nonce"
      "files w' = AList.update (?T x) \<lparr>data = sealed_manifest s v nonce (file_manifest (pc_Path x) (pc_Rec x)), mtime = t\<rparr> (files w)"
      using e(2) by (auto simp: wrote_manifest_def file_manifest_def)
    have "length nonce = NonceSize (s_cr s)"
      using wr(1) assms(2,3) by (auto simp: rand_ok_def edit_safe_def same_host_def)
    from decrypt_sealed [OF laws(2) this, of "file_manifest (pc_Path x) (pc_Rec x)" "file_manifest (pc_Path x) (pc_Rec x)" v]
    have dec: "decryptManifest s v (sealed_manifest s v nonce (file_manifest (pc_Path x) (pc_Rec x))) (manifestID s v (pc_Path x))
        = Inr (file_manifest (pc_Path x) (pc_Rec x))" using x(3) by (simp add: faithful_def file_manifest_def)
    have cx: "copied s v cs w' c" if "pc_Path c = pc_Path x" for c
      using that dec assms(4) by (auto simp: copied_def wr(2) intro!: bexI [of _ x])
    have "map_of (files w') (pc_Source c) = map_of (files w0) (pc_Source c) \<or> copied s v cs w' c" if c: "c \<in> set cs" for c
    proof (cases "pc_Path c = pc_Path x")
      case False
      have "pc_Path c \<in> P" using assms(1) c unfolding planned_ok_def by blast
      then have "?T c \<noteq> ?T x" using False x(1) laws(1) store_id(1) [OF laws(1)] manifestPath_inj [of v]
        unfolding store_laws_def by (metis inj_onD)
      then have "map_of (files w') (?T c) = map_of (files w) (?T c)" by (simp add: wr(2) update_conv')
      then have "copied s v cs w c \<Longrightarrow> copied s v cs w' c" using copied_frame by blast
      moreover have "?T x \<noteq> pc_Source c" using assms(1,4) c unfolding planned_ok_def by fastforce
      ultimately show ?thesis using assms(3) c by (auto simp: edit_safe_def wr(2) update_conv')
    qed (use cx in blast)
    then show ?thesis using sh cx by (auto simp: edit_safe_def)
  qed
qed

lemma edit_safe_materialise:
  fixes w0 w w' :: "'z vault_state_scheme"
  assumes "planned_ok s v P cs rs" and "rand_ok w0" and "edit_safe s v cs w0 w" and "x \<in> set cs"
    and "materialise_conflict s v True rep x w = (r, w')"
  shows "edit_safe s v cs w0 w' \<and> \<not> isl r"
proof -
  obtain r1 w1 where sv: "saveFileManifest s v (pc_Path x) (pc_Rec x) w = (r1, w1)" by fastforce
  note 1 = edit_safe_save [OF assms(1-4) sv]
  show ?thesis
  proof (cases r1)
    case (Inl e)
    then show ?thesis using assms(5) sv 1 by (auto simp: materialise_conflict_def Let_def io_simps)
  next
    case (Inr u)
    obtain r2 w2 where rm: "remove_retry (pc_Source x) w1 = (r2, w2)" by fastforce
    have "copied s v cs w1 c" if c: "c \<in> set cs" "pc_Source c = pc_Source x" for c
      using 1 Inr c assms(1,4) unfolding planned_ok_def by (auto simp: distinct_map dest: inj_onD)
    then have "edit_safe s v cs w0 w2" using edit_safe_remove [OF assms(1) _ rm] 1 assms(4) by auto
    moreover have "w' = w2" "\<not> isl r" using assms(5) sv Inr rm
      by (auto simp: materialise_conflict_def Let_def io_simps split: sum.splits)
    ultimately show ?thesis by simp
  qed
qed

text \<open>A loop keeps what each of its rounds keeps.\<close>

lemma io_fold_inv:
  assumes "io_fold f s xs w = (r, w')" and "I w"
    and "\<And>s x w r w'. x \<in> set xs \<Longrightarrow> I w \<Longrightarrow> f s x w = (r, w') \<Longrightarrow> I w' \<and> \<not> isl r"
  shows "I w' \<and> \<not> isl r"
  using assms
proof (induction xs arbitrary: s w)
  case (Cons x xs)
  obtain r1 w1 where f: "f s x w = (r1, w1)" by fastforce
  have 1: "I w1 \<and> \<not> isl r1" using Cons.prems(3) [OF _ Cons.prems(2) f] by simp
  then obtain s1 where "r1 = Inr s1" by (metis sum.collapse(2))
  then have "io_fold f s1 xs w1 = (r, w')" using Cons.prems(1) f by (simp add: io_simps)
  then show ?case using Cons.IH 1 Cons.prems(3) by (metis list.set_intros(2))
qed (auto simp: io_simps)

lemma sweep_total: "sweepTmpOrphans v now app fence w = (r, w') \<Longrightarrow> \<exists>st. r = Inr st"
proof -
  have f: "\<not> isl (fst (sweep_file now app fence st p w))" for st p and w :: "'z world_scheme"
    by (auto simp: sweep_file_def io_try_def io_ret_def split: prod.split sum.split if_split)
  have g: "\<not> isl (fst (io_fold (sweep_file now app fence) st ps w))" for st ps and w :: "'z world_scheme"
    using io_fold_inv [where I = "\<lambda>_. True", of "sweep_file now app fence" st ps w] f by (metis fst_conv prod.collapse)
  have "\<not> isl (fst (sweep_root now app fence st root w))" for st root and w :: "'z world_scheme"
    using g by (cases st) (auto simp: sweep_root_def io_try_def io_ret_def split: prod.split sum.split if_split)
  then have "\<not> isl (fst (sweepTmpOrphans v now app fence w))" for w :: "'z world_scheme"
    unfolding sweepTmpOrphans_def
    using io_fold_inv [where I = "\<lambda>_. True", of "sweep_root now app fence" "([], [])" "sweep_roots v" w] by (metis fst_conv prod.collapse)
  then show "sweepTmpOrphans v now app fence w = (r, w') \<Longrightarrow> \<exists>st. r = Inr st" by (metis fst_conv sum.collapse(2))
qed

lemma manifest_name_not_tmp: "name_id b \<noteq> '''' \<Longrightarrow> \<not> HasPrefix b ''.tmp-''"
proof
  assume n: "name_id b \<noteq> ''''" and "HasPrefix b ''.tmp-''"
  then obtain r where b: "b = CHR ''.'' # r" by (auto simp: HasPrefix_iff)
  have "\<not> isHex [CHR ''.'']" by code_simp
  then have "\<not> isHex (take k b)" for k by (cases k) (auto simp: b isHex_def)
  then show False
    using n by (auto simp: name_id_def manifestIDFromFileName_def Let_def split: option.splits if_splits)
qed

lemma compact_edit_safe:
  fixes w w1 w' :: "'z vault_state_scheme"
  assumes "planned_ok s v P (rp_conflicts plan) (rp_removeManifests plan)" and "rand_ok w"
    and "loadManifestIndex s v w = (Inr (idx, plan), w1)" and "compact s v now True fence w = (r, w')"
    and "\<forall>x\<in>set (map pc_Source (rp_conflicts plan)). \<not> HasPrefix (path_Base x) ''.tmp-''"
  shows "edit_safe s v (rp_conflicts plan) w w'"
proof -
  let ?cs = "rp_conflicts plan" and ?rs = "rp_removeManifests plan"
  have laws: "store_laws s v P" using assms(1) by (simp add: planned_ok_def)
  have "files w1 = files w" "same_host w w1" using read_only_load [of s v] assms(3) unfolding read_only_def by (metis snd_conv)+
  then have 1: "edit_safe s v ?cs w w1" by (simp add: edit_safe_def)
  obtain r2 w2 where f1: "io_fold (materialise_conflict s v True) empty_compact ?cs w1 = (r2, w2)" by fastforce
  have 2: "edit_safe s v ?cs w w2 \<and> \<not> isl r2"
    using edit_safe_materialise [OF assms(1,2)] by (rule io_fold_inv [where I = "edit_safe s v ?cs w", OF f1 1])
  then obtain rep2 where r2: "r2 = Inr rep2" by (metis sum.collapse(2))
  obtain r3 w3 where f2: "io_fold (remove_planned True) rep2 ?rs w2 = (r3, w3)" by fastforce
  have "edit_safe s v ?cs w w3 \<and> \<not> isl r3"
  proof (rule io_fold_inv [where I = "edit_safe s v ?cs w", OF f2])
    fix rep p wa ra wb
    assume a: "p \<in> set ?rs" "edit_safe s v ?cs w wa" "remove_planned True rep p wa = (ra, wb)"
    obtain rr wr where rm: "remove_retry p wa = (rr, wr)" by fastforce
    have "\<And>c. c \<in> set ?cs \<Longrightarrow> pc_Source c \<noteq> p" using assms(1) a(1) unfolding planned_ok_def by auto
    then have "edit_safe s v ?cs w wr" using edit_safe_remove [OF assms(1) a(2) rm] a(1) by auto
    then show "edit_safe s v ?cs w wb \<and> \<not> isl ra" using a(3) rm by (auto simp: remove_planned_def io_simps split: sum.splits)
  qed (use 2 in blast)
  then have 3: "edit_safe s v ?cs w w3" and "\<exists>rep3. r3 = Inr rep3" by (auto intro: sum.collapse(2) [symmetric])
  then obtain rep3 where r3: "r3 = Inr rep3" by blast
  obtain r4 w4 where f3: "sweepTmpOrphans v now True fence w3 = (r4, w4)" by fastforce
  let ?S = "set (map pc_Source ?cs) \<union> (\<lambda>c. manifestPath v (manifestID s v (pc_Path c))) ` set ?cs"
  have "\<forall>p\<in>?S. \<not> HasPrefix (path_Base p) ''.tmp-''"
    using assms(5) store_id(1,2) [OF laws] hex_idD(6) manifest_name_not_tmp by (metis (no_types, lifting) UnE imageE)
  note sw = leaves_sweep [OF this, of v now True fence]
  have f4: "map_of (files w4) p = map_of (files w3) p" if "p \<in> ?S" for p by (rule leavesD(1) [OF sw that f3])
  have "edit_safe s v ?cs w w4"
    by (rule edit_safe_frame [OF 3 leavesD(2) [OF sw f3]]) (simp_all add: f4)
  moreover have "files w' = files w4" "same_host w4 w'"
  proof -
    obtain st where "r4 = Inr st" using sweep_total [OF f3] by blast
    then have "w' = w4 \<or> w' = w4\<lparr>cached := None\<rparr>"
      using assms(3,4) f1 r2 f2 r3 f3
      by (auto simp: compact_def io_try_def io_bind_def io_ret_def Let_def set_cached_def split: prod.splits if_splits)
    then show "files w' = files w4" "same_host w4 w'" by (auto simp: same_host_def)
  qed
  ultimately show ?thesis by (intro edit_safe_frame [of s v ?cs w w4 w']) simp_all
qed

section \<open>Properties\<close>

text \<open>
  C4.  Compaction loses no edit.  Whatever writes and removals fail, and wherever the run breaks off in
  its plan, each losing edit that the load found is still in the file it came from, unchanged, or
  its conflict copy is on the disk, opens under its own name and holds an edit planned for that name.
\<close>

theorem compact_keeps_edits:
  fixes w w1 w' :: "'z vault_state_scheme"
  assumes "store_laws s v P" and "aead_law (s_cr s)" and "rand_ok w" and "wf_map (files w)" and "names_on s v (files w) \<subseteq> P"
    and "loadManifestIndex s v w = (Inr (idx, plan), w1)"
    and "\<forall>c\<in>set (rp_conflicts plan). pc_Path c \<in> P \<and> stamped (pc_Rec c) \<and> faithful s (file_manifest (pc_Path c) (pc_Rec c))"
    and "compact s v now True fence w = (r, w')"
  shows "\<forall>c\<in>set (rp_conflicts plan). map_of (files w') (pc_Source c) = map_of (files w) (pc_Source c)
    \<or> copied s v (rp_conflicts plan) w' c"
proof -
  let ?X = "map pc_Source (rp_conflicts plan) @ rp_removeManifests plan"
  have mo: "\<forall>ks. mset (map_order s ks) = mset ks" and inj: "inj_on (manifestID s v) P"
    using assms(1) by (auto simp: store_laws_def)
  obtain qs where qs: "distinct ?X" "\<forall>x \<in> set ?X. \<exists>q\<in>qs. manifestID s v q = name_id (path_Base x)"
    "\<forall>c\<in>set (rp_conflicts plan). pc_Path c \<notin> qs" "qs \<subseteq> names_on s v (files w)"
    using load_plan [OF assms(6,4) mo] by metis
  have "manifestPath v (manifestID s v (pc_Path c)) \<notin> set ?X" if c: "c \<in> set (rp_conflicts plan)" for c
  proof
    assume "manifestPath v (manifestID s v (pc_Path c)) \<in> set ?X"
    then obtain q where q: "q \<in> qs" "manifestID s v q = manifestID s v (pc_Path c)"
      using qs(2) store_id(2) [OF assms(1)] by metis
    then have "q = pc_Path c" using qs(4) assms(5,7) c inj by (metis inj_onD subsetD)
    then show False using q(1) qs(3) c by blast
  qed
  then have "planned_ok s v P (rp_conflicts plan) (rp_removeManifests plan)"
    using assms(1,2,7) qs(1) by (simp add: planned_ok_def)
  moreover have "\<forall>x\<in>set (map pc_Source (rp_conflicts plan)). \<not> HasPrefix (path_Base x) ''.tmp-''"
    using qs(2) manifest_name_not_tmp store_id(1) [OF assms(1)] hex_idD(6) by (metis UnI1 set_append)
  ultimately have "edit_safe s v (rp_conflicts plan) w w'" by (rule compact_edit_safe [OF _ assms(3,6,8)])
  then show ?thesis by (simp add: edit_safe_def)
qed


text \<open>Two devices edited the same file without seeing each other: the sync client kept both manifests.\<close>

definition rival :: "string \<Rightarrow> int \<Rightarrow> FileRecord" where
  "rival dev g = empty_record\<lparr>Size := g, UpdatedAt := ''t'', Generation := g, Clock := [(dev, 1)]\<rparr>"

definition twin_senv :: store_env where
  "twin_senv = demo_senv\<lparr>s_host := demo_env\<lparr>sha256hex := \<lambda>_. ''0123456789ab''\<rparr>\<rparr>"

definition twin_path :: "bool \<Rightarrow> string" where
  "twin_path copy = join_under (MetaRoot demo_vlt) [''manifests'', ''6d'', manifestID twin_senv demo_vlt ''content/a''
     @ (if copy then '' (1).manifest'' else ''.manifest'')]"

definition twin_state :: vault_state where
  "twin_state = (demo_vstate None)\<lparr>files := [
     (twin_path False, \<lparr>data = sealed_manifest twin_senv demo_vlt (replicate 12 (CHR ''r'')) (file_manifest ''content/a'' (rival ''p'' 1)), mtime = 0\<rparr>),
     (twin_path True, \<lparr>data = sealed_manifest twin_senv demo_vlt (replicate 12 (CHR ''r'')) (file_manifest ''content/a'' (rival ''q'' 2)), mtime = 0\<rparr>)]\<rparr>"

definition twin_conflict :: plannedConflict where
  "twin_conflict = \<lparr>pc_Path = ''content/a.conflict-T-0123456789ab'', pc_Rec = (rival ''p'' 1)\<lparr>ConflictOf := ''content/a''\<rparr>, pc_Source = twin_path False\<rparr>"

lemma twin_load:
  "\<exists>idx w1. loadManifestIndex twin_senv demo_vlt twin_state = (Inr (idx, \<lparr>rp_conflicts = [twin_conflict], rp_removeManifests = [], sawManifest = True\<rparr>), w1)"
proof -
  have "(case fst (loadManifestIndex twin_senv demo_vlt twin_state) of
      Inl _ \<Rightarrow> False | Inr (idx, plan) \<Rightarrow> plan = \<lparr>rp_conflicts = [twin_conflict], rp_removeManifests = [], sawManifest = True\<rparr>)"
    by code_simp
  then show ?thesis by (auto split: sum.splits prod.splits) (metis prod.collapse)
qed

lemma twin_names: "names_on twin_senv demo_vlt (files twin_state) \<subseteq> {''content/a'', ''content/a.conflict-T-0123456789ab''}"
proof
  fix q assume "q \<in> names_on twin_senv demo_vlt (files twin_state)"
  then obtain p f m where p: "map_of (files twin_state) p = Some f"
    "decryptManifest twin_senv demo_vlt (data f) (name_id (path_Base p)) = Inr m" "CleanVirtualPath (mr_Path m) = Inr q"
    by (auto simp: names_on_def)
  have "name_id (path_Base (twin_path True)) = manifestID twin_senv demo_vlt ''content/a''"
    "name_id (path_Base (twin_path False)) = manifestID twin_senv demo_vlt ''content/a''" by code_simp+
  then have i: "name_id (path_Base (twin_path b)) = manifestID twin_senv demo_vlt ''content/a''" for b
    by (cases b) auto
  have d: "decryptManifest twin_senv demo_vlt (sealed_manifest twin_senv demo_vlt (replicate 12 (CHR ''r'')) (file_manifest ''content/a'' rec))
      (manifestID twin_senv demo_vlt ''content/a'') = Inr (file_manifest ''content/a'' rec)" for rec
    using decrypt_sealed [of twin_senv "replicate 12 (CHR ''r'')" "file_manifest ''content/a'' rec" "file_manifest ''content/a'' rec" demo_vlt]
      hex_crypt_aead by (simp add: twin_senv_def demo_senv_def demo_guard_def manifest_roundtrip file_manifest_def hex_crypt_def box_crypt_def)
  have "\<exists>rec. m = file_manifest ''content/a'' rec"
    using p(1,2) d i by (auto simp: twin_state_def split: if_splits)
  moreover have "CleanVirtualPath ''content/a'' = Inr ''content/a''" by code_simp
  ultimately show "q \<in> {''content/a'', ''content/a.conflict-T-0123456789ab''}" using p(3) by (auto simp: file_manifest_def)
qed

lemma twin_laws: "store_laws twin_senv demo_vlt {''content/a'', ''content/a.conflict-T-0123456789ab''}"
proof -
  have "manifestID twin_senv demo_vlt ''content/a'' \<noteq> manifestID twin_senv demo_vlt ''content/a.conflict-T-0123456789ab''" by code_simp
  moreover have "CleanVirtualPath ''content/a'' = Inr ''content/a''"
    "CleanVirtualPath ''content/a.conflict-T-0123456789ab'' = Inr ''content/a.conflict-T-0123456789ab''" by code_simp+
  ultimately show ?thesis using demo_store_laws
    by (auto simp: store_laws_def inj_on_def twin_senv_def manifestID_def)
qed

theorem compact_keeps_edits_witness:
  "\<exists>idx plan w1 r w'. loadManifestIndex twin_senv demo_vlt twin_state = (Inr (idx, plan), w1) \<and> rp_conflicts plan = [twin_conflict]
     \<and> compact twin_senv demo_vlt 0 True GCFenceDefault twin_state = (r, w')
     \<and> (map_of (files w') (twin_path False) = map_of (files twin_state) (twin_path False) \<or> copied twin_senv demo_vlt [twin_conflict] w' twin_conflict)"
proof -
  obtain idx w1 where ld: "loadManifestIndex twin_senv demo_vlt twin_state
      = (Inr (idx, \<lparr>rp_conflicts = [twin_conflict], rp_removeManifests = [], sawManifest = True\<rparr>), w1)" using twin_load by blast
  obtain r w' where co: "compact twin_senv demo_vlt 0 True GCFenceDefault twin_state = (r, w')" by fastforce
  have h: "aead_law (s_cr twin_senv)" "rand_ok twin_state" "wf_map (files twin_state)"
  proof -
    show "aead_law (s_cr twin_senv)" using hex_crypt_aead by (simp add: twin_senv_def demo_senv_def)
    show "rand_ok twin_state" using demo_vstate_ok(2) by (simp add: twin_state_def rand_ok_def)
    have "twin_path False \<noteq> twin_path True" by code_simp
    then show "wf_map (files twin_state)" by (simp add: twin_state_def)
  qed
  have "\<forall>c\<in>set (rp_conflicts \<lparr>rp_conflicts = [twin_conflict], rp_removeManifests = [], sawManifest = True\<rparr>).
      pc_Path c \<in> {''content/a'', ''content/a.conflict-T-0123456789ab''} \<and> stamped (pc_Rec c)
      \<and> faithful twin_senv (file_manifest (pc_Path c) (pc_Rec c))"
    by (simp add: twin_conflict_def stamped_def rival_def faithful_def twin_senv_def demo_senv_def manifest_roundtrip)
  from compact_keeps_edits [OF twin_laws h twin_names ld this co] show ?thesis
    using ld co by (simp add: twin_conflict_def)
qed

text \<open>
  Compaction stays inside its plan: every file outside the manifest directory, except temporary
  files, is untouched, and a run without \<^verbatim>\<open>apply\<close> changes no file at all.
\<close>

theorem compact_confined:
  fixes w w' :: "'z vault_state_scheme"
  assumes "store_laws s v P" and "wf_map (files w)" and "compact s v now app fence w = (r, w')"
  shows "(\<forall>p. \<not> HasPrefix p (mroot v @ ''/'') \<and> \<not> HasPrefix (path_Base p) ''.tmp-'' \<longrightarrow> map_of (files w') p = map_of (files w) p)
    \<and> (\<not> app \<longrightarrow> files w' = files w)"
proof -
  have "\<not> app \<Longrightarrow> files w' = files w" using read_only_compact [of s v now fence] assms(3) unfolding read_only_def by (metis (full_types) snd_conv)
  then show ?thesis using compact_frame [OF assms] by (auto simp: outside_manifests_def)
qed

theorem compact_confined_witness:
  "\<exists>r w'. compact twin_senv demo_vlt 0 False GCFenceDefault twin_state = (r, w') \<and> files w' = files twin_state"
proof -
  obtain r w' where co: "compact twin_senv demo_vlt 0 False GCFenceDefault twin_state = (r, w')" by fastforce
  have "twin_path False \<noteq> twin_path True" by code_simp
  then have "wf_map (files twin_state)" by (simp add: twin_state_def)
  from compact_confined [OF twin_laws this co] show ?thesis using co by blast
qed

end
