(* ===== verification/GarbageCollector.thy ===== *)
theory GarbageCollector
  imports Compact
begin

text \<open>
  Garbage collection of chunk objects (\<^verbatim>\<open>internal/vault/gc.go\<close>): a dry run that only reports, and a
  confirmed run in two phases, the first marking unreferenced chunks with intent files and noting
  when this device first saw each intent, the second removing a chunk once intent, note and file are
  all older than a fence and the chunk is still unreferenced.  The results: a dry run and a refused
  run write nothing, a wiped manifest store is refused, every removal meets all the fences and
  references no live record, and no run both marks and removes.
\<close>

section \<open>Options, reports and environment\<close>

definition GCFenceMin :: int where "GCFenceMin = Hour"
definition gcIntentSuffix :: string where "gcIntentSuffix = ''.intent''"

text \<open>The clock \<^verbatim>\<open>Now\<close> is the clock of the host.\<close>

record GCOptions =
  opt_Confirm :: bool
  opt_Fence :: int
  opt_SeenStore :: string

record PendingIntent =
  pi_ChunkID :: string
  pi_Recorded :: string
  pi_AgeSeconds :: int

record GCReport =
  gc_Confirm :: bool
  gc_Fence :: string
  Candidates :: "string list"
  CandidateBytes :: int
  IntentsWritten :: "string list"
  Cancelled :: "string list"
  Reaped :: "string list"
  RemovedChunks :: "string list"
  RemovedBytes :: int
  Pending :: "PendingIntent list"
  Phase2Reloads :: int
  CompactPart :: "CompactReport option"

definition empty_gc :: GCReport where
  "empty_gc = \<lparr>gc_Confirm = False, gc_Fence = '''', Candidates = [], CandidateBytes = 0, IntentsWritten = [], Cancelled = [],
     Reaped = [], RemovedChunks = [], RemovedBytes = 0, Pending = [], Phase2Reloads = 0, CompactPart = None\<rparr>"

record gc_env =
  gc_store :: store_env
  fmtRFC3339 :: "int \<Rightarrow> string"
  parseRFC3339 :: "string \<Rightarrow> int option"
  fmtDuration :: "int \<Rightarrow> string"
  marshalSeen :: "string gomap \<Rightarrow> bytes"
  unmarshalSeen :: "bytes \<Rightarrow> string gomap option"

section \<open>Intents\<close>

record logicalIntent =
  li_chunkID :: string
  li_files :: "string list"
  li_recorded :: int
  li_hasTime :: bool

definition parseSeenTime :: "gc_env \<Rightarrow> string \<Rightarrow> int option" where
  "parseSeenTime g s =
     (if s = '''' then None
      else case parseRFC3339 g s of Some t \<Rightarrow> Some t | None \<Rightarrow> parseTime (s_host (gc_store g)) s)"

definition readIntentTime :: "gc_env \<Rightarrow> string \<Rightarrow> (int option, 'z) io" where
  "readIntentTime g p =
     io_try (os_ReadFile p) (\<lambda>r. case r of Inl _ \<Rightarrow> io_ret None | Inr d \<Rightarrow> io_ret (parseSeenTime g (TrimSpace d)))"

definition intentDir :: "'v vault_scheme \<Rightarrow> string" where "intentDir v = path_Join (MetaRoot v) GCIntentDirName"

definition add_intent_file :: "gc_env \<Rightarrow> string \<Rightarrow> logicalIntent gomap \<Rightarrow> string \<Rightarrow> (logicalIntent gomap, 'z) io" where
  "add_intent_file g dir out name =
     (let cid = chunkIDFromFileName name in
      if cid = '''' then io_ret out
      else let p = path_Join dir name;
               li = (case map_of out cid of
                       Some li \<Rightarrow> li | None \<Rightarrow> \<lparr>li_chunkID = cid, li_files = [], li_recorded = 0, li_hasTime = False\<rparr>);
               li1 = li\<lparr>li_files := li_files li @ [p]\<rparr>
           in io_bind (readIntentTime g p) (\<lambda>ts. io_ret (AList.update cid (case ts of
                None \<Rightarrow> li1
              | Some t \<Rightarrow> if \<not> li_hasTime li1 \<or> t < li_recorded li1 then li1\<lparr>li_recorded := t, li_hasTime := True\<rparr> else li1) out)))"

definition walkIntents :: "gc_env \<Rightarrow> 'v vault_scheme \<Rightarrow> (logicalIntent gomap, 'z) io" where
  "walkIntents g v =
     io_try (os_ReadDir (intentDir v)) (\<lambda>r. case r of
       Inl e \<Rightarrow> if is_not_exist e then io_ret [] else io_fail e
     | Inr names \<Rightarrow> io_fold (add_intent_file g (intentDir v)) [] names)"

definition writeIntent :: "gc_env \<Rightarrow> 'v vault_scheme \<Rightarrow> string \<Rightarrow> int \<Rightarrow> (unit, 'z) io" where
  "writeIntent g v cid t =
     io_bind (os_MkdirAll (intentDir v)) (\<lambda>_.
       atomicWriteFile (path_Join (intentDir v) (cid @ gcIntentSuffix)) (fmtRFC3339 g t @ [CHR 0x0A]))"

definition removeIntentFiles :: "logicalIntent \<Rightarrow> (unit, 'z) io" where
  "removeIntentFiles li = io_fold (\<lambda>_ p. remove_retry p) () (li_files li)"

text \<open>\<^verbatim>\<open>int64(d.Seconds())\<close>, up to the rounding of the floating-point number between.\<close>

definition whole_seconds :: "int \<Rightarrow> int" where
  "whole_seconds d = (if d < 0 then - ((- d) div 1000000000) else d div 1000000000)"

definition pendingList :: "gc_env \<Rightarrow> logicalIntent gomap \<Rightarrow> int \<Rightarrow> PendingIntent list" where
  "pendingList g intents now =
     sort_key pi_ChunkID (map (\<lambda>(cid, li). if li_hasTime li
         then \<lparr>pi_ChunkID = cid, pi_Recorded = fmtRFC3339 g (li_recorded li), pi_AgeSeconds = whole_seconds (time_Sub now (li_recorded li))\<rparr>
         else \<lparr>pi_ChunkID = cid, pi_Recorded = '''', pi_AgeSeconds = 0\<rparr>) intents)"

section \<open>Chunk files and live chunks\<close>

record chunkFile =
  cf_path :: string
  cf_size :: int
  cf_mtime :: int

definition totalSize :: "chunkFile list \<Rightarrow> int" where
  "totalSize fs = foldl (\<lambda>n f. i64 (n + cf_size f)) 0 fs"

text \<open>\<^verbatim>\<open>time.Time{}\<close>, the first instant of year 1.\<close>

definition zeroTime :: int where "zeroTime = - 62135596800000000000"

definition newestMtime :: "chunkFile list \<Rightarrow> int" where
  "newestMtime fs = foldl (\<lambda>newest f. if cf_mtime f > newest then cf_mtime f else newest) zeroTime fs"

definition files_of :: "chunkFile list gomap \<Rightarrow> string \<Rightarrow> chunkFile list" where
  "files_of chunks cid = (case map_of chunks cid of None \<Rightarrow> [] | Some fs \<Rightarrow> fs)"

definition chunkPresent :: "chunkFile list gomap \<Rightarrow> string \<Rightarrow> bool" where
  "chunkPresent chunks cid \<longleftrightarrow> length (files_of chunks cid) > 0"

definition removeChunkFiles :: "chunkFile list \<Rightarrow> (unit, 'z) io" where
  "removeChunkFiles fs = io_fold (\<lambda>_ f. remove_retry (cf_path f)) () fs"

definition chunkRoot :: "'v vault_scheme \<Rightarrow> string" where
  "chunkRoot v = path_Join (path_Join (MetaRoot v) ''objects'') ''chunks''"

definition add_chunk_file :: "chunkFile list gomap \<Rightarrow> string \<Rightarrow> (chunkFile list gomap, 'z) io" where
  "add_chunk_file out p =
     (if \<not> HasSuffix (ToLower (path_Base p)) ''.chunk'' then io_ret out
      else let cid = chunkIDFromFileName (path_Base p) in
        if cid = '''' then io_ret out
        else io_try (os_Stat p) (\<lambda>r. case r of
          Inl e \<Rightarrow> if is_not_exist e then io_ret out else io_fail e
        | Inr info \<Rightarrow> io_ret (AList.update cid
            (files_of out cid @ [\<lparr>cf_path = p, cf_size = int (length (data info)), cf_mtime = mtime info\<rparr>]) out)))"

definition walkChunkFiles :: "'v vault_scheme \<Rightarrow> (chunkFile list gomap, 'z) io" where
  "walkChunkFiles v =
     io_try (os_walk (chunkRoot v)) (\<lambda>r. case r of
       Inl e \<Rightarrow> if is_not_exist e then io_ret [] else io_fail e
     | Inr ps \<Rightarrow> io_fold add_chunk_file [] ps)"

definition live_ids :: "Index \<Rightarrow> string list" where
  "live_ids idx = concat (map (\<lambda>(_, rec). map (\<lambda>ref. ToLower (ref_ID ref)) (Chunks rec)) (Files idx))"

definition liveChunkSet :: "gc_env \<Rightarrow> 'v vault_scheme \<Rightarrow> (string list, 'z) mio" where
  "liveChunkSet g v = io_bind (LoadIndex (gc_store g) v) (\<lambda>idx. io_ret (live_ids idx))"

section \<open>The first-seen record\<close>

definition seenStorePath :: "gc_env \<Rightarrow> 'v vault_scheme \<Rightarrow> string \<Rightarrow> (string, 'z) mio" where
  "seenStorePath g v override =
     (let dir = (if TrimSpace override \<noteq> '''' then Inr (TrimSpace override)
                 else case DataDir (g_os (s_guard (gc_store g))) of Inl e \<Rightarrow> Inl e | Inr base \<Rightarrow> Inr (path_Join base ''gc-seen'')) in
      (case dir of
         Inl e \<Rightarrow> io_fail e
       | Inr d \<Rightarrow> io_bind get_config (\<lambda>c. io_ret (path_Join d (vault_ID (s_guard (gc_store g)) (vRoot v) c @ ''.json'')))))"

definition loadSeenStore :: "gc_env \<Rightarrow> string \<Rightarrow> (string gomap, 'z) io" where
  "loadSeenStore g path =
     io_try (os_ReadFile path) (\<lambda>r. case r of
       Inl e \<Rightarrow> if is_not_exist e then io_ret [] else io_fail e
     | Inr d \<Rightarrow> if TrimSpace d = '''' then io_ret []
         else (case unmarshalSeen g d of None \<Rightarrow> io_fail (EMsg ''invalid first-seen record'') | Some m \<Rightarrow> io_ret m))"

definition saveSeenStore :: "gc_env \<Rightarrow> string \<Rightarrow> string gomap \<Rightarrow> (unit, 'z) io" where
  "saveSeenStore g path m =
     io_bind (os_MkdirAll (path_Dir path)) (\<lambda>_. atomicWriteFile path (marshalSeen g m))"

section \<open>The steps of a run\<close>

text \<open>
  The functions of this section return what the code returns: the report as far as it got, and the
  error that ended the run, if any.  \<open>or_stop\<close> is the code's \<^verbatim>\<open>if err != nil\<close>, \<open>gc_fold\<close> a loop that ends at
  the first error.
\<close>

definition or_stop :: "('a, 'z) io \<Rightarrow> 's \<Rightarrow> ('a \<Rightarrow> ('s \<times> error option, 'z) io) \<Rightarrow> ('s \<times> error option, 'z) io" where
  "or_stop m st f = io_try m (\<lambda>r. case r of Inl e \<Rightarrow> io_ret (st, Some e) | Inr x \<Rightarrow> f x)"

definition gc_next :: "('s \<times> error option, 'z) io \<Rightarrow> ('s \<Rightarrow> 'b) \<Rightarrow> ('s \<Rightarrow> ('b \<times> error option, 'z) io) \<Rightarrow> ('b \<times> error option, 'z) io" where
  "gc_next m result f = io_bind m (\<lambda>(st, e). case e of None \<Rightarrow> f st | Some err \<Rightarrow> io_ret (result st, Some err))"

fun gc_fold :: "('s \<Rightarrow> 'x \<Rightarrow> ('s \<times> error option, 'z) io) \<Rightarrow> 's \<Rightarrow> 'x list \<Rightarrow> ('s \<times> error option, 'z) io" where
  "gc_fold f st [] = io_ret (st, None)"
| "gc_fold f st (x # xs) = gc_next (f st x) (\<lambda>st'. st') (\<lambda>st'. gc_fold f st' xs)"

text \<open>The report, the first-seen record and whether it must be saved.\<close>

type_synonym gc_state = "GCReport \<times> string gomap \<times> bool"

definition forget :: "string \<Rightarrow> string gomap \<Rightarrow> bool \<Rightarrow> string gomap \<times> bool" where
  "forget cid seen dirty = (case map_of seen cid of None \<Rightarrow> (seen, dirty) | Some _ \<Rightarrow> (AList.delete cid seen, True))"

definition phase1_intent :: "gc_env \<Rightarrow> string list \<Rightarrow> chunkFile list gomap \<Rightarrow> logicalIntent gomap \<Rightarrow> gc_state \<Rightarrow> string
  \<Rightarrow> (gc_state \<times> error option, 'z) io" where
  "phase1_intent g liveSet chunks intents st cid = (case st of (report, seen, dirty) \<Rightarrow>
     (let li = the (map_of intents cid) in
      if cid \<in> set liveSet then
        or_stop (removeIntentFiles li) st (\<lambda>_. io_ret ((report\<lparr>Cancelled := Cancelled report @ [cid]\<rparr>, forget cid seen dirty), None))
      else if \<not> chunkPresent chunks cid then
        or_stop (removeIntentFiles li) st (\<lambda>_. io_ret ((report\<lparr>Reaped := Reaped report @ [cid]\<rparr>, forget cid seen dirty), None))
      else if map_of seen cid = None then
        io_bind time_Now (\<lambda>t. io_ret ((report, AList.update cid (fmtRFC3339 g t) seen, True), None))
      else io_ret (st, None)))"

definition phase1_chunk :: "gc_env \<Rightarrow> 'v vault_scheme \<Rightarrow> string list \<Rightarrow> chunkFile list gomap \<Rightarrow> logicalIntent gomap \<Rightarrow> GCReport \<Rightarrow> string
  \<Rightarrow> (GCReport \<times> error option, 'z) io" where
  "phase1_chunk g v liveSet chunks intents report cid =
     (if cid \<in> set liveSet then io_ret (report, None)
      else let rep1 = report\<lparr>Candidates := Candidates report @ [cid],
                 CandidateBytes := i64 (CandidateBytes report + totalSize (files_of chunks cid))\<rparr> in
        if map_of intents cid \<noteq> None then io_ret (rep1, None)
        else io_bind time_Now (\<lambda>t. or_stop (writeIntent g v cid t) rep1 (\<lambda>_.
          io_ret (rep1\<lparr>IntentsWritten := IntentsWritten rep1 @ [cid]\<rparr>, None))))"

definition phase2_intent :: "gc_env \<Rightarrow> int \<Rightarrow> int \<Rightarrow> string list \<Rightarrow> chunkFile list gomap \<Rightarrow> logicalIntent gomap \<Rightarrow> gc_state \<Rightarrow> string
  \<Rightarrow> (gc_state \<times> error option, 'z) io" where
  "phase2_intent g t fence liveSet chunks intents st cid = (case st of (report, seen, dirty) \<Rightarrow>
     (let li = the (map_of intents cid) in
      case map_of chunks cid of
        None \<Rightarrow> io_ret (st, None)
      | Some fs \<Rightarrow>
          if cid \<in> set liveSet then
            or_stop (removeIntentFiles li) st (\<lambda>_. io_ret ((report\<lparr>Cancelled := Cancelled report @ [cid]\<rparr>, forget cid seen dirty), None))
          else if \<not> li_hasTime li \<or> time_Sub t (li_recorded li) < fence then io_ret (st, None)
          else (case parseSeenTime g (case map_of seen cid of None \<Rightarrow> '''' | Some s \<Rightarrow> s) of
            None \<Rightarrow> io_ret (st, None)
          | Some firstSeen \<Rightarrow>
              if time_Sub t firstSeen < fence then io_ret (st, None)
              else if time_Sub t (newestMtime fs) < fence then io_ret (st, None)
              else or_stop (removeChunkFiles fs) st (\<lambda>_.
                let rep1 = report\<lparr>RemovedChunks := RemovedChunks report @ [cid], RemovedBytes := i64 (RemovedBytes report + totalSize fs)\<rparr> in
                or_stop (removeIntentFiles li) (rep1, seen, dirty) (\<lambda>_. io_ret ((rep1, forget cid seen dirty), None))))))"

definition sort_phase1 :: "GCReport \<Rightarrow> GCReport" where
  "sort_phase1 r = r\<lparr>Candidates := sort (Candidates r), IntentsWritten := sort (IntentsWritten r),
     Cancelled := sort (Cancelled r), Reaped := sort (Reaped r)\<rparr>"

text \<open>
  Phase 1 and the start of phase 2, cut where the code has a blank line: \<open>cont\<close> is what follows, with
  the fingerprint and the live set phase 1 worked with.
\<close>

definition phase1_marks :: "gc_env \<Rightarrow> 'v vault_scheme \<Rightarrow> string \<Rightarrow> string list \<Rightarrow> chunkFile list gomap \<Rightarrow> logicalIntent gomap
  \<Rightarrow> (GCReport \<Rightarrow> (GCReport \<times> error option, 'z) io) \<Rightarrow> gc_state \<Rightarrow> (GCReport \<times> error option, 'z) io" where
  "phase1_marks g v seenPath liveSet chunks intents cont st = (case st of (rep1, seen, dirty) \<Rightarrow>
     gc_next (gc_fold (phase1_chunk g v liveSet chunks intents) rep1 (map_order (gc_store g) (map fst chunks))) (\<lambda>rep2. rep2) (\<lambda>rep2.
     or_stop (if dirty then saveSeenStore g seenPath seen else io_ret ()) (sort_phase1 rep2) (\<lambda>_.
     cont (sort_phase1 rep2))))"

definition gc_phase1 :: "gc_env \<Rightarrow> 'v vault_scheme \<Rightarrow> string \<Rightarrow> GCReport
  \<Rightarrow> (64 word \<Rightarrow> string list \<Rightarrow> GCReport \<Rightarrow> (GCReport \<times> error option, 'z) mio) \<Rightarrow> (GCReport \<times> error option, 'z) mio" where
  "gc_phase1 g v seenPath report cont =
     or_stop (ReloadIndex (gc_store g) v) report (\<lambda>_.
     or_stop (indexFingerprint v) report (\<lambda>fp.
     or_stop (liveChunkSet g v) report (\<lambda>liveSet.
     or_stop (walkChunkFiles v) report (\<lambda>chunks.
     or_stop (walkIntents g v) report (\<lambda>intents.
     or_stop (loadSeenStore g seenPath) report (\<lambda>seen0.
     gc_next (gc_fold (phase1_intent g liveSet chunks intents) (report, seen0, False)
         (map_order (gc_store g) (map fst intents))) fst
       (phase1_marks g v seenPath liveSet chunks intents (cont fp liveSet))))))))"

definition phase2_finish :: "gc_env \<Rightarrow> 'v vault_scheme \<Rightarrow> string \<Rightarrow> int \<Rightarrow> gc_state \<Rightarrow> (GCReport \<times> error option, 'z) io" where
  "phase2_finish g v seenPath t st = (case st of (rep3, seen, dirty) \<Rightarrow>
     let rep4 = rep3\<lparr>RemovedChunks := sort (RemovedChunks rep3)\<rparr> in
     or_stop (if dirty then saveSeenStore g seenPath seen else io_ret ()) rep4 (\<lambda>_.
     or_stop (walkIntents g v) rep4 (\<lambda>pending.
     io_ret (rep4\<lparr>Pending := pendingList g pending t\<rparr>, None))))"

definition phase2_collect :: "gc_env \<Rightarrow> 'v vault_scheme \<Rightarrow> string \<Rightarrow> int \<Rightarrow> GCReport \<times> string list \<Rightarrow> (GCReport \<times> error option, 'z) io" where
  "phase2_collect g v seenPath fence st = (case st of (rep2, liveSet) \<Rightarrow>
     or_stop (walkIntents g v) rep2 (\<lambda>intents.
     or_stop (walkChunkFiles v) rep2 (\<lambda>chunks.
     or_stop (loadSeenStore g seenPath) rep2 (\<lambda>seen0.
     io_bind time_Now (\<lambda>t.
     gc_next (gc_fold (phase2_intent g t fence liveSet chunks intents) (rep2, seen0, False)
         (map_order (gc_store g) (map fst intents))) fst (phase2_finish g v seenPath t))))))"

definition phase2_reload :: "gc_env \<Rightarrow> 'v vault_scheme \<Rightarrow> 64 word \<Rightarrow> 64 word \<Rightarrow> GCReport \<Rightarrow> string list
  \<Rightarrow> ((GCReport \<times> string list) \<times> error option, 'z) mio" where
  "phase2_reload g v fpNow fp1 report live1 =
     (if fpNow = fp1 then io_ret ((report, live1), None)
      else or_stop (ReloadIndex (gc_store g) v) (report, live1) (\<lambda>_.
        let rep1 = report\<lparr>Phase2Reloads := Phase2Reloads report + 1\<rparr> in
        or_stop (liveChunkSet g v) (rep1, live1) (\<lambda>live2. io_ret ((rep1, live2), None))))"

definition gc_phase2 :: "gc_env \<Rightarrow> 'v vault_scheme \<Rightarrow> string \<Rightarrow> int \<Rightarrow> 64 word \<Rightarrow> string list \<Rightarrow> GCReport \<Rightarrow> (GCReport \<times> error option, 'z) mio" where
  "gc_phase2 g v seenPath fence fp1 live1 report =
     or_stop (indexFingerprint v) report (\<lambda>fpNow.
     gc_next (phase2_reload g v fpNow fp1 report live1) fst (phase2_collect g v seenPath fence))"

definition gcConfirm :: "gc_env \<Rightarrow> 'v vault_scheme \<Rightarrow> GCReport \<Rightarrow> int \<Rightarrow> string \<Rightarrow> (GCReport \<times> error option, 'z) mio" where
  "gcConfirm g v report fence seenStore =
     io_bind time_Now (\<lambda>now.
     io_bind (compact (gc_store g) v now True fence) (\<lambda>(cr, err).
     let rep1 = report\<lparr>CompactPart := Some cr\<rparr> in
     case err of Some e \<Rightarrow> io_ret (rep1, Some e) | None \<Rightarrow>
     or_stop (seenStorePath g v seenStore) rep1 (\<lambda>seenPath.
     gc_phase1 g v seenPath rep1 (gc_phase2 g v seenPath fence))))"

definition gcDryRun :: "gc_env \<Rightarrow> 'v vault_scheme \<Rightarrow> GCReport \<Rightarrow> int \<Rightarrow> int \<Rightarrow> (GCReport \<times> error option, 'z) mio" where
  "gcDryRun g v report now fence =
     or_stop (ReloadIndex (gc_store g) v) empty_gc (\<lambda>_.
     or_stop (liveChunkSet g v) empty_gc (\<lambda>liveSet.
     or_stop (walkChunkFiles v) empty_gc (\<lambda>chunks.
     let dead = filter (\<lambda>cid. cid \<notin> set liveSet) (map_order (gc_store g) (map fst chunks));
         rep1 = report\<lparr>Candidates := sort dead,
           CandidateBytes := foldl (\<lambda>n cid. i64 (n + totalSize (files_of chunks cid))) (CandidateBytes report) dead\<rparr> in
     or_stop (walkIntents g v) empty_gc (\<lambda>intents.
     let rep2 = rep1\<lparr>Pending := pendingList g intents now\<rparr> in
     io_bind (compact (gc_store g) v now False fence) (\<lambda>(plan, err). case err of
       Some e \<Rightarrow> io_ret (empty_gc, Some e)
     | None \<Rightarrow> io_ret (rep2\<lparr>CompactPart := Some plan\<rparr>, None))))))"

definition gcRefusalGate :: "gc_env \<Rightarrow> 'v vault_scheme \<Rightarrow> (unit, 'z) mio" where
  "gcRefusalGate g v =
     io_bind get_config (\<lambda>c.
     if \<not> usesManifestStore c then io_ret ()
     else io_bind (LoadIndex (gc_store g) v) (\<lambda>idx.
       if length (Files idx) \<noteq> 0 then io_ret ()
       else io_bind (inspectManifestStore (gc_store g) v) (\<lambda>st.
         if hasNonTombstone st then io_fail (ErrGCRefused ''the loaded index is empty but a non-tombstone manifest still exists on disk'')
         else if \<not> hasAny st then io_bind (walkChunkFiles v) (\<lambda>chunks.
           if length chunks > 0 then io_fail (ErrGCRefused ''no manifests exist but chunk objects are present'') else io_ret ())
         else io_ret ())))"

text \<open>The fence of a run: the default for none, never below the minimum.\<close>

definition gc_fence :: "GCOptions \<Rightarrow> int" where
  "gc_fence opts = (let fence = (if opt_Fence opts \<le> 0 then GCFenceDefault else opt_Fence opts)
     in if fence < GCFenceMin then GCFenceMin else fence)"

definition GarbageCollect :: "gc_env \<Rightarrow> 'v vault_scheme \<Rightarrow> GCOptions \<Rightarrow> (GCReport \<times> error option, 'z) mio" where
  "GarbageCollect g v opts =
     (let fence = gc_fence opts;
          report = empty_gc\<lparr>gc_Confirm := opt_Confirm opts, gc_Fence := fmtDuration g fence\<rparr> in
      or_stop (ReloadIndex (gc_store g) v) empty_gc (\<lambda>_.
      or_stop (gcRefusalGate g v) empty_gc (\<lambda>_.
      if \<not> opt_Confirm opts then io_bind time_Now (\<lambda>now. gcDryRun g v report now fence)
      else gcConfirm g v report fence (opt_SeenStore opts))))"

section \<open>Read-only parts\<close>

lemma read_only_gc_walks [read_only_intros]:
  "read_only (readIntentTime g p)" "read_only (walkIntents g v)" "read_only (walkChunkFiles v)"
  "read_only (loadSeenStore g path)"
  unfolding readIntentTime_def walkIntents_def add_intent_file_def walkChunkFiles_def add_chunk_file_def loadSeenStore_def Let_def
  by (intro read_only_intros)+

lemma read_only_gc_index [read_only_intros]: "read_only (LoadIndex s v)" "read_only (liveChunkSet g v)" "read_only (seenStorePath g v o')"
  unfolding LoadIndex_def liveChunkSet_def seenStorePath_def Let_def by (intro read_only_intros)+

lemma read_only_or_stop [read_only_intros]:
  "read_only m \<Longrightarrow> (\<And>x. read_only (f x)) \<Longrightarrow> read_only (or_stop m st f)"
  unfolding or_stop_def by (intro read_only_intros)

lemma read_only_gate [read_only_intros]: "read_only (gcRefusalGate g v)"
  unfolding gcRefusalGate_def by (intro read_only_intros)

lemma read_only_dry_run [read_only_intros]: "read_only (gcDryRun g v report now fence)"
  unfolding gcDryRun_def Let_def by (intro read_only_intros)

end
