(* ===== verification/GcSafety.thy ===== *)
theory GcSafety
  imports GarbageCollector
begin

text \<open>
  What garbage collection may remove: the frames of its steps, the chunk files a walk finds, the
  first-seen record along a run, and the properties of a run.
\<close>

section \<open>Fields of the state\<close>

text \<open>A field that the operations of the host do not touch.\<close>

definition ext_field :: "('z world_scheme \<Rightarrow> 'c) \<Rightarrow> bool" where
  "ext_field g \<longleftrightarrow> (\<forall>w f. g (w\<lparr>files := f\<rparr>) = g w) \<and> (\<forall>w k. g (w\<lparr>clock_ix := k\<rparr>) = g w) \<and> (\<forall>w k. g (w\<lparr>rand_ix := k\<rparr>) = g w)"

lemma ext_fields: "ext_field cached" "ext_field vConfig"
  by (simp_all add: ext_field_def)

named_theorems field_intros

declare fld.keeps_core [field_intros]

abbreviation ignores :: "('z world_scheme \<Rightarrow> 'c) \<Rightarrow> ('a, 'z) io \<Rightarrow> bool" where
  "ignores g m \<equiv> keeps (same_field g) m"

lemma ignoresD: "ignores g m \<Longrightarrow> m w = (r, w') \<Longrightarrow> g w' = g w"
  by (auto dest: keepsD simp: same_field_def)

lemma ignores_host [field_intros]:
  assumes "ext_field g"
  shows "ignores g (check_fault op p)" "ignores g time_Now" "ignores g (lookup_file p)" "ignores g (randomBytes n)" "ignores g (remove_retry p)"
  using assms
  by (auto simp: keeps_def same_field_def check_fault_def time_Now_def lookup_file_def randomBytes_def remove_retry_def ext_field_def
      split: option.split)

lemma ignores_os [field_intros]:
  assumes "ext_field g"
  shows "ignores g (os_Stat p)" "ignores g (os_ReadFile p)" "ignores g (os_MkdirAll p)" "ignores g (os_ReadDir p)" "ignores g (os_walk p)"
    "ignores g (now_string s)" "ignores g (nanoOrNow s ts)"
proof -
  have e: "ignores g (\<lambda>w. (Inr (F (files w)), w))" for F :: "fsfile gomap \<Rightarrow> string list" by (simp add: keeps_def same_field_def)
  show "ignores g (os_Stat p)" "ignores g (os_ReadFile p)" "ignores g (os_MkdirAll p)"
    unfolding os_Stat_def os_ReadFile_def os_MkdirAll_def by (intro field_intros assms)+
  show "ignores g (os_ReadDir p)" "ignores g (os_walk p)"
    unfolding os_ReadDir_def os_walk_def by (rule fld.keeps_bind, rule ignores_host [OF assms], rule e)+
  show "ignores g (now_string s)" "ignores g (nanoOrNow s ts)"
    unfolding now_string_def nanoOrNow_def by (intro field_intros assms)+
qed

lemma ignores_write [field_intros]:
  assumes "ext_field g"
  shows "ignores g (atomicWriteFile p d)"
proof -
  have "ignores g (\<lambda>w. case fst (renameWithRetry (rename_fault w p) snd) of
      Some (m, _) \<Rightarrow> (Inl (EMsg m), w) | None \<Rightarrow> put_file p \<lparr>data = d, mtime = t\<rparr> w)" for t
    using assms by (auto simp: keeps_def same_field_def put_file_def ext_field_def split: option.split)
  then show ?thesis unfolding atomicWriteFile_def os_MkdirAll_def by (intro field_intros assms)
qed

lemma ignores_save [field_intros]:
  assumes "ext_field g"
  shows "ignores g (saveManifestRecord s v m)" "ignores g (saveFileManifest s v p rec)"
proof -
  show 1: "ignores g (saveManifestRecord s v m)" for m
    unfolding saveManifestRecord_def Let_def by (intro field_intros assms)
  show "ignores g (saveFileManifest s v p rec)" unfolding saveFileManifest_def Let_def by (intro field_intros assms 1)
qed

lemma ignores_gc_walks [field_intros]:
  assumes "ext_field g"
  shows "ignores g (walkIntents e v)" "ignores g (walkChunkFiles v)" "ignores g (loadSeenStore e path)" "ignores g (saveSeenStore e path m)"
    "ignores g (writeIntent e v cid t)" "ignores g (removeIntentFiles li)" "ignores g (removeChunkFiles fs)" "ignores g (indexFingerprint v)"
  unfolding walkIntents_def add_intent_file_def readIntentTime_def walkChunkFiles_def add_chunk_file_def loadSeenStore_def saveSeenStore_def
    writeIntent_def removeIntentFiles_def removeChunkFiles_def indexFingerprint_def fp_manifest_def Let_def
  by (intro field_intros assms)+

lemma ignores_config_state [field_intros]:
  "ignores vConfig (set_cached c)" "ignores vConfig (bump_gen n)" "ignores vConfig get_config" "ignores vConfig get_state"
  "ignores cached (bump_gen n)" "ignores cached get_config" "ignores cached get_state"
  by (auto simp: keeps_def same_field_def set_cached_def bump_gen_def get_config_def get_state_def)

lemma ignores_index [field_intros]:
  "ignores vConfig (loadManifestIndex s v)" "ignores vConfig (LoadIndex s v)" "ignores vConfig (ReloadIndex s v)"
  "ignores vConfig (compact s v now app fence)" "ignores vConfig (liveChunkSet e v)" "ignores vConfig (seenStorePath e v o')"
  "ignores cached (seenStorePath e v o')"
  unfolding LoadIndex_def ReloadIndex_def cachedIndexLocked_def loadIndexFromDisk_def loadLegacyIndex_def loadManifestIndex_def read_candidate_def
    manifestFilesPresent_def compact_def materialise_conflict_def remove_planned_def sweepTmpOrphans_def sweep_root_def sweep_file_def
    liveChunkSet_def seenStorePath_def Let_def
  by (intro field_intros ext_fields)+

section \<open>Loops that stop\<close>

lemma leaves_or_stop [leaves_intros]:
  "leaves S m \<Longrightarrow> (\<And>w x w'. m w = (Inr x, w') \<Longrightarrow> leaves S (f x)) \<Longrightarrow> leaves S (or_stop m st f)"
  unfolding or_stop_def by (intro leaves_intros) auto

lemma ignores_or_stop [field_intros]:
  "ignores g m \<Longrightarrow> (\<And>w x w'. m w = (Inr x, w') \<Longrightarrow> ignores g (f x)) \<Longrightarrow> ignores g (or_stop m st f)"
  unfolding or_stop_def by (intro field_intros) auto

lemma gc_fold_inv:
  assumes "gc_fold f st xs w = (Inr (st', e), w')" and "I st w"
    and "\<And>x st w st' e w'. x \<in> set xs \<Longrightarrow> I st w \<Longrightarrow> f st x w = (Inr (st', e), w') \<Longrightarrow> I st' w'"
  shows "I st' w'"
  using assms
proof (induction xs arbitrary: st w)
  case (Cons x xs)
  obtain r w1 where f: "f st x w = (r, w1)" by fastforce
  then obtain st1 e1 where r: "r = Inr (st1, e1)"
    using Cons.prems(1) by (cases r) (auto simp: gc_next_def io_simps)
  have 1: "I st1 w1" using Cons.prems(3) [of x st w st1 e1 w1] Cons.prems(2) f r by simp
  show ?case
  proof (cases e1)
    case None
    then have "gc_fold f st1 xs w1 = (Inr (st', e), w')" using Cons.prems(1) f r by (simp add: gc_next_def io_simps)
    then show ?thesis using Cons.IH 1 Cons.prems(3) by (metis list.set_intros(2))
  next
    case (Some e0)
    then show ?thesis using Cons.prems(1) f r 1 by (simp add: gc_next_def io_simps)
  qed
qed (simp add: io_simps)

lemma io_fold_sinv:
  assumes "io_fold f s xs w = (Inr s', w')" and "I s w"
    and "\<And>x s w s' w'. x \<in> set xs \<Longrightarrow> I s w \<Longrightarrow> f s x w = (Inr s', w') \<Longrightarrow> I s' w'"
  shows "I s' w'"
  using assms
proof (induction xs arbitrary: s w)
  case (Cons x xs)
  obtain s1 w1 where f: "f s x w = (Inr s1, w1)" "io_fold f s1 xs w1 = (Inr s', w')"
    using Cons.prems(1) by (auto simp: io_simps split: prod.splits sum.splits)
  then show ?case using Cons.IH [OF f(2)] Cons.prems(2,3) by (metis list.set_intros(1,2))
qed (simp add: io_simps)

section \<open>Where the files are\<close>

lemma roots:
  assumes "tidy_root v"
  shows "chunkRoot v = MetaRoot v @ ''/objects/chunks''" "intentDir v = MetaRoot v @ ''/gc-intents''" "mroot v = MetaRoot v @ ''/manifests''"
    "CHR ''/'' \<notin> set b \<Longrightarrow> b \<noteq> '''' \<Longrightarrow> b \<noteq> ''.'' \<Longrightarrow> b \<noteq> ''..'' \<Longrightarrow> path_Join (intentDir v) b = intentDir v @ CHR ''/'' # b"
proof -
  obtain a where a: "MetaRoot v = CHR ''/'' # a" "clean_path a" using assms by (auto simp: tidy_root_def)
  have m: "clean_path ''objects''" "clean_path ''chunks''" "clean_path ''gc-intents''" "clean_path ''manifests''" by code_simp+
  have 1: "clean_path (a @ ''/objects'')" using clean_path_append [of a "''objects''"] a(2) m by simp
  have 2: "clean_path (a @ ''/gc-intents'')" using clean_path_append [of a "''gc-intents''"] a(2) m by simp
  show "chunkRoot v = MetaRoot v @ ''/objects/chunks''"
    using a m path_Join_abs [OF a(2) m(1)] path_Join_abs [OF 1 m(2)] by (simp add: chunkRoot_def)
  show i: "intentDir v = MetaRoot v @ ''/gc-intents''"
    using a m path_Join_abs [OF a(2) m(3)] by (simp add: intentDir_def GCIntentDirName_def)
  show "mroot v = MetaRoot v @ ''/manifests''"
    using a m path_Join_abs [OF a(2) m(4)] by (simp add: mroot_def ManifestDirName_def)
  show "path_Join (intentDir v) b = intentDir v @ CHR ''/'' # b" if "CHR ''/'' \<notin> set b" "b \<noteq> ''''" "b \<noteq> ''.''" "b \<noteq> ''..''"
    using path_Join_abs [OF 2 clean_path_seg [OF that]] a i by simp
qed

text \<open>A chunk object; collection and compaction tell it from temporary files by its name.\<close>

definition chunk_object :: "'v vault_scheme \<Rightarrow> string \<Rightarrow> bool" where
  "chunk_object v p \<longleftrightarrow> HasPrefix p (chunkRoot v @ ''/'') \<and> \<not> HasPrefix (path_Base p) ''.tmp-''"

lemma chunk_object_outside: "tidy_root v \<Longrightarrow> chunk_object v p \<Longrightarrow> p \<in> outside_manifests v"
  by (auto simp: chunk_object_def outside_manifests_def roots HasPrefix_iff)

lemma chunk_id_name:
  assumes "chunkIDFromFileName b \<noteq> ''''"
  shows "b \<noteq> ''''" "b \<noteq> ''.''" "b \<noteq> ''..''"
  using assms by (auto simp: chunkIDFromFileName_def)

text \<open>Files outside the directory of intents.\<close>

definition off_intents :: "'v vault_scheme \<Rightarrow> string set" where
  "off_intents v = {p. \<not> HasPrefix p (intentDir v @ ''/'')}"

lemma chunk_off_intents: "tidy_root v \<Longrightarrow> chunk_object v p \<Longrightarrow> p \<in> off_intents v"
  by (auto simp: chunk_object_def off_intents_def roots HasPrefix_iff)

lemma intent_in_dir:
  assumes "tidy_root v" and "CHR ''/'' \<notin> set b" and "chunkIDFromFileName b \<noteq> ''''"
  shows "path_Join (intentDir v) b \<notin> off_intents v"
  using roots(4) [OF assms(1,2) chunk_id_name [OF assms(3)]]
  by (auto simp: off_intents_def HasPrefix_iff)

lemma dir_names_seg: "b \<in> set (dir_names d fs) \<Longrightarrow> CHR ''/'' \<notin> set b"
  by (auto simp: dir_names_def path_Split_def Let_def dest: set_takeWhileD)

lemma walkIntents_files:
  fixes w w' :: "'z world_scheme"
  assumes "tidy_root v" and "walkIntents g v w = (Inr intents, w')"
  shows "\<forall>(cid, li) \<in> set intents. \<forall>p\<in>set (li_files li). p \<notin> off_intents v"
proof -
  let ?I = "\<lambda>out (w :: 'z world_scheme). \<forall>(cid, li) \<in> set out. \<forall>p\<in>set (li_files li). p \<notin> off_intents v"
  have step: "?I out' w'" if "b \<in> set (dir_names (intentDir v) fs)" "?I out w" "add_intent_file g (intentDir v) out b w = (Inr out', w')"
    for b out out' fs and w w' :: "'z world_scheme"
  proof (cases "chunkIDFromFileName b = ''''")
    case False
    let ?p = "path_Join (intentDir v) b" and ?cid = "chunkIDFromFileName b"
    have np: "?p \<notin> off_intents v" by (rule intent_in_dir [OF assms(1) dir_names_seg [OF that(1)] False])
    have "\<forall>li. map_of out ?cid = Some li \<longrightarrow> (\<forall>p\<in>set (li_files li). p \<notin> off_intents v)"
      using that(2) by (auto dest!: map_of_SomeD)
    then have "\<exists>li. out' = AList.update ?cid li out \<and> (\<forall>p\<in>set (li_files li). p \<notin> off_intents v)"
      using that(3) False np
      by (auto simp: add_intent_file_def Let_def io_simps split: prod.splits sum.splits option.splits if_splits)
         (rule exI, rule conjI, rule refl, simp)+
    then show ?thesis using that(2) by (auto dest: in_update)
  qed (use that in \<open>auto simp: add_intent_file_def io_simps\<close>)
  from assms(2) show ?thesis
  proof (cases "isl (fst (os_ReadDir (intentDir v) w))")
    case False
    then obtain w1 where "io_fold (add_intent_file g (intentDir v)) [] (dir_names (intentDir v) (files w)) w1 = (Inr intents, w')"
      using assms(2) by (auto simp: walkIntents_def os_ReadDir_def io_simps check_fault_def split: option.splits)
    then show ?thesis by (rule io_fold_sinv [where I = ?I]) (simp, rule step)
  qed (auto simp: walkIntents_def io_simps split: prod.splits sum.splits if_splits)
qed

text \<open>What a walk over the chunk files finds.\<close>

definition found :: "'v vault_scheme \<Rightarrow> fsfile gomap \<Rightarrow> chunkFile list gomap \<Rightarrow> bool" where
  "found v fs chunks \<longleftrightarrow> (\<forall>(cid, cfs) \<in> set chunks. cfs \<noteq> [] \<and> cid \<noteq> '''' \<and> (\<forall>f\<in>set cfs. chunkIDFromFileName (path_Base (cf_path f)) = cid
     \<and> (\<exists>x. map_of fs (cf_path f) = Some x \<and> cf_mtime f = mtime x)))"

lemma walkChunkFiles_found:
  fixes w w' :: "'z world_scheme"
  assumes "walkChunkFiles v w = (Inr chunks, w')"
  shows "found v (files w) chunks"
proof -
  let ?I = "\<lambda>out (u :: 'z world_scheme). files u = files w \<and> found v (files w) out"
  have step: "?I out' u'" if "?I out u" "add_chunk_file out p u = (Inr out', u')" for p out out' and u u' :: "'z world_scheme"
  proof -
    have ro: "files u' = files u" 
      using that(2) by (auto simp: add_chunk_file_def os_Stat_def check_fault_def lookup_file_def Let_def io_simps
          split: option.splits if_splits sum.splits prod.splits)
    have "out' = out \<or> chunkIDFromFileName (path_Base p) \<noteq> '''' \<and> (\<exists>x. map_of (files u) p = Some x \<and> out' = AList.update (chunkIDFromFileName (path_Base p))
        (files_of out (chunkIDFromFileName (path_Base p)) @ [\<lparr>cf_path = p, cf_size = int (length (data x)), cf_mtime = mtime x\<rparr>]) out)"
      using that(2) by (auto simp: add_chunk_file_def os_Stat_def check_fault_def lookup_file_def Let_def io_simps
          split: option.splits if_splits sum.splits prod.splits)
    moreover have "\<forall>f\<in>set (files_of out cid). chunkIDFromFileName (path_Base (cf_path f)) = cid
       \<and> (\<exists>x. map_of (files w) (cf_path f) = Some x \<and> cf_mtime f = mtime x)" for cid
    proof (cases "map_of out cid")
      case (Some cfs)
      then show ?thesis using that(1) map_of_SomeD [OF Some] by (fastforce simp: found_def files_of_def)
    qed (simp add: files_of_def)
    ultimately have "found v (files w) out'" using that(1) by (auto simp: found_def dest!: in_update)
    then show ?thesis using ro that(1) by simp
  qed
  show ?thesis
  proof (cases "isl (fst (os_walk (chunkRoot v) w))")
    case False
    then have "io_fold add_chunk_file [] (walk_files (chunkRoot v) (files w)) w = (Inr chunks, w')"
      using assms by (auto simp: walkChunkFiles_def os_walk_def io_simps check_fault_def split: option.splits)
    then have "?I chunks w'" by (rule io_fold_sinv [where I = ?I]) (simp add: found_def, rule step)
    then show ?thesis by blast
  qed (use assms in \<open>auto simp: walkChunkFiles_def io_simps found_def split: prod.splits sum.splits if_splits\<close>)
qed

lemma newest_ge: "f \<in> set fs \<Longrightarrow> cf_mtime f \<le> newestMtime fs"
proof -
  let ?m = "foldl (\<lambda>n f. if cf_mtime f > n then cf_mtime f else n)"
  have "\<forall>x\<in>set (map cf_mtime fs) \<union> {z}. x \<le> ?m z fs" for z
  proof (induction fs arbitrary: z)
    case (Cons a fs)
    have "cf_mtime a \<le> (if cf_mtime a > z then cf_mtime a else z)" "z \<le> (if cf_mtime a > z then cf_mtime a else z)" by auto
    then show ?case using Cons.IH [of "if cf_mtime a > z then cf_mtime a else z"] by (auto intro: order_trans)
  qed simp
  then show "f \<in> set fs \<Longrightarrow> cf_mtime f \<le> newestMtime fs" by (simp add: newestMtime_def)
qed

section \<open>Following a run to a removal\<close>

text \<open>When a run changes a file of \<open>S\<close> and its first action does not, the run got past that action.\<close>

lemma or_stop_past:
  assumes "or_stop m st f w = (r, w')" and "leaves S m" and "\<not> same_at S w w'"
  obtains x w1 where "m w = (Inr x, w1)" "same_at S w w1" "\<not> same_at S w1 w'" "f x w1 = (r, w')"
proof -
  obtain r1 w1 where m: "m w = (r1, w1)" by fastforce
  have s: "same_at S w w1" by (rule keepsD [OF assms(2) m])
  show thesis
  proof (cases r1)
    case (Inl e)
    then show ?thesis using assms(1,3) m s by (auto simp: or_stop_def io_simps)
  next
    case (Inr x)
    then show ?thesis using assms(1,3) m s that part.trans by (auto simp: or_stop_def io_simps)
  qed
qed

lemma bind_past:
  assumes "io_bind m f w = (r, w')" and "leaves S m" and "\<not> same_at S w w'"
  obtains x w1 where "m w = (Inr x, w1)" "same_at S w w1" "\<not> same_at S w1 w'" "f x w1 = (r, w')"
proof -
  obtain r1 w1 where m: "m w = (r1, w1)" by fastforce
  have s: "same_at S w w1" by (rule keepsD [OF assms(2) m])
  show thesis
  proof (cases r1)
    case (Inl e)
    then show ?thesis using assms(1,3) m s by (auto simp: io_simps)
  next
    case (Inr x)
    then show ?thesis using assms(1,3) m s that part.trans by (auto simp: io_simps)
  qed
qed

lemma same_at_mono: "same_at T w w' \<Longrightarrow> S \<subseteq> T \<Longrightarrow> same_at S w w'"
  by (auto simp: same_at_def)

lemma leaves_mono: "leaves T m \<Longrightarrow> S \<subseteq> T \<Longrightarrow> leaves S m"
  by (auto intro: keeps_mono same_at_mono)

text \<open>A loop keeps what its rounds keep in the states it reaches.\<close>

lemma gc_fold_keeps:
  assumes "gc_fold f st xs w = (r, w')" and "Q st"
    and "\<And>x st. x \<in> set xs \<Longrightarrow> Q st \<Longrightarrow> leaves S (f st x)"
    and "\<And>x st w st' e w'. Q st \<Longrightarrow> f st x w = (Inr (st', e), w') \<Longrightarrow> Q st'"
  shows "same_at S w w'"
  using assms
proof (induction xs arbitrary: st w)
  case (Cons x xs)
  obtain r1 w1 where f: "f st x w = (r1, w1)" by fastforce
  have s: "same_at S w w1" using keepsD [OF Cons.prems(3) f] Cons.prems(2) by simp
  show ?case
  proof (cases "\<exists>st1. r1 = Inr (st1, None)")
    case True
    then obtain st1 where r1: "r1 = Inr (st1, None)" by blast
    then have "gc_fold f st1 xs w1 = (r, w')" using Cons.prems(1) f by (simp add: gc_next_def io_simps)
    moreover have "Q st1" using Cons.prems(2,4) f r1 by blast
    ultimately have "same_at S w1 w'" using Cons.IH Cons.prems(3,4) by (metis list.set_intros(2))
    then show ?thesis using s part.trans by blast
  next
    case False
    then have "w' = w1" using Cons.prems(1) f by (auto simp: gc_next_def io_simps split: sum.splits option.splits)
    then show ?thesis using s by simp
  qed
qed (simp add: io_simps part.refl)

section \<open>The first-seen record\<close>

definition seen_file :: "gc_env \<Rightarrow> fsfile gomap \<Rightarrow> string \<Rightarrow> string gomap option" where
  "seen_file g fs sp = (case map_of fs sp of
     None \<Rightarrow> Some []
   | Some f \<Rightarrow> if TrimSpace (data f) = '''' then Some [] else unmarshalSeen g (data f))"

lemma loadSeenStore_file:
  assumes "loadSeenStore g sp w = (Inr seen, w')"
  shows "seen_file g (files w) sp = Some seen \<and> w' = w"
  using assms
  by (auto simp: loadSeenStore_def os_ReadFile_def check_fault_def lookup_file_def io_simps seen_file_def is_not_exist_def
      split: option.splits if_splits sum.splits)

definition seen_law :: "gc_env \<Rightarrow> bool" where
  "seen_law g \<longleftrightarrow> (\<forall>m. unmarshalSeen g (marshalSeen g m) = Some m \<and> TrimSpace (marshalSeen g m) \<noteq> '''')"

lemma saveSeenStore_file:
  assumes "seen_law g" and "saveSeenStore g sp m w = (Inr u, w')"
  shows "seen_file g (files w') sp = Some m"
proof -
  have aw: "atomicWriteFile sp (marshalSeen g m) w = (Inr u, w')"
    using assms(2) by (auto simp: saveSeenStore_def io_simps os_MkdirAll_def check_fault_def split: option.splits)
  then show ?thesis using assms(1) by (cases rule: atomicWriteFile_cases) (auto simp: seen_file_def seen_law_def)
qed

text \<open>The entries of \<open>seen\<close> come from \<open>seen0\<close> or carry a clock reading of the host.\<close>

definition seen_from :: "gc_env \<Rightarrow> (nat \<Rightarrow> int) \<Rightarrow> string gomap \<Rightarrow> string gomap \<Rightarrow> bool" where
  "seen_from g ck seen0 seen \<longleftrightarrow> (\<forall>c x. map_of seen c = Some x \<longrightarrow> map_of seen0 c = Some x \<or> (\<exists>i. x = fmtRFC3339 g (ck i)))"

lemma forget_shrinks: "forget cid seen dirty = (seen', dirty') \<Longrightarrow> map_of seen' c = Some x \<Longrightarrow> map_of seen c = Some x"
  by (auto simp: forget_def delete_conv' split: option.splits if_splits)

lemma phase1_intent_seen:
  assumes "phase1_intent g live' chunks intents (rep, seen, dirty) cid w = (Inr ((rep', seen', dirty'), e), w')"
    and "seen_from g (clock_src w) seen0 seen" and "\<not> dirty \<longrightarrow> seen = seen0"
  shows "seen_from g (clock_src w) seen0 seen' \<and> (\<not> dirty' \<longrightarrow> seen' = seen0)"
proof -
  define li where "li = the (map_of intents cid)"
  obtain rr w1 where rm: "removeIntentFiles li w = (rr, w1)" by fastforce
  have "(seen', dirty') = (seen, dirty) \<or> (seen', dirty') = forget cid seen dirty
    \<or> dirty' \<and> seen' = AList.update cid (fmtRFC3339 g (clock_src w (clock_ix w))) seen"
    using assms(1) rm
    by (cases rr; cases "cid \<in> set live'"; cases "chunkPresent chunks cid"; cases "map_of seen cid = None")
       (simp_all add: phase1_intent_def or_stop_def io_try_def io_bind_def io_ret_def li_def [symmetric] time_Now_def)
  then show ?thesis
  proof (elim disjE conjE)
    assume "dirty'" "seen' = AList.update cid (fmtRFC3339 g (clock_src w (clock_ix w))) seen"
    then show ?thesis using assms(2) by (auto simp: seen_from_def update_conv')
  next
    assume f: "(seen', dirty') = forget cid seen dirty"
    then have "map_of seen' c = Some x \<Longrightarrow> map_of seen c = Some x" for c x by (metis forget_shrinks)
    then have "seen_from g (clock_src w) seen0 seen'" using assms(2) unfolding seen_from_def by metis
    moreover have "\<not> dirty' \<Longrightarrow> seen' = seen \<and> \<not> dirty" using f by (cases "map_of seen cid") (simp_all add: forget_def)
    ultimately show ?thesis using assms(3) by blast
  qed (use assms(2,3) in simp)
qed

section \<open>What the steps leave\<close>

abbreviation chunk_objects :: "'v vault_scheme \<Rightarrow> string set" where
  "chunk_objects v \<equiv> {p. chunk_object v p}"

definition intents_ok :: "'v vault_scheme \<Rightarrow> logicalIntent gomap \<Rightarrow> bool" where
  "intents_ok v intents \<longleftrightarrow> (\<forall>(cid, li) \<in> set intents. \<forall>p\<in>set (li_files li). p \<notin> off_intents v)"

lemma chunk_id_chars: "CHR ''/'' \<notin> set (chunkIDFromFileName b)"
proof -
  have l: "\<forall>c. lower_char c = CHR ''/'' \<longrightarrow> c = CHR ''/''" by code_simp
  have "\<not> isHex s" if "CHR ''/'' \<in> set s" for s
  proof -
    have "\<not> isHex [CHR ''/'']" by code_simp
    moreover have "isHex s \<Longrightarrow> isHex [CHR ''/'']" using that unfolding isHex_def by force
    ultimately show ?thesis by blast
  qed
  then show ?thesis using l by (auto simp: chunkIDFromFileName_def ToLower_ascii isHex_ascii)
qed

lemma writeIntent_leaves:
  assumes "tidy_root v" and "cid = chunkIDFromFileName b" and "cid \<noteq> ''''"
    and "S \<subseteq> off_intents v"
  shows "leaves S (writeIntent g v cid t)"
proof -
  have "length cid = 64" using assms(2,3) by (auto simp: ToLower_ascii isHex_ascii chunkIDFromFileName_def split: if_splits)
  then have "path_Join (intentDir v) (cid @ gcIntentSuffix) \<notin> S"
    using roots(4) [OF assms(1), of "cid @ gcIntentSuffix"] chunk_id_chars [of b] assms(2)
      assms(4) by (auto simp: off_intents_def HasPrefix_iff gcIntentSuffix_def)
  then show ?thesis unfolding writeIntent_def by (intro leaves_intros leaves_pure) simp
qed

lemma removeIntents_leaves:
  assumes "intents_ok v intents" and "cid \<in> fst ` set intents" and "S \<subseteq> off_intents v"
  shows "leaves S (removeIntentFiles (the (map_of intents cid)))"
proof -
  obtain li where "map_of intents cid = Some li" using assms(2) by (metis map_of_eq_None_iff option.exhaust)
  then have "\<forall>p\<in>set (li_files (the (map_of intents cid))). p \<notin> S"
    using assms(1,3) map_of_SomeD [of intents cid li] by (fastforce simp: intents_ok_def)
  then show ?thesis unfolding removeIntentFiles_def by (intro leaves_intros) blast
qed

lemma phase1_intent_leaves:
  assumes "intents_ok v intents" and "cid \<in> fst ` set intents" and "S \<subseteq> off_intents v"
  shows "leaves S (phase1_intent g live' chunks intents st cid)"
  unfolding phase1_intent_def Let_def
  by (intro leaves_intros leaves_pure removeIntents_leaves [OF assms])

lemma found_ids:
  assumes "found v fs chunks" and "cid \<in> fst ` set chunks"
  shows "\<exists>b. cid = chunkIDFromFileName b \<and> cid \<noteq> ''''"
proof -
  obtain cfs where "(cid, cfs) \<in> set chunks" using assms(2) by auto
  then have "cfs \<noteq> []" "cid \<noteq> ''''" "\<forall>f\<in>set cfs. chunkIDFromFileName (path_Base (cf_path f)) = cid"
    using assms(1) unfolding found_def by blast+
  then show ?thesis by (metis last_in_set)
qed

lemma phase1_chunk_leaves:
  assumes "tidy_root v" and "found v fs chunks" and "cid \<in> fst ` set chunks" and "S \<subseteq> off_intents v"
  shows "leaves S (phase1_chunk g v live' chunks intents st cid)"
proof -
  obtain b where "cid = chunkIDFromFileName b" "cid \<noteq> ''''" using found_ids [OF assms(2,3)] by blast
  then show ?thesis unfolding phase1_chunk_def Let_def
    by (intro leaves_intros leaves_pure writeIntent_leaves [OF assms(1)] assms(4))
qed

text \<open>The condition under which phase 2 removes the files of a chunk.\<close>

definition seen_at :: "string gomap \<Rightarrow> string \<Rightarrow> string" where
  "seen_at seen cid = (case map_of seen cid of None \<Rightarrow> '''' | Some s \<Rightarrow> s)"

definition collectable :: "gc_env \<Rightarrow> int \<Rightarrow> int \<Rightarrow> string list \<Rightarrow> string gomap \<Rightarrow> chunkFile list gomap \<Rightarrow> logicalIntent gomap \<Rightarrow> string \<Rightarrow> bool" where
  "collectable g t fence live' seen chunks intents cid \<longleftrightarrow> cid \<notin> set live'
     \<and> (\<exists>li. map_of intents cid = Some li \<and> li_hasTime li \<and> fence \<le> time_Sub t (li_recorded li))
     \<and> (\<exists>u. parseSeenTime g (seen_at seen cid) = Some u \<and> fence \<le> time_Sub t u)
     \<and> fence \<le> time_Sub t (newestMtime (files_of chunks cid))"

definition kept :: "'v vault_scheme \<Rightarrow> (string \<Rightarrow> bool) \<Rightarrow> chunkFile list gomap \<Rightarrow> string set" where
  "kept v col chunks = {p. chunk_object v p \<and> \<not> (\<exists>cid. col cid \<and> (\<exists>f\<in>set (files_of chunks cid). cf_path f = p))}"

lemma phase2_intent_leaves:
  assumes "tidy_root v" and "intents_ok v intents" and "cid \<in> fst ` set intents" and "\<forall>c x. map_of seen c = Some x \<longrightarrow> map_of seen0 c = Some x"
  shows "leaves (kept v (collectable g t fence live' seen0 chunks intents) chunks)
    (phase2_intent g t fence live' chunks intents (rep, seen, dirty) cid)"
proof -
  let ?S = "kept v (collectable g t fence live' seen0 chunks intents) chunks"
  have sub: "?S \<subseteq> off_intents v" using chunk_off_intents [OF assms(1)] by (auto simp: kept_def)
  note ri = removeIntents_leaves [OF assms(2,3) sub]
  obtain li where li: "map_of intents cid = Some li" using assms(3) by (metis map_of_eq_None_iff option.exhaust)
  have rc: "leaves ?S (removeChunkFiles fs)"
    if "map_of chunks cid = Some fs" "cid \<notin> set live'" "li_hasTime li" "fence \<le> time_Sub t (li_recorded li)"
      "parseSeenTime g (seen_at seen cid) = Some u" "fence \<le> time_Sub t u" "fence \<le> time_Sub t (newestMtime fs)" for fs u
  proof -
    have "seen_at seen cid \<noteq> ''''" using that(5) by (auto simp: parseSeenTime_def)
    then have "seen_at seen0 cid = seen_at seen cid" using assms(4) by (auto simp: seen_at_def split: option.splits)
    then have "collectable g t fence live' seen0 chunks intents cid" using that li by (simp add: collectable_def files_of_def)
    moreover have "files_of chunks cid = fs" using that(1) by (simp add: files_of_def)
    ultimately have "\<forall>f\<in>set fs. cf_path f \<notin> ?S" unfolding kept_def by blast
    then show ?thesis unfolding removeChunkFiles_def by (intro leaves_intros) blast
  qed
  show ?thesis
    unfolding phase2_intent_def Let_def seen_at_def [symmetric]
    by (simp only: prod.case) (intro leaves_intros leaves_pure ri rc; simp add: li linorder_not_less)
qed

definition seen_within :: "string gomap \<Rightarrow> gc_state \<Rightarrow> bool" where
  "seen_within seen0 st \<longleftrightarrow> (\<forall>c x. map_of (fst (snd st)) c = Some x \<longrightarrow> map_of seen0 c = Some x)"

lemma phase2_intent_seen:
  assumes "phase2_intent g t fence live' chunks intents (rep, seen, dirty) cid w = (Inr ((rep', seen', dirty'), e), w')"
  shows "map_of seen' c = Some x \<Longrightarrow> map_of seen c = Some x"
proof -
  define li where "li = the (map_of intents cid)"
  have "(seen', dirty') = (seen, dirty) \<or> (seen', dirty') = forget cid seen dirty"
    using assms
    by (auto simp: phase2_intent_def or_stop_def io_try_def io_bind_def io_ret_def li_def [symmetric] Let_def
        split: option.splits if_splits sum.splits prod.splits)
  then show "map_of seen' c = Some x \<Longrightarrow> map_of seen c = Some x" using forget_shrinks by (metis prod.inject)
qed

section \<open>Phase 2\<close>

lemma ignores_gc_next [field_intros]:
  "ignores h m \<Longrightarrow> (\<And>st. ignores h (f st)) \<Longrightarrow> ignores h (gc_next m result f)"
  unfolding gc_next_def by (intro field_intros)

lemma ignores_gc_fold [field_intros]:
  "(\<And>st x. ignores h (f st x)) \<Longrightarrow> ignores h (gc_fold f st xs)"
  by (induction xs arbitrary: st) (auto intro: ignores_gc_next simp: fld.keeps_pure)

lemma ignores_phases [field_intros]:
  assumes "ext_field h"
  shows "ignores h (phase1_intent g live' chunks intents st1 cid)" "ignores h (phase1_chunk g v live' chunks intents st2 cid)"
    "ignores h (phase2_intent g t fence live' chunks intents st1 cid)"
  unfolding phase1_intent_def phase1_chunk_def phase2_intent_def Let_def by (intro field_intros assms)+

lemma past_read_only:
  assumes "or_stop m st f w = (r, w')" and "read_only m" and "\<not> same_at S w w'"
  obtains x w1 where "m w = (Inr x, w1)" "files w1 = files w" "same_host w w1" "\<not> same_at S w1 w'" "f x w1 = (r, w')"
proof -
  obtain x w1 where p: "m w = (Inr x, w1)" "\<not> same_at S w1 w'" "f x w1 = (r, w')"
    using or_stop_past [OF assms(1) leaves_read_only [OF assms(2)] assms(3)] by metis
  have "same_disk w w1" by (rule keepsD [OF assms(2) p(1)])
  then show thesis using that p by (auto simp: same_disk_def)
qed

lemma LoadIndex_cached: "LoadIndex s v w = (Inr idx, w') \<Longrightarrow> cached w' = Some idx"
  by (auto simp: LoadIndex_def cachedIndexLocked_def io_simps get_state_def set_cached_def split: option.splits prod.splits sum.splits)

lemma liveChunkSet_cached: "liveChunkSet g v w = (Inr l, w') \<Longrightarrow> \<exists>idx. cached w' = Some idx \<and> l = live_ids idx"
  using LoadIndex_cached by (auto simp: liveChunkSet_def io_simps split: prod.splits sum.splits) blast

lemma ignores_collect [field_intros]:
  assumes "ext_field h"
  shows "ignores h (phase2_finish g v sp t st)" "ignores h (phase2_collect g v sp fence rs)"
proof -
  show 1: "ignores h (phase2_finish g v sp t st)" for t st
    unfolding phase2_finish_def Let_def by (intro field_intros assms)
  show "ignores h (phase2_collect g v sp fence rs)"
    unfolding phase2_collect_def by (intro field_intros assms 1)
qed

lemma gc_next_past:
  assumes "gc_next m result f w = (r, w')" and "m w = (r1, w1)" and "\<not> same_at S w1 w'"
  obtains st where "r1 = Inr (st, None)" "f st w1 = (r, w')"
  using assms part.refl by (auto simp: gc_next_def io_simps split: sum.splits option.splits prod.splits)

lemma time_Sub_mono: "a \<le> b \<Longrightarrow> time_Sub t b \<le> time_Sub t a"
  by (auto simp: time_Sub_def)

text \<open>A chunk object that phase 2 removes was collectable, by the state of the disk when its walks began.\<close>

lemma phase2_collect_removal:
  fixes w w' :: "'z world_scheme"
  assumes "tidy_root v" and "\<forall>ks. mset (map_order (gc_store g) ks) = mset ks" and "\<not> chunk_object v sp" and "chunk_object v p"
    and "phase2_collect g v sp fence (rep, liveSet) w = (r, w')" and "map_of (files w) p = Some f" and "map_of (files w') p \<noteq> Some f"
  shows "\<exists>i seen u. seen_file g (files w) sp = Some seen \<and> chunkIDFromFileName (path_Base p) \<notin> set liveSet
    \<and> fence \<le> time_Sub (clock_src w i) (mtime f)
    \<and> parseSeenTime g (seen_at seen (chunkIDFromFileName (path_Base p))) = Some u \<and> fence \<le> time_Sub (clock_src w i) u"
proof -
  let ?S = "{p}"
  have ch: "\<not> same_at ?S w w'" using assms(6,7) by (simp add: same_at_def)
  from assms(5) [unfolded phase2_collect_def prod.case] obtain intents w1 where
    1: "walkIntents g v w = (Inr intents, w1)" "files w1 = files w" "same_host w w1" and ch1: "\<not> same_at ?S w1 w'" and
    g1: "or_stop (walkChunkFiles v) rep (\<lambda>chunks. or_stop (loadSeenStore g sp) rep (\<lambda>seen0. io_bind time_Now (\<lambda>t.
       gc_next (gc_fold (phase2_intent g t fence liveSet chunks intents) (rep, seen0, False)
         (map_order (gc_store g) (map fst intents))) fst (phase2_finish g v sp t)))) w1 = (r, w')"
    by (rule past_read_only [OF _ read_only_gc_walks(2) ch])
  from g1 obtain chunks w2 where
    2: "walkChunkFiles v w1 = (Inr chunks, w2)" "files w2 = files w1" "same_host w1 w2" and ch2: "\<not> same_at ?S w2 w'" and
    g2: "or_stop (loadSeenStore g sp) rep (\<lambda>seen0. io_bind time_Now (\<lambda>t.
       gc_next (gc_fold (phase2_intent g t fence liveSet chunks intents) (rep, seen0, False)
         (map_order (gc_store g) (map fst intents))) fst (phase2_finish g v sp t))) w2 = (r, w')"
    by (rule past_read_only [OF _ read_only_gc_walks(3) ch1])
  from g2 obtain seen0 w3 where
    3: "loadSeenStore g sp w2 = (Inr seen0, w3)" "files w3 = files w2" "same_host w2 w3" and ch3: "\<not> same_at ?S w3 w'" and
    g3: "io_bind time_Now (\<lambda>t.
       gc_next (gc_fold (phase2_intent g t fence liveSet chunks intents) (rep, seen0, False)
         (map_order (gc_store g) (map fst intents))) fst (phase2_finish g v sp t)) w3 = (r, w')"
    by (rule past_read_only [OF _ read_only_gc_walks(4) ch2])
  define t where "t = clock_src w3 (clock_ix w3)"
  let ?w4 = "w3\<lparr>clock_ix := Suc (clock_ix w3)\<rparr>"
  let ?loop = "gc_fold (phase2_intent g t fence liveSet chunks intents) (rep, seen0, False) (map_order (gc_store g) (map fst intents))"
  obtain r5 w5 where 5: "?loop ?w4 = (r5, w5)" by fastforce
  have g4: "gc_next ?loop fst (phase2_finish g v sp t) ?w4 = (r, w')"
    using g3 by (simp add: io_bind_def [of time_Now] time_Now_def t_def)
  have fin: "leaves ?S (phase2_finish g v sp t st)" for st
    unfolding phase2_finish_def saveSeenStore_def Let_def
    by (intro leaves_intros leaves_pure read_only_gc_walks [THEN leaves_read_only]) (use assms(3,4) in auto)
  have "same_at ?S w5 w'"
  proof (rule ccontr)
    assume n: "\<not> same_at ?S w5 w'"
    from gc_next_past [OF g4 5 n] obtain st where "phase2_finish g v sp t st w5 = (r, w')" by blast
    then show False using keepsD [OF fin] n by blast
  qed
  moreover have "same_at ?S w3 ?w4" by (simp add: same_at_def same_host_def)
  ultimately have n5: "\<not> same_at ?S ?w4 w5" using ch3 part.trans by blast
  have io: "intents_ok v intents" using walkIntents_files [OF assms(1) 1(1)] by (simp add: intents_ok_def)
  have fd: "found v (files w) chunks" using walkChunkFiles_found [OF 2(1)] 1(2) by simp
  have sf: "seen_file g (files w) sp = Some seen0" using loadSeenStore_file [OF 3(1)] 1(2) 2(2) by simp
  let ?K = "kept v (collectable g t fence liveSet seen0 chunks intents) chunks"
  have "same_at ?K ?w4 w5"
  proof (rule gc_fold_keeps [OF 5, where Q = "seen_within seen0"])
    fix cid st assume a: "cid \<in> set (map_order (gc_store g) (map fst intents))" "seen_within seen0 st"
    obtain rep' seen dirty where st: "st = (rep', seen, dirty)" by (metis prod.collapse)
    have "cid \<in> fst ` set intents" using a(1) assms(2) by (metis list.set_map mset_eq_setD)
    then show "leaves ?K (phase2_intent g t fence liveSet chunks intents st cid)"
      using phase2_intent_leaves [OF assms(1) io] a(2) st by (simp add: seen_within_def)
  next
    fix cid st st' e and u u' :: "'z world_scheme"
    assume a: "seen_within seen0 st" "phase2_intent g t fence liveSet chunks intents st cid u = (Inr (st', e), u')"
    obtain rep1 seen1 d1 rep2 seen2 d2 where st: "st = (rep1, seen1, d1)" "st' = (rep2, seen2, d2)" by (metis prod.collapse)
    show "seen_within seen0 st'" using a phase2_intent_seen [OF a(2) [unfolded st]] by (simp add: seen_within_def st)
  qed (simp add: seen_within_def)
  then have "p \<notin> ?K" using n5 by (auto simp: same_at_def)
  then obtain cid cf where c: "collectable g t fence liveSet seen0 chunks intents cid" "cf \<in> set (files_of chunks cid)" "cf_path cf = p"
    using assms(4) by (auto simp: kept_def)
  then have "(cid, files_of chunks cid) \<in> set chunks"
    by (auto simp: files_of_def split: option.splits dest: map_of_SomeD)
  then have m: "chunkIDFromFileName (path_Base p) = cid" "cf_mtime cf = mtime f"
    using fd c(2,3) assms(6) by (fastforce simp: found_def)+
  have "fence \<le> time_Sub t (mtime f)"
    using c(1) newest_ge [OF c(2)] m(2) time_Sub_mono [of "mtime f" "newestMtime (files_of chunks cid)" t] by (auto simp: collectable_def)
  moreover have "t = clock_src w (clock_ix w3)" using 1(3) 2(3) 3(3) by (simp add: t_def same_host_def)
  ultimately show ?thesis using c(1) m(1) sf unfolding collectable_def by blast
qed

lemma phase2_removal:
  fixes w w' :: "'z vault_state_scheme"
  assumes "tidy_root v" and "\<forall>ks. mset (map_order (gc_store g) ks) = mset ks" and "\<not> chunk_object v sp" and "chunk_object v p"
    and "gc_phase2 g v sp fence fp (live_ids idx1) rep w = (r, w')" and "cached w = Some idx1"
    and "map_of (files w) p = Some f" and "map_of (files w') p \<noteq> Some f"
  shows "\<exists>i seen u idx. cached w' = Some idx \<and> seen_file g (files w) sp = Some seen
    \<and> chunkIDFromFileName (path_Base p) \<notin> set (live_ids idx) \<and> fence \<le> time_Sub (clock_src w i) (mtime f)
    \<and> parseSeenTime g (seen_at seen (chunkIDFromFileName (path_Base p))) = Some u \<and> fence \<le> time_Sub (clock_src w i) u"
proof -
  have ch: "\<not> same_at {p} w w'" using assms(7,8) by (simp add: same_at_def)
  from assms(5) [unfolded gc_phase2_def] obtain fpNow w1 where
    1: "indexFingerprint v w = (Inr fpNow, w1)" "files w1 = files w" "same_host w w1" and ch1: "\<not> same_at {p} w1 w'" and
    g1: "gc_next (phase2_reload g v fpNow fp rep (live_ids idx1)) fst (phase2_collect g v sp fence) w1 = (r, w')"
    by (rule past_read_only [OF _ read_only_reload(2) ch])
  have c1: "cached w1 = Some idx1" using ignoresD [OF ignores_gc_walks(8) 1(1)] ext_fields assms(6) by metis
  obtain r2 w2 where 2: "phase2_reload g v fpNow fp rep (live_ids idx1) w1 = (r2, w2)" by fastforce
  have ro: "read_only (phase2_reload g v fpNow fp rep (live_ids idx1))"
    unfolding phase2_reload_def Let_def by (intro read_only_intros)
  have f2: "files w2 = files w1" "same_host w1 w2" using keepsD [OF ro 2] by (auto simp: same_disk_def)
  have ch2: "\<not> same_at {p} w2 w'" using ch1 f2 by (auto simp: same_at_def same_host_def)
  obtain st where st: "r2 = Inr (st, None)" "phase2_collect g v sp fence st w2 = (r, w')"
    by (rule gc_next_past [OF g1 2 ch2])
  obtain rep2 liveSet where st2: "st = (rep2, liveSet)" by fastforce
  have "\<exists>idx. cached w2 = Some idx \<and> liveSet = live_ids idx"
  proof (cases "fpNow = fp")
    case True
    then show ?thesis using 2 st(1) st2 c1 by (auto simp: phase2_reload_def io_ret_def)
  next
    case False
    then obtain w3 where "liveChunkSet g v w3 = (Inr liveSet, w2)"
      using 2 st(1) st2 by (auto simp: phase2_reload_def or_stop_def Let_def io_try_def io_ret_def split: prod.splits sum.splits)
    then show ?thesis by (rule liveChunkSet_cached)
  qed
  then obtain idx where idx: "cached w2 = Some idx" "liveSet = live_ids idx" by blast
  have "cached w' = Some idx" using ignoresD [OF ignores_collect(2) [OF ext_fields(1)] st(2)] idx(1) by simp
  moreover have "map_of (files w2) p = Some f" using assms(7) 1(2) f2(1) by simp
  ultimately show ?thesis
    using phase2_collect_removal [OF assms(1-4) st(2) [unfolded st2] _ assms(8)] idx(2) 1(2,3) f2 by (auto simp: same_host_def)
qed

section \<open>Phase 1\<close>

lemma leaves_save_seen: "sp \<notin> S \<Longrightarrow> leaves S (saveSeenStore g sp m)"
  unfolding saveSeenStore_def by (intro leaves_intros leaves_pure)

lemma phase1_marks_past:
  fixes w w' :: "'z world_scheme"
  assumes "tidy_root v" and "\<forall>ks. mset (map_order (gc_store g) ks) = mset ks" and "sp \<in> off_intents v" and "sp \<noteq> p" and "p \<in> off_intents v"
    and "found v fs chunks" and "phase1_marks g v sp liveSet chunks intents cont (rep, seen, dirty) w = (r, w')" and "\<not> same_at {p} w w'"
  obtains rep3 w2 where "cont rep3 w2 = (r, w')" "same_at {p} w w2" "\<not> same_at {p} w2 w'"
    "\<And>h :: 'z world_scheme \<Rightarrow> 'h. ext_field h \<Longrightarrow> h w2 = h w"
    "seen_law g \<Longrightarrow> seen_file g (files w2) sp = (if dirty then Some seen else seen_file g (files w) sp)"
proof -
  let ?S = "{p, sp}"
  let ?loop = "gc_fold (phase1_chunk g v liveSet chunks intents) rep (map_order (gc_store g) (map fst chunks))"
  obtain r1 w1 where 1: "?loop w = (r1, w1)" by fastforce
  have s1: "same_at ?S w w1"
  proof (rule gc_fold_keeps [OF 1, where Q = "\<lambda>_. True"])
    fix cid st assume "cid \<in> set (map_order (gc_store g) (map fst chunks))"
    then have "cid \<in> fst ` set chunks" using assms(2) by (metis list.set_map mset_eq_setD)
    then show "leaves ?S (phase1_chunk g v liveSet chunks intents st cid)"
      by (rule phase1_chunk_leaves [OF assms(1,6)]) (use assms(3,5) in auto)
  qed simp_all
  have c1: "\<not> same_at {p} w1 w'" using assms(8) same_at_mono [OF s1, of "{p}"] part.trans by blast
  obtain rep2 where 2: "r1 = Inr (rep2, None)"
    "or_stop (if dirty then saveSeenStore g sp seen else io_ret ()) (sort_phase1 rep2) (\<lambda>_. cont (sort_phase1 rep2)) w1 = (r, w')"
  proof -
    have g: "gc_next ?loop (\<lambda>rep2. rep2) (\<lambda>rep2. or_stop (if dirty then saveSeenStore g sp seen else io_ret ()) (sort_phase1 rep2)
        (\<lambda>_. cont (sort_phase1 rep2))) w = (r, w')" using assms(7) by (simp add: phase1_marks_def)
    show thesis by (rule gc_next_past [OF g 1 c1]) (rule that)
  qed
  have "leaves {p} (if dirty then saveSeenStore g sp seen else io_ret ())"
    using leaves_save_seen [of sp "{p}" g seen] assms(4) by (auto simp: part.keeps_pure)
  from or_stop_past [OF 2(2) this c1] obtain u w2 where
    3: "(if dirty then saveSeenStore g sp seen else io_ret ()) w1 = (Inr u, w2)" "same_at {p} w1 w2" "\<not> same_at {p} w2 w'"
      "cont (sort_phase1 rep2) w2 = (r, w')" by metis
  have "seen_file g (files w2) sp = (if dirty then Some seen else seen_file g (files w) sp)" if "seen_law g"
    using 3(1) saveSeenStore_file [OF that] s1 by (cases dirty) (auto simp: io_ret_def seen_file_def same_at_def)
  moreover have "h w2 = h w" if h: "ext_field h" for h :: "'z world_scheme \<Rightarrow> 'h"
  proof -
    have "ignores h ?loop" by (intro field_intros h)
    moreover have "ignores h (if dirty then saveSeenStore g sp seen else io_ret ())" by (intro field_intros h)
    ultimately show ?thesis using ignoresD 1 3(1) by metis
  qed
  moreover have "same_at {p} w w2" using s1 3(2) part.trans same_at_mono [OF s1, of "{p}"] by blast
  ultimately show thesis using that 3 by blast
qed

lemma phase1_seen:
  fixes w w' :: "'z world_scheme"
  assumes "gc_fold (phase1_intent g liveSet chunks intents) (rep, seen0, False) cids w = (Inr ((rep1, seen1, dirty), e), w')"
  shows "seen_from g (clock_src w) seen0 seen1 \<and> (\<not> dirty \<longrightarrow> seen1 = seen0)"
proof -
  let ?I = "\<lambda>st (u :: 'z world_scheme). clock_src u = clock_src w
      \<and> (case st of (_, seen, dirty) \<Rightarrow> seen_from g (clock_src w) seen0 seen \<and> (\<not> dirty \<longrightarrow> seen = seen0))"
  have "?I (rep1, seen1, dirty) w'"
  proof (rule gc_fold_inv [where I = ?I, OF assms])
    show "?I (rep, seen0, False) w" by (simp add: seen_from_def)
    fix cid st st' e and u u' :: "'z world_scheme"
    assume I: "?I st u" and p: "phase1_intent g liveSet chunks intents st cid u = (Inr (st', e), u')"
    obtain ra sa da rb sb db where st: "st = (ra, sa, da)" "st' = (rb, sb, db)" by (metis prod.collapse)
    have "ext_field (clock_src :: 'z world_scheme \<Rightarrow> nat \<Rightarrow> int)" by (simp add: ext_field_def)
    then have "clock_src u' = clock_src u" using ignoresD [OF ignores_phases(1) p] by blast
    then show "?I st' u'" using I phase1_intent_seen [OF p [unfolded st]] by (simp add: st)
  qed
  then show ?thesis by simp
qed

lemma phase1_removal:
  fixes w w' :: "'z vault_state_scheme"
  assumes "tidy_root v" and "\<forall>ks. mset (map_order (gc_store g) ks) = mset ks" and "sp \<in> off_intents v" and "chunk_object v p" and "sp \<noteq> p"
    and "gc_phase1 g v sp rep cont w = (r, w')" and "\<not> same_at {p} w w'"
  obtains fp idx rep3 w2 seen0 seen1 where "cont fp (live_ids idx) rep3 w2 = (r, w')" "same_at {p} w w2" "cached w2 = Some idx"
    "seen_file g (files w) sp = Some seen0" "seen_law g \<Longrightarrow> seen_file g (files w2) sp = Some seen1"
    "seen_from g (clock_src w) seen0 seen1"
proof -
  have po: "p \<in> off_intents v" by (rule chunk_off_intents [OF assms(1,4)])
  let ?fin = "\<lambda>fp liveSet chunks intents seen0. gc_next (gc_fold (phase1_intent g liveSet chunks intents) (rep, seen0, False)
         (map_order (gc_store g) (map fst intents))) fst (phase1_marks g v sp liveSet chunks intents (cont fp liveSet))"
  from assms(6) [unfolded gc_phase1_def] obtain u1 w1 where 1: "files w1 = files w" "same_host w w1" and ch1: "\<not> same_at {p} w1 w'" and
    g1: "or_stop (indexFingerprint v) rep (\<lambda>fp. or_stop (liveChunkSet g v) rep (\<lambda>liveSet. or_stop (walkChunkFiles v) rep (\<lambda>chunks.
      or_stop (walkIntents g v) rep (\<lambda>intents. or_stop (loadSeenStore g sp) rep (?fin fp liveSet chunks intents))))) w1 = (r, w')"
    by (rule past_read_only [OF _ read_only_reload(1) assms(7)])
  from g1 obtain fp w2 where 2: "files w2 = files w1" "same_host w1 w2" and ch2: "\<not> same_at {p} w2 w'" and
    g2: "or_stop (liveChunkSet g v) rep (\<lambda>liveSet. or_stop (walkChunkFiles v) rep (\<lambda>chunks.
      or_stop (walkIntents g v) rep (\<lambda>intents. or_stop (loadSeenStore g sp) rep (?fin fp liveSet chunks intents)))) w2 = (r, w')"
    by (rule past_read_only [OF _ read_only_reload(2) ch1])
  from g2 obtain liveSet w3 where l: "liveChunkSet g v w2 = (Inr liveSet, w3)" and 3: "files w3 = files w2" "same_host w2 w3"
    and ch3: "\<not> same_at {p} w3 w'" and
    g3: "or_stop (walkChunkFiles v) rep (\<lambda>chunks.
      or_stop (walkIntents g v) rep (\<lambda>intents. or_stop (loadSeenStore g sp) rep (?fin fp liveSet chunks intents))) w3 = (r, w')"
    by (rule past_read_only [OF _ read_only_gc_index(2) ch2])
  obtain idx where idx: "cached w3 = Some idx" "liveSet = live_ids idx" using liveChunkSet_cached [OF l] by blast
  from g3 obtain chunks w4 where c: "walkChunkFiles v w3 = (Inr chunks, w4)" and 4: "files w4 = files w3" "same_host w3 w4"
    and ch4: "\<not> same_at {p} w4 w'" and
    g4: "or_stop (walkIntents g v) rep (\<lambda>intents. or_stop (loadSeenStore g sp) rep (?fin fp liveSet chunks intents)) w4 = (r, w')"
    by (rule past_read_only [OF _ read_only_gc_walks(3) ch3])
  from g4 obtain intents w5 where i: "walkIntents g v w4 = (Inr intents, w5)" and 5: "files w5 = files w4" "same_host w4 w5"
    and ch5: "\<not> same_at {p} w5 w'" and
    g5: "or_stop (loadSeenStore g sp) rep (?fin fp liveSet chunks intents) w5 = (r, w')"
    by (rule past_read_only [OF _ read_only_gc_walks(2) ch4])
  from g5 obtain seen0 w6 where s: "loadSeenStore g sp w5 = (Inr seen0, w6)" and 6: "files w6 = files w5" "same_host w5 w6"
    and ch6: "\<not> same_at {p} w6 w'" and g6: "?fin fp liveSet chunks intents seen0 w6 = (r, w')"
    by (rule past_read_only [OF _ read_only_gc_walks(4) ch5])
  have h6: "files w6 = files w" "same_host w w6" using 1 2 3 4 5 6 by (auto simp: same_host_def)
  have io: "intents_ok v intents" using walkIntents_files [OF assms(1) i] by (simp add: intents_ok_def)
  have fd: "found v (files w3) chunks" by (rule walkChunkFiles_found [OF c])
  have sf: "seen_file g (files w) sp = Some seen0" using loadSeenStore_file [OF s] h6 6(1) by simp
  have c6: "cached w6 = Some idx"
    using idx(1) ignoresD [OF ignores_gc_walks(2) [OF ext_fields(1)] c] ignoresD [OF ignores_gc_walks(1) [OF ext_fields(1)] i]
      ignoresD [OF ignores_gc_walks(3) [OF ext_fields(1)] s] by simp
  let ?loop = "gc_fold (phase1_intent g liveSet chunks intents) (rep, seen0, False) (map_order (gc_store g) (map fst intents))"
  obtain r7 w7 where 7: "?loop w6 = (r7, w7)" by fastforce
  have s7: "same_at {p, sp} w6 w7"
  proof (rule gc_fold_keeps [OF 7, where Q = "\<lambda>_. True"])
    fix cid st assume "cid \<in> set (map_order (gc_store g) (map fst intents))"
    then have "cid \<in> fst ` set intents" using assms(2) by (metis list.set_map mset_eq_setD)
    then show "leaves {p, sp} (phase1_intent g liveSet chunks intents st cid)"
      by (rule phase1_intent_leaves [OF io]) (use assms(3) po in auto)
  qed simp_all
  have ch7: "\<not> same_at {p} w7 w'" using ch6 same_at_mono [OF s7, of "{p}"] part.trans by blast
  obtain st where 8: "r7 = Inr (st, None)" "phase1_marks g v sp liveSet chunks intents (cont fp liveSet) st w7 = (r, w')"
    by (rule gc_next_past [OF g6 7 ch7])
  obtain rep1 seen1 dirty where st: "st = (rep1, seen1, dirty)" by (metis prod.collapse)
  have sn: "seen_from g (clock_src w) seen0 seen1" "\<not> dirty \<longrightarrow> seen1 = seen0"
    using phase1_seen [OF 7 [unfolded 8(1) st]] h6(2) by (auto simp: same_host_def)
  have c7: "cached w7 = Some idx" using ignoresD [OF ignores_gc_fold [OF ignores_phases(1) [OF ext_fields(1)]] 7] c6 by simp
  obtain rep3 w8 where 9: "cont fp liveSet rep3 w8 = (r, w')" "same_at {p} w7 w8" "cached w8 = cached w7"
    "seen_law g \<Longrightarrow> seen_file g (files w8) sp = (if dirty then Some seen1 else seen_file g (files w7) sp)"
    by (rule phase1_marks_past [OF assms(1,2,3,5) po fd 8(2) [unfolded st] ch7]) (use ext_fields(1) in blast)
  have "seen_file g (files w8) sp = Some seen1" if "seen_law g"
    using 9(4) [OF that] sn(2) sf s7 h6(1) by (cases dirty) (auto simp: seen_file_def same_at_def)
  moreover have "same_at {p} w w8" using s7 9(2) h6 by (auto simp: same_at_def same_host_def)
  ultimately show thesis using that [OF 9(1) [unfolded idx(2)]] c7 9(3) sf sn(1) by metis
qed

section \<open>A whole run\<close>

text \<open>The first-seen record of the device lies outside the vault.\<close>

definition seen_outside :: "gc_env \<Rightarrow> 'v vault_scheme \<Rightarrow> string \<Rightarrow> 'z vault_state_scheme \<Rightarrow> string \<Rightarrow> bool" where
  "seen_outside g v override w sp \<longleftrightarrow> fst (seenStorePath g v override w) = Inr sp
     \<and> \<not> HasPrefix sp (MetaRoot v @ ''/'') \<and> \<not> HasPrefix (path_Base sp) ''.tmp-''"

lemma seen_outside_sets:
  assumes "tidy_root v" and "seen_outside g v o' w sp"
  shows "sp \<in> off_intents v" "sp \<in> outside_manifests v" "\<not> chunk_object v sp"
  using assms by (auto simp: seen_outside_def off_intents_def outside_manifests_def chunk_object_def roots [OF assms(1)] HasPrefix_iff)

lemma seenStorePath_config: "vConfig w' = vConfig w \<Longrightarrow> fst (seenStorePath g v o' w') = fst (seenStorePath g v o' w)"
  by (auto simp: seenStorePath_def get_config_def io_simps Let_def split: sum.split)

lemma gc_removal:
  fixes w w' :: "'z vault_state_scheme"
  assumes "store_laws (gc_store g) v P" and "wf_map (files w)" and "seen_outside g v (opt_SeenStore opts) w sp"
    and "chunk_object v p" and "map_of (files w) p = Some f"
    and "GarbageCollect g v opts w = (r, w')" and "map_of (files w') p \<noteq> Some f"
  shows "opt_Confirm opts \<and> (\<exists>i idx seen0 seen1 u. cached w' = Some idx \<and> chunkIDFromFileName (path_Base p) \<notin> set (live_ids idx)
    \<and> gc_fence opts \<le> time_Sub (clock_src w i) (mtime f)
    \<and> seen_file g (files w) sp = Some seen0 \<and> seen_from g (clock_src w) seen0 seen1
    \<and> (seen_law g \<longrightarrow> parseSeenTime g (seen_at seen1 (chunkIDFromFileName (path_Base p))) = Some u
        \<and> gc_fence opts \<le> time_Sub (clock_src w i) u))"
proof -
  let ?S = "{p}"
  have t: "tidy_root v" and mo: "\<forall>ks. mset (map_order (gc_store g) ks) = mset ks" using assms(1) by (auto simp: store_laws_def)
  note so = seen_outside_sets [OF t assms(3)]
  have po: "p \<in> outside_manifests v" by (rule chunk_object_outside [OF t assms(4)])
  have ps: "sp \<noteq> p" using so(3) assms(4) by blast
  have ch: "\<not> same_at ?S w w'" using assms(5,7) by (simp add: same_at_def)
  let ?rep = "empty_gc\<lparr>gc_Confirm := opt_Confirm opts, gc_Fence := fmtDuration g (gc_fence opts)\<rparr>"
  let ?body = "if \<not> opt_Confirm opts then io_bind time_Now (\<lambda>now. gcDryRun g v ?rep now (gc_fence opts))
      else gcConfirm g v ?rep (gc_fence opts) (opt_SeenStore opts)"
  from assms(6) [unfolded GarbageCollect_def Let_def] obtain u1 w1 where m1: "ReloadIndex (gc_store g) v w = (Inr u1, w1)"
    and 1: "files w1 = files w" "same_host w w1" and ch1: "\<not> same_at ?S w1 w'" and
    g1: "or_stop (gcRefusalGate g v) empty_gc (\<lambda>_. ?body) w1 = (r, w')"
    by (rule past_read_only [OF _ read_only_reload(1) ch])
  from g1 obtain u2 w2 where m2: "gcRefusalGate g v w1 = (Inr u2, w2)" and 2: "files w2 = files w1" "same_host w1 w2" and ch2: "\<not> same_at ?S w2 w'" and g2: "?body w2 = (r, w')"
    by (rule past_read_only [OF _ read_only_gate ch1])
  have cf: "opt_Confirm opts"
  proof (rule ccontr)
    assume n: "\<not> opt_Confirm opts"
    have "read_only (io_bind time_Now (\<lambda>now. gcDryRun g v ?rep now (gc_fence opts)))" by (intro read_only_intros)
    then have "leaves ?S (io_bind time_Now (\<lambda>now. gcDryRun g v ?rep now (gc_fence opts)))" by (rule leaves_read_only)
    moreover have "io_bind time_Now (\<lambda>now. gcDryRun g v ?rep now (gc_fence opts)) w2 = (r, w')" using g2 n by simp
    ultimately have "same_at ?S w2 w'" by (rule keepsD)
    then show False using ch2 by simp
  qed
  define now where "now = clock_src w2 (clock_ix w2)"
  let ?w3 = "w2\<lparr>clock_ix := Suc (clock_ix w2)\<rparr>"
  obtain rc w4 where co: "compact (gc_store g) v now True (gc_fence opts) ?w3 = (rc, w4)" by fastforce
  have wf: "wf_map (files ?w3)" using assms(2) 1 2 by simp
  have s4: "same_host ?w3 w4" "\<forall>q\<in>outside_manifests v. map_of (files w4) q = map_of (files ?w3) q"
    using compact_frame [OF assms(1) wf co] by auto
  have ch4: "\<not> same_at ?S w4 w'" using ch2 s4 po by (auto simp: same_at_def same_host_def)
  obtain cr where 5: "or_stop (seenStorePath g v (opt_SeenStore opts)) (?rep\<lparr>CompactPart := Some cr\<rparr>) (\<lambda>seenPath.
      gc_phase1 g v seenPath (?rep\<lparr>CompactPart := Some cr\<rparr>) (gc_phase2 g v seenPath (gc_fence opts))) w4 = (r, w')"
    using g2 cf co ch4 part.refl
    by (auto simp: gcConfirm_def io_bind_def time_Now_def io_ret_def Let_def now_def split: sum.splits prod.splits option.splits)
  from 5 obtain sp' w5 where m5: "seenStorePath g v (opt_SeenStore opts) w4 = (Inr sp', w5)" and f5: "files w5 = files w4" "same_host w4 w5"
    and ch5: "\<not> same_at ?S w5 w'" and g5: "gc_phase1 g v sp' (?rep\<lparr>CompactPart := Some cr\<rparr>) (gc_phase2 g v sp' (gc_fence opts)) w5 = (r, w')"
    by (rule past_read_only [OF _ read_only_gc_index(3) ch4])
  have "ignores vConfig (gcRefusalGate g v)"
    unfolding gcRefusalGate_def inspectManifestStore_def inspect_manifest_def Let_def by (intro field_intros ext_fields)
  then have "vConfig w4 = vConfig w"
    using ignoresD m2 ignoresD [OF ignores_index(3) m1] ignoresD [OF ignores_index(4) co] by fastforce
  then have "fst (seenStorePath g v (opt_SeenStore opts) w4) = fst (seenStorePath g v (opt_SeenStore opts) w)"
    by (rule seenStorePath_config)
  then have sp': "sp' = sp" using m5 assms(3) by (simp add: seen_outside_def)
  obtain fp idx rep3 w6 seen0 seen1 where 6: "gc_phase2 g v sp' (gc_fence opts) fp (live_ids idx) rep3 w6 = (r, w')" "same_at ?S w5 w6"
    "cached w6 = Some idx" "seen_file g (files w5) sp' = Some seen0" "seen_law g \<Longrightarrow> seen_file g (files w6) sp' = Some seen1"
    "seen_from g (clock_src w5) seen0 seen1"
    by (rule phase1_removal [OF t mo so(1) [folded sp'] assms(4) ps [folded sp'] g5 ch5]) (rule that, simp_all)
  have h: "clock_src w5 = clock_src w" using 1 2 s4 f5 by (auto simp: same_host_def)
  have fp: "map_of (files w6) p = Some f" using 6(2) assms(5) 1(1) 2(1) s4(2) po f5(1) by (auto simp: same_at_def)
  have h6: "clock_src w6 = clock_src w" using h 6(2) by (simp add: same_at_def same_host_def)
  from phase2_removal [OF t mo so(3) [folded sp'] assms(4) 6(1,3) fp assms(7)]
  obtain i seen u idx' where 7: "cached w' = Some idx'" "seen_file g (files w6) sp' = Some seen"
    "chunkIDFromFileName (path_Base p) \<notin> set (live_ids idx')" "gc_fence opts \<le> time_Sub (clock_src w i) (mtime f)"
    "parseSeenTime g (seen_at seen (chunkIDFromFileName (path_Base p))) = Some u" "gc_fence opts \<le> time_Sub (clock_src w i) u"
    unfolding h6 by blast
  have "seen_file g (files w) sp = Some seen0"
    using 6(4) s4(2) so(2) f5(1) 1(1) 2(1) by (simp add: sp' seen_file_def)
  moreover have "seen_law g \<Longrightarrow> seen = seen1" using 6(5) 7(2) by simp
  ultimately show ?thesis using cf 7 6(6) h by metis
qed

end
