(* ===== verification/GcRuns.thy ===== *)
theory GcRuns
  imports GcSafety
begin

text \<open>
  The properties of a run of the garbage collector (\<^verbatim>\<open>GarbageCollect\<close> of \<^verbatim>\<open>internal/vault/gc.go\<close>), and a
  small store on which they are evaluated: a dry run writes nothing, a removal meets every fence and
  no live record needs the chunk, marking and removing take two runs, and a store whose manifests
  are gone is refused.
\<close>

section \<open>A run over a wiped store\<close>

text \<open>A file name the walk over chunk objects counts.\<close>

definition chunk_named :: "string \<Rightarrow> bool" where
  "chunk_named p \<longleftrightarrow> HasSuffix (ToLower (path_Base p)) ''.chunk'' \<and> chunkIDFromFileName (path_Base p) \<noteq> ''''"

lemma update_nonempty: "AList.update k x m \<noteq> []"
  by (cases m) auto

lemma add_chunk_step:
  assumes "add_chunk_file out p w = (r, w1)" and "map_of (files w) p \<noteq> None"
  shows "w1 = w" "r = Inr out1 \<Longrightarrow> out \<noteq> [] \<or> chunk_named p \<Longrightarrow> out1 \<noteq> []" "no_faults w \<Longrightarrow> \<not> isl r"
  using assms
  by (auto simp: add_chunk_file_def os_Stat_def check_fault_def lookup_file_def Let_def io_simps chunk_named_def update_nonempty no_faults_def is_not_exist_def
      split: option.splits if_splits)

lemma chunk_fold:
  assumes "io_fold add_chunk_file out ps w = (r, w1)" and "\<forall>p\<in>set ps. map_of (files w) p \<noteq> None"
  shows "w1 = w \<and> (\<forall>out1. r = Inr out1 \<longrightarrow> out \<noteq> [] \<or> (\<exists>p\<in>set ps. chunk_named p) \<longrightarrow> out1 \<noteq> []) \<and> (no_faults w \<longrightarrow> \<not> isl r)"
  using assms
proof (induction ps arbitrary: out)
  case Nil
  then show ?case by (auto simp: io_simps)
next
  case (Cons p ps)
  obtain r0 w0 where s: "add_chunk_file out p w = (r0, w0)" by fastforce
  note st = add_chunk_step [OF s] 
  have p: "map_of (files w) p \<noteq> None" using Cons.prems(2) by simp
  show ?case
  proof (cases r0)
    case (Inl e)
    then show ?thesis using Cons.prems(1) s st(1,3) [OF p] by (auto simp: io_bind_def)
  next
    case (Inr out0)
    then have "io_fold add_chunk_file out0 ps w = (r, w1)" using Cons.prems(1) s st(1) [OF p] by (simp add: io_bind_def)
    from Cons.IH [OF this] show ?thesis using Cons.prems(2) st(2) [OF p Inr] by auto
  qed
qed

lemma walk_finds_chunk:
  assumes "walkChunkFiles v w = (r, w1)" and "map_of (files w) p = Some f" and "HasPrefix p (chunkRoot v @ ''/'')" and "chunk_named p"
  shows "w1 = w" "\<forall>out. r = Inr out \<longrightarrow> out \<noteq> [] \<or> fault w OpList (chunkRoot v) \<noteq> None" "no_faults w \<Longrightarrow> \<not> isl r"
proof -
  let ?ps = "walk_files (chunkRoot v) (files w)"
  have ps: "\<forall>q\<in>set ?ps. map_of (files w) q \<noteq> None" "p \<in> set ?ps"
    using assms(2,3) by (auto simp: set_walk map_of_eq_None_iff dest: map_of_SomeD) (metis fst_conv imageI map_of_SomeD)
  obtain r1 w2 where fo: "io_fold add_chunk_file [] ?ps w = (r1, w2)" by fastforce
  from chunk_fold [OF fo ps(1)] ps(2) assms(1,4) fo
  show "w1 = w" "\<forall>out. r = Inr out \<longrightarrow> out \<noteq> [] \<or> fault w OpList (chunkRoot v) \<noteq> None" "no_faults w \<Longrightarrow> \<not> isl r"
    by (auto simp: walkChunkFiles_def os_walk_def io_simps check_fault_def no_faults_def is_not_exist_def split: option.splits)
qed

lemma inspect_empty:
  assumes "holds s v P Map.empty w" and "inspectManifestStore s v w = (r, w1)"
  shows "w1 = w" "r = Inr st \<Longrightarrow> st = \<lparr>hasAny = False, hasNonTombstone = False\<rparr>" "no_faults w \<Longrightarrow> \<not> isl r"
proof -
  have n: "\<forall>p\<in>set (walk_files (mroot v) (files w)). manifestIDFromFileName (path_Base p) = Inr ''''"
    using assms(1) by (auto simp: holds_def)
  have "io_fold (inspect_manifest s v) st ps w = (Inr st, w)" if "\<forall>p\<in>set ps. manifestIDFromFileName (path_Base p) = Inr ''''" for ps st
    using that by (induction ps) (auto simp: io_simps inspect_manifest_def Let_def)
  note fo = this [OF n]
  show "w1 = w" "r = Inr st \<Longrightarrow> st = \<lparr>hasAny = False, hasNonTombstone = False\<rparr>" "no_faults w \<Longrightarrow> \<not> isl r"
    using assms(2) fo by (auto simp: inspectManifestStore_def mroot_def os_walk_def io_simps check_fault_def no_faults_def split: option.splits)
qed

lemma reload_coherent:
  assumes "coherent s v P M w" and "ReloadIndex s v w = (r, w1)"
  shows "coherent s v P M w1" "same_host w w1" "files w1 = files w" "no_faults w \<Longrightarrow> \<not> isl r" "r = Inr u \<Longrightarrow> \<exists>idx. cached w1 = Some idx"
proof -
  obtain r0 w0 where c: "cachedIndexLocked s v (w\<lparr>cached := None\<rparr>) = (r0, w0)" by fastforce
  have e: "w1 = w0" "isl r \<longleftrightarrow> isl r0"
    using assms(2) c by (auto simp: ReloadIndex_def io_bind_def io_ret_def set_cached_def split: sum.splits)
  have h: "same_host w (w\<lparr>cached := None\<rparr>)" "no_faults (w\<lparr>cached := None\<rparr>) = no_faults w" by (auto simp: same_host_def no_faults_def)
  note k = coherent_cached [OF coherent_drop_cache [OF assms(1)] c]
  show "coherent s v P M w1" "files w1 = files w" "no_faults w \<Longrightarrow> \<not> isl r" using k h e by auto
  show "same_host w w1" using k h(1) e(1) same_host_trans by blast
  show "\<exists>idx. cached w1 = Some idx" if "r = Inr u" using k e that by (cases r0) auto
qed

lemma gate_wiped:
  assumes "coherent (gc_store g) v P Map.empty w" and "cached w = Some idx" and "map_of (files w) p = Some f"
    and "HasPrefix p (chunkRoot v @ ''/'')" and "chunk_named p" and "gcRefusalGate g v w = (r, w1)"
  shows "isl r" "no_faults w \<Longrightarrow> \<exists>m. r = Inl (ErrGCRefused m)"
proof -
  note h = coherentD [OF assms(1)]
  have "map_of (Files idx) = Map.empty" using h(7) [OF assms(2)] by (simp add: live_def fun_eq_iff)
  then have f: "Files idx = []" by simp
  have li: "LoadIndex (gc_store g) v w = (Inr idx, w)"
    using assms(2) by (simp add: LoadIndex_def cachedIndexLocked_def io_simps get_state_def)
  obtain ri wi where i: "inspectManifestStore (gc_store g) v w = (ri, wi)" by fastforce
  obtain rc wc where c: "walkChunkFiles v w = (rc, wc)" by fastforce
  note wi = inspect_empty [OF h(4) i] and wc = walk_finds_chunk [OF c assms(3-5)]
  have "fault w OpList (chunkRoot v) \<noteq> None \<Longrightarrow> isl rc"
    using c by (auto simp: walkChunkFiles_def os_walk_def io_simps check_fault_def is_not_exist_def)
  then show "isl r" "no_faults w \<Longrightarrow> \<exists>m. r = Inl (ErrGCRefused m)"
    using assms(6) h(5) li f i c wi wc
    by (cases ri; cases rc; auto simp: gcRefusalGate_def io_bind_def io_ret_def io_fail_def get_config_def split: if_splits)+
qed

lemma refuse_wiped:
  assumes "coherent (gc_store g) v P Map.empty w" and "map_of (files w) p = Some f"
    and "HasPrefix p (chunkRoot v @ ''/'')" and "chunk_named p" and "GarbageCollect g v opts w = (r, w')"
  shows "files w' = files w \<and> (\<exists>e. r = Inr (empty_gc, Some e)) \<and> (no_faults w \<longrightarrow> (\<exists>m. r = Inr (empty_gc, Some (ErrGCRefused m))))"
proof -
  obtain r1 w1 where rl: "ReloadIndex (gc_store g) v w = (r1, w1)" by fastforce
  note c1 = reload_coherent [OF assms(1) rl]
  show ?thesis
  proof (cases r1)
    case (Inl e)
    then show ?thesis using assms(5) rl c1 by (auto simp: GarbageCollect_def Let_def or_stop_def io_try_def io_ret_def)
  next
    case (Inr u)
    then obtain idx where idx: "cached w1 = Some idx" using c1(5) by blast
    obtain r2 w2 where g: "gcRefusalGate g v w1 = (r2, w2)" by fastforce
    have p: "map_of (files w1) p = Some f" using c1(3) assms(2) by simp
    note gw = gate_wiped [OF c1(1) idx p assms(3,4) g]
    then obtain e where e: "r2 = Inl e" by (auto simp: isl_def)
    have "files w2 = files w1" using read_only_gate g unfolding read_only_def by (metis snd_conv)
    moreover have "no_faults w \<Longrightarrow> no_faults w1" using c1(2) no_faults_same by blast
    ultimately show ?thesis using assms(5) rl Inr g e c1(3) gw(2)
      by (auto simp: GarbageCollect_def Let_def or_stop_def io_try_def io_ret_def)
  qed
qed

text \<open>A stamp reads back as a time less than a second before the time it was made from.\<close>

definition stamp_law :: "gc_env \<Rightarrow> bool" where
  "stamp_law g \<longleftrightarrow> (\<forall>t. \<exists>u. parseSeenTime g (fmtRFC3339 g t) = Some u \<and> t - 1000000000 < u)"

section \<open>A small vault with garbage\<close>

text \<open>
  A version-1 vault whose index is one encrypted file with one record, and one chunk object that the
  record does not name, marked and first seen at the clock's zero; the clock stands at two hours.
\<close>

definition short_stamp :: "int \<Rightarrow> string" where
  "short_stamp t = (if t = 0 then ''zero'' else if t = 2 * Hour then ''two'' else enc_int t)"

definition read_stamp :: "string \<Rightarrow> int option" where
  "read_stamp b = (if b = ''zero'' then Some 0 else if b = ''two'' then Some (2 * Hour) else map_option fst (dec_int b))"

definition demo_live :: FileRecord where
  "demo_live = demo_file\<lparr>Chunks := [\<lparr>ref_ID = replicate 64 (CHR ''b''), ref_Size = 1\<rparr>]\<rparr>"

definition gc_senv :: store_env where
  "gc_senv = demo_senv\<lparr>s_guard := (s_guard demo_senv)\<lparr>fmtNano := \<lambda>_. ''t''\<rparr>,
     unmarshalIndex := \<lambda>_. Some \<lparr>idx_Version = 1, idx_UpdatedAt = ''t'', Files = [(''content/a'', demo_live)]\<rparr>\<rparr>"

definition demo_gc :: gc_env where
  "demo_gc = \<lparr>gc_store = gc_senv, fmtRFC3339 = short_stamp, parseRFC3339 = read_stamp,
     fmtDuration = (\<lambda>_. ''1h''), marshalSeen = (\<lambda>m. CHR ''{'' # enc_list (enc_pair enc_str enc_str) m @ ''}''),
     unmarshalSeen = (\<lambda>b. map_option fst (dec_list (dec_pair dec_str dec_str) (tl b)))\<rparr>"

definition demo_chunk :: string where
  "demo_chunk = ''/vault/SeaVaultData/objects/chunks/aa/aaaaaaaaaaaaaaaaaaaaaaaaaaaaaaaaaaaaaaaaaaaaaaaaaaaaaaaaaaaaaaaa.chunk''"

definition demo_seen :: string where "demo_seen = ''/app/data/gc-seen/v.json''"

definition demo_garbage :: vault_state where
  "demo_garbage = (demo_vstate None)\<lparr>clock_src := \<lambda>_. 2 * Hour,
     vConfig := demo_config\<lparr>Version := 1, Crypto := (Crypto demo_config)\<lparr>ManifestMode := ''''\<rparr>\<rparr>, files := [
     (''/vault/SeaVaultData/index.dat'', \<lparr>data = encodeEncrypted indexMagic (replicate 12 (CHR ''r''))
        (aead_Seal hex_crypt ''i'' (replicate 12 (CHR ''r'')) ''x'' indexAAD), mtime = 0\<rparr>),
     (demo_chunk, \<lparr>data = ''x'', mtime = 0\<rparr>),
     (''/vault/SeaVaultData/gc-intents/aaaaaaaaaaaaaaaaaaaaaaaaaaaaaaaaaaaaaaaaaaaaaaaaaaaaaaaaaaaaaaaa.intent'', \<lparr>data = ''zero'', mtime = 0\<rparr>),
     (demo_seen, \<lparr>data = ''{10'' @ enc_str ''aaaaaaaaaaaaaaaaaaaaaaaaaaaaaaaaaaaaaaaaaaaaaaaaaaaaaaaaaaaaaaaa'' @ ''11110zero}'', mtime = 0\<rparr>)]\<rparr>"

definition demo_opts :: GCOptions where
  "demo_opts = \<lparr>opt_Confirm = True, opt_Fence = 1, opt_SeenStore = ''''\<rparr>"

lemma demo_collected: "map_of (files (snd (GarbageCollect demo_gc demo_vlt demo_opts demo_garbage))) demo_chunk = None"
  by code_simp

lemma gc_senv_cr: "s_cr gc_senv = hex_crypt"
  by (simp add: gc_senv_def demo_senv_cr)

lemma demo_gc_setting:
  "store_laws (gc_store demo_gc) demo_vlt {}" "wf_map (files demo_garbage)"
  "seen_outside demo_gc demo_vlt (opt_SeenStore demo_opts) demo_garbage demo_seen" "chunk_object demo_vlt demo_chunk"
  "map_of (files demo_garbage) demo_chunk = Some \<lparr>data = ''x'', mtime = 0\<rparr>"
proof -
  show "store_laws (gc_store demo_gc) demo_vlt {}"
    using demo_store_laws by (simp add: store_laws_def demo_gc_def gc_senv_cr demo_senv_cr) (simp add: gc_senv_def)
  have "distinct (map fst (files demo_garbage))" by code_simp
  then show "wf_map (files demo_garbage)" by simp
  have "(case fst (seenStorePath demo_gc demo_vlt (opt_SeenStore demo_opts) demo_garbage) of Inl _ \<Rightarrow> False | Inr p \<Rightarrow> p = demo_seen)"
    "\<not> HasPrefix demo_seen (MetaRoot demo_vlt @ ''/'')" "\<not> HasPrefix (path_Base demo_seen) ''.tmp-''" by code_simp+
  then show "seen_outside demo_gc demo_vlt (opt_SeenStore demo_opts) demo_garbage demo_seen"
    by (auto simp: seen_outside_def split: sum.splits)
  show "chunk_object demo_vlt demo_chunk" unfolding chunk_object_def by code_simp
  have "\<not> demo_chunk = ''/vault/SeaVaultData/index.dat''" by code_simp
  then show "map_of (files demo_garbage) demo_chunk = Some \<lparr>data = ''x'', mtime = 0\<rparr>" by (simp add: demo_garbage_def)
qed

lemma demo_gc_laws: "seen_law demo_gc" "stamp_law demo_gc"
proof -
  have c: "codec (enc_list (enc_pair enc_str enc_str)) (dec_list (dec_pair dec_str dec_str))"
    by (rule list_codec, rule str_codec.pair_codec, rule str_codec.codec_axioms)
  have "TrimSpace (CHR ''{'' # x @ ''}'') \<noteq> ''''" for x by (subst TrimSpace_id) (simp_all add: is_space_def)
  then show "seen_law demo_gc" using codec.dec_enc [OF c] by (simp add: seen_law_def demo_gc_def)
  have "enc_int t \<noteq> '''' \<and> enc_int t \<noteq> ''zero'' \<and> enc_int t \<noteq> ''two''" for t by (simp add: enc_int_def)
  moreover have "dec_int (enc_int t) = Some (t, [])" for t using dec_enc_int [of t "[]"] by simp
  ultimately have "parseSeenTime demo_gc (short_stamp t) = Some t" for t
    by (simp add: parseSeenTime_def demo_gc_def short_stamp_def read_stamp_def)
  then show "stamp_law demo_gc" by (simp add: stamp_law_def demo_gc_def)
qed

lemma demo_removed:
  "map_of (files (snd (GarbageCollect demo_gc demo_vlt demo_opts demo_garbage))) demo_chunk \<noteq> Some \<lparr>data = ''x'', mtime = 0\<rparr>"
  by (simp add: demo_collected)

definition wiped :: vault_state where
  "wiped = (demo_vstate None)\<lparr>files := [(demo_chunk, \<lparr>data = ''x'', mtime = 0\<rparr>)]\<rparr>"

lemma wiped_coherent: "coherent (gc_store (demo_gc\<lparr>gc_store := demo_senv\<rparr>)) demo_vlt {} Map.empty wiped"
proof -
  have "\<not> HasPrefix demo_chunk (mroot demo_vlt @ ''/'')" "legacy_path demo_vlt \<noteq> demo_chunk" by code_simp+
  moreover have "store_laws demo_senv demo_vlt {}" using demo_store_laws by (simp add: store_laws_def)
  ultimately show ?thesis using demo_vstate_ok(2) hex_crypt_aead
    by (simp add: coherent_def demo_senv_cr holds_def wiped_def demo_vstate_def walk_files_def usesManifestStore_def demo_config_def rand_ok_def)
qed

section \<open>Properties\<close>

text \<open>
  A dry run only reports: whatever the disk, the options and the outcome, a run without
  confirmation leaves every file as it was.
\<close>

theorem gc_dry_run_pure:
  assumes "GarbageCollect g v opts w = (r, w')" and "\<not> opt_Confirm opts"
  shows "files w' = files w"
proof -
  have "read_only (GarbageCollect g v opts)"
    using assms(2) unfolding GarbageCollect_def Let_def by (simp, intro read_only_intros)
  then show ?thesis using assms(1) unfolding read_only_def by (metis snd_conv)
qed

theorem gc_dry_run_pure_witness:
  "\<exists>r w'. GarbageCollect demo_gc demo_vlt (demo_opts\<lparr>opt_Confirm := False\<rparr>) demo_garbage = (r, w') \<and> files w' = files demo_garbage"
proof -
  obtain r w' where gc: "GarbageCollect demo_gc demo_vlt (demo_opts\<lparr>opt_Confirm := False\<rparr>) demo_garbage = (r, w')" by fastforce
  from gc_dry_run_pure [OF this] show ?thesis using gc by simp
qed



text \<open>
  C5.  What garbage collection may remove.  If a run changes a chunk object, the run was confirmed, no
  record of the index it ended with needs the chunk, the modification time of the object was at
  least a fence old by the clock, and the fence is at least an hour, whatever the options say.
\<close>

theorem gc_removes_only_aged_garbage:
  fixes w w' :: "'z vault_state_scheme"
  assumes "store_laws (gc_store g) v P" and "wf_map (files w)" and "seen_outside g v (opt_SeenStore opts) w sp"
    and "chunk_object v p" and "map_of (files w) p = Some f"
    and "GarbageCollect g v opts w = (r, w')" and "map_of (files w') p \<noteq> Some f"
  shows "opt_Confirm opts \<and> GCFenceMin \<le> gc_fence opts
    \<and> (\<exists>i idx. cached w' = Some idx \<and> gc_fence opts \<le> time_Sub (clock_src w i) (mtime f)
      \<and> (\<forall>q rec ref. (q, rec) \<in> set (Files idx) \<and> ref \<in> set (Chunks rec) \<longrightarrow> ToLower (ref_ID ref) \<noteq> chunkIDFromFileName (path_Base p)))"
proof -
  have "GCFenceMin \<le> gc_fence opts" by (simp add: gc_fence_def Let_def)
  moreover have "ToLower (ref_ID ref) \<in> set (live_ids idx)" if "(q, rec) \<in> set (Files idx)" "ref \<in> set (Chunks rec)" for q rec ref idx
    using that by (force simp: live_ids_def)
  ultimately show ?thesis using gc_removal [OF assms] by metis
qed

theorem gc_removes_only_aged_garbage_witness:
  "\<exists>r w' i idx. GarbageCollect demo_gc demo_vlt demo_opts demo_garbage = (r, w') \<and> cached w' = Some idx
     \<and> gc_fence demo_opts \<le> time_Sub (clock_src demo_garbage i) 0"
proof -
  obtain r w' where gc: "GarbageCollect demo_gc demo_vlt demo_opts demo_garbage = (r, w')" by fastforce
  then have "map_of (files w') demo_chunk \<noteq> Some \<lparr>data = ''x'', mtime = 0\<rparr>" using demo_removed by simp
  from gc_removes_only_aged_garbage [OF demo_gc_setting gc this] show ?thesis using gc by auto
qed

text \<open>
  Marking and removing take two runs.  When the clock of a run stays within the fence, less the
  second to which its stamps are cut, a chunk the run removes had an entry in the first-seen record
  of this device before the run, and that entry was a fence old: a run never removes what it was the
  first to see marked, whoever wrote the intent.
\<close>

theorem gc_two_runs:
  fixes w w' :: "'z vault_state_scheme"
  assumes "store_laws (gc_store g) v P" and "wf_map (files w)" and "seen_outside g v (opt_SeenStore opts) w sp"
    and "chunk_object v p" and "map_of (files w) p = Some f"
    and "GarbageCollect g v opts w = (r, w')" and "map_of (files w') p \<noteq> Some f"
    and "seen_law g" and "stamp_law g" and "\<forall>i j. clock_src w i - clock_src w j \<le> gc_fence opts - 1000000000"
  shows "\<exists>seen0 s u i. seen_file g (files w) sp = Some seen0 \<and> map_of seen0 (chunkIDFromFileName (path_Base p)) = Some s
    \<and> parseSeenTime g s = Some u \<and> gc_fence opts \<le> clock_src w i - u"
proof -
  let ?c = "chunkIDFromFileName (path_Base p)"
  obtain i seen0 seen1 u where k: "seen_file g (files w) sp = Some seen0" "seen_from g (clock_src w) seen0 seen1"
    "parseSeenTime g (seen_at seen1 ?c) = Some u" "gc_fence opts \<le> time_Sub (clock_src w i) u"
    using gc_removal [OF assms(1-7)] assms(8) by blast
  have "min_i64 < GCFenceMin" "GCFenceMin \<le> gc_fence opts"
    by (simp_all add: GCFenceMin_def Hour_def gc_fence_def Let_def)
  then have d: "gc_fence opts \<le> clock_src w i - u" using k(4) by (simp add: time_Sub_def)
  have "seen_at seen1 ?c \<noteq> ''''" using k(3) by (auto simp: parseSeenTime_def)
  then obtain s where s: "map_of seen1 ?c = Some s" "parseSeenTime g s = Some u"
    using k(3) by (auto simp: seen_at_def split: option.splits)
  have "map_of seen0 ?c = Some s"
  proof (rule ccontr)
    assume "map_of seen0 ?c \<noteq> Some s"
    then obtain j where "s = fmtRFC3339 g (clock_src w j)" using k(2) s(1) by (auto simp: seen_from_def)
    then have "clock_src w j - 1000000000 < u" using assms(9) s(2) unfolding stamp_law_def by (metis option.inject)
    then show False using d assms(10) by (smt (verit))
  qed
  then show ?thesis using k(1) s(2) d by blast
qed

theorem gc_two_runs_witness:
  "\<exists>seen0 s u i. seen_file demo_gc (files demo_garbage) demo_seen = Some seen0
     \<and> map_of seen0 (chunkIDFromFileName (path_Base demo_chunk)) = Some s
     \<and> parseSeenTime demo_gc s = Some u \<and> gc_fence demo_opts \<le> clock_src demo_garbage i - u"
proof -
  obtain r w' where gc: "GarbageCollect demo_gc demo_vlt demo_opts demo_garbage = (r, w')" by fastforce
  then have n: "map_of (files w') demo_chunk \<noteq> Some \<lparr>data = ''x'', mtime = 0\<rparr>" using demo_removed by simp
  have "\<forall>i j. clock_src demo_garbage i - clock_src demo_garbage j \<le> gc_fence demo_opts - 1000000000"
    by (simp add: demo_garbage_def gc_fence_def demo_opts_def GCFenceMin_def Hour_def Let_def)
  from gc_two_runs [OF demo_gc_setting gc n demo_gc_laws this] show ?thesis .
qed

end
