(* ===== verification/VaultOps.thy ===== *)
theory VaultOps
  imports GarbageCollector
begin

text \<open>
  The operations of an open vault on files and directories (\<^verbatim>\<open>internal/vault/vault.go\<close> and
  \<^verbatim>\<open>directories.go\<close>): putting a stream, listing, removing, restoring to the host, verification and
  counts, directory markers, the upgrade to the content layout, and opening.  They compose the
  chunk store, the manifest store and the walks of the collector.
\<close>

section \<open>Environment\<close>

text \<open>
  \<open>o_temp\<close> is the random part of the name \<^verbatim>\<open>os.CreateTemp\<close> picks.
\<close>

record ops_env =
  o_gc :: gc_env
  o_temp :: string

abbreviation o_store :: "ops_env \<Rightarrow> store_env" where "o_store o' \<equiv> gc_store (o_gc o')"

abbreviation o_user :: "ops_env \<Rightarrow> user_env" where "o_user o' \<equiv> g_user (s_guard (o_store o'))"

abbreviation files_has :: "Index \<Rightarrow> string \<Rightarrow> bool" where "files_has idx p \<equiv> map_of (Files idx) p \<noteq> None"

definition next_gen :: "int \<Rightarrow> (int, 'z) mio" where
  "next_gen wallNano w = (case nextGeneration (maxGen w) wallNano of (g, m) \<Rightarrow> (Inr g, w\<lparr>maxGen := m\<rparr>))"

text \<open>The commit at the end of an operation: one manifest, or the legacy index as a whole.\<close>

definition commit_record :: "store_env \<Rightarrow> 'v vault_scheme \<Rightarrow> Index \<Rightarrow> string \<Rightarrow> FileRecord \<Rightarrow> (unit, 'z) mio" where
  "commit_record s v idx p rec =
     io_bind get_config (\<lambda>c. if usesManifestStore c then commitFileManifest s v p rec else SaveIndex s v idx)"

section \<open>Putting\<close>

record PutResult =
  put_Path :: string
  put_Size :: int
  ChunkCount :: int
  NewChunkCount :: int

text \<open>\<^verbatim>\<open>putReader\<close>; a zero \<open>modTime\<close> is \<^const>\<open>zeroTime\<close>.\<close>

definition putReader :: "store_env \<Rightarrow> 'v vault_scheme \<Rightarrow> error reader \<Rightarrow> string \<Rightarrow> int \<Rightarrow> int \<Rightarrow> int \<Rightarrow> Index
  \<Rightarrow> (PutResult \<times> Index, 'z) mio" where
  "putReader s v r virtualPath sz mode modTime idx =
     io_bind get_config (\<lambda>c.
     io_bind (put_stream (s_cr s) v (Chunk c) r) (\<lambda>(refs, newCount, tot).
     io_bind (if modTime = zeroTime then time_Now else io_ret modTime) (\<lambda>mt.
     io_bind (now_string s) (\<lambda>now.
     io_bind (nanoOrNow s now) (\<lambda>wallNano.
     io_bind (next_gen wallNano) (\<lambda>generation.
     let sz1 = (if sz < 0 then tot else sz);
         (cl, age) = nextRecordClock (deviceID v) (Files idx) virtualPath wallNano;
         rec = \<lparr>Size = sz1, Mode = (if mode = 0 then 384 else mode), ModTime = fmtNano (s_guard s) mt, UpdatedAt = now,
                Generation = generation, Chunks = refs, ConflictOf = '''', Clock = cl, ClockAge = age\<rparr>
     in io_ret (\<lparr>put_Path = virtualPath, put_Size = sz1, ChunkCount = int (length refs), NewChunkCount = newCount\<rparr>,
                idx\<lparr>Files := AList.update virtualPath rec (Files idx)\<rparr>)))))))"

text \<open>The gates for a path that does not exist yet.\<close>

definition new_path_gate :: "string \<Rightarrow> string \<Rightarrow> error option" where
  "new_path_gate reserved leaf =
     (case reservedNewPathError reserved of
        Some e \<Rightarrow> Some (EPath e)
      | None \<Rightarrow> (case ValidatePortableName leaf of Some _ \<Rightarrow> Some (EMsg ''name is not portable'') | None \<Rightarrow> None))"

definition lift_path :: "path_error + 'a \<Rightarrow> ('a, 'z) io" where
  "lift_path r = io_lift (case r of Inl e \<Rightarrow> Inl (EPath e) | Inr x \<Rightarrow> Inr x)"

definition PutReader :: "store_env \<Rightarrow> 'v vault_scheme \<Rightarrow> error reader \<Rightarrow> string \<Rightarrow> int \<Rightarrow> int \<Rightarrow> int \<Rightarrow> (PutResult, 'z) mio" where
  "PutReader s v r virtualPath sz mode modTime =
     io_bind (LoadIndex s v) (\<lambda>idx.
     io_bind (lift_path (normalizeContentFilePath virtualPath)) (\<lambda>vp.
     case (if files_has idx vp then None else new_path_gate vp (path_Base vp)) of
       Some e \<Rightarrow> io_fail e
     | None \<Rightarrow>
         io_bind (putReader s v r vp sz mode modTime idx) (\<lambda>(res, idx').
         io_bind (commit_record s v idx' vp (the (map_of (Files idx') vp))) (\<lambda>_. io_ret res))))"

section \<open>Listing\<close>

definition List :: "store_env \<Rightarrow> 'v vault_scheme \<Rightarrow> (string list, 'z) mio" where
  "List s v = io_bind (LoadIndex s v) (\<lambda>idx. io_ret (sort (filter (\<lambda>p. \<not> IsInternalVirtualPath p) (map fst (Files idx)))))"

definition FileInfo :: "store_env \<Rightarrow> 'v vault_scheme \<Rightarrow> string \<Rightarrow> (FileRecord option, 'z) mio" where
  "FileInfo s v virtualPath =
     io_bind (LoadIndex s v) (\<lambda>idx.
     io_bind (lift_path (normalizeContentFilePath virtualPath)) (\<lambda>vp. io_ret (map_of (Files idx) vp)))"

text \<open>The method \<^verbatim>\<open>Files\<close>.\<close>

definition VisibleFiles :: "store_env \<Rightarrow> 'v vault_scheme \<Rightarrow> (FileRecord gomap, 'z) mio" where
  "VisibleFiles s v = io_bind (LoadIndex s v) (\<lambda>idx. io_ret (filter (\<lambda>(k, _). \<not> IsInternalVirtualPath k) (Files idx)))"

definition AllEntries :: "store_env \<Rightarrow> 'v vault_scheme \<Rightarrow> (FileRecord gomap, 'z) mio" where
  "AllEntries s v = io_bind (LoadIndex s v) (\<lambda>idx. io_ret (Files idx))"

section \<open>Removing\<close>

text \<open>A path itself when it is a record, or else everything below it, in the order the map iterates.\<close>

definition below :: "store_env \<Rightarrow> Index \<Rightarrow> string \<Rightarrow> string list" where
  "below s idx vp =
     (let pre = (if vp \<noteq> '''' \<and> \<not> HasSuffix vp ''/'' then vp @ ''/'' else vp)
      in filter (\<lambda>p. pre = '''' \<or> HasPrefix p pre) (map_order s (map fst (Files idx))))"

definition remove_targets :: "store_env \<Rightarrow> Index \<Rightarrow> string \<Rightarrow> string list" where
  "remove_targets s idx vp = (if files_has idx vp then [vp] else below s idx vp)"

text \<open>A tombstone to come: its generation, the generation it supersedes and its clock.\<close>

definition plan_tombstone :: "'v vault_scheme \<Rightarrow> Index \<Rightarrow> (string \<times> int \<times> int \<times> clock) list \<Rightarrow> string
  \<Rightarrow> ((string \<times> int \<times> int \<times> clock) list, 'z) mio" where
  "plan_tombstone v idx acc p =
     (let rec = the (map_of (Files idx) p) in
      io_bind time_Now (\<lambda>t1. io_bind (next_gen (i64 t1)) (\<lambda>gen.
      io_bind time_Now (\<lambda>t2. io_ret (acc @ [(p, gen, Generation rec, advanceClock (deviceID v) (Clock rec) (i64 t2))])))))"

definition commit_planned :: "store_env \<Rightarrow> 'v vault_scheme \<Rightarrow> (string \<times> int \<times> int \<times> clock) \<Rightarrow> (unit, 'z) mio" where
  "commit_planned s v tb = (case tb of (p, gen, deleted, cl) \<Rightarrow> commitTombstone s v p gen deleted cl)"

definition RemovePath :: "store_env \<Rightarrow> 'v vault_scheme \<Rightarrow> string \<Rightarrow> (int, 'z) mio" where
  "RemovePath s v virtualPath =
     io_bind (LoadIndex s v) (\<lambda>idx.
     io_bind (lift_path (normalizeContentDirPath virtualPath)) (\<lambda>vp.
     if vp = ContentRootName then io_fail (EMsg ''content/ is the protected vault workspace and cannot be deleted'')
     else let targets = remove_targets s idx vp in
       if targets = [] then io_fail (EMsg ''virtual path not found'')
       else io_bind (io_fold (plan_tombstone v idx) [] targets) (\<lambda>tombs.
         io_bind get_config (\<lambda>c.
         io_bind (if usesManifestStore c then io_fold (\<lambda>_. commit_planned s v) () tombs
                  else SaveIndex s v (idx\<lparr>Files := filter (\<lambda>(k, _). k \<notin> set targets) (Files idx)\<rparr>)) (\<lambda>_.
         io_ret (int (length targets)))))))"

definition Remove :: "store_env \<Rightarrow> 'v vault_scheme \<Rightarrow> string \<Rightarrow> (unit, 'z) mio" where
  "Remove s v virtualPath =
     io_bind (RemovePath s v virtualPath) (\<lambda>removed. if removed = 0 then io_fail (EMsg ''virtual path not found'') else io_ret ())"

section \<open>Reading back\<close>

text \<open>What \<^verbatim>\<open>WriteFileTo\<close> writes; the record is looked up and its chunks are written in order.\<close>

definition WriteFileTo :: "store_env \<Rightarrow> 'v vault_scheme \<Rightarrow> string \<Rightarrow> (bytes, 'z) mio" where
  "WriteFileTo s v virtualPath =
     io_bind (LoadIndex s v) (\<lambda>idx.
     io_bind (lift_path (normalizeContentFilePath virtualPath)) (\<lambda>vp.
     case map_of (Files idx) vp of
       None \<Rightarrow> io_fail (EMsg ''virtual path not found'')
     | Some rec \<Rightarrow> write_chunks (s_cr s) v (Chunks rec)))"

text \<open>\<^verbatim>\<open>filepath.Rel\<close> of two absolute paths, on their segments.\<close>

fun rel_segs :: "string list \<Rightarrow> string list \<Rightarrow> string list" where
  "rel_segs (b # bs) (t # ts) = (if b = t then rel_segs bs ts else replicate (Suc (length bs)) ''..'' @ t # ts)"
| "rel_segs bs ts = replicate (length bs) ''..'' @ ts"

definition filepath_Rel :: "string \<Rightarrow> string \<Rightarrow> string" where
  "filepath_Rel base targ =
     (case rel_segs (clean_segs True base) (clean_segs True targ) of [] \<Rightarrow> ''.'' | ss \<Rightarrow> Join CHR ''/'' ss)"

definition ensureDestinationOutsideVault :: "ops_env \<Rightarrow> 'v vault_scheme \<Rightarrow> string \<Rightarrow> error option" where
  "ensureDestinationOutsideVault o' v dest =
     (case Abs (o_user o') dest of
        Inl e \<Rightarrow> Some e
      | Inr target \<Rightarrow> (case filepath_Absolute (o_user o') (MetaRoot v) of
          Inl e \<Rightarrow> Some e
        | Inr meta \<Rightarrow>
            let rel = filepath_Rel meta target in
            if rel \<noteq> ''..'' \<and> \<not> HasPrefix rel ''../''
            then Some (EMsg ''refusing to write decrypted output inside the encrypted vault directory'') else None))"

text \<open>
  \<^verbatim>\<open>restoreFile\<close>: the plaintext goes to a temporary file beside the destination, which is renamed.  An
  error before the rename removes the temporary file; when the rename itself fails it stays.  Files
  have no mode in the model.
\<close>

definition restore_temp :: "ops_env \<Rightarrow> string \<Rightarrow> string" where
  "restore_temp o' destPath = path_Join (path_Dir destPath) (''.seavault-restore-'' @ o_temp o')"

definition restored_file :: "ops_env \<Rightarrow> FileRecord \<Rightarrow> bytes \<Rightarrow> string \<Rightarrow> (fsfile, 'z) io" where
  "restored_file o' rec d tmp =
     io_bind time_Now (\<lambda>t.
     case (if ModTime rec = '''' then None else parseTime (s_host (o_store o')) (ModTime rec)) of
       None \<Rightarrow> io_ret \<lparr>data = d, mtime = t\<rparr>
     | Some mt \<Rightarrow> io_try (check_fault OpTouch tmp) (\<lambda>r. io_ret \<lparr>data = d, mtime = (case r of Inl _ \<Rightarrow> t | Inr _ \<Rightarrow> mt)\<rparr>))"

definition publish_temp :: "string \<Rightarrow> string \<Rightarrow> fsfile \<Rightarrow> (unit, 'z) io" where
  "publish_temp tmp destPath f w =
     (case fst (renameWithRetry (rename_fault w destPath) snd) of
        Some (m, _) \<Rightarrow> (Inl (EMsg m), snd (put_file tmp f w))
      | None \<Rightarrow> put_file destPath f w)"

definition restoreFile :: "ops_env \<Rightarrow> 'v vault_scheme \<Rightarrow> FileRecord \<Rightarrow> string \<Rightarrow> (unit, 'z) io" where
  "restoreFile o' v rec destPath =
     io_bind (os_MkdirAll (path_Dir destPath)) (\<lambda>_.
     io_bind (check_fault OpTemp (path_Dir destPath)) (\<lambda>_.
     io_bind (write_chunks (s_cr (o_store o')) v (Chunks rec)) (\<lambda>d.
     io_bind (restored_file o' rec d (restore_temp o' destPath)) (\<lambda>f.
     publish_temp (restore_temp o' destPath) destPath f))))"

definition restore_match :: "ops_env \<Rightarrow> 'v vault_scheme \<Rightarrow> Index \<Rightarrow> string \<Rightarrow> string \<Rightarrow> string \<Rightarrow> (unit, 'z) io" where
  "restore_match o' v idx destPath pre p =
     restoreFile o' v (the (map_of (Files idx) p)) (path_Join destPath (TrimPrefix p pre))"

definition GetPath :: "ops_env \<Rightarrow> 'v vault_scheme \<Rightarrow> string \<Rightarrow> string \<Rightarrow> (unit, 'z) mio" where
  "GetPath o' v virtualPath destPath =
     (case ensureDestinationOutsideVault o' v destPath of
        Some e \<Rightarrow> io_fail e
      | None \<Rightarrow>
          io_bind (LoadIndex (o_store o') v) (\<lambda>idx.
          io_bind (lift_path (normalizeContentDirPath virtualPath)) (\<lambda>vp.
          case map_of (Files idx) vp of
            Some rec \<Rightarrow> restoreFile o' v rec destPath
          | None \<Rightarrow>
              let matches = sort (below (o_store o') idx vp);
                  pre = (if vp \<noteq> '''' \<and> \<not> HasSuffix vp ''/'' then vp @ ''/'' else vp) in
              if matches = [] then io_fail (EMsg ''virtual path not found'')
              else io_fold (\<lambda>_. restore_match o' v idx destPath pre) () matches)))"

section \<open>Verification and counts\<close>

record VerifyIssue =
  vi_Path :: string
  vi_ChunkID :: string
  vi_ChunkPath :: string
  vi_Kind :: string
  vi_Error :: error

record VerifyReport =
  OK :: bool
  FilesChecked :: int
  ChunksChecked :: int
  BytesChecked :: int
  MissingChunks :: int
  CorruptChunks :: int
  OtherErrors :: int
  Issues :: "VerifyIssue list"
  PendingIntents :: "PendingIntent list"

definition verify_chunk :: "store_env \<Rightarrow> 'v vault_scheme \<Rightarrow> string \<Rightarrow> VerifyReport \<Rightarrow> ChunkRef \<Rightarrow> (VerifyReport, 'z) io" where
  "verify_chunk s v p report ref =
     (let rep1 = report\<lparr>ChunksChecked := ChunksChecked report + 1, BytesChecked := i64 (BytesChecked report + ref_Size ref)\<rparr> in
      io_try (loadChunk (s_cr s) v ref) (\<lambda>r. case r of
        Inr _ \<Rightarrow> io_ret rep1
      | Inl e \<Rightarrow>
          let kind = classifyVerifyIssue (Some e);
              rep2 = rep1\<lparr>OK := False, Issues := Issues rep1 @ [\<lparr>vi_Path = p, vi_ChunkID = ref_ID ref,
                vi_ChunkPath = chunkPath v (ref_ID ref), vi_Kind = kind, vi_Error = e\<rparr>]\<rparr> in
          io_ret (if kind = ''missing_chunk'' then rep2\<lparr>MissingChunks := MissingChunks rep2 + 1\<rparr>
            else if kind = ''corrupt_chunk'' then rep2\<lparr>CorruptChunks := CorruptChunks rep2 + 1\<rparr>
            else rep2\<lparr>OtherErrors := OtherErrors rep2 + 1\<rparr>)))"

definition verify_file :: "store_env \<Rightarrow> 'v vault_scheme \<Rightarrow> Index \<Rightarrow> VerifyReport \<Rightarrow> string \<Rightarrow> (VerifyReport, 'z) io" where
  "verify_file s v idx report p = io_fold (verify_chunk s v p) report (Chunks (the (map_of (Files idx) p)))"

definition MakeReport :: "gc_env \<Rightarrow> 'v vault_scheme \<Rightarrow> (VerifyReport, 'z) mio" where
  "MakeReport g v =
     io_bind (LoadIndex (gc_store g) v) (\<lambda>idx.
     let paths = sort (map fst (Files idx)) in
     io_bind (io_fold (verify_file (gc_store g) v idx)
       \<lparr>OK = True, FilesChecked = int (length paths), ChunksChecked = 0, BytesChecked = 0, MissingChunks = 0, CorruptChunks = 0,
        OtherErrors = 0, Issues = [], PendingIntents = []\<rparr> paths) (\<lambda>report.
     io_try (walkIntents g v) (\<lambda>r. case r of
       Inl _ \<Rightarrow> io_ret report
     | Inr intents \<Rightarrow> io_bind time_Now (\<lambda>t. io_ret (report\<lparr>PendingIntents := pendingList g intents t\<rparr>)))))"

definition Verify :: "gc_env \<Rightarrow> 'v vault_scheme \<Rightarrow> (unit, 'z) mio" where
  "Verify g v = io_bind (MakeReport g v) (\<lambda>report. if \<not> OK report then io_fail (EMsg ''vault verification failed'') else io_ret ())"

text \<open>\<^verbatim>\<open>ReferencedMB\<close> is the number of referenced bytes divided by a megabyte in floating point; the bytes are kept.\<close>

record Stats =
  st_Files :: int
  Referenced :: int
  Objects :: int
  ReferencedBytes :: int

definition count_stats :: "(string list \<times> int \<times> int) \<Rightarrow> string \<times> FileRecord \<Rightarrow> string list \<times> int \<times> int" where
  "count_stats acc x = (case acc of (seen, total_bytes, visible) \<Rightarrow> case x of (p, rec) \<Rightarrow>
     if IsInternalVirtualPath p then acc
     else (foldl (\<lambda>l ref. List.insert (ref_ID ref) l) seen (Chunks rec),
           foldl (\<lambda>n ref. i64 (n + ref_Size ref)) total_bytes (Chunks rec), visible + 1))"

definition VaultStats :: "store_env \<Rightarrow> 'v vault_scheme \<Rightarrow> (Stats, 'z) mio" where
  "VaultStats s v =
     io_bind (LoadIndex s v) (\<lambda>idx.
     let (seen, bytes_ref, visible) = foldl count_stats ([], 0, 0) (Files idx) in
     io_try (os_walk (chunkRoot v)) (\<lambda>r.
       let objects = (case r of Inl _ \<Rightarrow> 0 | Inr ps \<Rightarrow> int (length (filter (\<lambda>p. HasSuffix (path_Base p) ''.chunk'') ps))) in
       io_ret \<lparr>st_Files = visible, Referenced = int (length seen), Objects = objects, ReferencedBytes = bytes_ref\<rparr>))"

section \<open>directories.go\<close>

definition markerFileRecord :: "store_env \<Rightarrow> (FileRecord, 'z) io" where
  "markerFileRecord s =
     io_bind (now_string s) (\<lambda>now. io_bind (nanoOrNow s now) (\<lambda>g.
       io_ret (empty_record\<lparr>Mode := 448, ModTime := now, UpdatedAt := now, Generation := g\<rparr>)))"

definition markerWouldMaskWipe :: "'v vault_scheme \<Rightarrow> Index \<Rightarrow> (bool, 'z) mio" where
  "markerWouldMaskWipe v idx =
     io_bind get_config (\<lambda>c.
     if length (Files idx) \<noteq> 0 \<or> \<not> usesManifestStore c then io_ret False
     else io_bind (manifestFilesPresent v) (\<lambda>present.
       if present then io_ret True
       else io_bind (walkChunkFiles v) (\<lambda>chunks. io_ret (length chunks > 0))))"

definition rootMarker :: string where "rootMarker = path_Join ContentRootName DirectoryMarkerName"

text \<open>A path of the layout before \<^verbatim>\<open>content/\<close>, which the upgrade moves.\<close>

definition old_layout :: "string \<Rightarrow> bool" where
  "old_layout p \<longleftrightarrow> \<not> (p = rootMarker \<or> IsInternalVirtualPath p) \<and> \<not> HasPrefix p (ContentRootName @ ''/'')"

definition move_record :: "host_env \<Rightarrow> FileRecord gomap \<Rightarrow> string \<Rightarrow> FileRecord gomap" where
  "move_record h fs oldPath =
     (if \<not> old_layout oldPath then fs
      else let rec = the (map_of fs oldPath);
               new0 = (if oldPath = ContentRootName then path_Join ContentRootName ContentRootName else path_Join ContentRootName oldPath);
               newPath = (if map_of fs new0 \<noteq> None then conflictPath h new0 rec else new0)
           in AList.delete oldPath (AList.update newPath rec fs))"

definition tombstone_old :: "store_env \<Rightarrow> 'v vault_scheme \<Rightarrow> Index \<Rightarrow> string \<Rightarrow> (unit, 'z) mio" where
  "tombstone_old s v idx oldPath =
     (if \<not> old_layout oldPath then io_ret ()
      else let rec = the (map_of (Files idx) oldPath) in
        io_bind time_Now (\<lambda>t. commitTombstone s v oldPath 0 (Generation rec) (advanceClock (deviceID v) (Clock rec) (i64 t))))"

definition EnsureContentLayout :: "ops_env \<Rightarrow> 'v vault_scheme \<Rightarrow> (unit, 'z) mio" where
  "EnsureContentLayout o' v =
     (let s = o_store o' in
      io_bind (LoadIndex s v) (\<lambda>idx0.
      io_bind (if files_has idx0 rootMarker then io_ret (idx0, False)
               else io_bind (markerWouldMaskWipe v idx0) (\<lambda>mask_wipe.
                 if mask_wipe then io_ret (idx0, False)
                 else io_bind (markerFileRecord s) (\<lambda>m. io_ret (idx0\<lparr>Files := AList.update rootMarker m (Files idx0)\<rparr>, True)))) (\<lambda>(idx1, marked).
      let paths = sort (map fst (Files idx1));
          idx2 = idx1\<lparr>Files := foldl (move_record (s_host s)) (Files idx1) paths\<rparr> in
      if \<not> marked \<and> \<not> list_ex old_layout paths then io_ret ()
      else io_bind get_config (\<lambda>c.
        if usesManifestStore c then
          io_bind (io_fold (\<lambda>_ p. commitFileManifest s v p (the (map_of (Files idx2) p))) () (map_order s (map fst (Files idx2)))) (\<lambda>_.
          io_fold (\<lambda>_. tombstone_old s v idx1) () paths)
        else SaveIndex s v idx2))))"

definition EnsureDirectory :: "store_env \<Rightarrow> 'v vault_scheme \<Rightarrow> string \<Rightarrow> (unit, 'z) mio" where
  "EnsureDirectory s v virtualPath =
     io_bind (lift_path (directoryMarkerPath virtualPath)) (\<lambda>marker.
     io_bind (LoadIndex s v) (\<lambda>idx.
     if files_has idx marker then io_ret ()
     else (case new_path_gate (path_Dir marker) (path_Base (path_Dir marker)) of
       Some e \<Rightarrow> io_fail e
     | None \<Rightarrow> io_bind (markerFileRecord s) (\<lambda>m.
         commit_record s v (idx\<lparr>Files := AList.update marker m (Files idx)\<rparr>) marker m))))"

definition directoryExistsInIndex :: "FileRecord gomap \<Rightarrow> string \<Rightarrow> bool" where
  "directoryExistsInIndex fs vp0 =
     (let vp = trim_both (\<lambda>c. c = CHR ''/'') vp0 in
      if vp = '''' then True
      else if map_of fs (path_Join vp DirectoryMarkerName) \<noteq> None then True
      else list_ex (\<lambda>(p, _). HasPrefix p (TrimSuffix vp ''/'' @ ''/'')) fs)"

definition DirectoryExists :: "store_env \<Rightarrow> 'v vault_scheme \<Rightarrow> string \<Rightarrow> (bool, 'z) mio" where
  "DirectoryExists s v virtualPath =
     io_bind (lift_path (normalizeContentDirPath virtualPath)) (\<lambda>vp.
     io_bind (LoadIndex s v) (\<lambda>idx. io_ret (directoryExistsInIndex (Files idx) vp)))"

section \<open>Opening\<close>

text \<open>
  \<^verbatim>\<open>finishOpen\<close> on the fields of a fresh handle: no cache, the configuration read, the device id.  The
  note on sync clients that it also records has no effect on the vault.
\<close>

definition fresh_handle :: "VaultConfig \<Rightarrow> (unit, 'z) mio" where
  "fresh_handle cfg w =
     (Inr (), w\<lparr>vConfig := cfg, anchorNote := '''', cached := None, maxGen := 0, lastFP := 0, fpKnown := False\<rparr>)"

definition vault_handle :: "guard_env \<Rightarrow> string \<Rightarrow> string \<Rightarrow> Keys \<Rightarrow> string \<Rightarrow> vault option" where
  "vault_handle g root metaName ks dev =
     (case (deriveSubkey (g_ke g) (MasterKey ks) ''chunk-aead'', deriveSubkey (g_ke g) (MasterKey ks) ''index-aead'') of
        (Some ck, Some ik) \<Rightarrow> Some \<lparr>MetaRoot = path_Join root metaName, keys = ks, chunkAEAD = ck, indexAEAD = ik, vRoot = root, deviceID = dev\<rparr>
      | _ \<Rightarrow> None)"

definition finishOpen :: "ops_env \<Rightarrow> string \<Rightarrow> string \<Rightarrow> VaultConfig \<Rightarrow> Keys \<Rightarrow> OpenOptions \<Rightarrow> (vault, 'z) mio" where
  "finishOpen o' root metaName cfg ks opts =
     (let g = s_guard (o_store o') in
      io_bind (resolveDeviceID (g_os g) (g_dev g)) (\<lambda>dev.
      case vault_handle g root metaName ks dev of
        None \<Rightarrow> io_fail (EMsg ''key derivation failed'')
      | Some v \<Rightarrow>
          io_bind (fresh_handle cfg) (\<lambda>_.
          io_bind (checkConfigIntegrity g v opts) (\<lambda>_.
          io_bind (recordReaderSignal g root dev) (\<lambda>_.
          io_bind (EnsureContentLayout o' v) (\<lambda>_. io_ret v))))))"

definition OpenWithOptions :: "ops_env \<Rightarrow> string \<Rightarrow> string \<Rightarrow> OpenOptions \<Rightarrow> (vault, 'z) mio" where
  "OpenWithOptions o' root0 password opts =
     (let g = s_guard (o_store o') in
      io_bind (prepareOpen g root0 password) (\<lambda>(root, cfg, metaName, metaExists).
      io_bind (io_lift (unlockWith (g_ke g) (g_cr g) cfg password WrapTypePassword)) (\<lambda>ks.
      finishOpen o' root metaName cfg ks opts)))"

definition Open :: "ops_env \<Rightarrow> string \<Rightarrow> string \<Rightarrow> (vault, 'z) mio" where
  "Open o' root password = OpenWithOptions o' root password \<lparr>AcceptRollback = False\<rparr>"

end
