(* ===== verification/VaultSafety.thy ===== *)
theory VaultSafety
  imports GcRuns VaultOps
begin

text \<open>
  What the operations of \<^verbatim>\<open>VaultOps\<close> guarantee.  First the host paths plaintext is restored to: the
  check of \<^verbatim>\<open>GetPath\<close> keeps the encrypted directory untouched when the destination lies beside it, and
  not when it lies above it.  Then opening, which must not hide a wiped store from the collector, and
  verification, which reports exactly the chunks that do not load.
\<close>

section \<open>Absolute paths as segments\<close>

definition absp :: "string list \<Rightarrow> string" where "absp ss = CHR ''/'' # Join CHR ''/'' ss"

abbreviation propers :: "string list \<Rightarrow> bool" where "propers ss \<equiv> \<forall>s\<in>set ss. proper_seg s"

lemma clean_segs_absp: "propers ss \<Longrightarrow> clean_segs True (absp ss) = ss"
proof (cases ss)
  case (Cons a l)
  assume p: "propers ss"
  then have "Split CHR ''/'' (Join CHR ''/'' ss) = ss" using Cons by (intro Split_Join) (auto simp: proper_seg_def)
  then show ?thesis using clean_segs_proper [OF p, of True "[]"] by (simp add: clean_segs_def absp_def)
qed (simp add: clean_segs_def absp_def)

lemma abs_shape:
  assumes "path_IsAbs p"
  obtains ss where "path_Clean p = absp ss" "propers ss" "clean_segs True p = ss"
proof -
  obtain n ps where "clean_segs True p = replicate n ''..'' @ ps" "propers ps" "n = 0"
    by (rule clean_segs_shape [of True p]) blast
  moreover have "p \<noteq> ''''" using assms by (auto simp: path_IsAbs_def HasPrefix_def)
  ultimately show ?thesis using assms that [of ps] by (simp add: path_Clean_def absp_def)
qed

lemma absp_clean: "propers ss \<Longrightarrow> path_Clean (absp ss) = absp ss"
  using clean_segs_absp by (simp add: path_Clean_def absp_def path_IsAbs_def HasPrefix_def)

lemma Join_app: "xs \<noteq> [] \<Longrightarrow> ys \<noteq> [] \<Longrightarrow> Join d (xs @ ys) = Join d xs @ d # Join d ys"
  by (rule Join_append)

lemma absp_join:
  assumes "propers as" "propers bs" "bs \<noteq> []"
  shows "path_Join (absp as) (Join CHR ''/'' bs) = absp (as @ bs)"
proof -
  let ?p = "absp as @ CHR ''/'' # Join CHR ''/'' bs"
  have b: "Split CHR ''/'' (Join CHR ''/'' bs) = bs" using assms by (intro Split_Join) (auto simp: proper_seg_def)
  have a: "as = [] \<or> Split CHR ''/'' (Join CHR ''/'' as) = as" using assms by (auto intro!: Split_Join simp: proper_seg_def)
  have "Split CHR ''/'' ?p = (if as = [] then [''''] else []) @ [''''] @ as @ bs"
    using Split_append [of "CHR ''/''" "absp as" "Join CHR ''/'' bs"] a b by (auto simp: absp_def)
  then have "foldl (clean_seg True) [] (Split CHR ''/'' ?p) = rev bs @ rev as"
    using clean_segs_proper [OF assms(1), of True "[]"] clean_segs_proper [OF assms(2), of True "rev as"] by (auto split: if_splits)
  then have "clean_segs True ?p = as @ bs" by (simp add: clean_segs_def)
  then have "path_Clean ?p = absp (as @ bs)" by (simp add: path_Clean_def path_IsAbs_def HasPrefix_def absp_def)
  then show ?thesis by (simp add: path_Join_def absp_def)
qed

text \<open>Lying below a directory, as a property of the segments.\<close>

lemma below_absp:
  assumes "propers xs" "propers ms" "ms \<noteq> []"
  shows "HasPrefix (absp xs) (absp ms @ ''/'') \<longleftrightarrow> (\<exists>y ys. xs = ms @ y # ys)"
proof
  assume "\<exists>y ys. xs = ms @ y # ys"
  then obtain y ys where "xs = ms @ y # ys" by blast
  then show "HasPrefix (absp xs) (absp ms @ ''/'')" using Join_app [of ms "y # ys" "CHR ''/''"] assms(3)
    by (auto simp: absp_def HasPrefix_iff)
next
  assume "HasPrefix (absp xs) (absp ms @ ''/'')"
  then obtain r where r: "Join CHR ''/'' xs = Join CHR ''/'' ms @ CHR ''/'' # r" by (auto simp: HasPrefix_iff absp_def)
  have xs: "xs \<noteq> []" using r by auto
  have "Split CHR ''/'' (Join CHR ''/'' xs) = xs" "Split CHR ''/'' (Join CHR ''/'' ms) = ms"
    using assms xs by (auto intro!: Split_Join simp: proper_seg_def)
  then have "xs = ms @ Split CHR ''/'' r" using r Split_append [of "CHR ''/''" "Join CHR ''/'' ms" r] by simp
  then show "\<exists>y ys. xs = ms @ y # ys" by (metis Split_ne neq_Nil_conv)
qed

lemma rel_inside:
  assumes "propers bs" "propers ts"
  defines "r \<equiv> (case rel_segs bs ts of [] \<Rightarrow> ''.'' | ss \<Rightarrow> Join CHR ''/'' ss)"
  shows "r \<noteq> ''..'' \<and> \<not> HasPrefix r ''../'' \<longleftrightarrow> (\<exists>rs. ts = bs @ rs)"
proof -
  have "(\<exists>rs. ts = bs @ rs \<and> rel_segs bs ts = rs) \<or> \<not> (\<exists>rs. ts = bs @ rs) \<and> (\<exists>n xs. 0 < n \<and> rel_segs bs ts = replicate n ''..'' @ xs)"
  proof (induction bs ts rule: rel_segs.induct, goal_cases)
    case (1 b bs t ts)
    have "rel_segs (b # bs) (t # ts) = replicate (Suc (length bs)) ''..'' @ t # ts" if "b \<noteq> t" using that by simp
    then show ?case using 1 by (cases "b = t") (simp, metis append_Cons list.inject zero_less_Suc)
  next
    case (3 bs)
    have "rel_segs bs [] = replicate (length bs) ''..'' @ []" by simp
    then show ?case by (cases bs) (simp, metis append_is_Nil_conv length_greater_0_conv list.distinct(1))
  qed simp
  then show ?thesis
  proof
    assume "\<exists>rs. ts = bs @ rs \<and> rel_segs bs ts = rs"
    then obtain rs where rs: "ts = bs @ rs" "rel_segs bs ts = rs" by blast
    show ?thesis
    proof (cases rs)
      case (Cons a l)
      then have "clean_path (Join CHR ''/'' rs)" using rs(1) assms(2) by (intro clean_path_Join) auto
      then have "Join CHR ''/'' rs \<noteq> ''..''" "\<not> HasPrefix (Join CHR ''/'' rs) ''../''" by (auto dest: clean_path_not_up)
      then show ?thesis using rs Cons unfolding r_def by auto
    qed (use rs in \<open>auto simp: r_def HasPrefix_def\<close>)
  next
    assume "\<not> (\<exists>rs. ts = bs @ rs) \<and> (\<exists>n xs. 0 < n \<and> rel_segs bs ts = replicate n ''..'' @ xs)"
    then obtain n xs where n: "0 < n" "rel_segs bs ts = replicate n ''..'' @ xs" "\<not> (\<exists>rs. ts = bs @ rs)" by blast
    then have ne: "replicate n ''..'' @ xs \<noteq> []" by auto
    from Join_dotdot [OF this n(1)] n ne show ?thesis unfolding r_def by (auto split: list.splits)
  qed
qed

lemma tidy_segs:
  assumes "tidy_root v"
  obtains ms where "MetaRoot v = absp ms" "propers ms" "ms \<noteq> []" "filepath_Absolute e (MetaRoot v) = Inr (MetaRoot v)"
proof -
  obtain a where a: "MetaRoot v = CHR ''/'' # a" "clean_path a" using assms by (auto simp: tidy_root_def)
  have "MetaRoot v = absp (Split CHR ''/'' a)" "propers (Split CHR ''/'' a)" using a by (auto simp: absp_def clean_path_def)
  moreover have "filepath_Absolute e (MetaRoot v) = Inr (MetaRoot v)"
    using a path_Clean_abs_clean [OF a(2)] by (simp add: filepath_Absolute_def path_IsAbs_def HasPrefix_def)
  ultimately show thesis using that by simp
qed

section \<open>Restoring to the host\<close>

lemma read_only_chunk_reads [read_only_intros]:
  "read_only (try_copies cr v ref dir cn names)" "read_only (tryConflictChunks cr v ref)" "read_only (loadChunk cr v ref)"
  "read_only (write_chunks cr v refs)"
proof -
  show t: "read_only (try_copies cr v ref dir cn names)" for ref dir cn names
    by (induction names) (auto intro!: read_only_intros)
  show c: "read_only (tryConflictChunks cr v ref)" for ref
    unfolding tryConflictChunks_def Let_def by (intro read_only_intros t)
  show l: "read_only (loadChunk cr v ref)" for ref
    unfolding loadChunk_def by (intro read_only_intros c)
  show "read_only (write_chunks cr v refs)"
    by (induction refs) (auto intro!: read_only_intros l)
qed

lemma leaves_publish [leaves_intros]: "tmp \<notin> S \<Longrightarrow> p \<notin> S \<Longrightarrow> leaves S (publish_temp tmp p f)"
  by (auto simp: leaves_def publish_temp_def put_file_def same_host_def update_conv' split: option.splits)

lemma leaves_restore [leaves_intros]:
  assumes "restore_temp o' p \<notin> S" "p \<notin> S"
  shows "leaves S (restoreFile o' v rec p)"
proof -
  have "read_only (restored_file o' rec d tmp)" for d tmp unfolding restored_file_def by (intro read_only_intros)
  then show ?thesis unfolding restoreFile_def
    by (intro leaves_intros assms leaves_read_only read_only_intros)
qed

lemma takeWhile_tail: "c \<notin> set b \<Longrightarrow> takeWhile (\<lambda>x. x \<noteq> c) (rev b @ c # r) = rev b"
proof -
  assume "c \<notin> set b"
  then show ?thesis using takeWhile_append2 [of "rev b" "\<lambda>x. x \<noteq> c" "c # r"] by (metis (full_types) append.right_neutral set_rev takeWhile.simps(2))
qed

lemma absp_dir:
  assumes "propers (ss @ [b])"
  shows "path_Dir (absp (ss @ [b])) = absp ss"
proof -
  have b: "proper_seg b" "propers ss" using assms by auto
  have p: "absp (ss @ [b]) = (if ss = [] then '''' else absp ss) @ CHR ''/'' # b"
    using Join_app [of ss "[b]" "CHR ''/''"] by (simp add: absp_def)
  have "takeWhile (\<lambda>c. c \<noteq> CHR ''/'') (rev (absp (ss @ [b]))) = rev b"
    using b(1) unfolding p by (auto simp: proper_seg_def takeWhile_tail)
  then have "fst (path_Split (absp (ss @ [b]))) = (if ss = [] then '''' else absp ss) @ ''/''"
    unfolding path_Split_def p by (simp add: Let_def)
  moreover have "path_Clean ((if ss = [] then '''' else absp ss) @ ''/'') = absp ss"
  proof (cases "ss = []")
    case False
    have "Split CHR ''/'' (Join CHR ''/'' ss) = ss" using b(2) False by (intro Split_Join) (auto simp: proper_seg_def)
    then have "Split CHR ''/'' (absp ss @ CHR ''/'' # '''') = '''' # ss @ ['''']"
      using Split_append [of "CHR ''/''" "absp ss" "''''"] by (simp add: absp_def)
    then have "clean_segs True (absp ss @ ''/'') = ss"
      using clean_segs_proper [OF b(2), of True "[]"] by (simp add: clean_segs_def)
    then show ?thesis using False by (simp add: path_Clean_def path_IsAbs_def HasPrefix_def absp_def)
  qed (simp add: path_Clean_def path_IsAbs_def HasPrefix_def absp_def clean_segs_def)
  ultimately show ?thesis by (simp add: path_Dir_def)
qed

text \<open>The paths a restore below \<open>dest\<close> may write: the target and the temporary file beside it.\<close>

lemma restore_temp_segs:
  assumes "propers (ss @ [b])" and "CHR ''/'' \<notin> set (o_temp o')"
  shows "restore_temp o' (absp (ss @ [b])) = absp (ss @ [''.seavault-restore-'' @ o_temp o'])"
proof -
  have "propers [''.seavault-restore-'' @ o_temp o']" "propers ss" using assms by (auto simp: proper_seg_def)
  then show ?thesis using absp_join [of ss "[''.seavault-restore-'' @ o_temp o']"] absp_dir [OF assms(1)] by (simp add: restore_temp_def)
qed

text \<open>
  With the destination beside the metadata directory, neither the target nor the temporary file of a
  restore lies below it.
\<close>

lemma restore_outside:
  assumes "propers ds" "propers rs" "propers ms" "ms \<noteq> []" "ds \<noteq> []" and "CHR ''/'' \<notin> set (o_temp o')"
    and "\<not> (\<exists>xs. ds = ms @ xs)" "\<not> (\<exists>xs. ms = ds @ xs)"
  shows "\<not> HasPrefix (absp (ds @ rs)) (absp ms @ ''/'')" "\<not> HasPrefix (restore_temp o' (absp (ds @ rs))) (absp ms @ ''/'')"
proof -
  have inc: "ds @ us \<noteq> ms @ ys" for us ys
    using assms(7,8) by (metis append_eq_append_conv2)
  have t: "propers (ds @ rs)" using assms(1,2) by auto
  then show "\<not> HasPrefix (absp (ds @ rs)) (absp ms @ ''/'')" using below_absp [OF t assms(3,4)] inc by blast
  obtain ss b where ss: "ds @ rs = ss @ [b]" using assms(5) by (metis append_is_Nil_conv rev_exhaust)
  let ?n = "''.seavault-restore-'' @ o_temp o'"
  have n: "propers (ss @ [?n])" using t ss assms(6) by (auto simp: proper_seg_def)
  have "ss @ [?n] \<noteq> ms @ y # ys" for y ys
  proof
    assume "ss @ [?n] = ms @ y # ys"
    then have "ss = ms @ butlast (y # ys)" by (metis butlast_append butlast_snoc list.distinct(1))
    then have "ds @ rs = ms @ (butlast (y # ys) @ [b])" using ss by simp
    then show False using inc by blast
  qed
  then show "\<not> HasPrefix (restore_temp o' (absp (ds @ rs))) (absp ms @ ''/'')"
    using below_absp [OF n assms(3,4)] t restore_temp_segs [of ss b o'] assms(6) unfolding ss by auto
qed

lemma ensured_destination:
  assumes "tidy_root v" "ensureDestinationOutsideVault o' v dest = None" "Abs (o_user o') dest = Inr dest" "path_IsAbs dest"
  obtains ds ms where "dest = absp ds" "propers ds" "MetaRoot v = absp ms" "propers ms" "ms \<noteq> []" "\<not> (\<exists>xs. ds = ms @ xs)"
proof -
  obtain ms where m: "MetaRoot v = absp ms" "propers ms" "ms \<noteq> []" "filepath_Absolute (o_user o') (MetaRoot v) = Inr (MetaRoot v)"
    by (rule tidy_segs [OF assms(1)])
  have "path_Clean dest = dest"
  proof -
    obtain x y where "Expand (o_user o') dest = Inr x" "filepath_Absolute (o_user o') x = Inr y" "dest = path_Clean y"
      using assms(3) by (auto simp: Abs_def split: sum.splits)
    moreover have "path_IsAbs y"
    proof (rule ccontr)
      assume "\<not> path_IsAbs y"
      from path_Clean_cases [OF this] show False
        using calculation(3) assms(4) clean_path_not_abs by (auto simp: path_IsAbs_def HasPrefix_iff)
    qed
    ultimately show ?thesis using absp_clean by (metis abs_shape)
  qed
  then obtain ds where d: "dest = absp ds" "propers ds" by (metis abs_shape [OF assms(4)])
  have c: "clean_segs True dest = ds" "clean_segs True (MetaRoot v) = ms" using d m clean_segs_absp by auto
  let ?r = "filepath_Rel (MetaRoot v) dest"
  have "\<not> (?r \<noteq> ''..'' \<and> \<not> HasPrefix ?r ''../'')"
    using assms(2,3) m(4) by (auto simp: ensureDestinationOutsideVault_def Let_def split: if_splits)
  then have "\<not> (\<exists>rs. ds = ms @ rs)" using rel_inside [OF m(2) d(2)] by (simp add: filepath_Rel_def c)
  then show thesis using that d m by blast
qed

lemma below_pre:
  assumes "p \<in> set (below s idx vp)" and "clean_path vp" and "clean_path p"
  shows "p \<in> set (map_order s (map fst (Files idx)))" "\<exists>rs. rs \<noteq> [] \<and> propers rs \<and> TrimPrefix p (if vp \<noteq> '''' \<and> \<not> HasSuffix vp ''/'' then vp @ ''/'' else vp) = Join CHR ''/'' rs"
proof -
  let ?pre = "if vp \<noteq> '''' \<and> \<not> HasSuffix vp ''/'' then vp @ ''/'' else vp"
  have ns: "\<not> HasSuffix vp ''/''"
  proof
    assume "HasSuffix vp ''/''"
    then obtain a where "vp = a @ CHR ''/'' # ''''" by (auto simp: HasSuffix_iff)
    then show False using assms(2) clean_path_append [of a "''''"] by simp
  qed
  then have pre: "?pre = vp @ ''/''" using assms(2) clean_path_ne by simp
  show "p \<in> set (map_order s (map fst (Files idx)))" using assms(1) by (auto simp: below_def Let_def)
  have "HasPrefix p (vp @ ''/'')" using assms(1) pre by (auto simp: below_def Let_def split: if_splits)
  then obtain r where r: "p = vp @ CHR ''/'' # r" by (auto simp: HasPrefix_iff)
  then have "clean_path r" using assms(3) clean_path_append by simp
  then have "propers (Split CHR ''/'' r)" by (simp add: clean_path_def)
  moreover have "TrimPrefix p (vp @ ''/'') = r" using TrimPrefix_append [of "vp @ ''/''" r] r by simp
  ultimately show "\<exists>rs. rs \<noteq> [] \<and> propers rs \<and> TrimPrefix p ?pre = Join CHR ''/'' rs"
    unfolding pre by (metis Join_Split Split_ne)
qed

lemma leaves_fold_run:
  fixes w :: "'z world_scheme"
  assumes "\<And>x. x \<in> set xs \<Longrightarrow> leaves S (f x)"
  shows "leaves S (io_fold (\<lambda>_. f) () xs)"
  by (rule part.keeps_fold) (rule assms)

section \<open>Opening a wiped store\<close>

lemma mask_wiped:
  assumes "coherent s v P Map.empty w" and "Files idx = []" and "map_of (files w) p = Some f"
    and "HasPrefix p (chunkRoot v @ ''/'')" and "chunk_named p" and "markerWouldMaskWipe v idx w = (r, w1)"
  shows "w1 = w" "r \<noteq> Inr False" "no_faults w \<Longrightarrow> r = Inr True"
proof -
  note h = coherentD [OF assms(1)]
  have "find_manifest ps = Inr False" if "\<forall>p\<in>set ps. manifestIDFromFileName (path_Base p) = Inr ''''" for ps
    using that by (induction ps) auto
  then have n: "find_manifest (walk_files (mroot v) (files w)) = Inr False"
    using h(4) by (simp add: holds_def)
  obtain rc wc where c: "walkChunkFiles v w = (rc, wc)" by fastforce
  note wc = walk_finds_chunk [OF c assms(3-5)]
  have "fault w OpList (chunkRoot v) \<noteq> None \<Longrightarrow> isl rc"
    using c by (auto simp: walkChunkFiles_def os_walk_def io_simps check_fault_def is_not_exist_def)
  then have rc: "rc \<noteq> Inr []" using wc(2) by auto
  show "w1 = w" "r \<noteq> Inr False" "no_faults w \<Longrightarrow> r = Inr True"
    using assms(2,6) h(5) n c wc(1,3) rc
    by (auto simp: markerWouldMaskWipe_def manifestFilesPresent_def os_walk_def check_fault_def get_config_def mroot_def io_simps no_faults_def
        split: option.splits sum.splits if_splits)
qed

lemma layout_wiped:
  assumes "coherent (o_store o') v P Map.empty w" and "map_of (files w) p = Some f"
    and "HasPrefix p (chunkRoot v @ ''/'')" and "chunk_named p" and "EnsureContentLayout o' v w = (r, w')"
  shows "coherent (o_store o') v P Map.empty w'" "files w' = files w" "same_host w w'" "no_faults w \<Longrightarrow> r = Inr ()"
proof -
  let ?s = "o_store o'"
  obtain rl w1 where l: "LoadIndex ?s v w = (rl, w1)" by fastforce
  note c1 = coherent_cached [OF assms(1) l [unfolded LoadIndex_def]]
  have "coherent ?s v P Map.empty w' \<and> files w' = files w \<and> same_host w w' \<and> (no_faults w \<longrightarrow> r = Inr ())"
  proof (cases rl)
    case (Inl e)
    then show ?thesis using c1 assms(5) l by (auto simp: EnsureContentLayout_def Let_def io_bind_def)
  next
    case (Inr idx)
    then have "map_of (Files idx) = Map.empty" using c1 by (simp add: live_def fun_eq_iff)
    then have f: "Files idx = []" by simp
    obtain rm wm where m: "markerWouldMaskWipe v idx w1 = (rm, wm)" by fastforce
    have cp: "coherent ?s v P Map.empty w1" "map_of (files w1) p = Some f" using c1 assms(2) by auto
    note mw = mask_wiped [OF cp(1) f cp(2) assms(3,4) m]
    have nf: "no_faults w \<Longrightarrow> no_faults w1" using c1 no_faults_same by blast
    show ?thesis using assms(5) l Inr f m mw nf c1
      by (cases rm) (auto simp: EnsureContentLayout_def Let_def io_bind_def io_ret_def split: if_splits)
  qed
  then show "coherent ?s v P Map.empty w'" "files w' = files w" "same_host w w'" "no_faults w \<Longrightarrow> r = Inr ()" by blast+
qed

section \<open>Verification\<close>

text \<open>Reading chunks does not change the state at all.\<close>

interpretation still: frame "\<lambda>w w'. w' = w"
  by unfold_locales auto

named_theorems still_intros

declare still.keeps_core [still_intros]

abbreviation pure_read :: "('a, 'z) io \<Rightarrow> bool" where "pure_read m \<equiv> keeps (\<lambda>w w'. w' = w) m"

lemma still_host [still_intros]: "pure_read (check_fault op p)" "pure_read (lookup_file p)"
  by (auto simp: keeps_def check_fault_def lookup_file_def split: option.split)

lemma still_reads [still_intros]: "pure_read (os_ReadFile p)" "pure_read (os_ReadDir p)"
proof -
  show "pure_read (os_ReadFile p)" unfolding os_ReadFile_def by (intro still_intros)
  have "pure_read (\<lambda>w. (Inr (dir_names p (files w)), w))" by (simp add: keeps_def)
  then show "pure_read (os_ReadDir p)" unfolding os_ReadDir_def by (intro still.keeps_bind still_host)
qed

lemma still_chunk: "pure_read (loadChunk cr v ref)"
proof -
  have t: "pure_read (try_copies cr v ref dir cn names)" for dir cn names
    by (induction names) (auto intro!: still_intros)
  show ?thesis unfolding loadChunk_def tryConflictChunks_def Let_def by (intro still_intros t)
qed

definition loads :: "crypt \<Rightarrow> 'v store_scheme \<Rightarrow> 'z world_scheme \<Rightarrow> ChunkRef \<Rightarrow> bool" where
  "loads cr v w ref \<longleftrightarrow> (\<exists>b. fst (loadChunk cr v ref w) = Inr b)"

text \<open>What a report must say: one issue per failing reference, in the order of the sorted paths and of each record's chunks.\<close>

definition chunk_issue :: "crypt \<Rightarrow> 'v store_scheme \<Rightarrow> 'z world_scheme \<Rightarrow> string \<Rightarrow> ChunkRef \<Rightarrow> VerifyIssue list" where
  "chunk_issue cr v w p ref = (case fst (loadChunk cr v ref w) of
     Inr _ \<Rightarrow> []
   | Inl e \<Rightarrow> [\<lparr>vi_Path = p, vi_ChunkID = ref_ID ref, vi_ChunkPath = chunkPath v (ref_ID ref),
       vi_Kind = classifyVerifyIssue (Some e), vi_Error = e\<rparr>])"

definition file_issues :: "crypt \<Rightarrow> 'v store_scheme \<Rightarrow> 'z world_scheme \<Rightarrow> Index \<Rightarrow> string \<Rightarrow> VerifyIssue list" where
  "file_issues cr v w idx p = concat (map (chunk_issue cr v w p) (Chunks (the (map_of (Files idx) p))))"

definition of_kind :: "string \<Rightarrow> VerifyIssue list \<Rightarrow> int" where
  "of_kind k issues = int (length (filter (\<lambda>i. vi_Kind i = k) issues))"

definition reports :: "VerifyReport \<Rightarrow> VerifyIssue list \<Rightarrow> nat \<Rightarrow> bool" where
  "reports rep issues n \<longleftrightarrow> Issues rep = issues \<and> (OK rep \<longleftrightarrow> issues = []) \<and> ChunksChecked rep = int n
     \<and> MissingChunks rep = of_kind ''missing_chunk'' issues \<and> CorruptChunks rep = of_kind ''corrupt_chunk'' issues
     \<and> MissingChunks rep + CorruptChunks rep + OtherErrors rep = int (length issues)"

lemma verify_chunk_step:
  assumes "reports rep issues n"
  shows "\<exists>rep'. verify_chunk s v p rep ref w = (Inr rep', w) \<and> reports rep' (issues @ chunk_issue (s_cr s) v w p ref) (Suc n)
     \<and> FilesChecked rep' = FilesChecked rep"
proof -
  obtain r where l: "loadChunk (s_cr s) v ref w = (r, w)" using keepsD [OF still_chunk] by (metis surj_pair)
  show ?thesis using assms
    by (cases r) (auto simp: verify_chunk_def Let_def io_try_def io_ret_def l reports_def chunk_issue_def of_kind_def)
qed

lemma verify_chunks:
  assumes "reports rep issues n"
  shows "\<exists>rep'. io_fold (verify_chunk s v p) rep refs w = (Inr rep', w)
     \<and> reports rep' (issues @ concat (map (chunk_issue (s_cr s) v w p) refs)) (n + length refs) \<and> FilesChecked rep' = FilesChecked rep"
  using assms
proof (induction refs arbitrary: rep issues n)
  case (Cons ref refs)
  obtain rep1 where 1: "verify_chunk s v p rep ref w = (Inr rep1, w)" "FilesChecked rep1 = FilesChecked rep"
    and r: "reports rep1 (issues @ chunk_issue (s_cr s) v w p ref) (Suc n)"
    using verify_chunk_step [OF Cons.prems] by blast
  from Cons.IH [OF r] 1 show ?case by (auto simp: io_bind_def)
qed (simp add: io_ret_def)

lemma verify_files:
  assumes "reports rep issues n"
  shows "\<exists>rep'. io_fold (verify_file s v idx) rep ps w = (Inr rep', w)
     \<and> reports rep' (issues @ concat (map (file_issues (s_cr s) v w idx) ps))
         (n + sum_list (map (\<lambda>p. length (Chunks (the (map_of (Files idx) p)))) ps))
     \<and> FilesChecked rep' = FilesChecked rep"
  using assms
proof (induction ps arbitrary: rep issues n)
  case (Cons p ps)
  let ?refs = "Chunks (the (map_of (Files idx) p))"
  obtain rep1 where 1: "verify_file s v idx rep p w = (Inr rep1, w)" "FilesChecked rep1 = FilesChecked rep"
    and r: "reports rep1 (issues @ file_issues (s_cr s) v w idx p) (n + length ?refs)"
    using verify_chunks [OF Cons.prems] unfolding verify_file_def file_issues_def by blast
  from Cons.IH [OF r] 1 show ?case by (auto simp: io_bind_def add.assoc)
qed (simp add: io_ret_def)

lemma chunk_issue_empty: "chunk_issue cr v w p ref = [] \<longleftrightarrow> loads cr v w ref"
  by (cases "fst (loadChunk cr v ref w)") (simp_all add: chunk_issue_def loads_def)

lemma file_issues_empty:
  "file_issues cr v w idx p = [] \<longleftrightarrow> (\<forall>ref\<in>set (Chunks (the (map_of (Files idx) p))). loads cr v w ref)"
  by (simp add: file_issues_def chunk_issue_empty)

lemma file_issue_kind:
  assumes "i \<in> set (file_issues cr v w idx p)"
  shows "vi_Kind i = ''missing_chunk'' \<longleftrightarrow> is_not_exist (vi_Error i)"
proof -
  obtain ref where "i \<in> set (chunk_issue cr v w p ref)" using assms by (auto simp: file_issues_def)
  then show ?thesis
    by (cases "fst (loadChunk cr v ref w)") (auto simp: chunk_issue_def classifyVerifyIssue_def Let_def split: if_splits)
qed

section \<open>Properties\<close>

text \<open>Past its guards \<^verbatim>\<open>GetPath\<close> restores the matches, none of which reaches a path the destination keeps clear of.\<close>

definition get_tail :: "ops_env \<Rightarrow> 'v vault_scheme \<Rightarrow> Index \<Rightarrow> string \<Rightarrow> string \<Rightarrow> (unit, 'z) mio" where
  "get_tail o' v idx vp dest =
     (case map_of (Files idx) vp of Some rec \<Rightarrow> restoreFile o' v rec dest
      | None \<Rightarrow> if sort (below (o_store o') idx vp) = [] then io_fail (EMsg ''virtual path not found'')
          else io_fold (\<lambda>_. restore_match o' v idx dest (if vp \<noteq> '''' \<and> \<not> HasSuffix vp ''/'' then vp @ ''/'' else vp)) ()
                 (sort (below (o_store o') idx vp)))"

lemma GetPath_tail:
  assumes "ensureDestinationOutsideVault o' v dest = None" and "LoadIndex (o_store o') v w = (Inr idx, w1)"
    and "normalizeContentDirPath virtualPath = Inr vp"
  shows "GetPath o' v virtualPath dest w = get_tail o' v idx vp dest w1"
  using assms by (cases "map_of (Files idx) vp")
    (simp_all add: GetPath_def get_tail_def io_bind_def lift_path_def io_lift_def Let_def split del: if_split)

lemma get_tail_leaves:
  assumes "propers ds" and "clean_path vp" and "\<forall>ks. set (map_order (o_store o') ks) = set ks" and "\<forall>q\<in>fst ` set (Files idx). clean_path q"
    and out: "\<And>rs. propers rs \<Longrightarrow> absp (ds @ rs) \<notin> S" "\<And>rs. propers rs \<Longrightarrow> restore_temp o' (absp (ds @ rs)) \<notin> S"
  shows "leaves S (get_tail o' v idx vp (absp ds))"
proof -
  let ?pre = "if vp \<noteq> '''' \<and> \<not> HasSuffix vp ''/'' then vp @ ''/'' else vp"
  have rm: "leaves S (restore_match o' v idx (absp ds) ?pre q)" if "q \<in> set (below (o_store o') idx vp)" for q
  proof -
    have "clean_path q" using that assms(3,4) by (auto simp: below_def Let_def)
    from below_pre(2) [OF that assms(2) this] obtain rs where rs: "rs \<noteq> []" "propers rs" "TrimPrefix q ?pre = Join CHR ''/'' rs" by blast
    then have "leaves S (restoreFile o' v (the (map_of (Files idx) q)) (absp (ds @ rs)))" by (intro leaves_restore out)
    then show ?thesis using absp_join [OF assms(1) rs(2,1)] rs(3) by (simp add: restore_match_def)
  qed
  have rf: "leaves S (restoreFile o' v rec (absp ds))" for rec using leaves_restore [OF out(2,1) [of "[]"]] by simp
  have fo: "leaves S (io_fold (\<lambda>_. restore_match o' v idx (absp ds) ?pre) () (sort (below (o_store o') idx vp)))"
    by (rule leaves_fold_run, rule rm) simp
  have fl: "leaves S (io_fail e)" for e by (rule part.keeps_pure)
  show ?thesis unfolding get_tail_def
    by (cases "map_of (Files idx) vp") (simp_all only: rf fo fl option.case if_split simp_thms)
qed

lemma confined_destination:
  assumes "tidy_root v" and "CHR ''/'' \<notin> set (o_temp o')" and "ensureDestinationOutsideVault o' v dest = None"
    and "Abs (o_user o') dest = Inr dest" and "path_IsAbs dest" and "dest \<noteq> ''/''" and "\<not> HasPrefix (MetaRoot v) (dest @ ''/'')"
  obtains ds where "dest = absp ds" "propers ds"
    "\<And>rs. propers rs \<Longrightarrow> \<not> HasPrefix (absp (ds @ rs)) (MetaRoot v @ ''/'')"
    "\<And>rs. propers rs \<Longrightarrow> \<not> HasPrefix (restore_temp o' (absp (ds @ rs))) (MetaRoot v @ ''/'')"
proof -
  obtain ds ms where d: "dest = absp ds" "propers ds" "MetaRoot v = absp ms" "propers ms" "ms \<noteq> []" "\<not> (\<exists>xs. ds = ms @ xs)"
    by (rule ensured_destination [OF assms(1,3,4,5)])
  have ds: "ds \<noteq> []" using assms(6) d(1) by (auto simp: absp_def)
  have "\<not> (\<exists>xs. ms = ds @ xs)"
  proof
    assume "\<exists>xs. ms = ds @ xs"
    moreover have "ms \<noteq> ds" using d(6) by auto
    ultimately obtain y ys where "ms = ds @ y # ys" by (metis append_Nil2 neq_Nil_conv)
    then show False using below_absp [OF d(4,2) ds] assms(7) d(1,3) by simp
  qed
  then show thesis using that [OF d(1,2)] restore_outside [OF d(2) _ d(4,5) ds assms(2) d(6)] d(3) by simp
qed

text \<open>
  C12.  Plaintext does not reach the encrypted directory: restoring to an absolute destination that
  needs no expansion and does not lie above the metadata directory leaves every file in that
  directory as it was, whatever the index holds under clean paths, and whatever fails on the way.
\<close>

theorem GetPath_confined:
  assumes "tidy_root v" and "CHR ''/'' \<notin> set (o_temp o')" and "\<forall>ks. set (map_order (o_store o') ks) = set ks"
    and "Abs (o_user o') dest = Inr dest" and "path_IsAbs dest" and "dest \<noteq> ''/''" and "\<not> HasPrefix (MetaRoot v) (dest @ ''/'')"
    and "\<forall>idx. fst (LoadIndex (o_store o') v w) = Inr idx \<longrightarrow> (\<forall>p\<in>fst ` set (Files idx). clean_path p)"
    and "GetPath o' v virtualPath dest w = (r, w')" and "HasPrefix p (MetaRoot v @ ''/'')"
  shows "map_of (files w') p = map_of (files w) p"
proof (cases "ensureDestinationOutsideVault o' v dest")
  case (Some e)
  then show ?thesis using assms(9) by (simp add: GetPath_def io_fail_def)
next
  case None
  obtain ds where d: "dest = absp ds" "propers ds" and out: "\<And>rs. propers rs \<Longrightarrow> \<not> HasPrefix (absp (ds @ rs)) (MetaRoot v @ ''/'')"
    "\<And>rs. propers rs \<Longrightarrow> \<not> HasPrefix (restore_temp o' (absp (ds @ rs))) (MetaRoot v @ ''/'')"
    by (rule confined_destination [OF assms(1,2) None assms(4-7)]) blast
  obtain rl w1 where l: "LoadIndex (o_store o') v w = (rl, w1)" by fastforce
  have f1: "files w1 = files w" using read_only_gc_index(1) l unfolding read_only_def by (metis snd_conv)
  show ?thesis
  proof (cases "\<exists>idx vp. rl = Inr idx \<and> normalizeContentDirPath virtualPath = Inr vp")
    case True
    then obtain idx vp where r: "rl = Inr idx" "normalizeContentDirPath virtualPath = Inr vp" by blast
    have vp: "clean_path vp" using r(2) NormalizeContentPath_cases by (auto simp: normalizeContentDirPath_def split: sum.splits if_splits)
    have tl: "leaves {p} (get_tail o' v idx vp dest)" unfolding d(1)
      by (rule get_tail_leaves [OF d(2) vp assms(3)]) (use assms(8,10) out l r(1) in auto)
    have run: "get_tail o' v idx vp dest w1 = (r, w')" using GetPath_tail [OF None l [unfolded r(1)] r(2)] assms(9) by simp
    have "map_of (files w') p = map_of (files w1) p" by (rule leavesD(1) [OF tl _ run]) simp
    then show ?thesis using f1 by simp
  next
    case False
    then have "w' = w1" using assms(9) None l
      by (cases rl; cases "normalizeContentDirPath virtualPath") (auto simp: GetPath_def io_bind_def lift_path_def io_lift_def)
    then show ?thesis using f1 by simp
  qed
qed

text \<open>A vault whose index holds one record below a directory with the name of a metadata directory.\<close>

definition demo_ops :: ops_env where
  "demo_ops = \<lparr>o_gc = demo_gc\<lparr>gc_store := demo_senv\<rparr>, o_temp = ''1''\<rparr>"

definition trojan_path :: string where "trojan_path = ''content/SeaVaultData/vault.json''"

definition trojan :: vault_state where
  "trojan = (demo_vstate (Some \<lparr>idx_Version = 2, idx_UpdatedAt = ''t'', Files = [(trojan_path, demo_file)]\<rparr>))
     \<lparr>files := [(''/vault/SeaVaultData/vault.json'', \<lparr>data = ''config'', mtime = 0\<rparr>)]\<rparr>"

theorem GetPath_confined_witness:
  "\<exists>r w'. GetPath demo_ops demo_vlt ''content'' ''/out'' trojan = (r, w')
     \<and> map_of (files w') ''/vault/SeaVaultData/vault.json'' = Some \<lparr>data = ''config'', mtime = 0\<rparr>"
proof -
  obtain r w' where g: "GetPath demo_ops demo_vlt ''content'' ''/out'' trojan = (r, w')" by fastforce
  have t: "tidy_root demo_vlt" using demo_store_laws by (simp add: store_laws_def)
  have m: "CHR ''/'' \<notin> set (o_temp demo_ops)" "\<forall>ks. set (map_order (o_store demo_ops) ks) = set ks"
    by (simp_all add: demo_ops_def demo_senv_def)
  have a: "Abs (o_user demo_ops) ''/out'' = Inr ''/out''" "path_IsAbs ''/out''" "''/out'' \<noteq> ''/''"
    "\<not> HasPrefix (MetaRoot demo_vlt) (''/out'' @ ''/'')" by code_simp+
  have "clean_path trojan_path" by code_simp
  then have c: "\<forall>idx. fst (LoadIndex (o_store demo_ops) demo_vlt trojan) = Inr idx \<longrightarrow> (\<forall>p\<in>fst ` set (Files idx). clean_path p)"
    by (simp add: LoadIndex_def cachedIndexLocked_def io_simps get_state_def trojan_def demo_vstate_def)
  have "HasPrefix ''/vault/SeaVaultData/vault.json'' (MetaRoot demo_vlt @ ''/'')" by code_simp
  from GetPath_confined [OF t m a c g this] show ?thesis using g by (simp add: trojan_def)
qed

text \<open>
  The check looks at the destination and not at the targets.  Restoring the content to the
  directory that holds the metadata directory passes it, and a record below \<^verbatim>\<open>content/SeaVaultData\<close>,
  which the program lets peers create and keeps reachable, replaces \<^verbatim>\<open>vault.json\<close>.
\<close>

theorem GetPath_overwrites_metadata:
  "fst (GetPath demo_ops demo_vlt ''content'' ''/vault'' trojan) = Inr ()
   \<and> map_option data (map_of (files trojan) ''/vault/SeaVaultData/vault.json'') = Some ''config''
   \<and> map_option data (map_of (files (snd (GetPath demo_ops demo_vlt ''content'' ''/vault'' trojan))) ''/vault/SeaVaultData/vault.json'') = Some ''''"
proof (intro conjI)
  show "fst (GetPath demo_ops demo_vlt ''content'' ''/vault'' trojan) = Inr ()" by code_simp
  show "map_option data (map_of (files trojan) ''/vault/SeaVaultData/vault.json'') = Some ''config''" by code_simp
  show "map_option data (map_of (files (snd (GetPath demo_ops demo_vlt ''content'' ''/vault'' trojan))) ''/vault/SeaVaultData/vault.json'') = Some ''''"
    by code_simp
qed

text \<open>
  The check and the write read the destination differently.  The check expands \<^verbatim>\<open>~\<close>, the write
  does not: with the working directory inside the metadata directory the destination \<^verbatim>\<open>~/out\<close> passes,
  and the path the restore writes to lies inside it.
\<close>

theorem destination_check_expands:
  "ensureDestinationOutsideVault demo_ops demo_vlt ''~/out'' = None
   \<and> filepath_Absolute (o_user demo_ops) ''~/out'' = Inr (MetaRoot demo_vlt @ ''/~/out'')"
  by code_simp

text \<open>
  C13.  Opening a vault does not hide a wipe.  On a store with chunk objects and no manifest,
  \<^verbatim>\<open>EnsureContentLayout\<close>, which every open runs, writes nothing, whatever fails; without I/O errors it
  succeeds, and the collector still refuses the store afterwards.
\<close>

theorem open_does_not_mask_wipe:
  assumes "coherent (o_store o') v P Map.empty w" and "map_of (files w) p = Some f"
    and "HasPrefix p (chunkRoot v @ ''/'')" and "chunk_named p" and "EnsureContentLayout o' v w = (r, w')"
  shows "files w' = files w \<and> (no_faults w \<longrightarrow> r = Inr ()
    \<and> (\<exists>m. fst (GarbageCollect (o_gc o') v opts w') = Inr (empty_gc, Some (ErrGCRefused m))))"
proof -
  note l = layout_wiped [OF assms]
  have p: "map_of (files w') p = Some f" using l(2) assms(2) by simp
  obtain rg wg where g: "GarbageCollect (o_gc o') v opts w' = (rg, wg)" by fastforce
  note rw = refuse_wiped [OF l(1) p assms(3,4) g]
  have "no_faults w \<Longrightarrow> no_faults w'" using l(3) no_faults_same by blast
  then show ?thesis using rw l(2,4) g by auto
qed

theorem open_does_not_mask_wipe_witness:
  "\<exists>w' m. EnsureContentLayout demo_ops demo_vlt wiped = (Inr (), w') \<and> files w' = files wiped
     \<and> fst (GarbageCollect (o_gc demo_ops) demo_vlt demo_opts w') = Inr (empty_gc, Some (ErrGCRefused m))"
proof -
  obtain r w' where e: "EnsureContentLayout demo_ops demo_vlt wiped = (r, w')" by fastforce
  have c: "coherent (o_store demo_ops) demo_vlt {} Map.empty wiped" using wiped_coherent by (simp add: demo_ops_def)
  have p: "map_of (files wiped) demo_chunk = Some \<lparr>data = ''x'', mtime = 0\<rparr>" by (simp add: wiped_def)
  have n: "HasPrefix demo_chunk (chunkRoot demo_vlt @ ''/'')" "chunk_named demo_chunk" by code_simp+
  have "no_faults wiped" using demo_vstate_ok(1) by (simp add: wiped_def no_faults_def)
  then show ?thesis using open_does_not_mask_wipe [OF c p n e, of demo_opts] e by blast
qed

text \<open>
  C14.  Verification is exact.  The issues of the report are, in order, one for every reference that does not
  load, over the records in the order of their sorted paths and each record's chunks, with the path, the
  id, the object's path, the error and its kind; the kind is missing exactly when the error is that
  a file does not exist; the three counters are the numbers of missing, corrupt and other issues and
  add up to all of them; every record and every reference is counted; the report is clean if and only if
  every reference loads (and so has the content it names); and nothing on the disk changes.
\<close>

theorem verify_exact:
  assumes "MakeReport g v w = (Inr report, w')"
  shows "\<exists>idx w1. LoadIndex (gc_store g) v w = (Inr idx, w1)
    \<and> Issues report = concat (map (file_issues (s_cr (gc_store g)) v w1 idx) (sort (map fst (Files idx))))
    \<and> (\<forall>i\<in>set (Issues report). vi_Kind i = ''missing_chunk'' \<longleftrightarrow> is_not_exist (vi_Error i))
    \<and> MissingChunks report = of_kind ''missing_chunk'' (Issues report)
    \<and> CorruptChunks report = of_kind ''corrupt_chunk'' (Issues report)
    \<and> MissingChunks report + CorruptChunks report + OtherErrors report = int (length (Issues report))
    \<and> FilesChecked report = int (length (Files idx))
    \<and> ChunksChecked report = int (\<Sum>p\<leftarrow>sort (map fst (Files idx)). length (Chunks (the (map_of (Files idx) p))))
    \<and> (OK report \<longleftrightarrow> (\<forall>p rec ref. map_of (Files idx) p = Some rec \<and> ref \<in> set (Chunks rec) \<longrightarrow> loads (s_cr (gc_store g)) v w1 ref))
    \<and> (OK report \<longleftrightarrow> Issues report = []) \<and> files w' = files w"
proof -
  let ?s = "gc_store g"
  obtain idx w1 where l: "LoadIndex ?s v w = (Inr idx, w1)"
    using assms by (auto simp: MakeReport_def io_bind_def split: prod.splits sum.splits)
  let ?ps = "sort (map fst (Files idx))" and ?f = "file_issues (s_cr ?s) v w1 idx"
  let ?r0 = "\<lparr>OK = True, FilesChecked = int (length ?ps), ChunksChecked = 0, BytesChecked = 0, MissingChunks = 0, CorruptChunks = 0,
        OtherErrors = 0, Issues = [], PendingIntents = []\<rparr>"
  have "reports ?r0 [] 0" by (simp add: reports_def of_kind_def)
  from verify_files [OF this, of ?s v idx ?ps w1] obtain rep where rep: "io_fold (verify_file ?s v idx) ?r0 ?ps w1 = (Inr rep, w1)"
    "reports rep (concat (map ?f ?ps)) (\<Sum>p\<leftarrow>?ps. length (Chunks (the (map_of (Files idx) p))))" "FilesChecked rep = int (length ?ps)"
    by auto
  have e: "OK report = OK rep" "Issues report = Issues rep" "MissingChunks report = MissingChunks rep"
    "CorruptChunks report = CorruptChunks rep" "OtherErrors report = OtherErrors rep" "FilesChecked report = FilesChecked rep"
    "ChunksChecked report = ChunksChecked rep"
    using assms l rep(1) by (auto simp: MakeReport_def io_bind_def io_try_def io_ret_def Let_def time_Now_def split: prod.splits sum.splits)
  have d: "p \<in> set ?ps \<longleftrightarrow> (\<exists>rec. map_of (Files idx) p = Some rec)" for p
    using map_of_eq_None_iff [of "Files idx" p] by auto
  have "concat (map ?f ?ps) = [] \<longleftrightarrow> (\<forall>p\<in>set ?ps. \<forall>ref\<in>set (Chunks (the (map_of (Files idx) p))). loads (s_cr ?s) v w1 ref)"
    by (simp only: concat_eq_Nil_conv set_map ball_simps file_issues_empty)
  also have "\<dots> \<longleftrightarrow> (\<forall>p rec ref. map_of (Files idx) p = Some rec \<and> ref \<in> set (Chunks rec) \<longrightarrow> loads (s_cr ?s) v w1 ref)"
    unfolding Ball_def d by auto
  finally have clean: "concat (map ?f ?ps) = [] \<longleftrightarrow>
      (\<forall>p rec ref. map_of (Files idx) p = Some rec \<and> ref \<in> set (Chunks rec) \<longrightarrow> loads (s_cr ?s) v w1 ref)" .
  have kinds: "\<forall>i\<in>set (concat (map ?f ?ps)). vi_Kind i = ''missing_chunk'' \<longleftrightarrow> is_not_exist (vi_Error i)"
  proof
    fix i assume "i \<in> set (concat (map ?f ?ps))"
    then obtain p where "i \<in> set (?f p)" by auto
    then show "vi_Kind i = ''missing_chunk'' \<longleftrightarrow> is_not_exist (vi_Error i)" by (rule file_issue_kind)
  qed
  have "read_only (MakeReport g v)"
    unfolding MakeReport_def verify_file_def verify_chunk_def Let_def by (intro read_only_intros)
  then have f: "files w' = files w" using assms unfolding read_only_def by (metis snd_conv)
  have r: "Issues rep = concat (map ?f ?ps)" "OK rep \<longleftrightarrow> concat (map ?f ?ps) = []"
    "ChunksChecked rep = int (\<Sum>p\<leftarrow>?ps. length (Chunks (the (map_of (Files idx) p))))"
    "MissingChunks rep = of_kind ''missing_chunk'' (concat (map ?f ?ps))" "CorruptChunks rep = of_kind ''corrupt_chunk'' (concat (map ?f ?ps))"
    "MissingChunks rep + CorruptChunks rep + OtherErrors rep = int (length (concat (map ?f ?ps)))"
    using rep(2) unfolding reports_def by blast+
  have n: "FilesChecked rep = int (length (Files idx))" using rep(3) by simp
  show ?thesis
    unfolding e r(1) by (intro exI [of _ idx] exI [of _ w1] conjI) (rule l f n refl kinds r(2-6) trans [OF r(2) clean])+
qed

theorem verify_exact_witness:
  "\<exists>report w'. MakeReport demo_gc demo_vlt demo_garbage = (Inr report, w') \<and> \<not> OK report \<and> length (Issues report) = 1
     \<and> MissingChunks report + CorruptChunks report + OtherErrors report = 1 \<and> files w' = files demo_garbage"
proof -
  have "(case fst (MakeReport demo_gc demo_vlt demo_garbage) of Inl _ \<Rightarrow> False | Inr rep \<Rightarrow> length (Issues rep) = 1)" by code_simp
  then obtain report w' where run: "MakeReport demo_gc demo_vlt demo_garbage = (Inr report, w')" "length (Issues report) = 1"
    by (cases "MakeReport demo_gc demo_vlt demo_garbage") (auto split: sum.splits)
  from verify_exact [OF run(1)] show ?thesis using run by (metis list.size(3) of_nat_1 zero_neq_one)
qed

end
