(* ===== verification/LoadedIndex.thy ===== *)
theory LoadedIndex
  imports Compact
begin

text \<open>
  The type of the index that \<^verbatim>\<open>loadManifestIndex\<close> returns (\<^verbatim>\<open>src/internal/vault/manifest.go\<close>): its paths are
  unique and clean over any store. The path of a conflict copy (\<^verbatim>\<open>conflictPath\<close>) is shown to be a
  sibling of the original.
\<close>

section \<open>The paths of a loaded index\<close>

lemma path_Split_cases:
  obtains f where "path_Split p = ('''', f)" and "p = f" and "CHR ''/'' \<notin> set f"
  | q f where "path_Split p = (q @ ''/'', f)" and "p = q @ CHR ''/'' # f" and "CHR ''/'' \<notin> set f"
proof (cases "CHR ''/'' \<in> set p")
  case True
  obtain q f where p: "p = q @ CHR ''/'' # f" "CHR ''/'' \<notin> set f" using split_list_last [OF True] by blast
  then have "takeWhile (\<lambda>c. c \<noteq> CHR ''/'') (rev p) = rev f" by (subst p(1)) (simp add: takeWhile_tail takeWhile_append)
  then have "path_Split p = (q @ ''/'', f)" using p(1) by (simp add: path_Split_def)
  with p show ?thesis using that(2) by blast
next
  case False
  then have "takeWhile (\<lambda>c. c \<noteq> CHR ''/'') (rev p) = rev p" by (intro takeWhile_eq_all_conv [THEN iffD2]) auto
  then have "path_Split p = ('''', p)" unfolding path_Split_def Let_def by (simp only: rev_rev_ident) simp
  with False show ?thesis using that(1) [of p] by simp
qed

lemma clean_path_extend:
  assumes "clean_path p" and "CHR ''/'' \<notin> set x" and "2 < length x"
  shows "clean_path (p @ x)"
proof -
  have c: "clean_path (f @ x)" if "CHR ''/'' \<notin> set f" for f
    using assms(2,3) that by (intro clean_path_seg) (auto dest!: arg_cong [of _ _ length])
  show ?thesis
  proof (rule path_Split_cases [of p])
    fix f assume "p = f" "CHR ''/'' \<notin> set f"
    then show ?thesis using c by simp
  next
    fix q f assume "p = q @ CHR ''/'' # f" "CHR ''/'' \<notin> set f"
    then show ?thesis using c [of f] assms(1) clean_path_append [of q] by simp
  qed
qed

lemma replace_stamp_chars: "CHR ''/'' \<notin> set (replace_stamp s)" "CHR 0x5C \<notin> set (replace_stamp s)"
  by (induction s) auto

lemma conflictSuffix_chars:
  assumes "\<forall>x. set (sha256hex env x) \<subseteq> hex_digits"
  shows "CHR ''/'' \<notin> set (conflictSuffix env rec)" "CHR 0x5C \<notin> set (conflictSuffix env rec)"
proof -
  have h: "set (take 12 (sha256hex env x)) \<subseteq> hex_digits" for x using assms set_take_subset by fastforce
  have "CHR ''/'' \<notin> hex_digits" "CHR 0x5C \<notin> hex_digits" by (simp_all add: hex_digits_def)
  then have "CHR ''/'' \<notin> set (take 12 (sha256hex env x))" "CHR 0x5C \<notin> set (take 12 (sha256hex env x))" for x using h by blast+
  then show "CHR ''/'' \<notin> set (conflictSuffix env rec)" "CHR 0x5C \<notin> set (conflictSuffix env rec)"
    unfolding conflictSuffix_def Let_def using replace_stamp_chars by (simp_all split: option.splits)
qed

text \<open>The copy of a clean path is its sibling: the same path with the suffix behind a dot.\<close>

lemma conflictPath_clean:
  assumes "clean_path p" and "\<forall>x. set (sha256hex env x) \<subseteq> hex_digits"
  shows "conflictPath env p rec = p @ ''.'' @ conflictSuffix env rec \<and> clean_path (p @ ''.'' @ conflictSuffix env rec)"
proof -
  define x where "x = ''.'' @ conflictSuffix env rec"
  have x: "CHR ''/'' \<notin> set x" "2 < length x" using conflictSuffix_chars [OF assms(2)] by (simp_all add: x_def conflictSuffix_def Let_def)
  note cl = clean_path_extend [OF assms(1) x]
  show ?thesis
  proof (rule path_Split_cases [of p])
    fix f assume f: "path_Split p = ('''', f)" "p = f"
    then have "f \<noteq> ''''" using clean_path_ne [OF assms(1)] by simp
    moreover have "path_Join '''' (p @ x) = p @ x" using cl x(2) by (auto simp: path_Join_def path_Clean_clean)
    ultimately show ?thesis using f cl by (simp add: conflictPath_def TrimSuffix_def HasSuffix_def x_def)
  next
    fix q f assume f: "path_Split p = (q @ ''/'', f)" "p = q @ CHR ''/'' # f"
    have "clean_path q" "clean_path f" "clean_path (f @ x)"
      using assms(1) cl clean_path_append [of q f] clean_path_append [of q "f @ x"] f(2) by simp_all
    then have "f \<noteq> ''''" "path_Join q (f @ x) = q @ CHR ''/'' # f @ x" by (auto dest: clean_path_ne path_Join_clean)
    then show ?thesis using f cl by (simp add: conflictPath_def TrimSuffix_def HasSuffix_def x_def)
  qed
qed

text \<open>Every group is named by a clean path, whatever its manifests say.\<close>

definition clean_key :: "string \<Rightarrow> bool" where
  "clean_key k \<longleftrightarrow> clean_path k \<and> CHR 0x5C \<notin> set k"

lemma conflictPath_key:
  "clean_key p \<Longrightarrow> \<forall>x. set (sha256hex env x) \<subseteq> hex_digits \<Longrightarrow> clean_key (conflictPath env p rec)"
  using conflictPath_clean [of p env rec] conflictSuffix_chars(2) [of env rec] by (simp add: clean_key_def)

lemma keys_update: "fst ` set (AList.update k x m) = insert k (fst ` set m)"
  using dom_update [of k x m] by (simp add: dom_map_of_conv_image_fst)

lemma group_path_keys:
  assumes "fst ` set bp \<subseteq> Collect clean_key"
  shows "fst ` set (foldl (group_path s v) bp cs) \<subseteq> Collect clean_key"
  using assms
proof (induction cs arbitrary: bp)
  case (Cons c cs)
  have "fst ` set (group_path s v bp c) \<subseteq> Collect clean_key"
  proof (cases "CleanVirtualPath (mr_Path (Record c))")
    case (Inr q)
    then have "q \<noteq> '''' \<Longrightarrow> clean_key q" using CleanVirtualPath_cases by (simp add: clean_key_def)
    then show ?thesis using Cons.prems Inr by (simp add: group_path_def Let_def keys_update)
  qed (use Cons.prems in \<open>simp add: group_path_def\<close>)
  then show ?case using Cons.IH by simp
qed simp

lemma reconcile_paths:
  assumes "reconcilePathCandidates env p list = Some (lv, cs, rs)" and "c \<in> set cs"
  shows "\<exists>rec. pc_Path c = conflictPath env p rec"
proof (cases "list = []")
  case False
  obtain w losers rs' where l: "reconcile_losers env p w losers = (cs, rs')"
    using reconcile_Some [OF assms(1) False] by metis
  obtain l where "reconcile_loser env p w l = Some c" using reconcile_losers_set [OF l] assms(2) by blast
  then show ?thesis by (auto simp: reconcile_loser_def Let_def split: if_splits)
qed (use assms in \<open>simp add: reconcilePathCandidates_def\<close>)

lemma keys_update_all:
  "fst ` set (fold (\<lambda>c m. AList.update (pc_Path c) (pc_Rec c) m) cs fs) = fst ` set fs \<union> pc_Path ` set cs"
  by (induction cs arbitrary: fs) (auto simp: keys_update)

lemma wf_update_all: "wf_map fs \<Longrightarrow> wf_map (fold (\<lambda>c m. AList.update (pc_Path c) (pc_Rec c) m) cs fs)"
  by (induction cs arbitrary: fs) auto

lemma merge_paths_keys:
  assumes "merge_paths env bp ps fs cs rs = Inr (fs', cs', rs')" and "fst ` set bp \<subseteq> Collect clean_key"
    and "\<forall>x. set (sha256hex env x) \<subseteq> hex_digits" and "wf_map fs" and "fst ` set fs \<subseteq> Collect clean_key"
  shows "wf_map fs' \<and> fst ` set fs' \<subseteq> Collect clean_key"
  using assms
proof (induction ps arbitrary: fs cs rs)
  case (Cons p ps)
  obtain lv cf rm where r: "reconcilePathCandidates env p (group_of bp p) = Some (lv, cf, rm)"
    using Cons.prems(1) by (auto simp: group_of_def split: option.splits)
  define fs1 where "fs1 = (case lv of None \<Rightarrow> fs | Some rec \<Rightarrow> AList.update p rec fs)"
  define new where "new = filter (\<lambda>c. map_of bp (pc_Path c) = None) cf"
  define fs2 where "fs2 = fold (\<lambda>c m. AList.update (pc_Path c) (pc_Rec c) m) new fs1"
  have m: "merge_paths env bp ps fs2 (cs @ new) (rs @ rm) = Inr (fs', cs', rs')"
    using Cons.prems(1) r by (simp add: group_of_def [symmetric] Let_def new_def fs2_def fs1_def)
  have "wf_map fs2 \<and> fst ` set fs2 \<subseteq> Collect clean_key"
  proof (cases "map_of bp p")
    case None
    then have "lv = None" "cf = []" using r by (auto simp: group_of_def reconcilePathCandidates_def)
    then show ?thesis using Cons.prems(4,5) by (simp add: fs2_def new_def fs1_def)
  next
    case (Some l)
    then have p: "clean_key p" using Cons.prems(2) map_of_SomeD by force
    then have "pc_Path ` set new \<subseteq> Collect clean_key"
      using reconcile_paths [OF r] conflictPath_key [OF p Cons.prems(3)] unfolding new_def by fastforce
    moreover have "wf_map fs1" "fst ` set fs1 \<subseteq> Collect clean_key"
      using Cons.prems(4,5) p by (auto simp: fs1_def keys_update split: option.splits)
    ultimately show ?thesis unfolding fs2_def keys_update_all using wf_update_all by blast
  qed
  then show ?case using Cons.IH [OF m Cons.prems(2,3)] by blast
qed simp

text \<open>
  C16.  Every index a load returns is well typed, whatever the manifests on the disk say and whatever
  fault occurs on the way: no path occurs twice, and every path, the paths of the conflict copies
  included, is a clean relative path of proper segments without backslash, empty, dot or dot-dot
  segment. The hypothesis is that \<^verbatim>\<open>hex.EncodeToString\<close> returns hexadecimal digits.
\<close>

theorem loaded_index_typed:
  fixes w w' :: "'z vault_state_scheme"
  assumes "loadManifestIndex s v w = (Inr (idx, plan), w')" and "\<forall>x. set (sha256hex (s_host s) x) \<subseteq> hex_digits"
  shows "wf_map (Files idx) \<and> idx_Version idx = 2
    \<and> (\<forall>k\<in>fst ` set (Files idx). (\<forall>seg\<in>set (Split CHR ''/'' k). proper_seg seg) \<and> CHR 0x5C \<notin> set k)"
proof -
  have v: "idx_Version idx = 2"
    and f: "Files idx = [] \<or> (\<exists>t cands cs rs. merge_paths ((s_host s)\<lparr>nowNano := t\<rparr>) (foldl (group_path s v) [] cands)
      (map_order s (map fst (foldl (group_path s v) [] cands))) [] [] [] = Inr (Files idx, cs, rs))"
    using assms(1)
    by (auto simp: loadManifestIndex_def io_simps os_walk_def check_fault_def time_Now_def Let_def NewIndex_def
        split: prod.splits sum.splits option.splits if_splits)
  have "wf_map (Files idx) \<and> fst ` set (Files idx) \<subseteq> Collect clean_key"
    using f
  proof
    assume "\<exists>t cands cs rs. merge_paths ((s_host s)\<lparr>nowNano := t\<rparr>) (foldl (group_path s v) [] cands)
      (map_order s (map fst (foldl (group_path s v) [] cands))) [] [] [] = Inr (Files idx, cs, rs)"
    then obtain t cands cs rs where m: "merge_paths ((s_host s)\<lparr>nowNano := t\<rparr>) (foldl (group_path s v) [] cands)
      (map_order s (map fst (foldl (group_path s v) [] cands))) [] [] [] = Inr (Files idx, cs, rs)" by blast
    show ?thesis by (rule merge_paths_keys [OF m]) (use assms(2) group_path_keys [of "[]" s v cands] in simp_all)
  qed simp
  with v show ?thesis unfolding clean_key_def clean_path_def by blast
qed

theorem loaded_index_typed_witness:
  "\<exists>idx plan w'. loadManifestIndex twin_senv demo_vlt twin_state = (Inr (idx, plan), w') \<and> rp_conflicts plan = [twin_conflict]
     \<and> wf_map (Files idx) \<and> (\<forall>k\<in>fst ` set (Files idx). CHR 0x5C \<notin> set k)"
proof -
  obtain idx w1 where ld: "loadManifestIndex twin_senv demo_vlt twin_state
      = (Inr (idx, \<lparr>rp_conflicts = [twin_conflict], rp_removeManifests = [], sawManifest = True\<rparr>), w1)" using twin_load by blast
  have "\<forall>x. set (sha256hex (s_host twin_senv) x) \<subseteq> hex_digits" by (simp add: twin_senv_def hex_digits_def)
  from loaded_index_typed [OF ld this] show ?thesis using ld by auto
qed

end
