(* ===== verification/VaultExport.thy ===== *)
theory VaultExport
  imports VaultSafety LoadedIndex
begin

text \<open>
  Export to the host (\<^verbatim>\<open>internal/vault/export.go\<close>): the files a virtual path matches, the portable and
  pairwise different names they are written under, the overwrite policies, and the export as single
  files or as one archive.
\<close>

section \<open>Options and results\<close>

definition OverwriteFail :: string where "OverwriteFail = ''fail''"
definition OverwriteSkip :: string where "OverwriteSkip = ''skip''"
definition OverwriteReplace :: string where "OverwriteReplace = ''replace''"

record ExportOptions =
  xo_Overwrite :: string
  xo_Zip :: bool
  xo_DryRun :: bool

text \<open>An error of an entry is kept as it is instead of its text.\<close>

record ExportEntry =
  xe_Path :: string
  xe_DestPath :: string
  xe_Size :: int
  xe_Skipped :: bool
  xe_Reason :: string
  xe_Error :: "error option"

record ExportResult =
  xr_VirtualPath :: string
  xr_DestPath :: string
  xr_Zip :: bool
  xr_Overwrite :: string
  xr_DryRun :: bool
  xr_Files :: int
  xr_Exported :: int
  xr_Skipped :: int
  xr_Failed :: int
  xr_Bytes :: int
  xr_Entries :: "ExportEntry list"

text \<open>
  What the export takes from outside: the lower case of a rune outside ASCII, the bytes \<^verbatim>\<open>archive/zip\<close>
  writes for a list of entries, and what \<^verbatim>\<open>ctx.Err\<close> returns at each of its calls.
\<close>

record zip_entry =
  ze_Name :: string
  ze_Mode :: int
  ze_ModTime :: "int option"
  ze_Data :: bytes

record export_env =
  x_ops :: ops_env
  x_lower :: "string \<Rightarrow> string"
  x_zip :: "zip_entry list \<Rightarrow> bytes"
  ctx_Err :: "nat \<Rightarrow> error option"

abbreviation x_store :: "export_env \<Rightarrow> store_env" where "x_store x \<equiv> o_store (x_ops x)"

definition normalizeOverwrite :: "string \<Rightarrow> error + string" where
  "normalizeOverwrite policy =
     (let p = ToLower (TrimSpace policy) in
      if p = '''' \<or> p = OverwriteFail then Inr OverwriteFail
      else if p = OverwriteSkip then Inr OverwriteSkip
      else if p = OverwriteReplace \<or> p = ''overwrite'' then Inr OverwriteReplace
      else Inl (EMsg ''unsupported overwrite policy; use fail, skip, or replace''))"

section \<open>Names\<close>

definition visibleIndex :: "Index \<Rightarrow> Index" where
  "visibleIndex idx = \<lparr>idx_Version = 2, idx_UpdatedAt = idx_UpdatedAt idx,
     Files = filter (\<lambda>(p, _). \<not> IsInternalVirtualPath p) (Files idx)\<rparr>"

definition exportMatches :: "store_env \<Rightarrow> 'v vault_scheme \<Rightarrow> string \<Rightarrow> (string list \<times> Index \<times> string, 'z) mio" where
  "exportMatches s v virtualPath =
     io_bind (LoadIndex s v) (\<lambda>idx.
     io_bind (lift_path (normalizeContentDirPath virtualPath)) (\<lambda>vp.
     if files_has idx vp \<and> vp \<noteq> '''' \<and> \<not> IsInternalVirtualPath vp then io_ret ([vp], visibleIndex idx, vp)
     else let matches = filter (\<lambda>p. \<not> IsInternalVirtualPath p) (below s idx vp) in
       if matches = [] then io_fail (EMsg ''virtual path not found'')
       else io_ret (sort matches, visibleIndex idx, vp)))"

definition exportRelativePath :: "string \<Rightarrow> string \<Rightarrow> bool \<Rightarrow> string" where
  "exportRelativePath p vp exactFile =
     (if exactFile then path_Base p
      else if vp = '''' then p
      else let rel = TrimPrefix p (TrimSuffix vp ''/'' @ ''/'') in
        if rel = '''' \<or> rel = p then path_Base p else rel)"

text \<open>\<^verbatim>\<open>filepath.Ext\<close>\<close>

definition filepath_Ext :: "string \<Rightarrow> string" where
  "filepath_Ext p =
     (let f = snd (path_Split p) in
      if CHR ''.'' \<in> set f then CHR ''.'' # rev (takeWhile (\<lambda>c. c \<noteq> CHR ''.'') (rev f)) else '''')"

definition exportZipPath :: "string \<Rightarrow> string \<Rightarrow> string" where
  "exportZipPath destPath vp =
     (if EqualFold (filepath_Ext destPath) ''.zip'' then destPath
      else let name = trim_both (\<lambda>c. c = CHR ''.'') (path_Base vp);
               chosen = (if TrimSpace vp = '''' \<or> name = '''' \<or> name = ''/'' then ''seavault-export'' else name)
           in path_Join destPath (chosen @ ''.zip''))"

text \<open>
  The key two targets of a batch may not share, and the search for a free number.  Among one more
  numbers than there are keys one is free, so that many steps are enough.
\<close>

definition target_key :: "(string \<Rightarrow> string) \<Rightarrow> string list \<Rightarrow> string" where
  "target_key lower segs = lower_text lower (Join CHR ''/'' segs)"

fun number_loop :: "(string \<Rightarrow> string) \<Rightarrow> string list \<Rightarrow> string list \<Rightarrow> string \<Rightarrow> nat \<Rightarrow> nat \<Rightarrow> string list option" where
  "number_loop lower used pre base n 0 = None"
| "number_loop lower used pre base n (Suc fuel) =
     (let segs = pre @ [base @ ''.'' @ show_nat n] in
      if target_key lower segs \<in> set used then number_loop lower used pre base (Suc n) fuel else Some segs)"

definition target_segs :: "(string \<Rightarrow> string) \<Rightarrow> host_env \<Rightarrow> string list \<Rightarrow> string list \<Rightarrow> FileRecord \<Rightarrow> string list option" where
  "target_segs lower env used segs rec =
     (if target_key lower segs \<notin> set used then Some segs
      else let pre = butlast segs; base = last segs @ ''.'' @ conflictSuffix env rec in
        if target_key lower (pre @ [base]) \<notin> set used then Some (pre @ [base])
        else number_loop lower used pre base 2 (Suc (length used)))"

definition portable_segs :: "string \<Rightarrow> string list" where
  "portable_segs rel = map (\<lambda>s. if ValidatePortableName s \<noteq> None then sanitizePortableSegment s else s) (Split CHR ''/'' rel)"

fun targets_loop :: "(string \<Rightarrow> string) \<Rightarrow> host_env \<Rightarrow> Index \<Rightarrow> string \<Rightarrow> bool \<Rightarrow> string list \<Rightarrow> string gomap \<Rightarrow> string list
  \<Rightarrow> string gomap option" where
  "targets_loop lower env idx vp exactFile used rels [] = Some rels"
| "targets_loop lower env idx vp exactFile used rels (p # ps) =
     (case target_segs lower env used (portable_segs (exportRelativePath p vp exactFile)) (the (map_of (Files idx) p)) of
        None \<Rightarrow> None
      | Some segs \<Rightarrow> targets_loop lower env idx vp exactFile (target_key lower segs # used)
          (AList.update p (Join CHR ''/'' segs) rels) ps)"

definition exportTargets :: "(string \<Rightarrow> string) \<Rightarrow> host_env \<Rightarrow> string list \<Rightarrow> Index \<Rightarrow> string \<Rightarrow> bool \<Rightarrow> string gomap option" where
  "exportTargets lower env matches idx vp exactFile = targets_loop lower env idx vp exactFile [] [] matches"

section \<open>Writing\<close>

definition checkOverwrite :: "string \<Rightarrow> string \<Rightarrow> (unit, 'z) io" where
  "checkOverwrite target overwrite =
     io_try (os_Stat target) (\<lambda>r. case r of
       Inr _ \<Rightarrow> if overwrite = OverwriteSkip then io_fail ErrSkipExisting
                else if overwrite = OverwriteReplace then io_ret ()
                else io_fail (EMsg (''destination already exists: '' @ target))
     | Inl e \<Rightarrow> if is_not_exist e then io_ret () else io_fail e)"

text \<open>One \<^verbatim>\<open>os.Rename\<close>; when it fails the temporary file stays.\<close>

definition rename_once :: "string \<Rightarrow> string \<Rightarrow> fsfile \<Rightarrow> (unit, 'z) io" where
  "rename_once tmp destPath f w =
     (case rename_fault w destPath 0 of
        Some (m, _) \<Rightarrow> (Inl (EMsg m), snd (put_file tmp f w))
      | None \<Rightarrow> put_file destPath f w)"

definition export_temp :: "export_env \<Rightarrow> string \<Rightarrow> string" where
  "export_temp x destPath = path_Join (path_Dir destPath) (''.seavault-export-'' @ o_temp (x_ops x))"

definition remove_quietly :: "bool \<Rightarrow> string \<Rightarrow> (unit, 'z) io" where
  "remove_quietly b p = (if b then io_try (os_Remove p) (\<lambda>_. io_ret ()) else io_ret ())"

definition restoreFileWithOverwrite :: "export_env \<Rightarrow> 'v vault_scheme \<Rightarrow> FileRecord \<Rightarrow> string \<Rightarrow> string \<Rightarrow> (unit, 'z) io" where
  "restoreFileWithOverwrite x v rec destPath overwrite =
     io_bind (os_MkdirAll (path_Dir destPath)) (\<lambda>_.
     io_bind (check_fault OpTemp (path_Dir destPath)) (\<lambda>_.
     io_bind (write_chunks (s_cr (x_store x)) v (Chunks rec)) (\<lambda>d.
     io_bind (restored_file (x_ops x) rec d (export_temp x destPath)) (\<lambda>f.
     io_bind (remove_quietly (overwrite = OverwriteReplace) destPath) (\<lambda>_.
     rename_once (export_temp x destPath) destPath f)))))"

text \<open>The archive: every record's chunks under its target name; a cancelled context ends the loop.\<close>

fun zip_entries :: "export_env \<Rightarrow> 'v vault_scheme \<Rightarrow> Index \<Rightarrow> string gomap \<Rightarrow> nat \<Rightarrow> string list \<Rightarrow> (zip_entry list, 'z) io" where
  "zip_entries x v idx rels i [] = io_ret []"
| "zip_entries x v idx rels i (p # ps) =
     (case ctx_Err x i of
        Some e \<Rightarrow> io_fail e
      | None \<Rightarrow>
          let rec = the (map_of (Files idx) p) in
          io_bind (write_chunks (s_cr (x_store x)) v (Chunks rec)) (\<lambda>d.
          io_bind (zip_entries x v idx rels (Suc i) ps) (\<lambda>es.
          io_ret (\<lparr>ze_Name = the (map_of rels p), ze_Mode = Mode rec,
             ze_ModTime = (if ModTime rec = '''' then None else parseTime (s_host (x_store x)) (ModTime rec)), ze_Data = d\<rparr> # es))))"

definition writeZip :: "export_env \<Rightarrow> 'v vault_scheme \<Rightarrow> string \<Rightarrow> string list \<Rightarrow> Index \<Rightarrow> string gomap \<Rightarrow> (unit, 'z) io" where
  "writeZip x v zipPath matches idx rels =
     io_bind (check_fault OpTemp (path_Dir zipPath)) (\<lambda>_.
     io_bind (zip_entries x v idx rels 1 matches) (\<lambda>es.
     io_bind time_Now (\<lambda>t.
     rename_once (path_Join (path_Dir zipPath) (''.seavault-zip-'' @ o_temp (x_ops x))) zipPath \<lparr>data = x_zip x es, mtime = t\<rparr>)))"

definition entry_of :: "Index \<Rightarrow> string \<Rightarrow> string \<Rightarrow> ExportEntry" where
  "entry_of idx target p = \<lparr>xe_Path = p, xe_DestPath = target, xe_Size = Size (the (map_of (Files idx) p)), xe_Skipped = False,
     xe_Reason = '''', xe_Error = None\<rparr>"

definition sum_sizes :: "Index \<Rightarrow> string list \<Rightarrow> int" where
  "sum_sizes idx ps = foldl (\<lambda>n p. i64 (n + Size (the (map_of (Files idx) p)))) 0 ps"

text \<open>The branch of \<^verbatim>\<open>ExportPath\<close> for an archive; the result accompanies an error.\<close>

definition export_zip :: "export_env \<Rightarrow> 'v vault_scheme \<Rightarrow> string \<Rightarrow> bool \<Rightarrow> string list \<Rightarrow> Index \<Rightarrow> string gomap \<Rightarrow> string \<Rightarrow> ExportResult
  \<Rightarrow> (ExportResult \<times> error option, 'z) io" where
  "export_zip x v overwrite dry matches idx rels zipPath result0 =
     (let result = result0\<lparr>xr_DestPath := zipPath, xr_Bytes := sum_sizes idx matches, xr_Entries := map (entry_of idx zipPath) matches\<rparr> in
      if dry then io_ret (result, None)
      else case ctx_Err x 0 of
        Some e \<Rightarrow> io_ret (result, Some e)
      | None \<Rightarrow>
          io_try (checkOverwrite zipPath overwrite) (\<lambda>r. case r of
            Inl e \<Rightarrow>
              if overwrite = OverwriteSkip \<and> e = ErrSkipExisting
              then io_ret (result\<lparr>xr_Skipped := int (length matches),
                     xr_Entries := map (\<lambda>en. en\<lparr>xe_Skipped := True, xe_Reason := ''destination ZIP already exists''\<rparr>) (xr_Entries result)\<rparr>, None)
              else io_ret (result, Some e)
          | Inr _ \<Rightarrow>
              io_try (io_bind (os_MkdirAll (path_Dir zipPath)) (\<lambda>_.
                io_bind (remove_quietly (overwrite = OverwriteReplace) zipPath) (\<lambda>_. writeZip x v zipPath matches idx rels))) (\<lambda>r. case r of
                Inl e \<Rightarrow> io_ret (result, Some e)
              | Inr _ \<Rightarrow> io_ret (result\<lparr>xr_Exported := int (length matches)\<rparr>, None))))"

text \<open>One file of a batch: its failure is recorded and the batch goes on.\<close>

definition export_one :: "export_env \<Rightarrow> 'v vault_scheme \<Rightarrow> string \<Rightarrow> string \<Rightarrow> bool \<Rightarrow> Index \<Rightarrow> string gomap \<Rightarrow> ExportResult \<Rightarrow> string
  \<Rightarrow> (ExportResult, 'z) io" where
  "export_one x v destPath overwrite dry idx rels result p =
     (let rec = the (map_of (Files idx) p); target = path_Join destPath (the (map_of rels p)); entry = entry_of idx target p;
          res1 = result\<lparr>xr_Bytes := i64 (xr_Bytes result + Size rec)\<rparr>;
          failed = (\<lambda>e. res1\<lparr>xr_Failed := xr_Failed res1 + 1, xr_Entries := xr_Entries res1 @ [entry\<lparr>xe_Error := Some e\<rparr>]\<rparr>) in
      if dry then io_ret (res1\<lparr>xr_Entries := xr_Entries res1 @ [entry]\<rparr>)
      else io_try (checkOverwrite target overwrite) (\<lambda>r. case r of
        Inl e \<Rightarrow>
          if overwrite = OverwriteSkip \<and> e = ErrSkipExisting
          then io_ret (res1\<lparr>xr_Skipped := xr_Skipped res1 + 1,
                 xr_Entries := xr_Entries res1 @ [entry\<lparr>xe_Skipped := True, xe_Reason := ''destination exists''\<rparr>]\<rparr>)
          else io_ret (failed e)
      | Inr _ \<Rightarrow>
          io_try (restoreFileWithOverwrite x v rec target overwrite) (\<lambda>r. case r of
            Inl e \<Rightarrow> io_ret (failed e)
          | Inr _ \<Rightarrow> io_ret (res1\<lparr>xr_Exported := xr_Exported res1 + 1, xr_Entries := xr_Entries res1 @ [entry]\<rparr>))))"

fun export_loop :: "export_env \<Rightarrow> 'v vault_scheme \<Rightarrow> string \<Rightarrow> string \<Rightarrow> bool \<Rightarrow> Index \<Rightarrow> string gomap \<Rightarrow> nat \<Rightarrow> ExportResult \<Rightarrow> string list
  \<Rightarrow> (ExportResult \<times> error option, 'z) io" where
  "export_loop x v destPath overwrite dry idx rels i result [] =
     io_ret (result, if xr_Failed result > 0
       then Some (EMsg (''export completed with '' @ show_int (xr_Failed result) @ '' error(s); see per-entry detail'')) else None)"
| "export_loop x v destPath overwrite dry idx rels i result (p # ps) =
     (case ctx_Err x i of
        Some e \<Rightarrow> io_ret (result, Some e)
      | None \<Rightarrow> io_bind (export_one x v destPath overwrite dry idx rels result p) (\<lambda>result'.
          export_loop x v destPath overwrite dry idx rels (Suc i) result' ps))"

definition ExportPath :: "export_env \<Rightarrow> 'v vault_scheme \<Rightarrow> string \<Rightarrow> string \<Rightarrow> ExportOptions \<Rightarrow> (ExportResult \<times> error option, 'z) mio" where
  "ExportPath x v virtualPath destPath opts =
     (case normalizeOverwrite (xo_Overwrite opts) of
        Inl e \<Rightarrow> io_fail e
      | Inr overwrite \<Rightarrow>
          if TrimSpace destPath = '''' then io_fail (EMsg ''destination path is required'')
          else case ensureDestinationOutsideVault (x_ops x) v destPath of
            Some e \<Rightarrow> io_fail e
          | None \<Rightarrow>
              io_bind (exportMatches (x_store x) v virtualPath) (\<lambda>(matches, idx, vp).
              let result = \<lparr>xr_VirtualPath = vp, xr_DestPath = destPath, xr_Zip = xo_Zip opts, xr_Overwrite = overwrite, xr_DryRun = xo_DryRun opts,
                     xr_Files = int (length matches), xr_Exported = 0, xr_Skipped = 0, xr_Failed = 0, xr_Bytes = 0, xr_Entries = []\<rparr>;
                  exactFile = (files_has idx vp \<and> vp \<noteq> '''') in
              case exportTargets (x_lower x) (s_host (x_store x)) matches idx vp exactFile of
                None \<Rightarrow> io_fail (EMsg ''no free target name'')
              | Some rels \<Rightarrow>
                  if xo_Zip opts then export_zip x v overwrite (xo_DryRun opts) matches idx rels (exportZipPath destPath vp) result
                  else export_loop x v destPath overwrite (xo_DryRun opts) idx rels 0 result matches))"

section \<open>Target names\<close>

lemma show_nat_chars: "c \<in> set (show_nat n) \<Longrightarrow> ascii_char c \<and> lower_char c = c \<and> c \<noteq> CHR ''/''"
proof (induction n rule: show_nat.induct)
  case (1 n)
  have "list_all (\<lambda>m. ascii_char (char_of (48 + m) :: char) \<and> lower_char (char_of (48 + m)) = char_of (48 + m)
      \<and> char_of (48 + m) \<noteq> CHR ''/'') [0..<10::nat]" by code_simp
  then have d: "m < 10 \<Longrightarrow> ascii_char (char_of (48 + m) :: char) \<and> lower_char (char_of (48 + m)) = char_of (48 + m)
      \<and> char_of (48 + m) \<noteq> CHR ''/''" for m :: nat by (simp add: list_all_iff del: upt_rec_numeral)
  show ?case using 1 show_nat.simps [of n] d by (cases "n < 10") auto
qed

lemma Join_last: "Join d (pre @ [b @ t]) = Join d (pre @ [b]) @ t"
  by (cases "pre = []") (simp_all add: Join_append)

lemma target_key_number:
  "target_key lower (pre @ [base @ ''.'' @ show_nat n]) = target_key lower (pre @ [base]) @ ''.'' @ show_nat n"
proof -
  have "list_all ascii_char (''.'' @ show_nat n)" using show_nat_chars by (auto simp: list_all_iff)
  moreover have "map lower_char (''.'' @ show_nat n) = ''.'' @ show_nat n" using show_nat_chars by (auto intro: map_idI simp: lower_char_def)
  ultimately show ?thesis unfolding target_key_def Join_last by (simp add: lower_text_append)
qed

text \<open>The search ends: the keys of different numbers differ, so more numbers than used keys cannot all be taken.\<close>

lemma number_loop_None:
  "number_loop lower used pre base n fuel = None \<Longrightarrow> k < fuel \<Longrightarrow> target_key lower (pre @ [base @ ''.'' @ show_nat (n + k)]) \<in> set used"
proof (induction fuel arbitrary: n k)
  case (Suc fuel)
  then show ?case using Suc.IH [of "Suc n" "k - 1"] by (cases k) (auto simp: Let_def split: if_splits)
qed simp

lemma number_loop_total: "number_loop lower used pre base n (Suc (length used)) \<noteq> None"
proof
  assume none: "number_loop lower used pre base n (Suc (length used)) = None"
  let ?k = "\<lambda>k. target_key lower (pre @ [base @ ''.'' @ show_nat (n + k)])"
  have "inj ?k" unfolding target_key_number by (auto simp: inj_def dest: show_nat_inj)
  then have "card (?k ` {..length used}) = Suc (length used)" by (subst card_image) (auto intro: inj_on_subset)
  moreover have "?k ` {..length used} \<subseteq> set used" using number_loop_None [OF none] by auto
  then have "card (?k ` {..length used}) \<le> card (set used)" by (rule card_mono [OF finite_set])
  ultimately show False using card_length [of used] by linarith
qed

lemma number_loop_Some:
  "number_loop lower used pre base n fuel = Some segs \<Longrightarrow>
   target_key lower segs \<notin> set used \<and> (\<exists>m. segs = pre @ [base @ ''.'' @ show_nat m])"
  by (induction fuel arbitrary: n) (auto simp: Let_def split: if_splits)

lemma target_segs_ok:
  assumes "\<forall>x. set (sha256hex env x) \<subseteq> hex_digits" and "propers segs" and "segs \<noteq> []"
  obtains segs' where "target_segs lower env used segs rec = Some segs'" "target_key lower segs' \<notin> set used" "propers segs'" "segs' \<noteq> []"
proof -
  let ?base = "last segs @ ''.'' @ conflictSuffix env rec"
  have "target_segs lower env used segs rec \<noteq> None"
    using number_loop_total [of lower used "butlast segs" ?base 2] unfolding target_segs_def Let_def by (simp del: number_loop.simps)
  then obtain segs' where s: "target_segs lower env used segs rec = Some segs'" by blast
  note nl = number_loop_Some [of lower used "butlast segs" ?base 2 "Suc (length used)" segs']
  have k: "target_key lower segs' \<notin> set used"
    using s nl unfolding target_segs_def Let_def by (auto simp del: number_loop.simps split: if_splits)
  have e: "segs' = segs \<or> (\<exists>t. segs' = butlast segs @ [last segs @ ''.'' @ conflictSuffix env rec @ t] \<and> CHR ''/'' \<notin> set t)"
  proof (cases "target_key lower segs \<in> set used")
    case True
    then consider "segs' = butlast segs @ [?base]" | m where "segs' = butlast segs @ [?base @ ''.'' @ show_nat m]"
      using s nl unfolding target_segs_def Let_def by (auto simp del: number_loop.simps split: if_splits)
    then show ?thesis
    proof cases
      case 1
      then show ?thesis by (intro disjI2 exI [of _ "''''"]) simp
    next
      case (2 m)
      then show ?thesis using show_nat_chars [of _ m] by (intro disjI2 exI [of _ "''.'' @ show_nat m"]) auto
    qed
  qed (use s in \<open>simp add: target_segs_def\<close>)
  have l: "proper_seg (last segs)" "propers (butlast segs)" using assms(2,3) by (auto dest: in_set_butlastD)
  have "propers segs' \<and> segs' \<noteq> []"
    using e
  proof
    assume "\<exists>t. segs' = butlast segs @ [last segs @ ''.'' @ conflictSuffix env rec @ t] \<and> CHR ''/'' \<notin> set t"
    then obtain t where t: "segs' = butlast segs @ [last segs @ ''.'' @ conflictSuffix env rec @ t]" "CHR ''/'' \<notin> set t" by blast
    have "length (''.'' @ conflictSuffix env rec) > 2" by (simp add: conflictSuffix_def Let_def)
    then have "proper_seg (last segs @ ''.'' @ conflictSuffix env rec @ t)"
      using l(1) t(2) conflictSuffix_chars(1) [OF assms(1)] by (auto simp: proper_seg_def dest!: arg_cong [of _ _ length])
    then show ?thesis using l t(1) by simp
  qed (use assms in simp)
  with that s k show thesis by blast
qed

lemma map_runes_all:
  "\<forall>r. set r \<subseteq> set s \<longrightarrow> (\<forall>x\<in>set (f r). P x) \<Longrightarrow> \<forall>x\<in>set (f replacement_rune). P x \<Longrightarrow> \<forall>x\<in>set (map_runes f s). P x"
proof (induction f s rule: map_runes.induct)
  case (2 f c cs)
  have t: "\<forall>x\<in>set (f (take n (c # cs))). P x" for n using 2(3) set_take_subset by metis
  have c: "\<forall>r. set r \<subseteq> set cs \<longrightarrow> (\<forall>x\<in>set (f r). P x)" "\<forall>r. set r \<subseteq> set (drop m cs) \<longrightarrow> (\<forall>x\<in>set (f r). P x)" for m
    using 2(3) set_drop_subset [of m cs] by auto
  show ?case using 2(1) [OF refl _ c(1) 2(4)] 2(2) [OF refl _ c(2) 2(4)] t 2(4) by (auto simp: Let_def)
qed simp

lemma portable_segs_proper: "propers (portable_segs rel)" "portable_segs rel \<noteq> []"
proof -
  have p: "proper_seg s" if "ValidatePortableName s = None" "CHR ''/'' \<notin> set s" for s
    using that by (auto simp: portable_iff proper_seg_def)
  have "CHR ''/'' \<notin> set (sanitizePortableSegment s)" if "CHR ''/'' \<notin> set s" for s
  proof -
    let ?f = "\<lambda>r. if list_ex (\<lambda>c. isControl c \<or> c \<in> set portableIllegalChars) r then ''_'' else r"
    have "\<forall>x\<in>set (map_runes ?f s). x \<noteq> CHR ''/''"
    proof (rule map_runes_all)
      show "\<forall>r. set r \<subseteq> set s \<longrightarrow> (\<forall>x\<in>set (?f r). x \<noteq> CHR ''/'')" using that by auto
      show "\<forall>x\<in>set (?f replacement_rune). x \<noteq> CHR ''/''" by code_simp
    qed
    then have "CHR ''/'' \<notin> set (trim_right (\<lambda>c. c = CHR ''.'' \<or> c = CHR '' '') (map_runes ?f s))"
      using trim_right_chars [of "\<lambda>c. c = CHR ''.'' \<or> c = CHR '' ''" "map_runes ?f s"] by blast
    then have "CHR ''/'' \<notin> set (if isReservedStem t then CHR ''_'' # t else t)"
      if "t = (let u = trim_right (\<lambda>c. c = CHR ''.'' \<or> c = CHR '' '') (map_runes ?f s) in if u = '''' then ''_'' else u)" for t
      using that by (simp add: Let_def)
    then show ?thesis unfolding sanitizePortableSegment_def Let_def by blast
  qed
  then have q: "proper_seg (sanitizePortableSegment s)" if "CHR ''/'' \<notin> set s" for s
    using that conjunct1 [OF sanitizePortableSegment_portable [of s]] by (intro p)
  have "proper_seg (if ValidatePortableName s \<noteq> None then sanitizePortableSegment s else s)" if s: "s \<in> set (Split CHR ''/'' rel)" for s
    using q [OF Split_no_sep [OF s]] p [OF _ Split_no_sep [OF s]] by (cases "ValidatePortableName s = None") (simp_all only: simp_thms if_True if_False)
  then show "propers (portable_segs rel)" unfolding portable_segs_def set_map by blast
  show "portable_segs rel \<noteq> []" by (simp add: portable_segs_def)
qed

text \<open>The invariant of the loop over the matches.\<close>

lemma targets_loop_ok:
  assumes "\<forall>x. set (sha256hex env x) \<subseteq> hex_digits" and "distinct ps"
  shows "\<exists>rels'. targets_loop lower env idx vp ex used rels ps = Some rels' \<and> (\<forall>q. q \<notin> set ps \<longrightarrow> map_of rels' q = map_of rels q)
    \<and> (\<forall>p\<in>set ps. \<exists>t. map_of rels' p = Some t \<and> clean_path t \<and> lower_text lower t \<notin> set used)
    \<and> (\<forall>p\<in>set ps. \<forall>q\<in>set ps. p \<noteq> q \<longrightarrow> lower_text lower (the (map_of rels' p)) \<noteq> lower_text lower (the (map_of rels' q)))"
  using assms(2)
proof (induction ps arbitrary: used rels)
  case (Cons p ps)
  obtain segs where s: "target_segs lower env used (portable_segs (exportRelativePath p vp ex)) (the (map_of (Files idx) p)) = Some segs"
    "target_key lower segs \<notin> set used" "propers segs" "segs \<noteq> []"
    by (rule target_segs_ok [OF assms(1) portable_segs_proper])
  let ?t = "Join CHR ''/'' segs" let ?rels = "AList.update p (Join CHR ''/'' segs) rels"
  have dps: "distinct ps" "p \<notin> set ps" using Cons.prems by simp_all
  obtain rels' where n: "targets_loop lower env idx vp ex (target_key lower segs # used) ?rels ps = Some rels'"
    "\<forall>q. q \<notin> set ps \<longrightarrow> map_of rels' q = map_of ?rels q"
    "\<forall>q\<in>set ps. \<exists>t. map_of rels' q = Some t \<and> clean_path t \<and> lower_text lower t \<notin> set (target_key lower segs # used)"
    "\<forall>a\<in>set ps. \<forall>b\<in>set ps. a \<noteq> b \<longrightarrow> lower_text lower (the (map_of rels' a)) \<noteq> lower_text lower (the (map_of rels' b))"
    using Cons.IH [OF dps(1), of "target_key lower segs # used" ?rels] by (elim exE conjE)
  have p: "map_of rels' p = Some ?t" using n(2) dps(2) by (simp add: update_conv')
  have t: "clean_path ?t" "lower_text lower ?t \<notin> set used" "lower_text lower ?t = target_key lower segs"
    using clean_path_Join [OF s(4,3)] s(2) by (simp_all add: target_key_def)
  have d: "lower_text lower (the (map_of rels' a)) \<noteq> lower_text lower ?t" if "a \<in> set ps" for a
    using n(3) that t(3) by (metis list.set_intros(1) option.sel)
  show ?case
  proof (intro exI conjI)
    show "targets_loop lower env idx vp ex used rels (p # ps) = Some rels'" using s(1) n(1) by simp
    show "\<forall>q. q \<notin> set (p # ps) \<longrightarrow> map_of rels' q = map_of rels q" using n(2) by (simp add: update_conv')
    show "\<forall>q\<in>set (p # ps). \<exists>t. map_of rels' q = Some t \<and> clean_path t \<and> lower_text lower t \<notin> set used"
      using n(3) p t by auto
    show "\<forall>a\<in>set (p # ps). \<forall>b\<in>set (p # ps). a \<noteq> b \<longrightarrow> lower_text lower (the (map_of rels' a)) \<noteq> lower_text lower (the (map_of rels' b))"
    proof (intro ballI impI)
      fix a b assume ab: "a \<in> set (p # ps)" "b \<in> set (p # ps)" "a \<noteq> b"
      show "lower_text lower (the (map_of rels' a)) \<noteq> lower_text lower (the (map_of rels' b))"
        using ab n(4) d [of a] d [of b] p by (cases "a = p"; cases "b = p") auto
    qed
  qed
qed simp

text \<open>
  The names of an export batch never clash.  For every batch of distinct paths the choice of names
  ends; each file gets a clean relative path (so it stays below the destination) and no two files get
  paths that are equal or differ only in case, whatever the names in the vault are, and whatever the
  lower case of a rune outside ASCII is.
\<close>

theorem export_names_never_clash:
  assumes "distinct matches" and "\<forall>x. set (sha256hex env x) \<subseteq> hex_digits"
  shows "\<exists>rels. exportTargets lower env matches idx vp exactFile = Some rels
    \<and> (\<forall>p\<in>set matches. \<exists>t. map_of rels p = Some t \<and> clean_path t)
    \<and> (\<forall>p\<in>set matches. \<forall>q\<in>set matches. p \<noteq> q \<longrightarrow>
         lower_text lower (the (map_of rels p)) \<noteq> lower_text lower (the (map_of rels q)))"
  using targets_loop_ok [OF assms(2,1), of lower idx vp exactFile "[]" "[]"] unfolding exportTargets_def by auto

section \<open>What a run may write\<close>

text \<open>
  The temporary files of an export, and the frame of a run that replaces nothing: a file that is there
  stays as it is, unless it has the name of a temporary file.
\<close>

definition export_temps :: "export_env \<Rightarrow> string set" where
  "export_temps x = (\<Union>d. {path_Join d (''.seavault-export-'' @ o_temp (x_ops x)), path_Join d (''.seavault-zip-'' @ o_temp (x_ops x))})"

definition adds_only :: "string set \<Rightarrow> 'z world_scheme \<Rightarrow> 'z world_scheme \<Rightarrow> bool" where
  "adds_only T w w' \<longleftrightarrow> (\<forall>q. q \<notin> T \<and> map_of (files w) q \<noteq> None \<longrightarrow> map_of (files w') q = map_of (files w) q)"

interpretation grows: frame "adds_only T" for T
  by unfold_locales (auto simp: adds_only_def)

lemma adds_read_only: "read_only m \<Longrightarrow> keeps (adds_only T) m"
  by (erule keeps_mono) (simp add: same_disk_def adds_only_def)

lemma adds_only_put:
  "map_of (files w) p = None \<or> p \<in> T \<Longrightarrow> adds_only T w (w\<lparr>files := AList.update p f (files w)\<rparr>)"
  by (auto simp: adds_only_def update_conv')

lemma rename_once_adds:
  assumes "tmp \<in> T" and "map_of (files w) p = None" and "rename_once tmp p f w = (r, w')"
  shows "adds_only T w w'"
  using assms adds_only_put [of w p T f] adds_only_put [of w tmp T f]
  by (auto simp: rename_once_def put_file_def split: option.splits)

text \<open>A destination that passes the check of a policy that does not replace is not there.\<close>

lemma checkOverwrite_free:
  assumes "checkOverwrite p ow w = (Inr (), w')" and "ow \<noteq> OverwriteReplace"
  shows "w' = w \<and> map_of (files w) p = None"
  using assms
  by (auto simp: checkOverwrite_def os_Stat_def lookup_file_def check_fault_def io_simps is_not_exist_def split: option.splits if_splits)

lemma read_only_check: "read_only (checkOverwrite p ow)"
  unfolding checkOverwrite_def by (intro read_only_intros)

lemma read_only_bind_run:
  assumes "read_only m" and "map_of (files w) p = None" and "\<And>x w1. m w = (Inr x, w1) \<Longrightarrow> map_of (files w1) p = None \<Longrightarrow> adds_only T w1 (snd (f x w1))"
  shows "adds_only T w (snd (io_bind m f w))"
proof -
  obtain r w1 where m: "m w = (r, w1)" by fastforce
  have f: "files w1 = files w" using keepsD [OF assms(1) m] by (simp add: same_disk_def)
  have a: "adds_only T w w1" using f by (simp add: adds_only_def)
  show ?thesis
  proof (cases r)
    case (Inr y)
    have "adds_only T w1 (snd (f y w1))" using assms(3) m Inr f assms(2) by simp
    with a show ?thesis using m Inr grows.trans [of T w w1] by (simp add: io_bind_def)
  qed (use m a in \<open>simp add: io_bind_def\<close>)
qed

lemma restore_adds:
  assumes "map_of (files w) p = None" and "ow \<noteq> OverwriteReplace"
  shows "adds_only (export_temps x) w (snd (restoreFileWithOverwrite x v rec p ow w))"
proof -
  have t: "export_temp x p \<in> export_temps x" by (auto simp: export_temps_def export_temp_def)
  have rf: "read_only (restored_file (x_ops x) rec d tmp)" for d tmp unfolding restored_file_def by (intro read_only_intros)
  have q: "remove_quietly (ow = OverwriteReplace) p = io_ret ()" using assms(2) by (simp add: remove_quietly_def)
  have last: "adds_only (export_temps x) w1 (snd (rename_once (export_temp x p) p f w1))" if "map_of (files w1) p = None" for f w1
    by (rule rename_once_adds [OF t that]) (rule prod.collapse [symmetric])
  have pure: "read_only (io_ret ())" by (intro read_only_intros)
  show ?thesis unfolding restoreFileWithOverwrite_def q
    apply (rule read_only_bind_run [OF read_only_os(3) assms(1)])
    apply (rule read_only_bind_run [OF read_only_host(1)], assumption)
    apply (rule read_only_bind_run [OF read_only_chunk_reads(4)], assumption)
    apply (rule read_only_bind_run [OF rf], assumption)
    apply (rule read_only_bind_run [OF pure], assumption)
    by (rule last)
qed

lemma keeps_export_one:
  assumes "ow \<noteq> OverwriteReplace"
  shows "keeps (adds_only (export_temps x)) (export_one x v dest ow dry idx rels res p)"
  unfolding keeps_def
proof
  fix w
  let ?t = "path_Join dest (the (map_of rels p))" and ?rec = "the (map_of (Files idx) p)"
  obtain r1 w1 where c: "checkOverwrite ?t ow w = (r1, w1)" by fastforce
  have a: "adds_only (export_temps x) w w1" using keepsD [OF adds_read_only [OF read_only_check] c] .
  obtain r2 w2 where m: "restoreFileWithOverwrite x v ?rec ?t ow w1 = (r2, w2)" by fastforce
  have "adds_only (export_temps x) w w2" if "r1 = Inr ()"
    using checkOverwrite_free [OF c [unfolded that] assms] restore_adds [OF _ assms, of w ?t x v ?rec] m by simp
  then show "adds_only (export_temps x) w (snd (export_one x v dest ow dry idx rels res p w))"
    using a c m grows.refl by (cases r1; cases r2) (auto simp: export_one_def Let_def io_try_def io_ret_def)
qed

lemma read_only_zip_entries: "read_only (zip_entries x v idx rels i ps)"
  by (induction ps arbitrary: i) (auto simp: Let_def split: option.split intro!: read_only_intros)

lemma zip_adds:
  assumes "map_of (files w) p = None"
  shows "adds_only (export_temps x) w (snd (writeZip x v p ms idx rels w))"
proof -
  let ?tmp = "path_Join (path_Dir p) (''.seavault-zip-'' @ o_temp (x_ops x))"
  have t: "?tmp \<in> export_temps x" by (auto simp: export_temps_def)
  have last: "adds_only (export_temps x) w1 (snd (rename_once ?tmp p f w1))" if "map_of (files w1) p = None" for f w1
    by (rule rename_once_adds [OF t that]) (rule prod.collapse [symmetric])
  show ?thesis unfolding writeZip_def
    apply (rule read_only_bind_run [OF read_only_host(1) assms(1)])
    apply (rule read_only_bind_run [OF read_only_zip_entries], assumption)
    apply (rule read_only_bind_run [OF read_only_host(2)], assumption)
    by (rule last)
qed

lemma keeps_export_zip:
  assumes "ow \<noteq> OverwriteReplace"
  shows "keeps (adds_only (export_temps x)) (export_zip x v ow dry ms idx rels p res)"
  unfolding keeps_def
proof
  fix w
  obtain r1 w1 where c: "checkOverwrite p ow w = (r1, w1)" by fastforce
  have a: "adds_only (export_temps x) w w1" using keepsD [OF adds_read_only [OF read_only_check] c] .
  have q: "remove_quietly (ow = OverwriteReplace) p = io_ret ()" using assms by (simp add: remove_quietly_def)
  let ?m = "io_bind (os_MkdirAll (path_Dir p)) (\<lambda>_. io_bind (io_ret ()) (\<lambda>_. writeZip x v p ms idx rels))"
  obtain r2 w2 where m: "?m w1 = (r2, w2)" by fastforce
  have pure: "read_only (io_ret ())" by (intro read_only_intros)
  have "adds_only (export_temps x) w w2" if "r1 = Inr ()"
  proof -
    have f: "w1 = w" "map_of (files w) p = None" using checkOverwrite_free [OF c [unfolded that] assms] by auto
    have "adds_only (export_temps x) w (snd (?m w))"
      apply (rule read_only_bind_run [OF read_only_os(3) f(2)])
      apply (rule read_only_bind_run [OF pure], assumption)
      by (rule zip_adds)
    then show ?thesis using m f(1) by simp
  qed
  then show "adds_only (export_temps x) w (snd (export_zip x v ow dry ms idx rels p res w))"
    using a c m grows.refl unfolding export_zip_def q
    by (cases r1; cases r2; cases "ctx_Err x 0") (auto simp: Let_def io_try_def io_ret_def)
qed

lemma keeps_export_loop:
  assumes "\<And>res p. keeps (adds_only T) (export_one x v dest ow dry idx rels res p :: (ExportResult, 'z) io)"
  shows "keeps (adds_only T) (export_loop x v dest ow dry idx rels i res ps :: (ExportResult \<times> error option, 'z) io)"
  by (induction ps arbitrary: i res) (auto split: option.split intro!: grows.keeps_pure grows.keeps_bind assms)

lemma read_only_matches: "read_only (exportMatches s v vp)"
  unfolding exportMatches_def lift_path_def Let_def by (intro read_only_intros read_only_gc_index(1))

text \<open>
  C40.  An export under the policy fail or skip overwrites nothing: whatever is exported where, as files
  or as an archive, and whatever fails on the way, every file that was there has the same content
  afterwards.  The hypothesis on temporary names is what \<^verbatim>\<open>os.CreateTemp\<close> promises: the name it picks is not
  taken.
\<close>

theorem export_never_overwrites:
  assumes "normalizeOverwrite (xo_Overwrite opts) \<noteq> Inr OverwriteReplace" and "ExportPath x v virtualPath dest opts w = (r, w')"
    and "map_of (files w) q = Some f" and "q \<notin> export_temps x"
  shows "map_of (files w') q = Some f"
proof -
  have "keeps (adds_only (export_temps x)) (ExportPath x v virtualPath dest opts)"
  proof (cases "normalizeOverwrite (xo_Overwrite opts)")
    case (Inr ow)
    then have ow: "ow \<noteq> OverwriteReplace" using assms(1) by blast
    show ?thesis unfolding ExportPath_def Inr sum.case Let_def
      by (intro grows.keeps_pure grows.keeps_bind keeps_cases adds_read_only [OF read_only_matches] keeps_export_zip [OF ow]
          keeps_export_loop keeps_export_one [OF ow])
  qed (simp add: ExportPath_def grows.keeps_pure)
  from keepsD [OF this assms(2)] show ?thesis using assms(3,4) by (simp add: adds_only_def)
qed


section \<open>What an export writes\<close>

text \<open>The pieces of a record: each has the size and the id its reference names.\<close>

definition content_of :: "crypt \<Rightarrow> 'v store_scheme \<Rightarrow> FileRecord \<Rightarrow> bytes \<Rightarrow> bool" where
  "content_of cr v rec d \<longleftrightarrow> (\<exists>pieces. d = concat pieces
     \<and> list_all2 (\<lambda>ref pt. hmacHex cr (IndexKey (keys v)) pt = ref_ID ref \<and> int (length pt) = ref_Size ref) (Chunks rec) pieces)"

lemma write_chunks_content:
  "write_chunks cr v refs w = (Inr d, w') \<Longrightarrow> \<exists>pieces. d = concat pieces
     \<and> list_all2 (\<lambda>ref pt. hmacHex cr (IndexKey (keys v)) pt = ref_ID ref \<and> int (length pt) = ref_Size ref) refs pieces"
proof (induction refs arbitrary: w d)
  case (Cons ref refs)
  obtain pt w1 rest where c: "loadChunk cr v ref w = (Inr pt, w1)" "write_chunks cr v refs w1 = (Inr rest, w')" "d = pt @ rest"
    using Cons.prems by (auto simp: io_bind_def io_ret_def split: prod.splits sum.splits)
  obtain ps where "rest = concat ps" "list_all2 (\<lambda>ref pt. hmacHex cr (IndexKey (keys v)) pt = ref_ID ref \<and> int (length pt) = ref_Size ref) refs ps"
    using Cons.IH [OF c(2)] by blast
  then show ?case using c(3) loadChunk_content [OF c(1)] by (intro exI [of _ "pt # ps"]) simp
qed (simp add: io_ret_def)

definition written :: "export_env \<Rightarrow> 'v vault_scheme \<Rightarrow> Index \<Rightarrow> 'z world_scheme \<Rightarrow> string \<Rightarrow> string \<Rightarrow> bool" where
  "written x v idx w target p \<longleftrightarrow> (\<exists>f. map_of (files w) target = Some f
     \<and> content_of (s_cr (x_store x)) v (the (map_of (Files idx) p)) (data f))"

lemma restored_data: "restored_file o' rec d tmp w = (Inr f, w') \<Longrightarrow> data f = d"
  by (auto simp: restored_file_def io_bind_def io_try_def io_ret_def time_Now_def split: option.splits prod.splits sum.splits if_splits)

lemma remove_quietly_frame:
  "remove_quietly b p w = (r, w') \<Longrightarrow> q \<noteq> p \<Longrightarrow> map_of (files w') q = map_of (files w) q"
  by (auto simp: remove_quietly_def os_Remove_def check_fault_def lookup_file_def io_simps delete_conv' split: if_splits option.splits)

lemma restore_writes:
  assumes "restoreFileWithOverwrite x v rec p ow w = (Inr u, w')"
  shows "(\<exists>f. map_of (files w') p = Some f \<and> content_of (s_cr (x_store x)) v rec (data f))
    \<and> (\<forall>q. q \<noteq> p \<longrightarrow> map_of (files w') q = map_of (files w) q)"
proof -
  obtain d f w1 w2 w3 w4 w5 u1 u2 u3 where r: "os_MkdirAll (path_Dir p) w = (Inr u1, w1)" "check_fault OpTemp (path_Dir p) w1 = (Inr u2, w2)"
    "write_chunks (s_cr (x_store x)) v (Chunks rec) w2 = (Inr d, w3)" "restored_file (x_ops x) rec d (export_temp x p) w3 = (Inr f, w4)"
    "remove_quietly (ow = OverwriteReplace) p w4 = (Inr u3, w5)" "rename_once (export_temp x p) p f w5 = (Inr u, w')"
    using assms unfolding restoreFileWithOverwrite_def io_bind_def by (auto split: prod.splits sum.splits)
  have rf: "read_only (restored_file (x_ops x) rec d tmp)" for tmp unfolding restored_file_def by (intro read_only_intros)
  have "files w1 = files w" "files w2 = files w1" "files w3 = files w2" "files w4 = files w3"
    using keepsD [OF read_only_os(3) r(1)] keepsD [OF read_only_host(1) r(2)] keepsD [OF read_only_chunk_reads(4) r(3)] keepsD [OF rf r(4)]
    by (simp_all add: same_disk_def)
  moreover have "files w' = AList.update p f (files w5)" using r(6) by (auto simp: rename_once_def put_file_def split: option.splits)
  moreover have "content_of (s_cr (x_store x)) v rec (data f)"
    using write_chunks_content [OF r(3)] restored_data [OF r(4)] by (simp add: content_of_def)
  ultimately show ?thesis using remove_quietly_frame [OF r(5)] by (simp add: update_conv')
qed

text \<open>One file of a batch: a failure, or an entry that is skipped or written.\<close>

lemma export_one_step:
  assumes "export_one x v dest ow False idx rels res p w = (Inr res', w')"
  defines "t \<equiv> path_Join dest (the (map_of rels p))"
  shows "xr_Failed res' = xr_Failed res + 1 \<or>
    (\<exists>e. xr_Failed res' = xr_Failed res \<and> xr_Entries res' = xr_Entries res @ [e] \<and> xe_Path e = p \<and> xe_DestPath e = t \<and> xe_Error e = None
      \<and> xr_Exported res' = xr_Exported res + (if xe_Skipped e then 0 else 1) \<and> xr_Skipped res' = xr_Skipped res + (if xe_Skipped e then 1 else 0)
      \<and> (\<not> xe_Skipped e \<longrightarrow> written x v idx w' t p) \<and> (\<forall>q. q \<noteq> t \<longrightarrow> map_of (files w') q = map_of (files w) q))"
proof -
  let ?rec = "the (map_of (Files idx) p)"
  obtain r1 w1 where c: "checkOverwrite t ow w = (r1, w1)" by fastforce
  have f1: "files w1 = files w" using keepsD [OF read_only_check c] by (simp add: same_disk_def)
  obtain r2 w2 where m: "restoreFileWithOverwrite x v ?rec t ow w1 = (r2, w2)" by fastforce
  show ?thesis
  proof (cases r1)
    case (Inl e)
    then show ?thesis using assms(1) c f1 unfolding export_one_def Let_def t_def [symmetric]
      by (auto simp: io_try_def io_ret_def entry_of_def split: if_splits)
  next
    case (Inr u)
    show ?thesis
    proof (cases r2)
      case (Inl e)
      then show ?thesis using assms(1) c Inr m unfolding export_one_def Let_def t_def [symmetric] by (auto simp: io_try_def io_ret_def)
    next
      case r2: (Inr u2)
      note w = restore_writes [OF m [unfolded r2]]
      have "w' = w2" "xr_Failed res' = xr_Failed res" "xr_Entries res' = xr_Entries res @ [entry_of idx t p]" "xr_Exported res' = xr_Exported res + 1"
        "xr_Skipped res' = xr_Skipped res"
        using assms(1) c Inr m r2 unfolding export_one_def Let_def t_def [symmetric] by (auto simp: io_try_def io_ret_def)
      then show ?thesis using w f1 by (intro disjI2 exI [of _ "entry_of idx t p"]) (simp add: entry_of_def written_def)
    qed
  qed
qed

lemma export_one_Inr: "\<exists>res' w'. export_one x v dest ow dry idx rels res p w = (Inr res', w')"
  by (auto simp: export_one_def Let_def io_try_def io_ret_def split: prod.splits sum.splits)

lemma export_loop_failed:
  "export_loop x v dest ow False idx rels i res ps w = (Inr (res', e), w') \<Longrightarrow> xr_Failed res \<le> xr_Failed res'"
proof (induction ps arbitrary: i res w)
  case (Cons p ps)
  obtain res1 w1 where o: "export_one x v dest ow False idx rels res p w = (Inr res1, w1)" using export_one_Inr by blast
  have "xr_Failed res \<le> xr_Failed res1" using export_one_step [OF o] by auto
  moreover have "xr_Failed res1 \<le> xr_Failed res'" if "ctx_Err x i = None"
    using Cons.IH [of "Suc i" res1 w1] Cons.prems o that by (simp add: io_bind_def)
  ultimately show ?case using Cons.prems by (cases "ctx_Err x i") (auto simp: io_ret_def)
qed (simp add: io_ret_def)

lemma export_loop_None:
  "export_loop x v dest ow dry idx rels i res ps w = (Inr (res', None), w') \<Longrightarrow> xr_Failed res' \<le> 0"
proof (induction ps arbitrary: i res w)
  case (Cons p ps)
  obtain res1 w1 where o: "export_one x v dest ow dry idx rels res p w = (Inr res1, w1)" using export_one_Inr by blast
  show ?case using Cons.IH [of "Suc i" res1 w1] Cons.prems o by (cases "ctx_Err x i") (auto simp: io_ret_def io_bind_def)
qed (auto simp: io_ret_def split: if_splits)

lemma export_loop_writes:
  assumes "export_loop x v dest ow False idx rels i res ps w = (Inr (res', None), w')" and "xr_Failed res = 0"
    and "distinct (map (\<lambda>p. path_Join dest (the (map_of rels p))) ps)"
  shows "xr_Failed res' = 0 \<and> (\<exists>es. xr_Entries res' = xr_Entries res @ es \<and> map xe_Path es = ps
      \<and> xr_Exported res' + xr_Skipped res' = xr_Exported res + xr_Skipped res + int (length es)
      \<and> (\<forall>e\<in>set es. xe_DestPath e = path_Join dest (the (map_of rels (xe_Path e))) \<and> xe_Error e = None
           \<and> (\<not> xe_Skipped e \<longrightarrow> written x v idx w' (xe_DestPath e) (xe_Path e))))
    \<and> (\<forall>q. q \<notin> (\<lambda>p. path_Join dest (the (map_of rels p))) ` set ps \<longrightarrow> map_of (files w') q = map_of (files w) q)"
  using assms
proof (induction ps arbitrary: i res w)
  case (Cons p ps)
  let ?t = "\<lambda>p. path_Join dest (the (map_of rels p))"
  have cx: "ctx_Err x i = None" using Cons.prems(1) by (cases "ctx_Err x i") (simp_all add: io_ret_def)
  obtain res1 w1 where o: "export_one x v dest ow False idx rels res p w = (Inr res1, w1)" using export_one_Inr by blast
  have l: "export_loop x v dest ow False idx rels (Suc i) res1 ps w1 = (Inr (res', None), w')"
    using Cons.prems(1) cx o by (simp add: io_bind_def)
  have "xr_Failed res1 \<le> 0" using export_loop_failed [OF l] export_loop_None [OF l] by simp
  then obtain e where e: "xr_Failed res1 = 0" "xr_Entries res1 = xr_Entries res @ [e]" "xe_Path e = p" "xe_DestPath e = ?t p" "xe_Error e = None"
    "xr_Exported res1 + xr_Skipped res1 = xr_Exported res + xr_Skipped res + 1" "\<not> xe_Skipped e \<longrightarrow> written x v idx w1 (?t p) p"
    "\<forall>q. q \<noteq> ?t p \<longrightarrow> map_of (files w1) q = map_of (files w) q"
    using export_one_step [OF o] Cons.prems(2) by (auto split: if_splits)
  have d: "distinct (map ?t ps)" "?t p \<notin> ?t ` set ps" using Cons.prems(3) by auto
  note ih = Cons.IH [OF l e(1) d(1)]
  obtain es where es: "xr_Entries res' = xr_Entries res1 @ es" "map xe_Path es = ps"
    "xr_Exported res' + xr_Skipped res' = xr_Exported res1 + xr_Skipped res1 + int (length es)"
    "\<forall>e\<in>set es. xe_DestPath e = ?t (xe_Path e) \<and> xe_Error e = None \<and> (\<not> xe_Skipped e \<longrightarrow> written x v idx w' (xe_DestPath e) (xe_Path e))"
    using conjunct1 [OF conjunct2 [OF ih]] by (elim exE conjE)
  have fr: "q \<notin> ?t ` set ps \<Longrightarrow> map_of (files w') q = map_of (files w1) q" for q using conjunct2 [OF conjunct2 [OF ih]] by blast
  have we: "\<not> xe_Skipped e \<longrightarrow> written x v idx w' (xe_DestPath e) (xe_Path e)"
    using e(3,4,7) fr [OF d(2)] by (simp add: written_def)
  show ?case
  proof (intro conjI exI)
    show "xr_Failed res' = 0" using ih by simp
    show "xr_Entries res' = xr_Entries res @ (e # es)" using es(1) e(2) by simp
    show "map xe_Path (e # es) = p # ps" using es(2) e(3) by simp
    show "xr_Exported res' + xr_Skipped res' = xr_Exported res + xr_Skipped res + int (length (e # es))" using es(3) e(6) by simp
    show "\<forall>e\<in>set (e # es). xe_DestPath e = ?t (xe_Path e) \<and> xe_Error e = None
        \<and> (\<not> xe_Skipped e \<longrightarrow> written x v idx w' (xe_DestPath e) (xe_Path e))"
    proof
      fix a assume "a \<in> set (e # es)"
      then show "xe_DestPath a = ?t (xe_Path a) \<and> xe_Error a = None \<and> (\<not> xe_Skipped a \<longrightarrow> written x v idx w' (xe_DestPath a) (xe_Path a))"
      proof (cases "a = e")
        case True
        show ?thesis using e(3-5) we unfolding True by simp
      next
        case False
        with \<open>a \<in> set (e # es)\<close> have "a \<in> set es" by simp
        then show ?thesis using es(4) by blast
      qed
    qed
    show "\<forall>q. q \<notin> ?t ` set (p # ps) \<longrightarrow> map_of (files w') q = map_of (files w) q" using fr e(8) by simp
  qed
qed (auto simp: io_ret_def split: if_splits)

text \<open>Different clean names below one directory are different paths.\<close>

lemma targets_differ:
  assumes "propers ds" and "clean_path a" and "clean_path b" and "path_Join (absp ds) a = path_Join (absp ds) b"
  shows "a = b"
proof -
  let ?s = "Split CHR ''/''"
  have p: "propers (?s a)" "propers (?s b)" using assms(2,3) by (simp_all add: clean_path_def)
  have "absp (ds @ ?s a) = absp (ds @ ?s b)"
    using absp_join [OF assms(1) p(1)] absp_join [OF assms(1) p(2)] assms(4) by (simp del: absp_def)
  then have "ds @ ?s a = ds @ ?s b" using clean_segs_absp [of "ds @ ?s a"] clean_segs_absp [of "ds @ ?s b"] assms(1) p by (metis Un_iff set_append)
  then show ?thesis by (metis Join_Split same_append_eq)
qed

lemma exportMatches_paths:
  assumes "exportMatches s v virtualPath w = (Inr (ms, vidx, vp), w')" and "\<forall>ks. mset (map_order s ks) = mset ks"
    and "\<forall>idx. fst (LoadIndex s v w) = Inr idx \<longrightarrow> wf_map (Files idx)"
  shows "distinct ms"
proof -
  obtain idx w1 where l: "LoadIndex s v w = (Inr idx, w1)" "ms = [vp] \<or> ms = sort (filter (\<lambda>p. \<not> IsInternalVirtualPath p) (below s idx vp))"
    using assms(1) by (auto simp: exportMatches_def io_bind_def io_ret_def io_fail_def lift_path_def io_lift_def Let_def split: prod.splits sum.splits if_splits)
  have "distinct (map fst (Files idx))" using assms(3) l(1) by simp
  then have "distinct (map_order s (map fst (Files idx)))" using assms(2) by (metis mset_eq_imp_distinct_iff)
  then show ?thesis using l(2) by (auto simp: below_def Let_def)
qed

text \<open>
  C39.  An export that reports success is complete and authentic.  Without the ZIP and dry-run options,
  to an absolute destination: the entries of the result are exactly the matched paths in order, each
  one exported or skipped; and at the end the target of every exported entry holds the concatenation
  of pieces with the sizes and ids of the record's chunks, so that no later file of the batch has
  replaced an earlier one.
\<close>

theorem export_complete:
  assumes "ExportPath x v virtualPath dest opts w = (Inr (res, None), w')" and "\<not> xo_Zip opts" and "\<not> xo_DryRun opts"
    and "path_IsAbs dest" and "path_Clean dest = dest" and "\<forall>y. set (sha256hex (s_host (x_store x)) y) \<subseteq> hex_digits"
    and "\<forall>ks. mset (map_order (x_store x) ks) = mset ks" and "\<forall>idx. fst (LoadIndex (x_store x) v w) = Inr idx \<longrightarrow> wf_map (Files idx)"
  shows "\<exists>ms idx vp w1. exportMatches (x_store x) v virtualPath w = (Inr (ms, idx, vp), w1) \<and> map xe_Path (xr_Entries res) = ms
    \<and> xr_Failed res = 0 \<and> xr_Exported res + xr_Skipped res = int (length (xr_Entries res))
    \<and> (\<forall>e\<in>set (xr_Entries res). xe_Error e = None \<and> (\<not> xe_Skipped e \<longrightarrow> (\<exists>f pieces. map_of (files w') (xe_DestPath e) = Some f
         \<and> data f = concat pieces \<and> list_all2 (\<lambda>ref pt. hmacHex (s_cr (x_store x)) (IndexKey (keys v)) pt = ref_ID ref \<and> int (length pt) = ref_Size ref)
              (Chunks (the (map_of (Files idx) (xe_Path e)))) pieces)))"
proof -
  obtain ow where ow: "normalizeOverwrite (xo_Overwrite opts) = Inr ow"
    using assms(1) by (cases "normalizeOverwrite (xo_Overwrite opts)") (auto simp: ExportPath_def io_fail_def)
  obtain ms idx vp w1 where m: "exportMatches (x_store x) v virtualPath w = (Inr (ms, idx, vp), w1)"
    using assms(1) unfolding ExportPath_def ow sum.case
    by (auto simp: io_bind_def io_fail_def split: if_splits option.splits prod.splits sum.splits)
  have dm: "distinct ms" by (rule exportMatches_paths [OF m assms(7,8)])
  let ?ex = "files_has idx vp \<and> vp \<noteq> ''''"
  obtain rels where rels: "exportTargets (x_lower x) (s_host (x_store x)) ms idx vp ?ex = Some rels"
    "\<forall>p\<in>set ms. \<exists>t. map_of rels p = Some t \<and> clean_path t"
    "\<forall>p\<in>set ms. \<forall>q\<in>set ms. p \<noteq> q \<longrightarrow> lower_text (x_lower x) (the (map_of rels p)) \<noteq> lower_text (x_lower x) (the (map_of rels q))"
    using targets_loop_ok [OF assms(6) dm, of "x_lower x" idx vp ?ex "[]" "[]"] unfolding exportTargets_def by blast
  let ?r0 = "\<lparr>xr_VirtualPath = vp, xr_DestPath = dest, xr_Zip = xo_Zip opts, xr_Overwrite = ow, xr_DryRun = xo_DryRun opts,
      xr_Files = int (length ms), xr_Exported = 0, xr_Skipped = 0, xr_Failed = 0, xr_Bytes = 0, xr_Entries = []\<rparr>"
  have run: "export_loop x v dest ow False idx rels 0 ?r0 ms w1 = (Inr (res, None), w')"
    using assms(1-3) rels(1) unfolding ExportPath_def ow sum.case
    by (auto simp: io_bind_def io_fail_def m Let_def split: if_splits option.splits)
  obtain ds where ds: "dest = absp ds" "propers ds" using abs_shape [OF assms(4)] assms(5) by metis
  have "distinct (map (\<lambda>p. path_Join dest (the (map_of rels p))) ms)"
    unfolding distinct_map inj_on_def
  proof (intro conjI dm ballI impI)
    fix p q assume pq: "p \<in> set ms" "q \<in> set ms" "path_Join dest (the (map_of rels p)) = path_Join dest (the (map_of rels q))"
    then have "the (map_of rels p) = the (map_of rels q)"
      using rels(2) targets_differ [OF ds(2)] unfolding ds(1) by (metis option.sel)
    then show "p = q" using rels(3) pq(1,2) by metis
  qed
  then have dt: "distinct (map (\<lambda>p. path_Join dest (the (map_of rels p))) ms)" .
  have "xr_Failed ?r0 = 0" by simp
  note fin = export_loop_writes [OF run this dt]
  obtain es where es: "xr_Entries res = es" "map xe_Path es = ms" "xr_Exported res + xr_Skipped res = int (length es)" "xr_Failed res = 0"
    "\<forall>e\<in>set es. xe_Error e = None \<and> (\<not> xe_Skipped e \<longrightarrow> written x v idx w' (xe_DestPath e) (xe_Path e))"
  proof -
    from fin have z: "xr_Failed res = 0" by simp
    from fin obtain es where e: "xr_Entries res = xr_Entries ?r0 @ es" "map xe_Path es = ms"
      "xr_Exported res + xr_Skipped res = xr_Exported ?r0 + xr_Skipped ?r0 + int (length es)"
      "\<forall>e\<in>set es. xe_DestPath e = path_Join dest (the (map_of rels (xe_Path e))) \<and> xe_Error e = None
        \<and> (\<not> xe_Skipped e \<longrightarrow> written x v idx w' (xe_DestPath e) (xe_Path e))"
      by (elim conjE exE)
    moreover have "\<forall>e\<in>set es. xe_Error e = None \<and> (\<not> xe_Skipped e \<longrightarrow> written x v idx w' (xe_DestPath e) (xe_Path e))"
      using e(4) by blast
    ultimately show thesis using z by (intro that [of es]) simp_all
  qed
  show ?thesis using m es unfolding written_def content_of_def by blast
qed

section \<open>A batch whose names fold together\<close>

definition export_demo :: export_env where
  "export_demo = \<lparr>x_ops = demo_ops\<lparr>o_gc := demo_gc\<lparr>gc_store := twin_senv\<rparr>\<rparr>, x_lower = (\<lambda>r. r), x_zip = (\<lambda>es. concat (map ze_Data es)), ctx_Err = (\<lambda>_. None)\<rparr>"

definition skip_opts :: ExportOptions where
  "skip_opts = \<lparr>xo_Overwrite = ''skip'', xo_Zip = False, xo_DryRun = False\<rparr>"

definition two_cases :: Index where
  "two_cases = \<lparr>idx_Version = 2, idx_UpdatedAt = ''t'', Files = [(''content/a'', demo_file\<lparr>Chunks := [ref_of (s_cr twin_senv) demo_vlt ''x'']\<rparr>),
     (''content/A'', demo_file)]\<rparr>"

definition export_state :: vault_state where
  "export_state = snd (storeChunk (s_cr twin_senv) demo_vlt ''x'' (demo_vstate (Some two_cases)))"

lemma twin_hex: "\<forall>y. set (sha256hex (s_host twin_senv) y) \<subseteq> hex_digits"
  by (simp add: twin_senv_def hex_digits_def)

lemma export_demo_store: "x_store export_demo = twin_senv"
  by (simp add: export_demo_def)

theorem export_names_never_clash_witness:
  "\<exists>rels. exportTargets (\<lambda>r. r) (s_host twin_senv) [''content/A'', ''content/a''] two_cases ''content'' False = Some rels
     \<and> ToLower ''A'' = ToLower ''a''
     \<and> lower_text (\<lambda>r. r) (the (map_of rels ''content/A'')) \<noteq> lower_text (\<lambda>r. r) (the (map_of rels ''content/a''))"
proof -
  have d: "distinct [''content/A'', ''content/a'']" by simp
  have "ToLower ''A'' = ToLower ''a''" by code_simp
  with export_names_never_clash [OF d twin_hex, of "\<lambda>r. r" two_cases "''content''" False] show ?thesis by auto
qed

lemma path_Join_suffix:
  assumes "proper_seg n"
  shows "HasSuffix (path_Join d n) n"
proof -
  have n: "n \<noteq> ''''" "Split CHR ''/'' n = [n]" using assms by (auto simp: proper_seg_def Split_single)
  have c: "clean_segs b n = [n]" "clean_segs b (d @ CHR ''/'' # n) = clean_segs b d @ [n]" for b
    using assms n(2) by (auto simp: clean_segs_def Split_append proper_seg_def)
  have j: "HasSuffix (Join CHR ''/'' (xs @ [n])) n" for xs
    by (cases "xs = []") (auto simp: Join_append HasSuffix_iff)
  have q: "HasSuffix (path_Clean p) n" if p: "p \<noteq> ''''" "\<And>b. \<exists>xs. clean_segs b p = xs @ [n]" for p
  proof (cases "path_IsAbs p")
    case True
    obtain xs where "clean_segs True p = xs @ [n]" using p(2) by blast
    moreover obtain r where "Join CHR ''/'' (xs @ [n]) = r @ n" using j [of xs] by (auto simp: HasSuffix_iff)
    ultimately have "path_Clean p = (CHR ''/'' # r) @ n" using p(1) True by (simp add: path_Clean_def)
    then show ?thesis unfolding HasSuffix_iff by blast
  next
    case False
    obtain xs where "clean_segs False p = xs @ [n]" using p(2) by blast
    then have "path_Clean p = Join CHR ''/'' (xs @ [n])" using p(1) False by (cases xs) (simp_all add: path_Clean_def)
    then show ?thesis using j by simp
  qed
  have "HasSuffix (path_Clean n) n" by (rule q [OF n(1)]) (simp add: c(1))
  moreover have "HasSuffix (path_Clean (d @ CHR ''/'' # n)) n" by (rule q) (simp_all add: c(2))
  ultimately show ?thesis using n(1) by (simp add: path_Join_def)
qed

theorem export_never_overwrites_witness:
  "\<exists>r w'. ExportPath export_demo demo_vlt ''content'' ''/out'' skip_opts
       (export_state\<lparr>files := AList.update ''/out/A'' \<lparr>data = ''keep'', mtime = 0\<rparr> (files export_state)\<rparr>) = (r, w')
     \<and> map_of (files w') ''/out/A'' = Some \<lparr>data = ''keep'', mtime = 0\<rparr>"
proof -
  let ?w = "export_state\<lparr>files := AList.update ''/out/A'' \<lparr>data = ''keep'', mtime = 0\<rparr> (files export_state)\<rparr>"
  obtain r w' where e: "ExportPath export_demo demo_vlt ''content'' ''/out'' skip_opts ?w = (r, w')" by fastforce
  have n: "normalizeOverwrite (xo_Overwrite skip_opts) \<noteq> Inr OverwriteReplace" by code_simp
  have f: "map_of (files ?w) ''/out/A'' = Some \<lparr>data = ''keep'', mtime = 0\<rparr>" by (simp add: update_conv')
  have s: "proper_seg (''.seavault-export-'' @ o_temp (x_ops export_demo))" "proper_seg (''.seavault-zip-'' @ o_temp (x_ops export_demo))"
    "\<not> HasSuffix ''/out/A'' (''.seavault-export-'' @ o_temp (x_ops export_demo))"
    "\<not> HasSuffix ''/out/A'' (''.seavault-zip-'' @ o_temp (x_ops export_demo))" by code_simp+
  have "''/out/A'' \<noteq> path_Join d (''.seavault-export-'' @ o_temp (x_ops export_demo))"
    "''/out/A'' \<noteq> path_Join d (''.seavault-zip-'' @ o_temp (x_ops export_demo))" for d
    using path_Join_suffix [OF s(1), of d] path_Join_suffix [OF s(2), of d] s(3,4) by metis+
  then have "''/out/A'' \<notin> export_temps export_demo" unfolding export_temps_def by blast
  from export_never_overwrites [OF n e f this] show ?thesis using e by blast
qed

theorem export_complete_witness:
  "\<exists>res w'. ExportPath export_demo demo_vlt ''content'' ''/out'' skip_opts export_state = (Inr (res, None), w')
     \<and> map xe_DestPath (xr_Entries res) = [''/out/A'', ''/out/a.conflict-T-0123456789ab''] \<and> xr_Exported res = 2
     \<and> (\<forall>e\<in>set (xr_Entries res). xe_Error e = None \<and> map_of (files w') (xe_DestPath e) \<noteq> None)"
proof -
  have "(case fst (ExportPath export_demo demo_vlt ''content'' ''/out'' skip_opts export_state) of Inl e \<Rightarrow> False
    | Inr (r, e) \<Rightarrow> e = None \<and> xr_Exported r = 2 \<and> list_all (\<lambda>e. \<not> xe_Skipped e) (xr_Entries r)
        \<and> map xe_DestPath (xr_Entries r) = [''/out/A'', ''/out/a.conflict-T-0123456789ab''])" by code_simp
  then obtain res w' where run: "ExportPath export_demo demo_vlt ''content'' ''/out'' skip_opts export_state = (Inr (res, None), w')"
    and r: "xr_Exported res = 2" "list_all (\<lambda>e. \<not> xe_Skipped e) (xr_Entries res)"
      "map xe_DestPath (xr_Entries res) = [''/out/A'', ''/out/a.conflict-T-0123456789ab'']"
    by (cases "ExportPath export_demo demo_vlt ''content'' ''/out'' skip_opts export_state") (auto split: sum.splits)
  have o: "\<not> xo_Zip skip_opts" "\<not> xo_DryRun skip_opts" "path_IsAbs ''/out''" "path_Clean ''/out'' = ''/out''" by code_simp+
  have "cached export_state = Some two_cases" by code_simp
  then have "fst (LoadIndex twin_senv demo_vlt export_state) = Inr two_cases"
    by (simp add: LoadIndex_def cachedIndexLocked_def io_simps get_state_def)
  moreover have "wf_map (Files two_cases)" by (simp add: two_cases_def)
  ultimately have l: "\<forall>idx. fst (LoadIndex (x_store export_demo) demo_vlt export_state) = Inr idx \<longrightarrow> wf_map (Files idx)"
    by (simp add: export_demo_store)
  have h: "\<forall>y. set (sha256hex (s_host (x_store export_demo)) y) \<subseteq> hex_digits" "\<forall>ks. mset (map_order (x_store export_demo) ks) = mset ks"
    using twin_hex by (simp_all add: export_demo_store) (simp add: twin_senv_def demo_senv_def)
  from export_complete [OF run o h l] show ?thesis using run r by (auto simp: list_all_iff)
qed
end
