(* ===== verification/VaultStore.thy ===== *)
theory VaultStore
  imports VaultSafety
begin

text \<open>
  The vault as a map from paths to contents: what \<^verbatim>\<open>PutReader\<close> stored is what \<^verbatim>\<open>WriteFileTo\<close> writes, also
  after the index is loaded afresh from the encrypted manifests, and \<^verbatim>\<open>RemovePath\<close> removes a path or a
  tree and nothing else.  The proofs compose the chunk store, the manifest store and the cache.
\<close>

section \<open>Storing chunks leaves the manifests alone\<close>

lemma chunkPath_eq:
  assumes "tidy_root v" and "hex_id i"
  shows "chunkPath v i = chunkRoot v @ ''/'' @ take 2 i @ ''/'' @ i @ ''.chunk''"
proof -
  obtain a where a: "MetaRoot v = CHR ''/'' # a" "clean_path a" using assms(1) by (auto simp: tidy_root_def)
  note h = hex_idD [OF assms(2)]
  have m: "clean_path ''objects''" "clean_path ''chunks''" by code_simp+
  have t: "set (take 2 i) \<subseteq> set i" by (rule set_take_subset)
  have p: "clean_path (take 2 i)" using t h(1-3) by (intro clean_path_seg) auto
  have l: "clean_path (i @ ''.chunk'')" using h(1,2) by (intro clean_path_seg) auto
  have 1: "clean_path (a @ ''/objects'')" using clean_path_append [of a "''objects''"] a(2) m by simp
  have 2: "clean_path (a @ ''/objects/chunks'')" using clean_path_append [of "a @ ''/objects''" "''chunks''"] 1 m by simp
  have 3: "clean_path (a @ ''/objects/chunks/'' @ take 2 i)" using clean_path_append [of "a @ ''/objects/chunks''"] 2 p by simp
  show ?thesis
    using a m p l h(1) path_Join_abs [OF a(2) m(1)] path_Join_abs [OF 1 m(2)] path_Join_abs [OF 2 p] path_Join_abs [OF 3 l]
    by (simp add: chunkPath_def join4_def roots(1) [OF assms(1)])
qed

lemma chunkPath_object:
  assumes "tidy_root v" and "hex_id i"
  shows "HasPrefix (chunkPath v i) (chunkRoot v @ ''/'')" "chunkPath v i \<in> outside_manifests v" "legacy_path v \<noteq> chunkPath v i"
proof -
  have e: "chunkPath v i = chunkRoot v @ ''/'' @ take 2 i @ ''/'' @ i @ ''.chunk''" by (rule chunkPath_eq [OF assms])
  then show "HasPrefix (chunkPath v i) (chunkRoot v @ ''/'')" by (simp add: HasPrefix_iff)
  have b: "path_Base (chunkPath v i) = i @ ''.chunk''"
    using path_Base_last [of "i @ ''.chunk''" "chunkRoot v @ ''/'' @ take 2 i"] hex_idD [OF assms(2)] by (simp add: e)
  have "\<not> HasPrefix (i @ ''.chunk'') ''.tmp-''" using hex_idD(1,3) [OF assms(2)] by (cases i) (auto simp: HasPrefix_def)
  moreover have "\<not> HasPrefix (chunkPath v i) (mroot v @ ''/'')" unfolding e roots [OF assms(1)] by (simp add: HasPrefix_def)
  ultimately show "chunkPath v i \<in> outside_manifests v" using b by (simp add: outside_manifests_def)
  obtain a where a: "MetaRoot v = CHR ''/'' # a" "clean_path a" using assms(1) by (auto simp: tidy_root_def)
  have "clean_path ''index.dat''" by code_simp
  then have "legacy_path v = MetaRoot v @ ''/index.dat''" using a path_Join_abs by (simp add: IndexFileName_def)
  then show "legacy_path v \<noteq> chunkPath v i" unfolding e roots [OF assms(1)] by simp
qed

lemma ignores_store [field_intros]:
  assumes "ext_field g"
  shows "ignores g (storeChunk cr v b)"
proof -
  have "ignores g (put_file p f)" for p f using assms by (auto simp: keeps_def same_field_def put_file_def ext_field_def)
  then have "ignores g (os_Chtimes p t)" for p t unfolding os_Chtimes_def by (intro field_intros assms)
  then show ?thesis unfolding storeChunk_def Let_def by (intro field_intros assms)
qed

lemma ext_maxGen: "ext_field maxGen"
  by (simp add: ext_field_def)

lemma put_all_frame:
  fixes w :: "'z vault_state_scheme"
  assumes "store_ok cr v B w" "set bs \<subseteq> B" "put_all (put_blob cr v) w bs = Some (rs, w')" "wf_map (files w)"
  shows "(\<forall>p. p \<notin> (\<lambda>b. chunkPath v (chunk_id cr v b)) ` B \<longrightarrow> map_of (files w') p = map_of (files w) p) \<and> wf_map (files w')
    \<and> cached w' = cached w \<and> vConfig w' = vConfig w \<and> maxGen w' = maxGen w \<and> same_host w w'"
  using assms
proof (induction bs arbitrary: w rs)
  case (Cons b bs)
  then obtain r w1 rs1 where p: "put_blob cr v w b = Some (r, w1)" "put_all (put_blob cr v) w1 bs = Some (rs1, w')"
    by (auto split: option.splits)
  obtain c where s: "storeChunk cr v b w = (Inr (r, c), w1)" using p(1) by (rule put_blob_Some)
  have b: "b \<in> B" using Cons.prems by simp
  note e = storeChunk_effect [OF Cons.prems(1) b s]
  have wf: "wf_map (files w1)" using s Cons.prems(4) by (cases rule: storeChunk_cases) auto
  have f: "cached w1 = cached w" "vConfig w1 = vConfig w" "maxGen w1 = maxGen w"
    using ignoresD [OF ignores_store s] ext_fields ext_maxGen by auto
  from Cons.IH [OF store_ok_step [OF Cons.prems(1) b s] _ p(2) wf] Cons.prems(2)
  have "(\<forall>p. p \<notin> (\<lambda>b. chunkPath v (chunk_id cr v b)) ` B \<longrightarrow> map_of (files w') p = map_of (files w1) p) \<and> wf_map (files w')
    \<and> cached w' = cached w1 \<and> vConfig w' = vConfig w1 \<and> maxGen w' = maxGen w1 \<and> same_host w1 w'" by simp
  moreover have "map_of (files w1) p = map_of (files w) p" if "p \<notin> (\<lambda>b. chunkPath v (chunk_id cr v b)) ` B" for p
    using e(4) [of p] that b by auto
  ultimately show ?case using f same_host_trans [OF e(2)] by auto
qed simp

lemma coherent_frame:
  assumes "coherent s v P M w" and "\<forall>p. \<not> HasPrefix p (chunkRoot v @ ''/'') \<longrightarrow> map_of (files w') p = map_of (files w) p"
    and "wf_map (files w')" and "cached w' = cached w" and "vConfig w' = vConfig w" and "same_host w w'"
  shows "coherent s v P M w'"
proof -
  note h = coherentD [OF assms(1)]
  have t: "tidy_root v" using h(1) by (simp add: store_laws_def)
  have nm: "\<not> HasPrefix p (chunkRoot v @ ''/'')" if "HasPrefix p (mroot v @ ''/'')" for p
    using that by (auto simp: roots [OF t] HasPrefix_iff)
  obtain a where a: "MetaRoot v = CHR ''/'' # a" "clean_path a" using t by (auto simp: tidy_root_def)
  have "clean_path ''index.dat''" by code_simp
  then have "legacy_path v = MetaRoot v @ ''/index.dat''" using a path_Join_abs by (simp add: IndexFileName_def)
  then have l: "\<not> HasPrefix (legacy_path v) (chunkRoot v @ ''/'')" by (simp add: roots [OF t] HasPrefix_def)
  have k: "p \<in> fst ` set (files w') \<longleftrightarrow> p \<in> fst ` set (files w)" if "HasPrefix p (mroot v @ ''/'')" for p
    using assms(2) nm [OF that] by (metis map_of_eq_None_iff)
  have "set (walk_files (mroot v) (files w')) = set (walk_files (mroot v) (files w))"
    using k by (auto simp: set_walk)
  moreover have "map_of (files w') (legacy_path v) = map_of (files w) (legacy_path v)" using assms(2) l by blast
  moreover have "map_of (files w') (manifestPath v (manifestID s v q)) = map_of (files w) (manifestPath v (manifestID s v q))" for q
    using assms(2) nm store_id(3) [OF h(1)] by blast
  ultimately have "holds s v P M w'" using h(4) assms(3) by (simp only: holds_def simp_thms) blast
  then show ?thesis using h assms(4-6) by (auto simp: coherent_def same_host_def rand_ok_def)
qed

text \<open>A commit keeps the files outside the manifest directory.\<close>

lemma commit_outside:
  assumes "store_laws s v P" and "commitFileManifest s v p rec w = (r, w')" and "q \<in> outside_manifests v"
  shows "map_of (files w') q = map_of (files w) q"
proof -
  have "manifestPath v (manifestID s v p') \<notin> outside_manifests v" for p'
    using store_id(3) [OF assms(1)] by (simp add: outside_manifests_def)
  then have lv: "leaves (outside_manifests v) (saveFileManifest s v p rec)" by (intro leaves_save_manifest) auto
  obtain r1 w1 where sv: "saveFileManifest s v p rec w = (r1, w1)" by fastforce
  have "files w' = files w1" using assms(2) sv
    by (cases r1) (auto simp: commitFileManifest_def io_bind_def update_cache_def)
  then show ?thesis using leavesD(1) [OF lv assms(3) sv] by simp
qed

section \<open>Reading a record of a coherent store\<close>

lemma WriteFileTo_coherent:
  assumes "coherent s v P M w" and "no_faults w" and "normalizeContentFilePath name = Inr vp" and "M vp = Some m" and "\<not> Deleted m"
    and "map (get_blob (s_cr s) v w) (Chunks (File m)) = map Some bs"
  shows "fst (WriteFileTo s v name w) = Inr (concat bs)"
proof -
  obtain r w1 where l: "LoadIndex s v w = (r, w1)" by fastforce
  note c = coherent_cached [OF assms(1) l [unfolded LoadIndex_def]]
  then obtain idx where idx: "r = Inr idx" "map_of (Files idx) = live M" using assms(2) by (cases r) auto
  have "map_of (Files idx) vp = Some (File m)" using idx(2) assms(4,5) by (simp add: live_def)
  moreover have "get_blob (s_cr s) v w1 = get_blob (s_cr s) v w" using c by (simp add: get_blob_def fun_eq_iff)
  moreover have "\<forall>p. fault w1 OpRead p = None" using c assms(2) by (simp add: same_host_def no_faults_def)
  ultimately show ?thesis using l idx(1) assms(3,6) write_chunks_canonical [of w1 "s_cr s" v "Chunks (File m)" bs]
    by (simp add: WriteFileTo_def io_bind_def lift_path_def io_lift_def)
qed

section \<open>What a put leaves behind\<close>

text \<open>Storing the stream: the references it returns resolve to the chunks of the content.\<close>

lemma put_stream_stores:
  fixes w :: "'z vault_state_scheme"
  assumes "Validate params = None" and "no_faults w" and "store_ok cr v (set (chunks_of params (concat blks))) w" and "wf_map (files w)"
  obtains refs n tot w1 where "put_stream cr v params (blks, None) w = (Inr (refs, n, tot), w1)"
    "map (get_blob cr v w1) refs = map Some (chunks_of params (concat blks))"
    "\<forall>p. p \<notin> (\<lambda>b. chunkPath v (chunk_id cr v b)) ` set (chunks_of params (concat blks)) \<longrightarrow> map_of (files w1) p = map_of (files w) p"
    "wf_map (files w1)" "cached w1 = cached w" "vConfig w1 = vConfig w" "maxGen w1 = maxGen w" "same_host w w1"
proof -
  let ?cs = "chunks_of params (concat blks)"
  obtain w1 refs n tot where r: "run_cb (put_chunk cr v) (w, [], 0, 0) ?cs = Inr (w1, refs, n, tot)"
    using run_put_chunk_succeeds [OF assms(2)] by blast
  then have pa: "put_all (put_blob cr v) w ?cs = Some (refs, w1)" using run_put_chunk by fastforce
  have g: "map (get_blob cr v w1) refs = map Some ?cs" using chunks.put_all_get [OF assms(3) _ pa] by auto
  have "put_stream cr v params (blks, None) w = (Inr (refs, n, tot), w1)" using r by (simp add: put_stream_run [OF assms(1)])
  then show thesis using that g put_all_frame [OF assms(3) _ pa assms(4)] by simp
qed

text \<open>The rest of \<^verbatim>\<open>putReader\<close> only reads the clock and draws a generation.\<close>

lemma putReader_tail:
  fixes w w1 :: "'z vault_state_scheme"
  assumes "put_stream (s_cr s) v (Chunk (vConfig w)) r w = (Inr (refs, n, tot), w1)" and "\<forall>t. fmtNano (s_guard s) t \<noteq> ''''"
    and "0 \<le> maxGen w1" and "maxGen w1 < max_i64"
  obtains pr rec c g where "putReader s v r vp sz mode mt idx w = (Inr (pr, idx\<lparr>Files := AList.update vp rec (Files idx)\<rparr>), w1\<lparr>clock_ix := c, maxGen := g\<rparr>)"
    "stamped rec" "Chunks rec = refs"
proof -
  obtain mt' c1 where 1: "(if mt = zeroTime then time_Now else io_ret mt) w1 = (Inr mt', w1\<lparr>clock_ix := c1\<rparr>)"
  proof (cases "mt = zeroTime")
    case False
    then have "(if mt = zeroTime then time_Now else io_ret mt) w1 = (Inr mt, w1\<lparr>clock_ix := clock_ix w1\<rparr>)" by (simp add: io_ret_def)
    then show thesis by (rule that)
  qed (use that in \<open>simp add: time_Now_def\<close>)
  define now where "now = fmtNano (s_guard s) (clock_src w1 c1)"
  have 2: "now_string s (w1\<lparr>clock_ix := c1\<rparr>) = (Inr now, w1\<lparr>clock_ix := Suc c1\<rparr>)"
    by (simp add: now_string_def io_bind_def io_ret_def time_Now_def now_def)
  obtain wall c3 where 3: "nanoOrNow s now (w1\<lparr>clock_ix := Suc c1\<rparr>) = (Inr wall, w1\<lparr>clock_ix := c3\<rparr>)"
  proof (cases "parseTime (s_host s) now")
    case None
    then show thesis using that by (simp add: nanoOrNow_def time_Now_def)
  next
    case (Some t)
    then show thesis using that [of "i64 t" "Suc c1"] by (simp add: nanoOrNow_def io_ret_def)
  qed
  let ?g = "fst (nextGeneration (maxGen w1) wall)"
  have 4: "next_gen wall (w1\<lparr>clock_ix := c3\<rparr>) = (Inr ?g, w1\<lparr>clock_ix := c3, maxGen := ?g\<rparr>)"
    by (simp add: next_gen_def nextGeneration_def Let_def)
  have g: "?g \<noteq> 0" using assms(3,4) by (simp add: nextGeneration_def Let_def)
  obtain cl age where a: "nextRecordClock (deviceID v) (Files idx) vp wall = (cl, age)" by fastforce
  let ?rec = "\<lparr>Size = (if sz < 0 then tot else sz), Mode = (if mode = 0 then 384 else mode), ModTime = fmtNano (s_guard s) mt', UpdatedAt = now,
                Generation = ?g, Chunks = refs, ConflictOf = '''', Clock = cl, ClockAge = age\<rparr>"
  have "putReader s v r vp sz mode mt idx w = (Inr (\<lparr>put_Path = vp, put_Size = (if sz < 0 then tot else sz), ChunkCount = int (length refs),
      NewChunkCount = n\<rparr>, idx\<lparr>Files := AList.update vp ?rec (Files idx)\<rparr>), w1\<lparr>clock_ix := c3, maxGen := ?g\<rparr>)"
    unfolding putReader_def io_bind_def [of get_config] get_config_def io_bind_def [of "put_stream _ _ _ _"]
      io_bind_def [of "if mt = zeroTime then _ else _"] io_bind_def [of "now_string s"] io_bind_def [of "nanoOrNow s _"] io_bind_def [of "next_gen _"]
    by (simp add: assms(1) 1 2 3 4 a Let_def io_ret_def del: if_split_asm split del: if_split)
  moreover have "stamped ?rec" using g assms(2) by (simp add: stamped_def now_def)
  ultimately show thesis by (rule that) simp
qed

text \<open>An open handle on a working host: the index is loaded and the generation counter has room.\<close>

definition ready :: "store_env \<Rightarrow> 'v vault_scheme \<Rightarrow> string set \<Rightarrow> (string \<rightharpoonup> ManifestRecord) \<Rightarrow> Index \<Rightarrow> 'z vault_state_scheme \<Rightarrow> bool" where
  "ready s v P M idx w \<longleftrightarrow> coherent s v P M w \<and> no_faults w \<and> cached w = Some idx \<and> 0 \<le> maxGen w \<and> maxGen w < max_i64
     \<and> (\<forall>t. fmtNano (s_guard s) t \<noteq> '''')"

lemma PutReader_effect:
  fixes w :: "'z vault_state_scheme"
  assumes "ready s v P M idx w" and "Validate (Chunk (vConfig w)) = None"
    and "store_ok (s_cr s) v (set (chunks_of (Chunk (vConfig w)) (concat blks))) w"
    and "normalizeContentFilePath name = Inr vp" and "vp \<in> P" and "files_has idx vp \<or> new_path_gate vp (path_Base vp) = None"
    and "\<forall>rec. faithful s (file_manifest vp rec)"
  obtains res w' rec where "PutReader s v (blks, None) name sz mode mt w = (Inr res, w')"
    "coherent s v P (M(vp \<mapsto> file_manifest vp rec)) w'" "no_faults w'"
    "map (get_blob (s_cr s) v w') (Chunks rec) = map Some (chunks_of (Chunk (vConfig w)) (concat blks))"
proof -
  have r: "coherent s v P M w" "no_faults w" "cached w = Some idx" "0 \<le> maxGen w" "maxGen w < max_i64" "\<forall>t. fmtNano (s_guard s) t \<noteq> ''''"
    using assms(1) by (auto simp: ready_def)
  note h = coherentD [OF r(1)]
  have t: "tidy_root v" and hx: "\<forall>k d. hex_id (hmacHex (s_cr s) k d)" using h(1) by (auto simp: store_laws_def)
  have li: "LoadIndex s v w = (Inr idx, w)" using r(3) by (simp add: LoadIndex_def cachedIndexLocked_def io_simps get_state_def)
  let ?cs = "chunks_of (Chunk (vConfig w)) (concat blks)"
  obtain refs n tot w1 where p: "put_stream (s_cr s) v (Chunk (vConfig w)) (blks, None) w = (Inr (refs, n, tot), w1)"
    "map (get_blob (s_cr s) v w1) refs = map Some ?cs"
    "\<forall>p. p \<notin> (\<lambda>b. chunkPath v (chunk_id (s_cr s) v b)) ` set ?cs \<longrightarrow> map_of (files w1) p = map_of (files w) p"
    "wf_map (files w1)" "cached w1 = cached w" "vConfig w1 = vConfig w" "maxGen w1 = maxGen w" "same_host w w1"
    by (rule put_stream_stores [OF assms(2) r(2) assms(3) holdsD(1) [OF h(4)]])
  obtain pr rec c g where pr: "putReader s v (blks, None) vp sz mode mt idx w
      = (Inr (pr, idx\<lparr>Files := AList.update vp rec (Files idx)\<rparr>), w1\<lparr>clock_ix := c, maxGen := g\<rparr>)" "stamped rec" "Chunks rec = refs"
    by (rule putReader_tail [OF p(1) r(6)]) (use r p(7) in simp_all)
  let ?w2 = "w1\<lparr>clock_ix := c, maxGen := g\<rparr>"
  have "coherent s v P M ?w2"
  proof (rule coherent_frame [OF r(1)])
    show "\<forall>q. \<not> HasPrefix q (chunkRoot v @ ''/'') \<longrightarrow> map_of (files ?w2) q = map_of (files w) q"
    proof (intro allI impI)
      fix q assume "\<not> HasPrefix q (chunkRoot v @ ''/'')"
      then have "q \<notin> (\<lambda>b. chunkPath v (chunk_id (s_cr s) v b)) ` set ?cs" using chunkPath_object(1) [OF t] hx by blast
      then show "map_of (files ?w2) q = map_of (files w) q" using p(3) by simp
    qed
  qed (use p in \<open>auto simp: same_host_def\<close>)
  moreover obtain r2 w' where cm: "commitFileManifest s v vp rec ?w2 = (r2, w')" by fastforce
  moreover have nf: "no_faults ?w2" using r(2) p(8) no_faults_same by (auto simp: same_host_def no_faults_def)
  moreover have vp: "CleanVirtualPath vp = Inr vp" "vp \<noteq> ''''" using h(1) assms(5) by (auto simp: store_laws_def)
  moreover have r2: "r2 = Inr ()" by (rule commitFileManifest_ok [OF nf vp pr(2) cm])
  ultimately have c': "coherent s v P (M(vp \<mapsto> file_manifest vp rec)) w'" "same_host ?w2 w'"
    using commitFileManifest_refines [OF _ assms(5) pr(2) _ cm] assms(7) by (auto simp: faithful_def)
  have gate: "(if files_has idx vp then None else new_path_gate vp (path_Base vp)) = None" using assms(6) by auto
  have put: "PutReader s v (blks, None) name sz mode mt w = (Inr pr, w')"
    unfolding PutReader_def io_bind_def [of "LoadIndex s v"] io_bind_def [of "lift_path _"] lift_path_def io_lift_def li assms(4)
    using pr(1) gate cm r2 h(5) p(6)
    by (simp add: io_bind_def io_ret_def commit_record_def get_config_def)
  have "get_blob (s_cr s) v w' ref = get_blob (s_cr s) v w1 ref" if "ref \<in> set refs" for ref
  proof -
    have "get_blob (s_cr s) v w1 ref \<noteq> None" using p(2) that by (metis image_eqI image_iff list.set_map option.distinct(1))
    then have "hmacHex (s_cr s) (IndexKey (keys v)) (the (get_blob (s_cr s) v w1 ref)) = ref_ID ref"
      using decodeChunk_authentic [of "s_cr s" v _ ref] by (auto simp: get_blob_def split: option.splits sum.splits)
    then have "hex_id (ref_ID ref)" using hx by metis
    then have "map_of (files w') (chunkPath v (ref_ID ref)) = map_of (files ?w2) (chunkPath v (ref_ID ref))"
      by (intro commit_outside [OF h(1) cm] chunkPath_object(2) [OF t])
    then show ?thesis by (simp add: get_blob_def)
  qed
  then have "map (get_blob (s_cr s) v w') refs = map (get_blob (s_cr s) v w1) refs" by (intro map_cong) auto
  then have "map (get_blob (s_cr s) v w') (Chunks rec) = map Some ?cs" using p(2) pr(3) by simp
  moreover have "no_faults w'" using nf c'(2) no_faults_same by blast
  ultimately show thesis using that [OF put c'(1)] by blast
qed

section \<open>What a removal leaves behind\<close>

lemma commitTombstone_ok:
  fixes w w' :: "'z vault_state_scheme"
  assumes "no_faults w" "CleanVirtualPath p = Inr p" "p \<noteq> ''''" "0 < gen" "\<forall>t. fmtNano (s_guard s) t \<noteq> ''''"
    and "commitTombstone s v p gen dg cl w = (r, w')"
  shows "r = Inr ()"
proof -
  let ?w1 = "w\<lparr>clock_ix := Suc (clock_ix w)\<rparr>"
  obtain b where b: "rand_src w (rand_ix w) (NonceSize (s_cr s)) = Some b"
    using assms(1) unfolding no_faults_def by metis
  have nf: "no_faults (?w1\<lparr>rand_ix := Suc (rand_ix w)\<rparr>)" using assms(1) by (simp add: no_faults_def)
  have "\<exists>d. saveTombstoneWithClock s v p gen dg cl w
      = atomicWriteFile (manifestPath v (manifestID s v p)) d (?w1\<lparr>rand_ix := Suc (rand_ix w)\<rparr>)"
    using assms(2-5) b
    by (auto simp: saveTombstoneWithClock_def saveManifestRecord_def now_string_def io_bind_def [of time_Now] io_bind_def [of "randomBytes _"]
        time_Now_def randomBytes_def Let_def io_ret_def io_bind_def)
  then obtain d where d: "saveTombstoneWithClock s v p gen dg cl w
      = atomicWriteFile (manifestPath v (manifestID s v p)) d (?w1\<lparr>rand_ix := Suc (rand_ix w)\<rparr>)" by blast
  obtain r1 w1 where aw: "atomicWriteFile (manifestPath v (manifestID s v p)) d (?w1\<lparr>rand_ix := Suc (rand_ix w)\<rparr>) = (r1, w1)" by fastforce
  have "r1 = Inr ()" by (rule atomicWriteFile_ok [OF nf aw])
  then show ?thesis using assms(6) d aw by (auto simp: commitTombstone_def io_bind_def update_cache_def)
qed

text \<open>Generations drawn in a row grow and stay in range while the clock does.\<close>

lemma plan_tombstones:
  assumes "\<forall>i. 0 \<le> clock_src w i \<and> clock_src w i \<le> 2 ^ 62" and "0 \<le> maxGen w" and "maxGen w \<le> 2 ^ 62 + k" and "k + int (length ps) < 2 ^ 62" and "0 \<le> k"
  shows "\<exists>tombs c g. io_fold (plan_tombstone v idx) acc ps w = (Inr (acc @ tombs), w\<lparr>clock_ix := c, maxGen := g\<rparr>)
     \<and> map fst tombs = ps \<and> (\<forall>(p, gen, dg, cl) \<in> set tombs. 0 < gen)"
  using assms
proof (induction ps arbitrary: w k acc)
  case Nil
  show ?case by (intro exI [of _ "[]"] exI [of _ "clock_ix w"] exI [of _ "maxGen w"]) (simp add: io_ret_def)
next
  case (Cons p ps)
  let ?t = "i64 (clock_src w (clock_ix w))"
  let ?g = "fst (nextGeneration (maxGen w) ?t)"
  let ?w1 = "w\<lparr>clock_ix := Suc (Suc (clock_ix w)), maxGen := ?g\<rparr>"
  let ?x = "(p, ?g, Generation (the (map_of (Files idx) p)),
      advanceClock (deviceID v) (Clock (the (map_of (Files idx) p))) (i64 (clock_src w (Suc (clock_ix w)))))"
  have "0 \<le> clock_src w (clock_ix w) \<and> clock_src w (clock_ix w) \<le> 2 ^ 62" using Cons.prems(1) by blast
  then have t: "0 \<le> ?t" "?t \<le> 2 ^ 62" by simp_all
  have m: "i64 (maxGen w + 1) = maxGen w + 1" using Cons.prems(2-5) by (intro i64_id) simp_all
  have g: "0 < ?g" "?g \<le> 2 ^ 62 + (k + 1)" using Cons.prems(2,3,5) t m by (auto simp: nextGeneration_def Let_def)
  have step: "plan_tombstone v idx acc p w = (Inr (acc @ [?x]), ?w1)"
    by (simp add: plan_tombstone_def Let_def io_bind_def io_ret_def time_Now_def next_gen_def nextGeneration_def)
  have "\<exists>tombs c g. io_fold (plan_tombstone v idx) (acc @ [?x]) ps ?w1 = (Inr ((acc @ [?x]) @ tombs), ?w1\<lparr>clock_ix := c, maxGen := g\<rparr>)
     \<and> map fst tombs = ps \<and> (\<forall>(p, gen, dg, cl) \<in> set tombs. 0 < gen)"
    by (rule Cons.IH [of ?w1 "k + 1"]) (use Cons.prems g in auto)
  then obtain tombs c g' where ih: "io_fold (plan_tombstone v idx) (acc @ [?x]) ps ?w1 = (Inr ((acc @ [?x]) @ tombs), ?w1\<lparr>clock_ix := c, maxGen := g'\<rparr>)"
    "map fst tombs = ps" "\<forall>(p, gen, dg, cl) \<in> set tombs. 0 < gen" by blast
  show ?case
    by (intro exI [of _ "?x # tombs"] exI [of _ c] exI [of _ g']) (use step ih g(1) in \<open>auto simp: io_bind_def\<close>)
qed

lemma commit_tombstones:
  fixes w :: "'z vault_state_scheme"
  assumes "coherent s v P M w" and "no_faults w" and "fst ` set tombs \<subseteq> P" and "\<forall>(p, gen, dg, cl) \<in> set tombs. 0 < gen"
    and "\<forall>t. fmtNano (s_guard s) t \<noteq> ''''" and "\<forall>p\<in>P. \<forall>now gen dg cl. faithful s (tomb_manifest p now gen dg cl)"
  shows "\<exists>M' w'. io_fold (\<lambda>_. commit_planned s v) () tombs w = (Inr (), w') \<and> coherent s v P M' w' \<and> no_faults w'
     \<and> live M' = (\<lambda>p. if p \<in> fst ` set tombs then None else live M p)"
  using assms
proof (induction tombs arbitrary: w M)
  case Nil
  then show ?case by (intro exI [of _ M] exI [of _ w]) (simp add: io_ret_def)
next
  case (Cons x tombs)
  obtain p gen dg cl where x: "x = (p, gen, dg, cl)" by (cases x) auto
  have p: "p \<in> P" "0 < gen" using Cons.prems(3,4) x by auto
  obtain r w1 where c: "commitTombstone s v p gen dg cl w = (r, w1)" by fastforce
  have cl: "CleanVirtualPath p = Inr p" "p \<noteq> ''''" using coherentD(1) [OF Cons.prems(1)] p(1) by (auto simp: store_laws_def)
  have r: "r = Inr ()" by (rule commitTombstone_ok [OF Cons.prems(2) cl p(2) Cons.prems(5) c])
  have f: "\<forall>now. unmarshalManifest s (marshalManifest s (tomb_manifest p now gen dg cl)) = Some (tomb_manifest p now gen dg cl)"
    using Cons.prems(6) p(1) by (auto simp: faithful_def)
  obtain now where w1: "same_host w w1" "coherent s v P (M(p \<mapsto> tomb_manifest p now gen dg cl)) w1"
    using commitTombstone_refines [OF Cons.prems(1) p Cons.prems(5) f c] r by auto
  have nf: "no_faults w1" using w1(1) Cons.prems(2) no_faults_same by blast
  have l: "live (M(p \<mapsto> tomb_manifest p now gen dg cl)) = (live M)(p := None)" by (intro live_del) (simp add: tomb_manifest_def)
  obtain M' w' where ih: "io_fold (\<lambda>_. commit_planned s v) () tombs w1 = (Inr (), w')" "coherent s v P M' w'" "no_faults w'"
    "live M' = (\<lambda>q. if q \<in> fst ` set tombs then None else live (M(p \<mapsto> tomb_manifest p now gen dg cl)) q)"
    using Cons.IH [OF w1(2) nf _ _ Cons.prems(5,6)] Cons.prems(3,4) by auto
  show ?case
    by (intro exI [of _ M'] exI [of _ w']) (use ih c r l x in \<open>auto simp: io_bind_def commit_planned_def [of s v "(_, _, _, _)"] fun_eq_iff\<close>)
qed

lemma remove_targets_set:
  assumes "\<forall>ks. mset (map_order s ks) = mset ks" and "clean_path vp"
  shows "p \<in> set (remove_targets s idx vp) \<longleftrightarrow> (if files_has idx vp then p = vp else files_has idx p \<and> HasPrefix p (vp @ ''/''))"
proof -
  have "\<not> HasSuffix vp ''/''"
  proof
    assume "HasSuffix vp ''/''"
    then obtain a where "vp = a @ CHR ''/'' # ''''" by (auto simp: HasSuffix_iff)
    then show False using assms(2) clean_path_append [of a "''''"] by simp
  qed
  moreover have "set (map_order s ks) = set ks" for ks using assms(1) by (metis set_mset_mset)
  moreover have "p \<in> fst ` set (Files idx) \<longleftrightarrow> files_has idx p" by (simp add: map_of_eq_None_iff)
  ultimately show ?thesis using clean_path_ne [OF assms(2)]
    by (auto simp: remove_targets_def below_def Let_def simp del: not_None_eq map_of_eq_None_iff)
qed

lemma RemovePath_effect:
  fixes w :: "'z vault_state_scheme"
  assumes "ready s v P M idx w" and "\<forall>i. 0 \<le> clock_src w i \<and> clock_src w i \<le> 2 ^ 62" and "maxGen w \<le> 2 ^ 62"
    and "int (length (remove_targets s idx vp)) < 2 ^ 62" and "remove_targets s idx vp \<noteq> []"
    and "normalizeContentDirPath name = Inr vp" and "vp \<noteq> ContentRootName"
    and "\<forall>p\<in>P. \<forall>now gen dg cl. faithful s (tomb_manifest p now gen dg cl)"
  obtains w' M' where "RemovePath s v name w = (Inr (int (length (remove_targets s idx vp))), w')" "coherent s v P M' w'" "no_faults w'"
    "live M' = (\<lambda>p. if p \<in> set (remove_targets s idx vp) then None else live M p)"
proof -
  have r: "coherent s v P M w" "no_faults w" "cached w = Some idx" "0 \<le> maxGen w" "\<forall>t. fmtNano (s_guard s) t \<noteq> ''''"
    using assms(1) by (auto simp: ready_def)
  note h = coherentD [OF r(1)]
  have li: "LoadIndex s v w = (Inr idx, w)" using r(3) by (simp add: LoadIndex_def cachedIndexLocked_def io_simps get_state_def)
  have idx: "map_of (Files idx) = live M" by (rule h(7) [OF r(3)])
  have vp: "clean_path vp" using assms(6) NormalizeContentPath_cases
    by (auto simp: normalizeContentDirPath_def split: sum.splits if_splits)
  have mo: "\<forall>ks. mset (map_order s ks) = mset ks" using h(1) by (simp add: store_laws_def)
  let ?ts = "remove_targets s idx vp"
  note ts = remove_targets_set [OF mo vp, of _ idx]
  have sub: "set ?ts \<subseteq> P"
  proof
    fix p assume "p \<in> set ?ts"
    then have "files_has idx p" using ts by (auto split: if_splits)
    then show "p \<in> P" using idx holdsD(2) [OF h(4)] by (auto simp: live_def split: option.splits)
  qed
  obtain tombs c g where pl: "io_fold (plan_tombstone v idx) [] ?ts w = (Inr tombs, w\<lparr>clock_ix := c, maxGen := g\<rparr>)"
    "map fst tombs = ?ts" "\<forall>(p, gen, dg, cl) \<in> set tombs. 0 < gen"
    using plan_tombstones [OF assms(2) r(4), of 0 ?ts v idx "[]"] assms(3,4) by auto
  let ?w1 = "w\<lparr>clock_ix := c, maxGen := g\<rparr>"
  have c1: "coherent s v P M ?w1" "no_faults ?w1"
    using r(1,2) by (auto simp: coherent_def rand_ok_def no_faults_def intro: holds_same_files)
  have ft: "fst ` set tombs = set ?ts" using pl(2) by (metis list.set_map)
  obtain M' w' where cm: "io_fold (\<lambda>_. commit_planned s v) () tombs ?w1 = (Inr (), w')" "coherent s v P M' w'" "no_faults w'"
    "live M' = (\<lambda>p. if p \<in> set ?ts then None else live M p)"
    using commit_tombstones [OF c1 _ pl(3) r(5) assms(8)] sub ft by auto
  have "usesManifestStore (vConfig w)" by (rule h(5))
  then have rm: "RemovePath s v name w = (Inr (int (length ?ts)), w')"
    unfolding RemovePath_def io_bind_def [of "LoadIndex s v"] io_bind_def [of "lift_path _"] lift_path_def io_lift_def li assms(6)
    using assms(5,7) pl(1) cm(1) by (simp add: io_bind_def io_ret_def get_config_def Let_def)
  show thesis by (rule that [OF rm cm(2-4)])
qed

section \<open>Properties\<close>

text \<open>
  C6.  What is put is read back.  On an open vault whose disk works, putting a stream under a path
  that exists or passes the gates for new names succeeds, and writing that path out then yields the
  stream byte for byte, both from the cached index and after the index is rebuilt from the encrypted
  manifests on disk, however the stream was split into reads.
\<close>

theorem put_then_read:
  fixes w :: "'z vault_state_scheme"
  assumes "ready s v P M idx w" and "Validate (Chunk (vConfig w)) = None"
    and "store_ok (s_cr s) v (set (chunks_of (Chunk (vConfig w)) (concat blks))) w"
    and "normalizeContentFilePath name = Inr vp" and "vp \<in> P" and "files_has idx vp \<or> new_path_gate vp (path_Base vp) = None"
    and "\<forall>rec. faithful s (file_manifest vp rec)"
  shows "\<exists>res w'. PutReader s v (blks, None) name sz mode mt w = (Inr res, w')
    \<and> fst (WriteFileTo s v name w') = Inr (concat blks)
    \<and> fst (ReloadIndex s v w') = Inr () \<and> fst (WriteFileTo s v name (snd (ReloadIndex s v w'))) = Inr (concat blks)"
proof -
  obtain res w' rec where p: "PutReader s v (blks, None) name sz mode mt w = (Inr res, w')"
    "coherent s v P (M(vp \<mapsto> file_manifest vp rec)) w'" "no_faults w'"
    "map (get_blob (s_cr s) v w') (Chunks rec) = map Some (chunks_of (Chunk (vConfig w)) (concat blks))"
    by (rule PutReader_effect [OF assms])
  have m: "(M(vp \<mapsto> file_manifest vp rec)) vp = Some (file_manifest vp rec)" "\<not> Deleted (file_manifest vp rec)"
    "Chunks (File (file_manifest vp rec)) = Chunks rec" by (simp_all add: file_manifest_def)
  have rd: "fst (WriteFileTo s v name u) = Inr (concat blks)"
    if "coherent s v P (M(vp \<mapsto> file_manifest vp rec)) u" "no_faults u" "files u = files w'" for u
  proof -
    have "get_blob (s_cr s) v u = get_blob (s_cr s) v w'" using that(3) by (simp add: get_blob_def fun_eq_iff)
    then show ?thesis using WriteFileTo_coherent [OF that(1,2) assms(4) m(1,2)] p(4) m(3) chunks_of_concat by metis
  qed
  obtain r1 w1 where rl: "ReloadIndex s v w' = (r1, w1)" by fastforce
  note c = reload_coherent [OF p(2) rl]
  have "r1 = Inr ()" using c(4) [OF p(3)] by (cases r1) auto
  moreover have "no_faults w1" using c(2) p(3) no_faults_same by blast
  ultimately show ?thesis using p(1) rd [OF p(2,3)] rd [OF c(1) _ c(3)] rl by auto
qed

definition open_demo :: vault_state where
  "open_demo = (demo_vstate (Some (NewIndex ''t'')))\<lparr>clock_src := \<lambda>_. 1\<rparr>"

lemma open_demo_ready: "ready demo_senv demo_vlt demo_paths Map.empty (NewIndex ''t'') open_demo"
proof -
  have "coherent demo_senv demo_vlt demo_paths Map.empty open_demo"
    using demo_store_laws demo_vstate_ok(2) hex_crypt_aead
    by (simp add: coherent_def demo_senv_cr holds_def open_demo_def demo_vstate_def walk_files_def usesManifestStore_def demo_config_def
        NewIndex_def live_def rand_ok_def fun_eq_iff)
  then show ?thesis using demo_senv_cr(2) by (simp add: ready_def no_faults_def open_demo_def demo_vstate_def)
qed

theorem put_then_read_witness:
  "\<exists>res w'. PutReader demo_senv demo_vlt ([''a''], None) ''a'' 1 0 0 open_demo = (Inr res, w')
     \<and> fst (WriteFileTo demo_senv demo_vlt ''a'' w') = Inr ''a''"
proof -
  have c: "Chunk (vConfig open_demo) = tiny_params" by (simp add: open_demo_def demo_vstate_def demo_config_def)
  have "set (chunks_of tiny_params ''a'') \<subseteq> {''a''}"
    unfolding chunks_of_def tiny_mask by (auto simp: tiny_params_def)
  then have "store_ok (s_cr demo_senv) demo_vlt (set (chunks_of (Chunk (vConfig open_demo)) (concat [''a'']))) open_demo"
    using hex_crypt_aead unfolding c demo_senv_cr by (auto simp: store_ok_def open_demo_def demo_vstate_def intro!: inj_onI)
  moreover have "Validate (Chunk (vConfig open_demo)) = None" using tiny_valid c by simp
  moreover have "normalizeContentFilePath ''a'' = Inr ''content/a''" by code_simp
  moreover have "new_path_gate ''content/a'' (path_Base ''content/a'') = None" by code_simp
  ultimately show ?thesis
    using put_then_read [OF open_demo_ready, of "[''a'']" "''a''" "''content/a''" 1 0 0] demo_senv_cr(3) by auto
qed

text \<open>
  C7.  Removing a path removes it and nothing else.  On an open vault whose disk works and whose clock
  is in range, \<^verbatim>\<open>RemovePath\<close> of a path that is a record, or that has records below it, succeeds and
  returns their number; the index rebuilt from the disk then lacks exactly that record, or exactly
  the records below it, and holds every other record unchanged.
\<close>

theorem remove_removes_exactly:
  fixes w :: "'z vault_state_scheme"
  assumes "ready s v P M idx w" and "\<forall>i. 0 \<le> clock_src w i \<and> clock_src w i \<le> 2 ^ 62" and "maxGen w \<le> 2 ^ 62"
    and "int (length (remove_targets s idx vp)) < 2 ^ 62" and "remove_targets s idx vp \<noteq> []"
    and "normalizeContentDirPath name = Inr vp" and "vp \<noteq> ContentRootName"
    and "\<forall>p\<in>P. \<forall>now gen dg cl. faithful s (tomb_manifest p now gen dg cl)"
  shows "\<exists>w' w'' idx'. RemovePath s v name w = (Inr (int (length (remove_targets s idx vp))), w')
    \<and> ReloadIndex s v w' = (Inr (), w'') \<and> cached w'' = Some idx'
    \<and> (\<forall>p. map_of (Files idx') p = (if p = vp \<or> \<not> files_has idx vp \<and> HasPrefix p (vp @ ''/'') then None else map_of (Files idx) p))"
proof -
  have r: "coherent s v P M w" "cached w = Some idx" using assms(1) by (auto simp: ready_def)
  obtain w' M' where rm: "RemovePath s v name w = (Inr (int (length (remove_targets s idx vp))), w')" "coherent s v P M' w'" "no_faults w'"
    "live M' = (\<lambda>p. if p \<in> set (remove_targets s idx vp) then None else live M p)"
    by (rule RemovePath_effect [OF assms])
  obtain r2 w'' where rl: "ReloadIndex s v w' = (r2, w'')" by fastforce
  note k = reload_coherent [OF rm(2) rl]
  have r2: "r2 = Inr ()" using k(4) [OF rm(3)] by (cases r2) auto
  then obtain idx' where i': "cached w'' = Some idx'" using k(5) by blast
  have vp: "clean_path vp" using assms(6) NormalizeContentPath_cases by (auto simp: normalizeContentDirPath_def split: sum.splits if_splits)
  have mo: "\<forall>ks. mset (map_order s ks) = mset ks" using coherentD(1) [OF r(1)] by (simp add: store_laws_def)
  have "map_of (Files idx') p = (if p \<in> set (remove_targets s idx vp) then None else map_of (Files idx) p)" for p
    using coherentD(7) [OF k(1) i'] rm(4) coherentD(7) [OF r] by simp
  then have "map_of (Files idx') p = (if p = vp \<or> \<not> files_has idx vp \<and> HasPrefix p (vp @ ''/'') then None else map_of (Files idx) p)" for p
    using remove_targets_set [OF mo vp, of p idx] by (auto split: if_splits)
  then show ?thesis using rm(1) rl r2 i' by blast
qed

text \<open>A store with one record, as a commit leaves it.\<close>

definition kept_demo :: vault_state where
  "kept_demo = snd (commitFileManifest demo_senv demo_vlt ''content/a'' demo_file open_demo)"

theorem remove_removes_exactly_witness:
  "\<exists>w' w'' idx'. RemovePath demo_senv demo_vlt ''a'' kept_demo = (Inr 1, w') \<and> ReloadIndex demo_senv demo_vlt w' = (Inr (), w'')
     \<and> cached w'' = Some idx' \<and> map_of (Files idx') ''content/a'' = None"
proof -
  let ?M = "Map.empty(''content/a'' \<mapsto> file_manifest ''content/a'' demo_file)"
  let ?idx = "(NewIndex ''t'')\<lparr>Files := [(''content/a'', demo_file\<lparr>ConflictOf := ''''\<rparr>)]\<rparr>"
  have c0: "coherent demo_senv demo_vlt demo_paths Map.empty open_demo" "no_faults open_demo"
    using open_demo_ready by (auto simp: ready_def)
  obtain r where cm: "commitFileManifest demo_senv demo_vlt ''content/a'' demo_file open_demo = (r, kept_demo)"
    by (metis kept_demo_def prod.collapse)
  have p: "CleanVirtualPath ''content/a'' = Inr ''content/a''" by code_simp
  have r: "r = Inr ()" by (rule commitFileManifest_ok [OF c0(2) p _ demo_stamped cm]) simp
  have k: "same_host open_demo kept_demo" "coherent demo_senv demo_vlt demo_paths ?M kept_demo"
    using commitFileManifest_refines [OF c0(1) _ demo_stamped _ cm] demo_senv_cr(3) r by (auto simp: faithful_def)
  have "(case cached kept_demo of None \<Rightarrow> False | Some i \<Rightarrow> i = ?idx) \<and> maxGen kept_demo = 0" by code_simp
  then have i: "cached kept_demo = Some ?idx" "maxGen kept_demo = 0" by (auto split: option.splits)
  have "ready demo_senv demo_vlt demo_paths ?M ?idx kept_demo"
    using k i no_faults_same [OF k(1) c0(2)] demo_senv_cr(2) by (simp add: ready_def)
  moreover have "clock_src kept_demo = (\<lambda>_. 1)" using k(1) by (simp add: same_host_def open_demo_def)
  moreover have t: "remove_targets demo_senv ?idx ''content/a'' = [''content/a'']" by code_simp
  moreover have "normalizeContentDirPath ''a'' = Inr ''content/a''" by code_simp
  ultimately obtain w' w'' idx' where run: "RemovePath demo_senv demo_vlt ''a'' kept_demo = (Inr (int (length [''content/a''])), w')"
    "ReloadIndex demo_senv demo_vlt w' = (Inr (), w'')" "cached w'' = Some idx'"
    "\<forall>p. map_of (Files idx') p = (if p = ''content/a'' \<or> \<not> files_has ?idx ''content/a'' \<and> HasPrefix p (''content/a'' @ ''/'')
       then None else map_of (Files ?idx) p)"
    using remove_removes_exactly [of demo_senv demo_vlt demo_paths ?M ?idx kept_demo "''content/a''" "''a''"] i(2) demo_senv_cr(3)
    by (auto simp: ContentRootName_def)
  then show ?thesis by auto
qed

end
