(* ===== verification/VaultPlaces.thy ===== *)
theory VaultPlaces
  imports UserPath
begin

text \<open>
  The checks of \<^verbatim>\<open>internal/userpath/userpath.go\<close> on the path of a vault to be created.  The directories of
  a host are the ones above its files and the empty ones, which are a list.
\<close>

section \<open>Where a vault may be created\<close>

text \<open>
  \<^verbatim>\<open>os.Stat\<close> of a path that may be a directory: whether it is one.  A path below a plain file is an
  error of its own.
\<close>

definition stat_IsDir :: "string list \<Rightarrow> string \<Rightarrow> (bool, 'z) io" where
  "stat_IsDir dirs p =
     io_bind (check_fault OpStat p) (\<lambda>_ w.
       if map_of (files w) p \<noteq> None then (Inr False, w)
       else if list_ex (\<lambda>(q, _). HasPrefix p (q @ ''/'')) (files w) then (Inl (EMsg ''not a directory''), w)
       else if p = ''/'' \<or> p \<in> set dirs \<or> list_ex (\<lambda>(q, _). HasPrefix q (p @ ''/'')) (files w) then (Inr True, w)
       else (Inl (ENotExist p), w))"

text \<open>
  The loop over the parents.  Each step shortens a clean absolute path by a segment and the root is
  its own parent, so as many steps as the path has bytes are enough.
\<close>

fun parent_loop :: "string list \<Rightarrow> nat \<Rightarrow> string \<Rightarrow> (string, 'z) io" where
  "parent_loop dirs 0 p = io_fail (EMsg ''out of fuel'')"
| "parent_loop dirs (Suc n) p =
     (let parent = path_Dir p in
      if parent = p then io_bind (stat_IsDir dirs parent) (\<lambda>_. io_ret parent)
      else io_try (stat_IsDir dirs parent) (\<lambda>r. case r of
        Inr isDir \<Rightarrow> if isDir then io_ret parent else io_fail (EMsg (''nearest existing parent '' @ parent @ '' is not a directory''))
      | Inl e \<Rightarrow> if is_not_exist e then parent_loop dirs n parent else io_fail e))"

definition nearestExistingParent :: "string list \<Rightarrow> string \<Rightarrow> (string, 'z) io" where
  "nearestExistingParent dirs path = (let p = path_Clean path in parent_loop dirs (Suc (length p)) p)"

definition isVolumeRoot :: "string \<Rightarrow> bool" where
  "isVolumeRoot p = (let q = path_Clean p in path_Dir q = q)"

definition firstMissingComponent :: "string \<Rightarrow> string" where
  "firstMissingComponent absPath =
     (let p = path_Clean absPath; sep = (\<lambda>c. c = CHR ''/'' \<or> c = CHR 0x5C) in
      if \<not> path_IsAbs p then p else ''/'' @ takeWhile (\<lambda>c. \<not> sep c) (dropWhile sep p))"

definition ValidateCreatableVaultPath :: "user_env \<Rightarrow> string list \<Rightarrow> string \<Rightarrow> (unit, 'z) io" where
  "ValidateCreatableVaultPath e dirs absPath =
     (if TrimSpace absPath = '''' then io_fail (EMsg ''vault path is required'')
      else io_bind (io_lift (filepath_Absolute e absPath)) (\<lambda>abs0.
        let p = path_Clean abs0 in
        io_try (stat_IsDir dirs p) (\<lambda>r. case r of
          Inr isDir \<Rightarrow> if isDir then io_ret () else io_fail (EMsg (''vault path '' @ p @ '' exists and is not a directory''))
        | Inl err \<Rightarrow>
            if \<not> is_not_exist err then io_fail err
            else if p = ''/user'' \<or> HasPrefix p ''/user/'' then io_fail (EMsg (p @ '' is under /user, which is normally not a writable home directory. Use ~/Nextcloud/seavault, /Users/<name>/Nextcloud/seavault on macOS, or /home/<name>/Nextcloud/seavault on Linux''))
            else io_bind (nearestExistingParent dirs p) (\<lambda>parent.
              if isVolumeRoot parent
              then io_fail (EMsg (''parent directory '' @ firstMissingComponent p @ '' does not exist. Create or choose an existing local cloud-sync folder first; examples: ~/Nextcloud/seavault, ~/Dropbox/seavault, or ~/OneDrive/seavault''))
              else io_bind (stat_IsDir dirs parent) (\<lambda>isDir.
                if isDir then io_ret ()
                else io_fail (EMsg (''nearest existing parent '' @ parent @ '' is not a directory'')))))))"

end
