(* ===== verification/RecoveryPhrase.thy ===== *)
theory RecoveryPhrase
  imports WordList Fs
begin

text \<open>
  Recovery phrases (\<^verbatim>\<open>internal/vault/recovery_phrase.go\<close> and the code of \<^verbatim>\<open>recovery_words.go\<close>): a 256-bit
  secret is shown as grouped base32 or as 24 words, and read back from either form.  SHA-256 is the
  parameter \<open>sha\<close>, of which only the first byte is used.  The results: the word code is a bijection
  between secrets and the phrases it accepts, both forms of a minted phrase lead back to the same
  wrap secret in any layout and case, and a phrase with a word that is not in the list is reported
  as such.
\<close>


section \<open>Base32\<close>

text \<open>
  \<^verbatim>\<open>base32.StdEncoding\<close> without padding: the bits of the bytes in groups of five, the last one filled with
  zeros.  Decoding skips line ends, takes whole groups of eight characters and what a shorter last
  group determines, and ignores the filling bits.
\<close>

definition b32_alphabet :: string where
  "b32_alphabet = ''ABCDEFGHIJKLMNOPQRSTUVWXYZ234567''"

definition bits_of :: "nat \<Rightarrow> nat \<Rightarrow> bool list" where
  "bits_of n v = rev (map (bit v) [0..<n])"

definition bits_value :: "bool list \<Rightarrow> nat" where
  "bits_value bs = horner_sum of_bool 2 (rev bs)"

definition cut_at :: "nat \<Rightarrow> nat \<Rightarrow> 'a list \<Rightarrow> 'a list list" where
  "cut_at k n xs = map (\<lambda>i. take k (drop (k * i) xs)) [0..<n]"

definition b32_encode :: "bytes \<Rightarrow> string" where
  "b32_encode d = (let bs = concat (map (\<lambda>c. bits_of 8 (of_char c)) d) in
     map (\<lambda>g. b32_alphabet ! bits_value g) (cut_at 5 ((length bs + 4) div 5) (bs @ replicate 4 False)))"

fun char_index :: "char \<Rightarrow> string \<Rightarrow> nat" where
  "char_index c [] = 0"
| "char_index c (x # xs) = (if c = x then 0 else Suc (char_index c xs))"

definition b32_decode :: "string \<Rightarrow> bytes option" where
  "b32_decode s0 = (let s = filter (\<lambda>c. c \<noteq> CHR 0x0A \<and> c \<noteq> CHR 0x0D) s0 in
     if \<not> list_all (\<lambda>c. c \<in> set b32_alphabet) s then None
     else let bs = concat (map (\<lambda>c. bits_of 5 (char_index c b32_alphabet)) s);
              n = 5 * (length s div 8) + [0, 0, 1, 0, 2, 3, 0, 4] ! (length s mod 8)
          in Some (map (\<lambda>g. char_of (bits_value g)) (cut_at 8 n bs)))"

section \<open>recovery_words.go\<close>

datatype phrase_error =
    ErrRecoveryWordCount
  | ErrRecoveryWordUnknown
  | ErrRecoveryChecksum
  | ErrRecoveryReadbackMismatch
  | ErrPhraseBase32
  | ErrPhraseLength nat
  | ErrPhraseNotCanonical

definition recoveryWordCount :: nat where "recoveryWordCount = 24"
definition recoveryEntropyBytes :: nat where "recoveryEntropyBytes = 32"

definition read_bit :: "bytes \<Rightarrow> nat \<Rightarrow> nat" where
  "read_bit d i = drop_bit (7 - i mod 8) (of_char (d ! (i div 8))) AND 1"

definition read11Bits :: "bytes \<Rightarrow> nat \<Rightarrow> nat" where
  "read11Bits d pos = foldl (\<lambda>v b. push_bit 1 v OR read_bit d (pos + b)) 0 [0..<11]"

definition write_bit :: "nat \<Rightarrow> nat \<Rightarrow> bytes \<Rightarrow> nat \<Rightarrow> bytes" where
  "write_bit pos idx d b =
     (if drop_bit (10 - b) idx AND 1 = 1
      then d[(pos + b) div 8 := char_of (of_char (d ! ((pos + b) div 8)) OR push_bit (7 - (pos + b) mod 8) 1 :: nat)]
      else d)"

definition write11Bits :: "bytes \<Rightarrow> nat \<Rightarrow> nat \<Rightarrow> bytes" where
  "write11Bits d pos idx = foldl (write_bit pos idx) d [0..<11]"

definition EncodeRecoveryWords :: "(bytes \<Rightarrow> bytes) \<Rightarrow> bytes \<Rightarrow> string list" where
  "EncodeRecoveryWords sha secret =
     (let d = secret @ [sha secret ! 0]
      in map (\<lambda>i. recoveryWordlist ! read11Bits d (i * 11)) [0..<recoveryWordCount])"

text \<open>The loop over the words packs their indices from word \<open>i\<close> on.\<close>

fun pack_words :: "nat \<Rightarrow> string list \<Rightarrow> bytes \<Rightarrow> phrase_error + bytes" where
  "pack_words i [] d = Inr d"
| "pack_words i (w # ws) d =
     (case recoveryWordIndex (ToLower (TrimSpace w)) of
        None \<Rightarrow> Inl ErrRecoveryWordUnknown
      | Some idx \<Rightarrow> pack_words (Suc i) ws (write11Bits d (i * 11) idx))"

definition DecodeRecoveryWords :: "(bytes \<Rightarrow> bytes) \<Rightarrow> string list \<Rightarrow> phrase_error + bytes" where
  "DecodeRecoveryWords sha words =
     (if length words \<noteq> recoveryWordCount then Inl ErrRecoveryWordCount
      else case pack_words 0 words (replicate (recoveryEntropyBytes + 1) (CHR 0x00)) of
             Inl e \<Rightarrow> Inl e
           | Inr d \<Rightarrow>
               let secret = take recoveryEntropyBytes d
               in if d ! recoveryEntropyBytes \<noteq> sha secret ! 0 then Inl ErrRecoveryChecksum else Inr secret)"

section \<open>recovery_phrase.go\<close>

definition recoveryPhraseBits :: nat where "recoveryPhraseBits = 256"
definition recoveryGroupSize :: nat where "recoveryGroupSize = 4"

fun groupRecovery :: "string \<Rightarrow> string" where
  "groupRecovery (a # b # c # d # e # s) = [a, b, c, d] @ ''-'' @ groupRecovery (e # s)"
| "groupRecovery s = s"

definition mintRecoverySecret :: "(string \<times> string, 'z) io" where
  "mintRecoverySecret =
     io_bind (randomBytes (recoveryPhraseBits div 8)) (\<lambda>raw.
       let canon = b32_encode raw in io_ret (canon, groupRecovery canon))"

definition canonicalRecovery :: "string \<Rightarrow> string" where
  "canonicalRecovery s = filter (\<lambda>c. c \<in> set b32_alphabet) (ToUpper s)"

definition wordShaped :: "string list \<Rightarrow> bool" where
  "wordShaped tokens \<longleftrightarrow>
     (let n = length tokens;
          inList = length (filter (\<lambda>t. recoveryWordIndex (ToLower t) \<noteq> None) tokens)
      in n \<ge> 20 \<and> n \<le> 28 \<and> inList * 2 > n)"

definition canonicalRecoverySecret :: "(bytes \<Rightarrow> bytes) \<Rightarrow> string \<Rightarrow> phrase_error + string" where
  "canonicalRecoverySecret sha input =
     (let tokens = strings_Fields input in
      if wordShaped tokens
      then (case DecodeRecoveryWords sha tokens of Inl e \<Rightarrow> Inl e | Inr secret \<Rightarrow> Inr (b32_encode secret))
      else Inr (canonicalRecovery input))"

definition RecoveryPhraseCheck :: "(bytes \<Rightarrow> bytes) \<Rightarrow> string \<Rightarrow> string \<Rightarrow> phrase_error option" where
  "RecoveryPhraseCheck sha minted input =
     (let want = canonicalRecovery minted in
      case canonicalRecoverySecret sha input of
        Inl e \<Rightarrow> Some e
      | Inr got \<Rightarrow> if want = '''' \<or> got = '''' \<or> want \<noteq> got then Some ErrRecoveryReadbackMismatch else None)"

definition RecoveryPhraseMatches :: "(bytes \<Rightarrow> bytes) \<Rightarrow> string \<Rightarrow> string \<Rightarrow> bool" where
  "RecoveryPhraseMatches sha minted input \<longleftrightarrow> RecoveryPhraseCheck sha minted input = None"

definition RecoveryPhraseWords :: "(bytes \<Rightarrow> bytes) \<Rightarrow> string \<Rightarrow> phrase_error + string list" where
  "RecoveryPhraseWords sha phrase =
     (let canon = canonicalRecovery phrase in
      case b32_decode canon of
        None \<Rightarrow> Inl ErrPhraseBase32
      | Some raw \<Rightarrow>
          if length raw \<noteq> recoveryEntropyBytes then Inl (ErrPhraseLength (length raw))
          else if b32_encode raw \<noteq> canon then Inl ErrPhraseNotCanonical
          else Inr (EncodeRecoveryWords sha raw))"

section \<open>Bits of the packed words\<close>

text \<open>Bit \<open>i\<close> of a byte sequence, the high bit of the first byte first.\<close>

definition bit_at :: "bytes \<Rightarrow> nat \<Rightarrow> bool" where
  "bit_at d i \<longleftrightarrow> bit (of_char (d ! (i div 8)) :: nat) (7 - i mod 8)"

lemma read_bit_eq: "read_bit d i = of_bool (bit_at d i)"
  by (simp add: read_bit_def bit_at_def and_one_eq mod2_eq_if bit_iff_odd_drop_bit)

lemma read_loop:
  "bit (foldl (\<lambda>v b. push_bit 1 v OR read_bit d (pos + b)) 0 [0..<n]) k \<longleftrightarrow> k < n \<and> bit_at d (pos + (n - 1 - k))"
proof (induction n arbitrary: k)
  case (Suc n)
  let ?v = "foldl (\<lambda>v b. push_bit 1 v OR read_bit d (pos + b)) 0 [0..<n]"
  have "foldl (\<lambda>v b. push_bit 1 v OR read_bit d (pos + b)) 0 [0..<Suc n] = push_bit 1 ?v OR read_bit d (pos + n)"
    by (simp only: upt_Suc_append foldl_append foldl.simps le0)
  then have "bit (foldl (\<lambda>v b. push_bit 1 v OR read_bit d (pos + b)) 0 [0..<Suc n]) k
      \<longleftrightarrow> 1 \<le> k \<and> bit ?v (k - 1) \<or> k = 0 \<and> bit_at d (pos + n)"
    by (simp only: bit_or_iff bit_push_bit_iff read_bit_eq bit_of_bool_iff possible_bit_nat simp_thms)
  then show ?case unfolding Suc.IH by (cases k) auto
qed simp

lemma bit_read11Bits: "bit (read11Bits d pos) k \<longleftrightarrow> k < 11 \<and> bit_at d (pos + (10 - k))"
  using read_loop [of d pos 11 k] by (simp add: read11Bits_def)

lemma read11Bits_bound: "read11Bits d pos < 2048"
proof -
  have "take_bit 11 (read11Bits d pos) = read11Bits d pos"
    by (rule bit_eqI) (simp add: bit_take_bit_iff bit_read11Bits)
  then show ?thesis using take_bit_nat_less_exp [of 11 "read11Bits d pos"] by simp
qed

lemma same_cell:
  assumes "i div 8 = j div (8 :: nat)"
  shows "7 - i mod 8 = 7 - j mod 8 \<longleftrightarrow> i = j"
proof -
  have "i mod 8 < 8" "j mod 8 < 8" by simp_all
  then have "7 - i mod 8 = 7 - j mod 8 \<longleftrightarrow> i mod 8 = j mod 8" by linarith
  moreover have "i = 8 * (i div 8) + i mod 8" "j = 8 * (j div 8) + j mod 8" by simp_all
  ultimately show ?thesis using assms by metis
qed

lemma write_bit_at:
  assumes "(pos + b) div 8 < length d"
  shows "bit_at (write_bit pos idx d b) i \<longleftrightarrow> bit_at d i \<or> i = pos + b \<and> bit idx (10 - b)"
proof (cases "bit idx (10 - b)")
  case False
  then have "drop_bit (10 - b) idx AND 1 \<noteq> 1" by (simp add: and_one_eq bit_iff_odd_drop_bit mod2_eq_if)
  then show ?thesis using False by (simp add: write_bit_def)
next
  case True
  let ?j = "pos + b"
  have "drop_bit (10 - b) idx AND 1 = 1" using True by (simp add: and_one_eq bit_iff_odd_drop_bit mod2_eq_if)
  then have w: "write_bit pos idx d b = d[?j div 8 := char_of (of_char (d ! (?j div 8)) OR push_bit (7 - ?j mod 8) 1 :: nat)]"
    by (simp only: write_bit_def if_True simp_thms)
  have m: "bit (of_char (char_of n :: char) :: nat) k \<longleftrightarrow> bit n k" if "k < 8" for n k :: nat
    using that take_bit_eq_mod [of 8 n] bit_take_bit_iff [of 8 n k] by simp
  show ?thesis
  proof (cases "i div 8 = ?j div 8")
    case False
    then show ?thesis unfolding w bit_at_def by (metis nth_list_update_neq)
  next
    case same: True
    have k: "7 - i mod 8 < 8" by simp
    have "bit_at (write_bit pos idx d b) i \<longleftrightarrow> bit_at d i \<or> bit (push_bit (7 - ?j mod 8) (1 :: nat)) (7 - i mod 8)"
      unfolding w bit_at_def same nth_list_update_eq [OF assms] m [OF k] by (simp only: bit_or_iff)
    moreover have "bit (push_bit a (1 :: nat)) b \<longleftrightarrow> b = a" for a b by (auto simp: bit_exp_iff)
    moreover have "7 - i mod 8 = 7 - ?j mod 8 \<longleftrightarrow> i = ?j" using same_cell [OF same] .
    ultimately show ?thesis using True by blast
  qed
qed

lemma write_loop:
  assumes "pos + n \<le> 8 * length d"
  shows "length (foldl (write_bit pos idx) d [0..<n]) = length d \<and> (\<forall>i. bit_at (foldl (write_bit pos idx) d [0..<n]) i
    \<longleftrightarrow> bit_at d i \<or> pos \<le> i \<and> i < pos + n \<and> bit idx (10 - (i - pos)))"
  using assms
proof (induction n)
  case (Suc n)
  let ?d = "foldl (write_bit pos idx) d [0..<n]"
  have s: "foldl (write_bit pos idx) d [0..<Suc n] = write_bit pos idx ?d n" by simp
  have ih: "length ?d = length d" "\<And>i. bit_at ?d i \<longleftrightarrow> bit_at d i \<or> pos \<le> i \<and> i < pos + n \<and> bit idx (10 - (i - pos))"
    using Suc by simp_all
  have l: "(pos + n) div 8 < length ?d" using Suc.prems ih(1) by simp
  show ?case unfolding s write_bit_at [OF l] ih(2) using ih(1)
    by (auto simp: write_bit_def less_Suc_eq)
qed auto

text \<open>Two byte sequences of one length with the same bits are equal.\<close>

lemma bytes_eqI:
  assumes "length d = length e" and "\<And>i. i < 8 * length d \<Longrightarrow> bit_at d i = bit_at e i"
  shows "d = e"
proof (rule nth_equalityI [OF assms(1)])
  fix j assume j: "j < length d"
  have "bit (of_char (d ! j) :: nat) k = bit (of_char (e ! j) :: nat) k" for k
  proof (cases "k < 8")
    case True
    then have "7 - k < 8" "k = 7 - (7 - k)" by linarith+
    then obtain r where r: "r < 8" "k = 7 - r" by blast
    have "(8 * j + r) div 8 = j" "(8 * j + r) mod 8 = r" "8 * j + r < 8 * length d" using j r(1) by simp_all
    then show ?thesis using assms(2) [of "8 * j + r"] r(2) by (simp add: bit_at_def)
  next
    case False
    have "take_bit 8 (of_char c :: nat) = of_char c" for c :: char by (simp add: take_bit_eq_mod)
    then show ?thesis using False by (metis bit_take_bit_iff)
  qed
  then have "(of_char (d ! j) :: nat) = of_char (e ! j)" by (rule bit_eqI)
  then show "d ! j = e ! j" by simp
qed

abbreviation norm_word :: "string \<Rightarrow> string" where
  "norm_word w \<equiv> ToLower (TrimSpace w)"

lemma pack_words_run:
  assumes "list_all2 (\<lambda>w k. recoveryWordIndex (norm_word w) = Some k) ws ks" and "11 * (i + length ws) \<le> 8 * length d"
  shows "\<exists>d'. pack_words i ws d = Inr d' \<and> length d' = length d \<and> (\<forall>p. bit_at d' p \<longleftrightarrow> bit_at d p
     \<or> 11 * i \<le> p \<and> p < 11 * (i + length ws) \<and> bit (ks ! (p div 11 - i)) (10 - p mod 11))"
  using assms
proof (induction ws ks arbitrary: i d rule: list_all2_induct)
  case Nil
  then show ?case by auto
next
  case (Cons w ws k ks)
  let ?d = "write11Bits d (i * 11) k"
  have wr: "length ?d = length d" "\<And>p. bit_at ?d p \<longleftrightarrow> bit_at d p \<or> i * 11 \<le> p \<and> p < i * 11 + 11 \<and> bit k (10 - (p - i * 11))"
    using write_loop [of "i * 11" 11 d k] Cons.prems by (simp_all add: write11Bits_def)
  obtain d' where ih: "pack_words (Suc i) ws ?d = Inr d'" "length d' = length ?d" "\<And>p. bit_at d' p \<longleftrightarrow> bit_at ?d p
     \<or> 11 * Suc i \<le> p \<and> p < 11 * (Suc i + length ws) \<and> bit (ks ! (p div 11 - Suc i)) (10 - p mod 11)"
    using Cons.IH [of "Suc i" ?d] Cons.prems wr(1) by auto
  have "bit_at d' p \<longleftrightarrow> bit_at d p \<or> 11 * i \<le> p \<and> p < 11 * (i + length (w # ws)) \<and> bit ((k # ks) ! (p div 11 - i)) (10 - p mod 11)" for p
  proof (cases "i * 11 \<le> p \<and> p < i * 11 + 11")
    case True
    then obtain q where "p = i * 11 + q" "q < 11" using le_Suc_ex by fastforce
    then have "p div 11 = i" "p - i * 11 = p mod 11" by simp_all
    then show ?thesis using ih(3) [of p] wr(2) [of p] True by auto
  next
    case False
    show ?thesis
    proof (cases "11 * Suc i \<le> p")
      case True
      then have "Suc i \<le> p div 11" using div_le_mono [of "11 * Suc i" p 11] by simp
      then have "p div 11 - i = Suc (p div 11 - Suc i)" by simp
      then show ?thesis using ih(3) [of p] wr(2) [of p] True False by auto
    next
      case low: False
      then show ?thesis using ih(3) [of p] wr(2) [of p] False by auto
    qed
  qed
  then show ?case using Cons.hyps(1) ih wr(1) by auto
qed

lemma pack_words_Inr:
  "pack_words i ws d = Inr d' \<Longrightarrow> \<exists>ks. list_all2 (\<lambda>w k. recoveryWordIndex (norm_word w) = Some k) ws ks"
proof (induction ws arbitrary: i d)
  case (Cons w ws)
  then obtain k where k: "recoveryWordIndex (norm_word w) = Some k" "pack_words (Suc i) ws (write11Bits d (i * 11) k) = Inr d'"
    by (auto split: option.splits)
  then obtain ks where "list_all2 (\<lambda>w k. recoveryWordIndex (norm_word w) = Some k) ws ks" using Cons.IH by blast
  then show ?case using k(1) by (intro exI [of _ "k # ks"]) simp
qed auto

lemma pack_words_unknown:
  "\<exists>w\<in>set ws. recoveryWordIndex (norm_word w) = None \<Longrightarrow> pack_words i ws d = Inl ErrRecoveryWordUnknown"
  by (induction ws arbitrary: i d) (auto split: option.splits)

section \<open>The word code\<close>

lemma packed_phrase:
  assumes "length ws = 24" and "list_all2 (\<lambda>w k. recoveryWordIndex (norm_word w) = Some k) ws ks"
  obtains d where "pack_words 0 ws (replicate 33 (CHR 0x00)) = Inr d" "length d = 33"
    "\<forall>p<264. bit_at d p \<longleftrightarrow> bit (ks ! (p div 11)) (10 - p mod 11)"
proof -
  have z: "\<not> bit_at (replicate 33 (CHR 0x00)) p" if "p < 264" for p
  proof -
    have "p div 8 < 33" using that by simp
    then show ?thesis by (simp add: bit_at_def)
  qed
  show thesis using pack_words_run [OF assms(2), of 0 "replicate 33 (CHR 0x00)"] assms(1) z that by auto
qed

lemma words_decode_encode:
  assumes "length secret = 32" and "map norm_word ws = EncodeRecoveryWords sha secret"
  shows "DecodeRecoveryWords sha ws = Inr secret"
proof -
  let ?D = "secret @ [sha secret ! 0]"
  let ?ks = "map (\<lambda>i. read11Bits ?D (i * 11)) [0..<24]"
  have l: "length ws = 24" using assms(2) by (metis EncodeRecoveryWords_def length_map diff_zero length_upt recoveryWordCount_def)
  have n: "norm_word (ws ! j) = recoveryWordlist ! (?ks ! j)" if "j < 24" for j
    using arg_cong [OF assms(2), of "\<lambda>xs. xs ! j"] that l by (simp add: EncodeRecoveryWords_def Let_def recoveryWordCount_def)
  have "list_all2 (\<lambda>w k. recoveryWordIndex (norm_word w) = Some k) ws ?ks"
    unfolding list_all2_conv_all_nth using l n read11Bits_bound by (simp add: recoveryWordIndex_iff)
  then obtain d where d: "pack_words 0 ws (replicate 33 (CHR 0x00)) = Inr d" "length d = 33"
    "\<forall>p<264. bit_at d p \<longleftrightarrow> bit (?ks ! (p div 11)) (10 - p mod 11)"
    by (rule packed_phrase [OF l])
  have "d = ?D"
  proof (rule bytes_eqI)
    fix p assume "p < 8 * length d"
    then have p: "p < 264" "p div 11 < 24" using d(2) by simp_all
    have "p mod 11 < 11" by simp
    then have "p mod 11 \<le> 10" "10 - p mod 11 < 11" by linarith+
    then have "p div 11 * 11 + (10 - (10 - p mod 11)) = p" "10 - p mod 11 < 11" by simp_all
    then have "bit (read11Bits ?D (p div 11 * 11)) (10 - p mod 11) = bit_at ?D p"
      using bit_read11Bits [of ?D "p div 11 * 11" "10 - p mod 11"] by metis
    then show "bit_at d p = bit_at ?D p" using d(3) p by simp
  qed (use assms(1) d(2) in simp)
  then show ?thesis using l d(1) assms(1)
    by (simp add: DecodeRecoveryWords_def recoveryWordCount_def recoveryEntropyBytes_def nth_append)
qed

lemma encode_decode:
  assumes "DecodeRecoveryWords sha ws = Inr secret"
  shows "length secret = 32 \<and> map norm_word ws = EncodeRecoveryWords sha secret"
proof -
  have l: "length ws = 24" using assms by (simp add: DecodeRecoveryWords_def recoveryWordCount_def split: if_splits)
  obtain d' where "pack_words 0 ws (replicate 33 (CHR 0x00)) = Inr d'"
    using assms by (auto simp: DecodeRecoveryWords_def recoveryEntropyBytes_def split: if_splits sum.splits)
  then obtain ks where ks: "list_all2 (\<lambda>w k. recoveryWordIndex (norm_word w) = Some k) ws ks" using pack_words_Inr by blast
  obtain d where d: "pack_words 0 ws (replicate 33 (CHR 0x00)) = Inr d" "length d = 33"
    "\<forall>p<264. bit_at d p \<longleftrightarrow> bit (ks ! (p div 11)) (10 - p mod 11)" by (rule packed_phrase [OF l ks])
  have s: "secret = take 32 d" "d ! 32 = sha secret ! 0"
    using assms d(1) by (auto simp: DecodeRecoveryWords_def recoveryEntropyBytes_def Let_def split: if_splits)
  have D: "secret @ [sha secret ! 0] = d" 
    using take_Suc_conv_app_nth [of 32 d] s d(2) by simp
  have k: "read11Bits d (j * 11) = ks ! j" if "j < 24" for j
  proof (rule bit_eqI)
    fix b
    have small: "ks ! j < 2048" using ks that l by (simp add: list_all2_conv_all_nth recoveryWordIndex_iff)
    show "bit (read11Bits d (j * 11)) b = bit (ks ! j) b"
    proof (cases "b < 11")
      case True
      then have "10 - b \<le> 10" "b = 10 - (10 - b)" by linarith+
      then obtain r where r: "r \<le> 10" "b = 10 - r" "10 - b = r" by blast
      then have "j * 11 + r < 264" "(j * 11 + r) div 11 = j" "(j * 11 + r) mod 11 = r" using that by simp_all
      then show ?thesis using True d(3) r by (simp add: bit_read11Bits)
    next
      case False
      have "take_bit 11 (ks ! j) = ks ! j" using small by (simp add: take_bit_eq_mod)
      then show ?thesis using False by (metis bit_read11Bits bit_take_bit_iff)
    qed
  qed
  have "map norm_word ws = EncodeRecoveryWords sha secret"
  proof (rule nth_equalityI)
    fix j assume "j < length (map norm_word ws)"
    then have j: "j < 24" using l by simp
    then have "recoveryWordlist ! (ks ! j) = norm_word (ws ! j)" using ks l by (simp add: list_all2_conv_all_nth recoveryWordIndex_iff)
    then show "map norm_word ws ! j = EncodeRecoveryWords sha secret ! j"
      using j l k [OF j] D by (simp add: EncodeRecoveryWords_def Let_def recoveryWordCount_def)
  qed (simp add: EncodeRecoveryWords_def Let_def l recoveryWordCount_def)
  then show ?thesis using s(1) d(2) by simp
qed

section \<open>Tokens\<close>

lemma fields_join:
  "\<forall>w\<in>set ws. w \<noteq> [] \<and> list_all plain w \<Longrightarrow> strings_Fields (Join CHR '' '' ws) = ws"
  unfolding strings_Fields_def
proof (induction "CHR '' ''" ws rule: Join.induct)
  case (2 w)
  then show ?case using fields_run [of w "[]"] plain_spaceless by simp
next
  case (3 w v ws)
  then show ?case using fields_step [of w "[]"] by simp
qed simp

text \<open>The words of the list are plain and in lower case.\<close>

lemma small_byte_facts:
  assumes "small_byte c"
  shows "plain c" "lower_char c = c" "ascii_char c"
proof -
  obtain b0 b1 b2 b3 b4 b5 b6 b7 where c: "c = Char b0 b1 b2 b3 b4 b5 b6 b7" by (cases c)
  have h: "b5" "b6" "\<not> b7" using assms c by auto
  show "plain c" using h by (auto simp: c plain_def is_space_def space_runes_def)
  show "ascii_char c" using h by (simp add: c)
  have "(of_char c :: nat) > 90" using h by (simp add: c of_char_def)
  then show "lower_char c = c" by (simp add: lower_char_def)
qed

lemma word_lower: "list_all small_byte w \<Longrightarrow> ToLower w = w"
  using ToLower_ascii [of w] by (auto simp: small_byte_facts list_all_iff intro!: map_idI)

lemma wordlist_plain: "w \<in> set recoveryWordlist \<Longrightarrow> w \<noteq> [] \<and> list_all plain w \<and> ToLower w = w"
  using wordlist_letters [of w] word_lower small_byte_facts(1) by (auto simp: list_all_iff)

lemma index_known: "recoveryWordIndex w \<noteq> None \<longleftrightarrow> w \<in> set recoveryWordlist"
  using recoveryWordIndex_iff [of w] length_wordlist by (auto simp: in_set_conv_nth)

lemma encoded_words: "w \<in> set (EncodeRecoveryWords sha secret) \<Longrightarrow> w \<in> set recoveryWordlist"
  using read11Bits_bound by (auto simp: EncodeRecoveryWords_def Let_def)

lemma length_encoded [simp]: "length (EncodeRecoveryWords sha secret) = 24"
  by (simp add: EncodeRecoveryWords_def Let_def recoveryWordCount_def)

lemma norm_fields: "map norm_word (strings_Fields s) = map ToLower (strings_Fields s)"
  using field_trim by simp

section \<open>Base32\<close>

lemma length_bits_of [simp]: "length (bits_of n v) = n" by (simp add: bits_of_def)

lemma bits_value_of: "bits_value (bits_of n v) = take_bit n v"
  by (simp add: bits_value_def bits_of_def horner_sum_bit_eq_take_bit)

lemma bits_of_value: "length bs = n \<Longrightarrow> bits_of n (bits_value bs) = bs"
  by (intro nth_equalityI) (auto simp: bits_of_def bits_value_def rev_nth bit_horner_sum_bit_iff)

lemma bits_value_bound: "bits_value bs < 2 ^ length bs"
proof -
  have "take_bit (length bs) (bits_value bs) = bits_value bs" using bits_value_of [of "length bs" "bits_value bs"] bits_of_value [of bs] by simp
  then show ?thesis by (metis take_bit_nat_less_exp)
qed

lemma cut_at_Suc: "cut_at k (Suc n) xs = take k xs # cut_at k n (drop k xs)"
  unfolding cut_at_def by (simp add: upt_conv_Cons map_Suc_upt [symmetric] comp_def add.commute del: upt_Suc)

lemma concat_cut: "length xs = k * n \<Longrightarrow> concat (cut_at k n xs) = xs"
  by (induction n arbitrary: xs) (simp_all add: cut_at_Suc, simp add: cut_at_def)

lemma cut_at_concat: "\<forall>g\<in>set gs. length g = k \<Longrightarrow> cut_at k (length gs) (concat gs @ r) = gs"
  by (induction gs) (simp_all add: cut_at_Suc, simp add: cut_at_def)

lemma char_index_nth: "distinct xs \<Longrightarrow> i < length xs \<Longrightarrow> char_index (xs ! i) xs = i"
  by (induction xs arbitrary: i) (auto simp: nth_Cons' split: if_splits)

lemma alphabet_facts: "distinct b32_alphabet" "length b32_alphabet = 32" "\<forall>c\<in>set b32_alphabet. plain c \<and> upper_char c = c \<and> c \<notin> {CHR 0x0A, CHR 0x0D, CHR 0xC4, CHR 0xC5}"
  by code_simp+

lemma encode_shape:
  assumes "length d = 32"
  defines "bs \<equiv> concat (map (\<lambda>c. bits_of 8 (of_char c)) d)"
  shows "length bs = 256" and "b32_encode d = map (\<lambda>g. b32_alphabet ! bits_value g) (cut_at 5 52 (bs @ replicate 4 False))"
proof -
  have "length (concat (map (\<lambda>c. bits_of 8 (of_char c)) xs)) = 8 * length xs" for xs by (induction xs) auto
  then show l: "length bs = 256" using assms by simp
  show "b32_encode d = map (\<lambda>g. b32_alphabet ! bits_value g) (cut_at 5 52 (bs @ replicate 4 False))"
    using l by (simp add: b32_encode_def bs_def [symmetric] Let_def)
qed

lemma b32_encode_chars:
  assumes "length d = 32"
  shows "length (b32_encode d) = 52" and "set (b32_encode d) \<subseteq> set b32_alphabet"
proof -
  let ?b = "concat (map (\<lambda>c. bits_of 8 (of_char c)) d) @ replicate 4 False"
  note e = encode_shape [OF assms]
  show "length (b32_encode d) = 52" by (simp add: e(2) cut_at_def)
  have "length g = 5" if "g \<in> set (cut_at 5 52 ?b)" for g using that e(1) by (auto simp: cut_at_def)
  then have "bits_value g < length b32_alphabet" if "g \<in> set (cut_at 5 52 ?b)" for g
    using that bits_value_bound [of g] alphabet_facts(2) by simp
  then show "set (b32_encode d) \<subseteq> set b32_alphabet" unfolding e(2) by auto
qed

lemma b32_roundtrip:
  assumes "length d = 32"
  shows "b32_decode (b32_encode d) = Some d"
proof -
  let ?bs = "concat (map (\<lambda>c. bits_of 8 (of_char c)) d)"
  let ?gs = "cut_at 5 52 (?bs @ replicate 4 False)"
  note e = encode_shape [OF assms] note c = b32_encode_chars [OF assms]
  have g5: "length g = 5" if "g \<in> set ?gs" for g using that e(1) by (auto simp: cut_at_def)
  have "bits_of 5 (char_index (b32_alphabet ! bits_value g) b32_alphabet) = g" if "g \<in> set ?gs" for g
    using g5 [OF that] char_index_nth [OF alphabet_facts(1), of "bits_value g"] bits_value_bound [of g] alphabet_facts(2)
    by (simp add: bits_of_value)
  then have "map (\<lambda>c. bits_of 5 (char_index c b32_alphabet)) (b32_encode d) = ?gs"
    unfolding e(2) map_map comp_def by (simp cong: map_cong)
  moreover have "concat ?gs = ?bs @ replicate 4 False" by (rule concat_cut) (simp add: e(1))
  ultimately have b: "concat (map (\<lambda>c. bits_of 5 (char_index c b32_alphabet)) (b32_encode d)) = ?bs @ replicate 4 False" by simp
  have k: "cut_at 8 32 (?bs @ replicate 4 False) = map (\<lambda>c. bits_of 8 (of_char c)) d"
    using cut_at_concat [of "map (\<lambda>c. bits_of 8 (of_char c)) d" 8 "replicate 4 False"] assms by simp
  have "(char_of (take_bit 8 (of_char x :: nat)) :: char) = x" for x by (simp add: take_bit_eq_mod)
  then have m: "map (\<lambda>g. char_of (bits_value g)) (map (\<lambda>c. bits_of 8 (of_char c)) d) = d" by (simp add: bits_value_of comp_def)
  have f: "filter (\<lambda>c. c \<noteq> CHR 0x0A \<and> c \<noteq> CHR 0x0D) (b32_encode d) = b32_encode d"
    using c(2) alphabet_facts(3) by (intro filter_True) blast
  have a: "list_all (\<lambda>c. c \<in> set b32_alphabet) (b32_encode d)" using c(2) by (auto simp: list_all_iff)
  show ?thesis unfolding b32_decode_def f Let_def using a c(1) b k m by simp
qed

lemma upper_dash: "upper_char (CHR ''-'') = CHR ''-''" by code_simp

lemma upper_alphabet: "set s \<subseteq> insert (CHR ''-'') (set b32_alphabet) \<Longrightarrow> ToUpper s = s"
proof (induction s)
  case (Cons c s)
  have "upper_char c = c" "c \<noteq> CHR 0xC4" "c \<noteq> CHR 0xC5"
    using Cons.prems alphabet_facts(3) upper_dash by auto
  then show ?case using Cons by (simp add: HasPrefix_def)
qed simp

lemma group_chars: "set (groupRecovery s) \<subseteq> insert (CHR ''-'') (set s)"
  by (induction s rule: groupRecovery.induct) auto

lemma group_filter: "list_all P s \<Longrightarrow> \<not> P (CHR ''-'') \<Longrightarrow> filter P (groupRecovery s) = s"
  by (induction s rule: groupRecovery.induct) auto

lemma canonical_group:
  assumes "length d = 32"
  shows "canonicalRecovery (groupRecovery (b32_encode d)) = b32_encode d"
    "strings_Fields (groupRecovery (b32_encode d)) = [groupRecovery (b32_encode d)]"
proof -
  let ?g = "groupRecovery (b32_encode d)"
  note c = b32_encode_chars [OF assms]
  have u: "ToUpper ?g = ?g" using upper_alphabet [of ?g] group_chars [of "b32_encode d"] c(2) by auto
  have "CHR ''-'' \<notin> set b32_alphabet" by code_simp
  then show g: "canonicalRecovery ?g = b32_encode d"
    unfolding canonicalRecovery_def u using c(2) by (intro group_filter) (auto simp: list_all_iff)
  have "plain (CHR ''-'')" by code_simp
  then have "list_all plain ?g" using group_chars [of "b32_encode d"] c(2) alphabet_facts(3) by (auto simp: list_all_iff)
  moreover have "?g \<noteq> []" using g c(1) by (auto simp: canonicalRecovery_def)
  ultimately show "strings_Fields ?g = [?g]" using fields_run [of ?g "[]"] plain_spaceless by (simp add: strings_Fields_def)
qed

section \<open>Properties\<close>

text \<open>
  C24.  The word code is exact: decoding succeeds with a secret if and only if the secret has 32 bytes
  and the words, trimmed and in lower case, are its encoding.  So no two secrets share a phrase, no
  two phrases decode to one secret, and every secret has a phrase, whatever the checksum function.
\<close>

theorem recovery_words_exact:
  "DecodeRecoveryWords sha ws = Inr secret
     \<longleftrightarrow> length secret = 32 \<and> map (\<lambda>w. ToLower (TrimSpace w)) ws = EncodeRecoveryWords sha secret"
  using words_decode_encode encode_decode by blast

lemma words_canonical:
  assumes "length raw = 32" and "map ToLower (strings_Fields input) = EncodeRecoveryWords sha raw"
  shows "canonicalRecoverySecret sha input = Inr (b32_encode raw)"
proof -
  let ?ts = "strings_Fields input"
  have l: "length ?ts = 24" using arg_cong [OF assms(2), of length] by simp
  have "recoveryWordIndex (ToLower t) \<noteq> None" if "t \<in> set ?ts" for t
    using that encoded_words [of "ToLower t" sha raw] assms(2) index_known by (metis image_eqI list.set_map)
  then have f: "filter (\<lambda>t. recoveryWordIndex (ToLower t) \<noteq> None) ?ts = ?ts" by (intro filter_True) blast
  have "wordShaped ?ts" unfolding wordShaped_def Let_def f l by simp
  moreover have "DecodeRecoveryWords sha ?ts = Inr raw" using words_decode_encode [OF assms(1)] norm_fields assms(2) by metis
  ultimately show ?thesis by (simp add: canonicalRecoverySecret_def)
qed

text \<open>
  Both printed forms of a minted phrase name the same secret.  For every 256-bit secret the grouped
  base32 phrase reduces to its base32 string, it has a 24-word form, the words reduce to the same
  string in any layout and letter case, and the read-back check accepts either.
\<close>

theorem recovery_forms_agree:
  assumes "length raw = 32"
  shows "canonicalRecoverySecret sha (groupRecovery (b32_encode raw)) = Inr (b32_encode raw)
    \<and> RecoveryPhraseMatches sha (groupRecovery (b32_encode raw)) (groupRecovery (b32_encode raw))
    \<and> (\<exists>ws. RecoveryPhraseWords sha (groupRecovery (b32_encode raw)) = Inr ws \<and> length ws = 24
        \<and> (\<forall>input. map ToLower (strings_Fields input) = ws \<longrightarrow>
             canonicalRecoverySecret sha input = Inr (b32_encode raw)
             \<and> RecoveryPhraseMatches sha (groupRecovery (b32_encode raw)) input))"
proof -
  let ?g = "groupRecovery (b32_encode raw)"
  note c = canonical_group [OF assms]
  have ne: "b32_encode raw \<noteq> ''''" using b32_encode_chars(1) [OF assms] by auto
  have g: "canonicalRecoverySecret sha ?g = Inr (b32_encode raw)"
    using c by (simp add: canonicalRecoverySecret_def wordShaped_def)
  have w: "RecoveryPhraseWords sha ?g = Inr (EncodeRecoveryWords sha raw)"
    using c(1) b32_roundtrip [OF assms] assms by (simp add: RecoveryPhraseWords_def recoveryEntropyBytes_def)
  have m: "RecoveryPhraseMatches sha ?g input" if "canonicalRecoverySecret sha input = Inr (b32_encode raw)" for input
    using that c(1) ne by (simp add: RecoveryPhraseMatches_def RecoveryPhraseCheck_def)
  show ?thesis using g m [OF g] w words_canonical [OF assms] m by auto
qed

theorem recovery_forms_agree_witness:
  "\<exists>ws. RecoveryPhraseWords (\<lambda>_. ''h'') (groupRecovery (b32_encode (replicate 32 (CHR ''s'')))) = Inr ws
     \<and> canonicalRecoverySecret (\<lambda>_. ''h'') (Join CHR '' '' ws) = Inr (b32_encode (replicate 32 (CHR ''s'')))"
proof -
  let ?r = "replicate 32 (CHR ''s'')"
  have "length ?r = 32" by simp
  from recovery_forms_agree [OF this, of "\<lambda>_. ''h''"] obtain ws where ws: "RecoveryPhraseWords (\<lambda>_. ''h'') (groupRecovery (b32_encode ?r)) = Inr ws"
    "\<forall>input. map ToLower (strings_Fields input) = ws \<longrightarrow> canonicalRecoverySecret (\<lambda>_. ''h'') input = Inr (b32_encode ?r)" by blast
  then obtain raw where "ws = EncodeRecoveryWords (\<lambda>_. ''h'') raw" by (auto simp: RecoveryPhraseWords_def Let_def split: option.splits if_splits)
  then have p: "\<forall>w\<in>set ws. w \<noteq> [] \<and> list_all plain w \<and> ToLower w = w" using encoded_words wordlist_plain by blast
  then have "strings_Fields (Join CHR '' '' ws) = ws" using fields_join by blast
  then have "map ToLower (strings_Fields (Join CHR '' '' ws)) = ws" using p by (simp add: map_idI)
  then show ?thesis using ws by blast
qed

text \<open>What decoding the tokens of an input can give.\<close>

lemma decode_fields_Inr:
  "DecodeRecoveryWords sha (strings_Fields input) = Inr s
     \<longleftrightarrow> length s = 32 \<and> EncodeRecoveryWords sha s = map ToLower (strings_Fields input)"
  using words_decode_encode [of s "strings_Fields input" sha] encode_decode [of sha "strings_Fields input" s] norm_fields [of input] by metis

lemma decode_fields_unknown:
  assumes "length (strings_Fields input) = 24" "t \<in> set (strings_Fields input)" "ToLower t \<notin> set recoveryWordlist"
  shows "DecodeRecoveryWords sha (strings_Fields input) = Inl ErrRecoveryWordUnknown"
proof -
  have "recoveryWordIndex (norm_word t) = None" using assms(3) index_known field_trim [OF assms(2)] by metis
  then have "pack_words 0 (strings_Fields input) d = Inl ErrRecoveryWordUnknown" for d
    using assms(2) by (intro pack_words_unknown) blast
  then show ?thesis using assms(1) by (simp add: DecodeRecoveryWords_def recoveryWordCount_def)
qed

lemma decode_fields_known:
  assumes "length (strings_Fields input) = 24" "\<forall>t\<in>set (strings_Fields input). ToLower t \<in> set recoveryWordlist"
  shows "(\<exists>s. DecodeRecoveryWords sha (strings_Fields input) = Inr s)
    \<or> DecodeRecoveryWords sha (strings_Fields input) = Inl ErrRecoveryChecksum"
proof -
  let ?ts = "strings_Fields input"
  have "\<forall>t\<in>set ?ts. \<exists>k. recoveryWordIndex (norm_word t) = Some k" using assms(2) index_known field_trim by (metis not_None_eq)
  then have "list_all2 (\<lambda>w k. recoveryWordIndex (norm_word w) = Some k) ?ts (map (\<lambda>w. the (recoveryWordIndex (norm_word w))) ?ts)"
    by (auto simp: list_all2_conv_all_nth)
  from packed_phrase [OF assms(1) this] obtain d where "pack_words 0 ?ts (replicate 33 (CHR 0x00)) = Inr d" by blast
  then show ?thesis using assms(1) by (simp add: DecodeRecoveryWords_def recoveryWordCount_def recoveryEntropyBytes_def Let_def)
qed

text \<open>
  C25.  A word phrase is never read as base32.  An input of 20 to 28 tokens most of which are words of the
  list is refused with the error that fits, in this order: not 24 words, a word that is not in the
  list, words no secret encodes to; otherwise it yields the base32 string of the one secret whose
  encoding the words are.
\<close>

theorem word_phrases_are_strict:
  assumes "wordShaped (strings_Fields input)"
  shows "canonicalRecoverySecret sha input =
    (if length (strings_Fields input) \<noteq> 24 then Inl ErrRecoveryWordCount
     else if \<exists>t\<in>set (strings_Fields input). ToLower t \<notin> set recoveryWordlist then Inl ErrRecoveryWordUnknown
     else if \<forall>raw. length raw = 32 \<longrightarrow> EncodeRecoveryWords sha raw \<noteq> map ToLower (strings_Fields input) then Inl ErrRecoveryChecksum
     else Inr (b32_encode (THE raw. length raw = 32 \<and> EncodeRecoveryWords sha raw = map ToLower (strings_Fields input))))"
proof -
  let ?ts = "strings_Fields input"
  have c: "canonicalRecoverySecret sha input = (case DecodeRecoveryWords sha ?ts of Inl e \<Rightarrow> Inl e | Inr s \<Rightarrow> Inr (b32_encode s))"
    using assms by (simp add: canonicalRecoverySecret_def)
  note i = decode_fields_Inr [of sha input]
  note u = decode_fields_unknown [of input _ sha] note k = decode_fields_known [of input sha]
  show ?thesis
  proof (cases "\<exists>s. DecodeRecoveryWords sha ?ts = Inr s")
    case True
    then obtain s where s: "DecodeRecoveryWords sha ?ts = Inr s" by blast
    then have e: "length s = 32" "EncodeRecoveryWords sha s = map ToLower ?ts" using i by blast+
    have "(THE raw. length raw = 32 \<and> EncodeRecoveryWords sha raw = map ToLower ?ts) = s"
    proof (rule the_equality)
      show "length s = 32 \<and> EncodeRecoveryWords sha s = map ToLower ?ts" using e by simp
      show "raw = s" if "length raw = 32 \<and> EncodeRecoveryWords sha raw = map ToLower ?ts" for raw
        using that i [of raw] s by simp
    qed
    moreover have "length ?ts = 24" using arg_cong [OF e(2), of length] by simp
    moreover have "\<forall>t\<in>set ?ts. ToLower t \<in> set recoveryWordlist" using encoded_words [of _ sha s] e(2) by auto
    ultimately show ?thesis using c s e by auto
  next
    case False
    then have n: "\<forall>raw. length raw = 32 \<longrightarrow> EncodeRecoveryWords sha raw \<noteq> map ToLower ?ts" using i by blast
    have "DecodeRecoveryWords sha ?ts = Inl ErrRecoveryWordCount" if "length ?ts \<noteq> 24"
      using that by (simp add: DecodeRecoveryWords_def recoveryWordCount_def)
    then show ?thesis using c n u k False by (cases "length ?ts = 24") (auto split: sum.splits)
  qed
qed

theorem word_phrases_are_strict_witness:
  "canonicalRecoverySecret (\<lambda>_. ''h'') (Join CHR '' '' (replicate 23 ''abandon'' @ [''-''])) = Inl ErrRecoveryWordUnknown"
proof -
  let ?ts = "replicate 23 ''abandon'' @ [''-'']"
  have "recoveryWordlist \<noteq> [] \<and> hd recoveryWordlist = ''abandon''" using word_list_run by (simp add: word_run_def)
  then have a: "''abandon'' \<in> set recoveryWordlist" by (metis list.set_sel(1))
  have lo: "ToLower ''abandon'' = ''abandon''" "ToLower ''-'' = ''-''" by code_simp+
  have "\<not> list_all small_byte ''-''" by code_simp
  then have n: "''-'' \<notin> set recoveryWordlist" using wordlist_letters by blast
  have "list_all plain ''-''" "list_all plain ''abandon''" by code_simp+
  then have f: "strings_Fields (Join CHR '' '' ?ts) = ?ts" by (intro fields_join) auto
  have "recoveryWordIndex ''abandon'' \<noteq> None" "recoveryWordIndex ''-'' = None" using a n index_known by blast+
  then have "wordShaped ?ts" by (simp add: wordShaped_def lo del: ToLower.simps)
  then show ?thesis using word_phrases_are_strict [of "Join CHR '' '' ?ts" "\<lambda>_. ''h''"] n unfolding f by (simp add: lo del: ToLower.simps)
qed

end
