(* ===== verification/VaultCreate.thy ===== *)
theory VaultCreate
  imports VaultStore VaultPlaces RecoveryPhrase
begin

text \<open>
  The first and the last resort of a vault (\<^verbatim>\<open>internal/vault/vault.go\<close> and \<^verbatim>\<open>rotation.go\<close>): creating one,
  preparing a recovery phrase and opening with it.  Creating composes the path checks, the key
  derivation parameters, the metadata directory, the key wrap and the content layout.  The results:
  a vault that is there is never written to, a created vault opens with its password and with no
  other key, and a recovery phrase opens it in either of its forms.
\<close>

section \<open>Creating\<close>

record CreateOptions =
  create_Chunk :: ChunkParams
  create_KDF :: KDFConfig

text \<open>The checks before anything is touched: the absolute root, the chunk sizes and the key derivation.\<close>

definition create_gate :: "guard_env \<Rightarrow> string list \<Rightarrow> string \<Rightarrow> string \<Rightarrow> CreateOptions
  \<Rightarrow> (string \<times> ChunkParams \<times> KDFConfig, 'z) io" where
  "create_gate g dirs root0 password opts =
     io_bind (io_lift (Abs (g_user g) root0)) (\<lambda>root.
     io_bind (ValidateCreatableVaultPath (g_user g) dirs root) (\<lambda>_.
     if password = '''' then io_fail (EMsg ''password must not be empty'')
     else let params = (if create_Chunk opts = \<lparr>MinSize = 0, AvgSize = 0, MaxSize = 0\<rparr> then DefaultChunkParams else create_Chunk opts) in
       if Validate params \<noteq> None then io_fail (EMsg ''invalid chunk sizes'')
       else io_bind (io_lift (NormalizeKDFConfig (g_ke g) (create_KDF opts) True)) (\<lambda>kdfCfg.
         io_ret (root, params, kdfCfg))))"

text \<open>The metadata directory of a root that holds no vault under either name.\<close>

definition create_meta :: "string \<Rightarrow> (string, 'z) io" where
  "create_meta root =
     io_try (ResolveMetaDir root) (\<lambda>r. case r of
       Inl e \<Rightarrow> if e = ErrAmbiguousMetadataDir then io_fail (EMsg (''vault already exists at '' @ root)) else io_fail e
     | Inr (name, exists) \<Rightarrow>
         if exists then io_fail (EMsg (''vault already exists at '' @ path_Join root name)) else io_ret name)"

text \<open>The directories, and once more that no configuration is there.\<close>

definition create_dirs :: "string \<Rightarrow> (unit, 'z) io" where
  "create_dirs meta =
     io_bind (os_MkdirAll (join_under meta [''objects'', ''chunks''])) (\<lambda>_.
     io_bind (os_MkdirAll (path_Join meta ManifestDirName)) (\<lambda>_.
     io_try (os_Stat (path_Join meta ConfigFileName)) (\<lambda>r. case r of
       Inr _ \<Rightarrow> io_fail (EMsg (''vault already exists at '' @ meta))
     | Inl e \<Rightarrow> if is_not_exist e then io_ret () else io_fail e)))"

definition created_crypto :: CryptoConfig where
  "created_crypto = \<lparr>KeyWrap = ''AES-256-GCM'', ce_ChunkAEAD = ''AES-256-GCM'', ce_IndexAEAD = ''AES-256-GCM'',
     ObjectID = ''HMAC-SHA256(indexKey, plaintextChunk)'', ce_Chunker = ''gear-hash content-defined chunking'',
     StorageMode = ''cloud-folder content-addressed chunks plus encrypted sharded manifests'',
     ManifestMode = ''encrypted-sharded-manifests-v2'', ManifestShards = 256, DirIDEpoch = 0\<rparr>"

text \<open>Fresh keys, wrapped under the password, and the configuration that holds them.\<close>

definition new_config :: "guard_env \<Rightarrow> string \<Rightarrow> ChunkParams \<Rightarrow> KDFConfig \<Rightarrow> (VaultConfig \<times> Keys, 'z) io" where
  "new_config g password params kdf0 =
     io_bind (randomBytes 32) (\<lambda>salt.
     io_bind (randomBytes 32) (\<lambda>master.
     io_bind (randomBytes 32) (\<lambda>indexKey.
     io_bind (randomHex (g_ke g) 16) (\<lambda>vaultID.
     let kdfCfg = kdf0\<lparr>Salt := b64enc (g_ke g) salt\<rparr>; ks = \<lparr>MasterKey = master, IndexKey = indexKey\<rparr> in
     io_bind (wrapKeys (g_ke g) (g_cr g) password kdfCfg ks) (\<lambda>(nonce, wrapped).
     io_bind time_Now (\<lambda>t.
     io_ret (\<lparr>Version = 2, MinReader = 0, FormatEpoch = 0, VaultID = vaultID, CreatedAt = fmtNano g t, KDF = kdfCfg,
       Crypto = created_crypto, Chunk = params, WrappedKeys = wrapped, WrapNonce = nonce, WrapEntries = [], ConfigTag = ''''\<rparr>, ks)))))))"

definition CreateWithOptions :: "ops_env \<Rightarrow> string list \<Rightarrow> string \<Rightarrow> string \<Rightarrow> CreateOptions \<Rightarrow> (unit, 'z) mio" where
  "CreateWithOptions o' dirs root0 password opts =
     (let g = s_guard (o_store o') in
      io_bind (create_gate g dirs root0 password opts) (\<lambda>(root, params, kdf0).
      io_bind (create_meta root) (\<lambda>name.
      let meta = path_Join root name in
      io_bind (create_dirs meta) (\<lambda>_.
      io_bind (new_config g password params kdf0) (\<lambda>(cfg, ks).
      io_bind (atomicWriteFile (path_Join meta ConfigFileName) (marshalIndentConfig g cfg)) (\<lambda>_.
      case vault_handle g root name ks '''' of
        None \<Rightarrow> io_fail (EMsg ''key derivation failed'')
      | Some v \<Rightarrow> io_bind (fresh_handle cfg) (\<lambda>_. EnsureContentLayout o' v)))))))"

definition Create :: "ops_env \<Rightarrow> string list \<Rightarrow> string \<Rightarrow> string \<Rightarrow> ChunkParams \<Rightarrow> (unit, 'z) mio" where
  "Create o' dirs root password params =
     CreateWithOptions o' dirs root password \<lparr>create_Chunk = params, create_KDF = DefaultKDFConfig\<rparr>"

section \<open>Recovery\<close>

text \<open>The phrase to show and the action that writes its entry.\<close>

definition PrepareRecovery :: "guard_env \<Rightarrow> 'v store_scheme \<Rightarrow> (string \<times> (unit, 'z) vio, 'z handle_ext) io" where
  "PrepareRecovery g v =
     io_bind mintRecoverySecret (\<lambda>(secret, phrase). io_ret (phrase, recovery_commit g v secret))"

definition phrase_msg :: "phrase_error \<Rightarrow> error" where
  "phrase_msg e = EMsg (case e of
      ErrRecoveryWordCount \<Rightarrow> ''recovery phrase must be exactly 24 words''
    | ErrRecoveryWordUnknown \<Rightarrow> ''recovery phrase contains a word that is not in the recovery wordlist''
    | ErrRecoveryChecksum \<Rightarrow> ''recovery phrase checksum does not match: a word was mistyped or the words are out of order''
    | _ \<Rightarrow> ''the recovery phrase did not match'')"

definition OpenWithRecovery :: "ops_env \<Rightarrow> (bytes \<Rightarrow> bytes) \<Rightarrow> string \<Rightarrow> string \<Rightarrow> OpenOptions \<Rightarrow> (vault \<times> string, 'z) mio" where
  "OpenWithRecovery o' sha root0 phrase opts =
     (let g = s_guard (o_store o') in
      io_bind (prepareOpen g root0 phrase) (\<lambda>(root, cfg, metaName, metaExists).
      io_bind (io_lift (case canonicalRecoverySecret sha phrase of Inl e \<Rightarrow> Inl (phrase_msg e) | Inr canon \<Rightarrow> Inr canon)) (\<lambda>canon.
      io_bind (io_lift (recoveryEntryFor (g_ke g) (g_cr g) cfg canon)) (\<lambda>(ks, entryID).
      io_bind (finishOpen o' root metaName cfg ks opts) (\<lambda>v. io_ret (v, entryID))))))"
section \<open>The search for an existing parent\<close>

text \<open>More steps than a path has segments make no difference: the search ends at the root.\<close>

lemma parent_loop_enough:
  assumes "propers ss" and "length ss < n"
  shows "(parent_loop dirs n (absp ss) :: (string, 'z) io) = parent_loop dirs (Suc (length ss)) (absp ss)"
  using assms
proof (induction ss arbitrary: n rule: rev_induct)
  case Nil
  have "path_Dir (absp []) = absp []" by code_simp
  then show ?case using Nil.prems(2) by (cases n) (simp_all add: Let_def)
next
  case (snoc b ss)
  obtain m where m: "n = Suc m" "length ss < m" using snoc.prems(2) by (cases n) auto
  have d: "path_Dir (absp (ss @ [b])) = absp ss" by (rule absp_dir [OF snoc.prems(1)])
  have e: "(parent_loop dirs m (absp ss) :: (string, 'z) io) = parent_loop dirs (Suc (length ss)) (absp ss)"
    by (rule snoc.IH) (use snoc.prems(1) m(2) in auto)
  have l: "length (ss @ [b]) = Suc (length ss)" by simp
  note u = parent_loop.simps(2) [of dirs _ "absp (ss @ [b])"]
  show ?case unfolding m(1) l u Let_def d e ..
qed

lemma nearestExistingParent_steps:
  assumes "propers ss" and "length ss < n"
  shows "(nearestExistingParent dirs (absp ss) :: (string, 'z) io) = parent_loop dirs n (absp ss)"
proof -
  have "length ss \<le> length (Join CHR ''/'' ss)"
    using assms(1)
  proof (induction "CHR ''/''" ss rule: Join.induct)
    case (2 w)
    then show ?case by (cases w) (auto simp: proper_seg_def)
  qed auto
  then have "length ss < Suc (length (absp ss))" by (simp add: absp_def)
  note k = parent_loop_enough [OF assms(1) this, of dirs] parent_loop_enough [OF assms, of dirs]
  show ?thesis unfolding nearestExistingParent_def Let_def absp_clean [OF assms(1)] k ..
qed

section \<open>A vault that is there\<close>

lemma read_only_stat_IsDir [read_only_intros]: "read_only (stat_IsDir dirs p)"
  unfolding stat_IsDir_def
  by (intro read_only_intros) (auto simp: read_only_def)

lemma read_only_parents [read_only_intros]: "read_only (parent_loop dirs n p)"
  by (induction n arbitrary: p) (auto simp: Let_def intro!: read_only_intros)

lemma read_only_create_gate [read_only_intros]: "read_only (create_gate g dirs root0 pw opts)"
  unfolding create_gate_def ValidateCreatableVaultPath_def nearestExistingParent_def Let_def
  by (intro read_only_intros)

lemma keeps_case_list:
  "(xs = [] \<Longrightarrow> keeps R a) \<Longrightarrow> (\<And>y ys. xs = y # ys \<Longrightarrow> keeps R (f y ys)) \<Longrightarrow> keeps R (case xs of [] \<Rightarrow> a | y # ys \<Rightarrow> f y ys)"
  by (cases xs) auto

lemma read_only_resolve [read_only_intros]: "read_only (ResolveMetaDir root)"
  unfolding ResolveMetaDir_def by (intro read_only_intros keeps_case_list)

lemma read_only_meta [read_only_intros]: "read_only (create_meta root)"
  unfolding create_meta_def by (intro read_only_intros)

lemma create_gate_root: "create_gate g dirs root0 pw opts w = (Inr (root, params, kdf0), w') \<Longrightarrow> Abs (g_user g) root0 = Inr root"
  by (auto simp: create_gate_def io_bind_def io_lift_def io_ret_def io_fail_def Let_def split: sum.splits prod.splits if_splits)

lemma metadata_names: "MetadataDirNames = [''SeaVaultData'', ''.seavault'']"
  by code_simp

lemma resolve_found:
  assumes "n \<in> set MetadataDirNames" and "map_of (files w) (join_under root [n, ConfigFileName]) \<noteq> None"
    and "create_meta root w = (r, w')"
  shows "isl r"
  using assms
  by (auto simp: create_meta_def ResolveMetaDir_def metadata_names os_Stat_def lookup_file_def check_fault_def io_simps is_not_exist_def
      split: option.splits if_splits)

text \<open>
  C9.  Creating never touches a vault that is there.  When the root holds a \<^verbatim>\<open>vault.json\<close> under either of the
  two metadata names, creating fails and leaves every file as it was, whatever the options are and
  whatever fails on the way.
\<close>

theorem create_never_overwrites:
  assumes "Abs (g_user (s_guard (o_store o'))) root0 = Inr root" and "n \<in> set MetadataDirNames"
    and "map_of (files w) (join_under root [n, ConfigFileName]) \<noteq> None"
    and "CreateWithOptions o' dirs root0 pw opts w = (r, w')"
  shows "isl r \<and> files w' = files w"
proof -
  let ?g = "s_guard (o_store o')"
  obtain r1 w1 where g: "create_gate ?g dirs root0 pw opts w = (r1, w1)" by fastforce
  have f1: "files w1 = files w" using keepsD [OF read_only_create_gate g] by (simp add: same_disk_def)
  show ?thesis
  proof (cases r1)
    case (Inl e)
    then show ?thesis using assms(4) g f1 by (auto simp: CreateWithOptions_def Let_def io_bind_def)
  next
    case (Inr x)
    then obtain params kdf0 where x: "x = (root, params, kdf0)"
      using create_gate_root g assms(1) by (metis sum.inject(2) surj_pair)
    obtain r2 w2 where m: "create_meta root w1 = (r2, w2)" by fastforce
    have f2: "files w2 = files w1" using keepsD [OF read_only_meta m] by (simp add: same_disk_def)
    have "isl r2" using resolve_found [OF assms(2) _ m] assms(3) f1 by simp
    then show ?thesis using assms(4) g m Inr x f1 f2 by (cases r2) (auto simp: CreateWithOptions_def Let_def io_bind_def)
  qed
qed

section \<open>A vault that is new\<close>

text \<open>
  The working directory of a process is an absolute path, the hexadecimal form of some bytes is not
  empty, and object ids are 64 hexadecimal digits; a map iterates over its keys in some order.
\<close>

definition create_laws :: "store_env \<Rightarrow> bool" where
  "create_laws s \<longleftrightarrow> (\<forall>wd. Getwd (g_user (s_guard s)) = Inr wd \<longrightarrow> path_IsAbs wd)
     \<and> (\<forall>b. b \<noteq> [] \<longrightarrow> hexenc (g_ke (s_guard s)) b \<noteq> '''')
     \<and> (\<forall>k d. hex_id (hmacHex (s_cr s) k d)) \<and> (\<forall>ks. mset (map_order s ks) = mset ks)"

lemma Abs_absp:
  assumes "Abs e root0 = Inr root" and "\<forall>wd. Getwd e = Inr wd \<longrightarrow> path_IsAbs wd"
  obtains ss where "root = absp ss" "propers ss"
proof -
  obtain x p where p: "filepath_Absolute e x = Inr p" "root = path_Clean p"
    using assms(1) by (auto simp: Abs_def split: sum.splits)
  obtain q where q: "path_IsAbs q" "p = path_Clean q"
  proof (cases "path_IsAbs x")
    case True
    then show ?thesis using p(1) that by (simp add: filepath_Absolute_def)
  next
    case False
    then obtain wd where wd: "Getwd e = Inr wd" "p = path_Join wd x"
      using p(1) by (auto simp: filepath_Absolute_def split: sum.splits)
    then have a: "path_IsAbs wd" using assms(2) by blast
    then have "path_IsAbs (wd @ CHR ''/'' # x)" "wd \<noteq> ''''" by (auto simp: path_IsAbs_def HasPrefix_iff)
    then show ?thesis using wd(2) that by (simp add: path_Join_def)
  qed
  obtain ss where "path_Clean q = absp ss" "propers ss" using abs_shape [OF q(1)] by blast
  then show ?thesis using that p(2) q(2) absp_clean by auto
qed

lemma leaves_commits [leaves_intros]:
  assumes "\<And>q. manifestPath v (manifestID s v q) \<notin> S"
  shows "leaves S (commitFileManifest s v p rec)" "leaves S (commitTombstone s v p gen dg cl)"
proof -
  have u: "leaves S (update_cache f)" for f by (simp add: leaves_def update_cache_def same_host_def)
  show "leaves S (commitFileManifest s v p rec)" "leaves S (commitTombstone s v p gen dg cl)"
    unfolding commitFileManifest_def commitTombstone_def by (intro leaves_intros assms u leaves_pure)+
qed

lemma leaves_SaveIndex [leaves_intros]:
  assumes "\<And>q. manifestPath v (manifestID s v q) \<notin> S" and "legacy_path v \<notin> S"
  shows "leaves S (SaveIndex s v idx)"
proof -
  have e: "leaves S (save_each s v fs ps)" for fs ps
    by (induction ps) (auto intro!: leaves_intros leaves_pure assms(1) split: option.split)
  show ?thesis
    unfolding SaveIndex_def saveIndexAsManifests_def cacheReplace_def Let_def
    by (intro leaves_intros assms e leaves_pure read_only_intros [THEN leaves_read_only])
qed

lemma read_only_markers [read_only_intros]: "read_only (markerWouldMaskWipe v idx)" "read_only (markerFileRecord s)"
  unfolding markerWouldMaskWipe_def manifestFilesPresent_def markerFileRecord_def by (intro read_only_intros)+

lemma leaves_layout:
  assumes "\<And>q. manifestPath v (manifestID (o_store o') v q) \<notin> S" and "legacy_path v \<notin> S"
  shows "leaves S (EnsureContentLayout o' v)"
  unfolding EnsureContentLayout_def tombstone_old_def Let_def
  by (intro leaves_intros assms leaves_pure read_only_intros [THEN leaves_read_only])

lemma create_meta_none:
  assumes "no_faults w" and "create_meta root w = (Inr name, w')"
  shows "name = ''SeaVaultData''" "w' = w" "map_of (files w) (join_under root [n, ConfigFileName]) = None \<or> n \<notin> set MetadataDirNames"
proof -
  have "name = ''SeaVaultData'' \<and> w' = w \<and> (map_of (files w) (join_under root [''SeaVaultData'', ConfigFileName]) = None)
     \<and> (map_of (files w) (join_under root [''.seavault'', ConfigFileName]) = None)"
    using assms
    by (auto simp: create_meta_def ResolveMetaDir_def metadata_names os_Stat_def lookup_file_def check_fault_def io_simps is_not_exist_def
        no_faults_def split: option.splits if_splits)
  then show "name = ''SeaVaultData''" "w' = w" "map_of (files w) (join_under root [n, ConfigFileName]) = None \<or> n \<notin> set MetadataDirNames"
    by (auto simp: metadata_names)
qed

lemma resolve_created:
  assumes "no_faults w" and "map_of (files w) (join_under root [''SeaVaultData'', ConfigFileName]) \<noteq> None"
    and "map_of (files w) (join_under root [''.seavault'', ConfigFileName]) = None"
  shows "ResolveMetaDir root w = (Inr (''SeaVaultData'', True), w)"
  using assms
  by (auto simp: ResolveMetaDir_def metadata_names os_Stat_def lookup_file_def check_fault_def io_simps is_not_exist_def no_faults_def)

lemma read_only_random [read_only_intros]: "read_only (randomBytes n)" "read_only (wrapKeys ke cr pw c ks)" "read_only (randomHex ke n)"
  by (auto simp: wrapKeys_def randomHex_def read_only_def randomBytes_def same_host_def io_simps split: option.split sum.split)

lemma read_only_config: "read_only (new_config g pw params kdf0)"
  unfolding new_config_def Let_def by (intro read_only_intros)

lemma new_config_unlocks:
  assumes "new_config g pw params kdf0 w = (Inr (cfg, ks), w')" and "codec_law (g_ke g)" and "aead_law (g_cr g)" and "rand_ok w"
    and "\<forall>b. b \<noteq> [] \<longrightarrow> hexenc (g_ke g) b \<noteq> ''''"
  shows "unlockWith (g_ke g) (g_cr g) cfg pw WrapTypePassword = Inr ks" "WrapEntries cfg = []" "Version cfg = 2" "MinReader cfg = 0"
    "VaultID cfg \<noteq> ''''" "length (MasterKey ks) = 32" "length (IndexKey ks) = 32"
proof -
  obtain salt w1 master w2 ik w3 vid w4 kdf n ct w5 where
    d: "randomBytes 32 w = (Inr salt, w1)" "randomBytes 32 w1 = (Inr master, w2)" "randomBytes 32 w2 = (Inr ik, w3)"
      "randomHex (g_ke g) 16 w3 = (Inr vid, w4)" "ks = \<lparr>MasterKey = master, IndexKey = ik\<rparr>"
      "wrapKeys (g_ke g) (g_cr g) pw kdf ks w4 = (Inr (n, ct), w5)" "KDF cfg = kdf" "WrappedKeys cfg = ct" "WrapNonce cfg = n"
      "WrapEntries cfg = []" "Version cfg = 2" "MinReader cfg = 0" "VaultID cfg = vid"
    using assms(1) unfolding new_config_def
    by (auto simp: io_bind_def io_ret_def time_Now_def Let_def split: prod.splits sum.splits)
  have r: "rand_ok w4" using d(1-4) assms(4)
    by (auto simp: randomHex_def randomBytes_def io_simps rand_ok_def split: option.splits)
  show "unlockWith (g_ke g) (g_cr g) cfg pw WrapTypePassword = Inr ks"
    using unwrap_wrap [OF assms(2,3) r d(6)] d by (simp add: unlockWith_def unwrapKeys_def)
  show "WrapEntries cfg = []" "Version cfg = 2" "MinReader cfg = 0" by (rule d)+
  show "length (MasterKey ks) = 32" "length (IndexKey ks) = 32"
    using wrapKeys_Inr [OF d(6)] by (auto simp: keySize_def)
  obtain b where "vid = hexenc (g_ke g) b" "length b = 16"
    using d(1-4) assms(4) by (auto simp: randomHex_def randomBytes_def io_simps rand_ok_def split: option.splits)
  then show "VaultID cfg \<noteq> ''''" using assms(5) d(13) by (metis list.size(3) numeral_neq_zero)
qed

lemma create_steps:
  assumes "CreateWithOptions o' dirs root0 pw opts w = (Inr u, w')"
  obtains root params kdf0 w1 name w2 w3 cfg ks w4 w5 v where
    "create_gate (s_guard (o_store o')) dirs root0 pw opts w = (Inr (root, params, kdf0), w1)"
    "create_meta root w1 = (Inr name, w2)" "create_dirs (path_Join root name) w2 = (Inr (), w3)"
    "new_config (s_guard (o_store o')) pw params kdf0 w3 = (Inr (cfg, ks), w4)"
    "atomicWriteFile (path_Join (path_Join root name) ConfigFileName) (marshalIndentConfig (s_guard (o_store o')) cfg) w4 = (Inr (), w5)"
    "vault_handle (s_guard (o_store o')) root name ks '''' = Some v"
    "EnsureContentLayout o' v (snd (fresh_handle cfg w5)) = (Inr u, w')"
  using assms unfolding CreateWithOptions_def Let_def
  by (auto simp: io_bind_def io_fail_def fresh_handle_def split: prod.splits sum.splits option.splits)

lemma create_gate_password: "create_gate g dirs root0 pw opts w = (Inr x, w') \<Longrightarrow> pw \<noteq> ''''"
  by (auto simp: create_gate_def io_bind_def io_lift_def io_fail_def split: sum.splits prod.splits if_splits)

lemma read_only_dirs: "read_only (create_dirs meta)"
  unfolding create_dirs_def by (intro read_only_intros)

lemma config_segs: "proper_seg ''SeaVaultData''" "proper_seg ''.seavault''" "proper_seg ConfigFileName" "proper_seg ManifestDirName"
    "proper_seg IndexFileName" "proper_seg ''objects''" "proper_seg ''chunks''"
  by code_simp+

lemma absp_inj: "propers xs \<Longrightarrow> propers ys \<Longrightarrow> absp xs = absp ys \<longleftrightarrow> xs = ys"
  using clean_segs_absp by metis

lemma absp_snoc: "propers xs \<Longrightarrow> proper_seg n \<Longrightarrow> path_Join (absp xs) n = absp (xs @ [n])"
  using absp_join [of xs "[n]"] by simp

lemma config_at: "propers ss \<Longrightarrow> proper_seg n \<Longrightarrow> join_under (absp ss) [n, ConfigFileName] = absp (ss @ [n, ConfigFileName])"
  using config_segs by (auto simp: join_under_def absp_snoc)

lemma created_handle:
  assumes "create_laws s" and "vault_handle g (absp ss) ''SeaVaultData'' ks dev = Some v" and "propers ss"
  shows "MetaRoot v = absp (ss @ [''SeaVaultData''])" "store_laws s v {}" "store_laws s v {rootMarker}"
    "mroot v = absp (ss @ [''SeaVaultData'', ManifestDirName])" "legacy_path v = absp (ss @ [''SeaVaultData'', IndexFileName])"
proof -
  note p = config_segs
  show m: "MetaRoot v = absp (ss @ [''SeaVaultData''])"
    using assms(2,3) p(1) by (auto simp: vault_handle_def absp_snoc split: option.splits)
  have "tidy_root v"
    unfolding tidy_root_def m using p(1) assms(3)
    by (intro exI [of _ "Join CHR ''/'' (ss @ [''SeaVaultData''])"]) (auto simp: absp_def intro!: clean_path_Join)
  moreover have "CleanVirtualPath rootMarker = Inr rootMarker" "rootMarker \<noteq> ''''" by code_simp+
  ultimately show "store_laws s v {}" "store_laws s v {rootMarker}" using assms(1) by (simp_all add: store_laws_def create_laws_def)
  show "mroot v = absp (ss @ [''SeaVaultData'', ManifestDirName])" "legacy_path v = absp (ss @ [''SeaVaultData'', IndexFileName])"
    unfolding mroot_def m using p assms(3) by (simp_all add: absp_snoc)
qed

lemma config_not_below:
  assumes "propers ss" and "proper_seg a" and "proper_seg b" and "b \<noteq> ConfigFileName"
  shows "\<not> HasPrefix (absp (ss @ [a, ConfigFileName])) (absp (ss @ [''SeaVaultData'', b]) @ ''/'')"
proof -
  have "propers (ss @ [a, ConfigFileName])" "propers (ss @ [''SeaVaultData'', b])" "ss @ [''SeaVaultData'', b] \<noteq> []"
    using assms config_segs by auto
  from below_absp [OF this] show ?thesis by simp
qed

lemma created_paths:
  assumes "create_laws s" and "vault_handle g root ''SeaVaultData'' ks dev = Some v" and "root = absp ss" and "propers ss"
  defines "S \<equiv> {join_under root [''SeaVaultData'', ConfigFileName], join_under root [''.seavault'', ConfigFileName]}"
  shows "manifestPath v (manifestID s v q) \<notin> S" "legacy_path v \<notin> S"
    "join_under root [''SeaVaultData'', ConfigFileName] \<noteq> join_under root [''.seavault'', ConfigFileName]"
proof -
  note p = config_segs and h = created_handle [OF assms(1) assms(2) [unfolded assms(3)] assms(4)]
  have S: "S = {absp (ss @ [''SeaVaultData'', ConfigFileName]), absp (ss @ [''.seavault'', ConfigFileName])}"
    unfolding S_def assms(3) using p by (simp add: config_at [OF assms(4)])
  have n: "ManifestDirName \<noteq> ConfigFileName" "IndexFileName \<noteq> ConfigFileName" by code_simp+
  show "manifestPath v (manifestID s v q) \<notin> S"
  proof
    assume "manifestPath v (manifestID s v q) \<in> S"
    then have "\<not> HasPrefix (manifestPath v (manifestID s v q)) (mroot v @ ''/'')"
      unfolding S h(4)
      by (elim insertE) (simp_all only: config_not_below [OF assms(4) _ p(4) n(1)] p(1,2) empty_iff not_False_eq_True)
    then show False using store_id(3) [OF h(2)] by simp
  qed
  show "legacy_path v \<notin> S" unfolding h(5) S using p assms(4) n by (auto simp: absp_inj)
  show "join_under root [''SeaVaultData'', ConfigFileName] \<noteq> join_under root [''.seavault'', ConfigFileName]"
    unfolding assms(3) using p assms(4) by (simp add: config_at absp_inj)
qed

lemma create_dirs_same:
  assumes "no_faults w" and "create_dirs meta w = (Inr u, w')"
  shows "w' = w"
  using assms
  by (auto simp: create_dirs_def os_MkdirAll_def os_Stat_def lookup_file_def check_fault_def io_simps no_faults_def split: option.splits if_splits)

text \<open>A successful run: what was drawn, what was written, and that the rest of the run has left it alone.\<close>

lemma created_run:
  assumes "create_laws (o_store o')" and "no_faults w" and "CreateWithOptions o' dirs root0 pw opts w = (Inr u, w')"
  obtains root params kdf0 w1 cfg ks w4 t where
    "create_gate (s_guard (o_store o')) dirs root0 pw opts w = (Inr (root, params, kdf0), w1)"
    "new_config (s_guard (o_store o')) pw params kdf0 w1 = (Inr (cfg, ks), w4)" "same_host w w1" "no_faults w'"
    "map_of (files w') (join_under root [''SeaVaultData'', ConfigFileName]) = Some \<lparr>data = marshalIndentConfig (s_guard (o_store o')) cfg, mtime = t\<rparr>"
    "map_of (files w') (join_under root [''.seavault'', ConfigFileName]) = None"
proof -
  let ?g = "s_guard (o_store o')"
  from create_steps [OF assms(3)] obtain root params kdf0 w1 name w2 w3 cfg ks w4 w5 v where
    st: "create_gate ?g dirs root0 pw opts w = (Inr (root, params, kdf0), w1)" "create_meta root w1 = (Inr name, w2)"
      "create_dirs (path_Join root name) w2 = (Inr (), w3)" "new_config ?g pw params kdf0 w3 = (Inr (cfg, ks), w4)"
      "atomicWriteFile (path_Join (path_Join root name) ConfigFileName) (marshalIndentConfig ?g cfg) w4 = (Inr (), w5)"
      "vault_handle ?g root name ks '''' = Some v" "EnsureContentLayout o' v (snd (fresh_handle cfg w5)) = (Inr u, w')"
    by blast
  let ?c = "\<lambda>n. join_under root [n, ConfigFileName]"
  have d1: "same_host w w1" using keepsD [OF read_only_create_gate st(1)] by (simp add: same_disk_def)
  have nf1: "no_faults w1" using no_faults_same [OF d1 assms(2)] .
  note me = create_meta_none [OF nf1 st(2)]
  have w3: "w3 = w1" using create_dirs_same [OF _ st(3)] nf1 me(2) by simp
  have d4: "files w4 = files w1" "same_host w1 w4" using keepsD [OF read_only_config st(4)] w3 by (auto simp: same_disk_def)
  obtain t where w5: "files w5 = AList.update (?c name) \<lparr>data = marshalIndentConfig ?g cfg, mtime = t\<rparr> (files w4)" "same_host w4 w5"
    using atomicWriteFile_cases [OF st(5)] by (auto simp: join_under_def)
  obtain ss where ss: "root = absp ss" "propers ss"
    using Abs_absp [OF create_gate_root [OF st(1)]] assms(1) unfolding create_laws_def by blast
  note cp = created_paths [OF assms(1) st(6) [unfolded me(1)] ss]
  have lv: "leaves {?c ''SeaVaultData'', ?c ''.seavault''} (EnsureContentLayout o' v)" by (intro leaves_layout cp(1,2))
  have k: "map_of (files w') p = map_of (files w5) p" if "p \<in> {?c ''SeaVaultData'', ?c ''.seavault''}" for p
    using leavesD(1) [OF lv that st(7)] by (simp add: fresh_handle_def)
  have sh: "same_host w5 w'" using keepsD [OF lv st(7)] by (simp add: same_at_def fresh_handle_def same_host_def)
  have nf: "no_faults w'" using no_faults_same sh w5(2) d4(2) nf1 by blast
  have "map_of (files w') (?c ''SeaVaultData'') = Some \<lparr>data = marshalIndentConfig ?g cfg, mtime = t\<rparr>"
    using k [of "?c ''SeaVaultData''"] w5(1) me(1) by simp
  moreover have "map_of (files w') (?c ''.seavault'') = None"
    using k [of "?c ''.seavault''"] w5(1) me(1,2) me(3) [of "''.seavault''"] cp(3) d4(1) by (simp add: metadata_names)
  ultimately show thesis using that st(1,4) w3 d1 nf by blast
qed

text \<open>
  C10.  A created vault opens with its password.  When creating succeeds on a working disk, \<^verbatim>\<open>vault.json\<close> holds
  a configuration from which the password unlocks the two fresh keys, and nothing that followed has
  changed it.  If the encoding preserves this configuration within the size limit and the absolute
  root stands for itself, opening the same root reads exactly it, and no metadata directory is
  ambiguous.
\<close>

theorem created_vault_unlocks:
  assumes "create_laws (o_store o')" and "codec_law (g_ke (s_guard (o_store o')))" and "aead_law (g_cr (s_guard (o_store o')))"
    and "rand_ok w" and "no_faults w" and "CreateWithOptions o' dirs root0 pw opts w = (Inr u, w')"
  shows "\<exists>root cfg ks f. Abs (g_user (s_guard (o_store o'))) root0 = Inr root
    \<and> map_of (files w') (join_under root [''SeaVaultData'', ConfigFileName]) = Some f
    \<and> data f = marshalIndentConfig (s_guard (o_store o')) cfg
    \<and> unlockWith (g_ke (s_guard (o_store o'))) (g_cr (s_guard (o_store o'))) cfg pw WrapTypePassword = Inr ks
    \<and> length (MasterKey ks) = 32 \<and> length (IndexKey ks) = 32
    \<and> (Abs (g_user (s_guard (o_store o'))) root = Inr root \<and> unmarshalConfig (s_guard (o_store o')) (data f) = Some cfg
         \<and> length (data f) \<le> maxConfigBytes
       \<longrightarrow> fst (prepareOpen (s_guard (o_store o')) root0 pw w') = Inr (root, cfg, ''SeaVaultData'', True))"
proof -
  let ?g = "s_guard (o_store o')"
  from created_run [OF assms(1,5,6)] obtain root params kdf0 w1 cfg ks w4 t where
    st: "create_gate ?g dirs root0 pw opts w = (Inr (root, params, kdf0), w1)" "new_config ?g pw params kdf0 w1 = (Inr (cfg, ks), w4)"
      "same_host w w1" "no_faults w'" "map_of (files w') (join_under root [''SeaVaultData'', ConfigFileName])
         = Some \<lparr>data = marshalIndentConfig ?g cfg, mtime = t\<rparr>" "map_of (files w') (join_under root [''.seavault'', ConfigFileName]) = None"
    by blast
  have a: "Abs (g_user ?g) root0 = Inr root" by (rule create_gate_root [OF st(1)])
  have r1: "rand_ok w1" using assms(4) st(3) by (auto simp: same_host_def rand_ok_def)
  have hx: "\<forall>b. b \<noteq> [] \<longrightarrow> hexenc (g_ke ?g) b \<noteq> ''''" using assms(1) by (simp add: create_laws_def)
  note nc = new_config_unlocks [OF st(2) assms(2,3) r1 hx]
  have "fst (prepareOpen ?g root0 pw w') = Inr (root, cfg, ''SeaVaultData'', True)"
    if "Abs (g_user ?g) root = Inr root" "unmarshalConfig ?g (marshalIndentConfig ?g cfg) = Some cfg"
      "length (marshalIndentConfig ?g cfg) \<le> maxConfigBytes"
    using resolve_created [OF st(4) _ st(6)] st(4,5) that a nc create_gate_password [OF st(1)]
    by (simp add: prepareOpen_def ReadConfig_def readCapped_def os_ReadFile_def lookup_file_def check_fault_def io_simps no_faults_def
        formatTooNew_def SupportedFormat_def)
  then show ?thesis using a st(5) nc(1,6,7) by (intro exI conjI impI) auto
qed

section \<open>Creating succeeds\<close>

text \<open>What a clock and the encodings have to offer a new vault: time stamps read back, and the root marker survives its encoding.\<close>

definition clock_laws :: "store_env \<Rightarrow> 'z world_scheme \<Rightarrow> bool" where
  "clock_laws s w \<longleftrightarrow> (\<forall>t. fmtNano (s_guard s) t \<noteq> '''' \<and> parseTime (s_host s) (fmtNano (s_guard s) t) = Some t)
     \<and> (\<forall>i. i64 (clock_src w i) \<noteq> 0)
     \<and> (\<forall>t n. faithful s (file_manifest rootMarker (empty_record\<lparr>Mode := 448, ModTime := fmtNano (s_guard s) t,
              UpdatedAt := fmtNano (s_guard s) t, Generation := n\<rparr>)))"

lemma marker_record:
  assumes "clock_laws s w" and "markerFileRecord s w = (r, w')"
  obtains m where "r = Inr m" "w' = w\<lparr>clock_ix := Suc (clock_ix w)\<rparr>" "stamped m" "faithful s (file_manifest rootMarker m)"
  using assms by (auto simp: markerFileRecord_def now_string_def nanoOrNow_def time_Now_def io_simps clock_laws_def stamped_def)

lemma root_marker: "CleanVirtualPath rootMarker = Inr rootMarker" "rootMarker \<noteq> ''''" "\<not> old_layout rootMarker"
  by code_simp+

lemma single_order: "mset (f [x]) = mset [x] \<Longrightarrow> f [x] = [x]" for f :: "'a list \<Rightarrow> 'a list"
  by (cases "f [x]") auto

lemma layout_fresh:
  assumes "coherent (o_store o') v {rootMarker} Map.empty w" and "no_faults w" and "clock_laws (o_store o') w"
    and "walk_files (chunkRoot v) (files w) = []" and "EnsureContentLayout o' v w = (r, w')"
  obtains m where "r = Inr ()" "same_host w w'" "coherent (o_store o') v {rootMarker} [rootMarker \<mapsto> file_manifest rootMarker m] w'"
proof -
  let ?s = "o_store o'"
  obtain rl w1 where l: "LoadIndex ?s v w = (rl, w1)" by fastforce
  note c1 = coherent_cached [OF assms(1) l [unfolded LoadIndex_def]]
  then obtain idx where idx: "rl = Inr idx" using assms(2) by (cases rl) auto
  then have "map_of (Files idx) = Map.empty" using c1 by (simp add: live_def fun_eq_iff)
  then have fs: "Files idx = []" by simp
  have c: "coherent ?s v {rootMarker} Map.empty w1" "same_host w w1" "files w1 = files w" using c1 by blast+
  have nf1: "no_faults w1" using no_faults_same [OF c(2) assms(2)] .
  note h = coherentD [OF c(1)]
  have "find_manifest ps = Inr False" if "\<forall>p\<in>set ps. manifestIDFromFileName (path_Base p) = Inr ''''" for ps
    using that by (induction ps) auto
  then have n: "find_manifest (walk_files (mroot v) (files w1)) = Inr False" using h(4) by (simp add: holds_def)
  have mask: "markerWouldMaskWipe v idx w1 = (Inr False, w1)"
    using fs h(5) n assms(4) c(3) nf1
    by (simp add: markerWouldMaskWipe_def manifestFilesPresent_def walkChunkFiles_def os_walk_def check_fault_def get_config_def mroot_def
        io_simps no_faults_def)
  obtain rm w2 where rm: "markerFileRecord ?s w1 = (rm, w2)" by fastforce
  have cl: "clock_laws ?s w1" using assms(3) c(2) by (simp add: clock_laws_def same_host_def)
  obtain m where m: "rm = Inr m" "w2 = w1\<lparr>clock_ix := Suc (clock_ix w1)\<rparr>" "stamped m" "faithful ?s (file_manifest rootMarker m)"
    using marker_record [OF cl rm] by blast
  have c2: "coherent ?s v {rootMarker} Map.empty w2" "same_host w1 w2" "usesManifestStore (vConfig w2)"
    using c(1) m(2) h(5) by (auto simp: coherent_def holds_def rand_ok_def same_host_def)
  have nf2: "no_faults w2" using no_faults_same [OF c2(2) nf1] .
  obtain rc w3 where cm: "commitFileManifest ?s v rootMarker m w2 = (rc, w3)" by fastforce
  have rc: "rc = Inr ()" by (rule commitFileManifest_ok [OF nf2 root_marker(1,2) m(3) cm])
  have c3: "coherent ?s v {rootMarker} [rootMarker \<mapsto> file_manifest rootMarker m] w3" "same_host w2 w3"
    using commitFileManifest_refines [OF c2(1) _ m(3) _ cm] m(4) rc by (auto simp: faithful_def)
  have o: "map_order ?s [rootMarker] = [rootMarker]"
    using h(1) by (intro single_order) (simp add: store_laws_def)
  have "EnsureContentLayout o' v w = (Inr (), w3)"
    using l idx fs mask rm m(1) cm rc o c2(3) root_marker(3)
    by (simp add: EnsureContentLayout_def Let_def io_bind_def io_ret_def get_config_def move_record_def tombstone_old_def)
  then show thesis using that assms(5) c3 c(2) c2(2) same_host_trans by (metis prod.inject)
qed

text \<open>Neither metadata directory holds a file.\<close>

definition fresh_root :: "string \<Rightarrow> 'z world_scheme \<Rightarrow> bool" where
  "fresh_root root w \<longleftrightarrow> (\<forall>n \<in> set MetadataDirNames. \<forall>p. map_of (files w) p \<noteq> None \<longrightarrow> \<not> HasPrefix p (path_Join root n @ ''/''))"

lemma no_faults_rand: "no_faults w \<Longrightarrow> rand_ok w"
  unfolding no_faults_def rand_ok_def by (metis option.inject)

lemma fresh_at:
  assumes "fresh_root (absp ss) w" and "propers ss" and "n \<in> set MetadataDirNames" and "proper_seg b"
  shows "map_of (files w) (absp (ss @ [n, b])) = None"
proof -
  have n: "proper_seg n" using assms(3) config_segs by (auto simp: metadata_names)
  have "HasPrefix (absp (ss @ [n, b])) (absp (ss @ [n]) @ ''/'')"
    using assms(2,4) n by (subst below_absp) auto
  moreover have "map_of (files w) p = None \<or> \<not> HasPrefix p (path_Join (absp ss) n @ ''/'')" for p
    using assms(1,3) unfolding fresh_root_def by blast
  ultimately show ?thesis using assms(2) n by (metis absp_snoc)
qed

lemma fresh_config:
  "fresh_root (absp ss) w \<Longrightarrow> propers ss \<Longrightarrow> n \<in> set MetadataDirNames
    \<Longrightarrow> map_of (files w) (join_under (absp ss) [n, ConfigFileName]) = None"
  using fresh_at [of ss w n ConfigFileName] config_segs by (auto simp: config_at metadata_names)

lemma fresh_file:
  "fresh_root (absp ss) w \<Longrightarrow> propers ss \<Longrightarrow> proper_seg b \<Longrightarrow> map_of (files w) (absp (ss @ [''SeaVaultData'', b])) = None"
  by (rule fresh_at) (simp_all add: metadata_names)

lemma created_walk:
  assumes "fresh_root (absp ss) w" and "propers ss" and "propers (b # bs)" and "b \<noteq> ConfigFileName"
    and "fs = AList.update (absp (ss @ [''SeaVaultData'', ConfigFileName])) f (files w)"
  shows "walk_files (absp (ss @ ''SeaVaultData'' # b # bs)) fs = []"
proof -
  let ?d = "absp (ss @ ''SeaVaultData'' # b # bs)"
  note g = config_segs
  have d: "?d = absp (ss @ [''SeaVaultData'']) @ ''/'' @ Join CHR ''/'' (b # bs)"
    using Join_app [of "ss @ [''SeaVaultData'']" "b # bs" "CHR ''/''"] by (simp add: absp_def)
  have p1: "propers (ss @ [''SeaVaultData'', ConfigFileName])" "propers (ss @ ''SeaVaultData'' # b # bs)" "ss @ ''SeaVaultData'' # b # bs \<noteq> []"
    using assms(2,3) g by auto
  have 1: "\<not> HasPrefix (absp (ss @ [''SeaVaultData'', ConfigFileName])) (?d @ ''/'')"
    unfolding below_absp [OF p1] using assms(4) by simp
  have 2: "map_of (files w) p = None" if "HasPrefix p (?d @ ''/'')" for p
  proof -
    have "HasPrefix p (path_Join (absp ss) ''SeaVaultData'' @ ''/'')"
      using that assms(2) g(1) unfolding d by (auto simp: HasPrefix_iff absp_snoc)
    then show ?thesis using assms(1) unfolding fresh_root_def by (auto simp: metadata_names)
  qed
  have "set (walk_files ?d fs) = {}"
    unfolding set_walk assms(5) AList.dom_update using 1 2 by (auto simp: map_of_eq_None_iff)
  then show ?thesis by simp
qed

lemma create_meta_fresh:
  assumes "no_faults w" and "fresh_root (absp ss) w" and "propers ss"
  shows "create_meta (absp ss) w = (Inr ''SeaVaultData'', w)"
  using assms(1) fresh_config [OF assms(2,3)]
  by (simp add: create_meta_def ResolveMetaDir_def metadata_names os_Stat_def lookup_file_def check_fault_def io_simps is_not_exist_def no_faults_def)

lemma create_dirs_fresh:
  "no_faults w \<Longrightarrow> map_of (files w) (path_Join meta ConfigFileName) = None \<Longrightarrow> create_dirs meta w = (Inr (), w)"
  by (simp add: create_dirs_def os_MkdirAll_def os_Stat_def lookup_file_def check_fault_def io_simps is_not_exist_def no_faults_def)

lemma random_total:
  assumes "no_faults w"
  shows "\<exists>b. randomBytes n w = (Inr b, w\<lparr>rand_ix := Suc (rand_ix w)\<rparr>) \<and> length b = n"
proof -
  obtain b where "rand_src w (rand_ix w) n = Some b" "length b = n" using assms unfolding no_faults_def by blast
  then show ?thesis by (simp add: randomBytes_def)
qed

lemma wrap_total:
  assumes "no_faults w" and "deriveWrapKey ke pw kdf = Inr k" and "length k = keySize" and "length (MasterKey ks) = keySize" and "length (IndexKey ks) = keySize"
  shows "\<exists>x. wrapKeys ke cr pw kdf ks w = (Inr x, w\<lparr>rand_ix := Suc (rand_ix w)\<rparr>)"
  using random_total [OF assms(1), of "NonceSize cr"] assms(2-5)
  by (auto simp: wrapKeys_def io_bind_def io_lift_def io_ret_def newAESGCM_def)

lemma new_config_total:
  fixes w :: "'z world_scheme"
  assumes "no_faults w" and "codec_law (g_ke g)"
    and "\<forall>b. length b = 32 \<longrightarrow> (\<exists>k. deriveWrapKey (g_ke g) pw (kdf0\<lparr>Salt := b64enc (g_ke g) b\<rparr>) = Inr k \<and> length k = keySize)"
  shows "\<exists>cfg ks w'. new_config g pw params kdf0 w = (Inr (cfg, ks), w') \<and> usesManifestStore cfg \<and> Version cfg \<noteq> 1"
proof -
  have nf: "no_faults (w\<lparr>rand_ix := k\<rparr>)" for k using assms(1) by (simp add: no_faults_def)
  obtain b1 where 1: "randomBytes 32 w = (Inr b1, w\<lparr>rand_ix := Suc (rand_ix w)\<rparr>)" "length b1 = 32" using random_total [OF assms(1)] by blast
  let ?w1 = "w\<lparr>rand_ix := Suc (rand_ix w)\<rparr>"
  obtain b2 where 2: "randomBytes 32 ?w1 = (Inr b2, w\<lparr>rand_ix := Suc (Suc (rand_ix w))\<rparr>)" "length b2 = 32" using random_total [OF nf, of 32] by fastforce
  let ?w2 = "w\<lparr>rand_ix := Suc (Suc (rand_ix w))\<rparr>"
  obtain b3 where 3: "randomBytes 32 ?w2 = (Inr b3, w\<lparr>rand_ix := Suc (Suc (Suc (rand_ix w)))\<rparr>)" "length b3 = 32" using random_total [OF nf, of 32] by fastforce
  let ?w3 = "w\<lparr>rand_ix := Suc (Suc (Suc (rand_ix w)))\<rparr>"
  obtain b4 where 4: "randomBytes 16 ?w3 = (Inr b4, w\<lparr>rand_ix := Suc (Suc (Suc (Suc (rand_ix w))))\<rparr>)" using random_total [OF nf, of 16] by fastforce
  let ?w4 = "w\<lparr>rand_ix := Suc (Suc (Suc (Suc (rand_ix w))))\<rparr>"
  obtain k where k: "deriveWrapKey (g_ke g) pw (kdf0\<lparr>Salt := b64enc (g_ke g) b1\<rparr>) = Inr k" "length k = keySize"
    using assms(3) 1(2) by blast
  obtain n ct where 5: "wrapKeys (g_ke g) (g_cr g) pw (kdf0\<lparr>Salt := b64enc (g_ke g) b1\<rparr>) \<lparr>MasterKey = b2, IndexKey = b3\<rparr> ?w4
      = (Inr (n, ct), ?w4\<lparr>rand_ix := Suc (rand_ix ?w4)\<rparr>)"
    using wrap_total [OF nf [of "Suc (Suc (Suc (Suc (rand_ix w))))"] k, of "\<lparr>MasterKey = b2, IndexKey = b3\<rparr>" "g_cr g"] 2(2) 3(2) by (auto simp: keySize_def)
  show ?thesis
    using 1 2 3 4 5
    by (simp add: new_config_def io_bind_def io_ret_def randomHex_def Let_def time_Now_def usesManifestStore_def)
qed

lemma subkey_total:
  assumes "mac_law (g_ke g)"
  shows "\<exists>k. deriveSubkey (g_ke g) m info = Some k"
proof -
  have mac: "\<forall>m. 0 < length (hmac256 (g_ke g) k m)" for k using assms by (simp add: mac_law_def)
  show ?thesis
    using hkdf_loop_length [of "hmac256 (g_ke g)" "hmac256 (g_ke g) (replicate 32 (CHR 0x00)) m" keySize keySize "[]" info "[]" 1] mac
    by (auto simp: deriveSubkey_def hkdfSHA256_def simp del: hkdf_loop.simps)
qed

lemma vault_handle_total:
  assumes "mac_law (g_ke g)"
  shows "\<exists>v. vault_handle g root name ks dev = Some v"
proof -
  obtain f where "\<And>m info. deriveSubkey (g_ke g) m info = Some (f m info)" using subkey_total [OF assms] by metis
  then show ?thesis by (simp add: vault_handle_def)
qed

lemma create_total:
  assumes "create_laws (o_store o')" and "clock_laws (o_store o') w" and "mac_law (g_ke (s_guard (o_store o')))" and "aead_law (s_cr (o_store o'))"
    and "no_faults w" and "wf_map (files w)"
    and "create_gate (s_guard (o_store o')) dirs root0 pw opts w = (Inr (root, params, kdf0), w1)" and "fresh_root root w"
    and "codec_law (g_ke (s_guard (o_store o')))"
    and "\<forall>b. length b = 32 \<longrightarrow>
       (\<exists>k. deriveWrapKey (g_ke (s_guard (o_store o'))) pw (kdf0\<lparr>Salt := b64enc (g_ke (s_guard (o_store o'))) b\<rparr>) = Inr k \<and> length k = keySize)"
  shows "\<exists>w' (v :: vault) m. CreateWithOptions o' dirs root0 pw opts w = (Inr (), w') \<and> MetaRoot v = path_Join root ''SeaVaultData''
    \<and> coherent (o_store o') v {rootMarker} [rootMarker \<mapsto> file_manifest rootMarker m] w'"
proof -
  let ?g = "s_guard (o_store o')"
  have a: "Abs (g_user ?g) root0 = Inr root" by (rule create_gate_root [OF assms(7)])
  obtain ss where ss: "root = absp ss" "propers ss" using Abs_absp [OF a] assms(1) unfolding create_laws_def by blast
  let ?meta = "path_Join root ''SeaVaultData''"
  let ?c = "path_Join ?meta ConfigFileName"
  have c: "?c = join_under root [''SeaVaultData'', ConfigFileName]" by (simp add: join_under_def)
  have d1: "files w1 = files w" "same_host w w1" using keepsD [OF read_only_create_gate assms(7)] by (auto simp: same_disk_def)
  have nf1: "no_faults w1" using no_faults_same [OF d1(2) assms(5)] .
  have fr: "fresh_root root w1" using assms(8) d1(1) by (simp add: fresh_root_def)
  note me = create_meta_fresh [OF nf1 fr [unfolded ss(1)] ss(2), folded ss(1)]
  have none: "map_of (files w1) ?c = None" using fresh_config [OF fr [unfolded ss(1)] ss(2), of "''SeaVaultData''"] c ss(1) by (simp add: metadata_names)
  note di = create_dirs_fresh [OF nf1 none]
  obtain cfg ks w4 where nc: "new_config ?g pw params kdf0 w1 = (Inr (cfg, ks), w4)" "usesManifestStore cfg" "Version cfg \<noteq> 1"
    using new_config_total [OF nf1 assms(9,10)] by blast
  have d4: "files w4 = files w1" "same_host w1 w4" using keepsD [OF read_only_config nc(1)] by (auto simp: same_disk_def)
  have nf4: "no_faults w4" using no_faults_same [OF d4(2) nf1] .
  obtain r5 w5 where aw: "atomicWriteFile ?c (marshalIndentConfig ?g cfg) w4 = (r5, w5)" by fastforce
  have r5: "r5 = Inr ()" by (rule atomicWriteFile_ok [OF nf4 aw])
  obtain t where w5: "files w5 = AList.update ?c \<lparr>data = marshalIndentConfig ?g cfg, mtime = t\<rparr> (files w4)" "same_host w4 w5"
    using atomicWriteFile_cases [OF aw] r5 by auto
  obtain v where v: "vault_handle ?g root ''SeaVaultData'' ks '''' = Some v" using vault_handle_total [OF assms(3)] by blast
  note h = created_handle [OF assms(1) v [unfolded ss(1)] ss(2)]
  let ?w = "snd (fresh_handle cfg w5)"
  have sh: "same_host w ?w" using d1(2) d4(2) w5(2) by (auto simp: same_host_def fresh_handle_def)
  have fs: "files ?w = AList.update ?c \<lparr>data = marshalIndentConfig ?g cfg, mtime = t\<rparr> (files w)"
    using w5(1) d4(1) d1(1) by (simp add: fresh_handle_def)
  have ca: "?c = absp (ss @ [''SeaVaultData'', ConfigFileName])" using config_at [OF ss(2) config_segs(1)] c ss(1) by simp
  note walk = created_walk [OF assms(8) [unfolded ss(1)] ss(2) _ _ fs [unfolded ca]]
  have n: "ManifestDirName \<noteq> ConfigFileName" "IndexFileName \<noteq> ConfigFileName" "''objects'' \<noteq> ConfigFileName" by code_simp+
  have wm: "walk_files (mroot v) (files ?w) = []" unfolding h(4) using walk [of ManifestDirName "[]"] n config_segs by simp
  have wc: "walk_files (chunkRoot v) (files ?w) = []"
    using walk [of "''objects''" "[''chunks'']"] n config_segs ss by (simp add: chunkRoot_def h(1) absp_snoc)
  have leg: "map_of (files ?w) (legacy_path v) = None"
    unfolding fs h(5) ca using fresh_file [OF assms(8) [unfolded ss(1)] ss(2), of IndexFileName] n config_segs ss(2) by (simp add: absp_inj)
  have nf: "no_faults ?w" by (rule no_faults_same [OF sh assms(5)])
  have co: "coherent (o_store o') v {rootMarker} Map.empty ?w"
    unfolding coherent_def holds_def wm using h(3) assms(4,6) no_faults_rand [OF nf] leg nc(2,3) fs
    by (simp add: fresh_handle_def)
  obtain r w' where ly: "EnsureContentLayout o' v ?w = (r, w')" by fastforce
  have cl: "clock_laws (o_store o') ?w" using assms(2) sh by (simp add: clock_laws_def same_host_def)
  obtain m where m: "r = Inr ()" "coherent (o_store o') v {rootMarker} [rootMarker \<mapsto> file_manifest rootMarker m] w'"
    using layout_fresh [OF co nf cl wc ly] by blast
  have "CreateWithOptions o' dirs root0 pw opts w = (Inr (), w')"
    using assms(7) me di nc(1) aw r5 v ly m(1) by (simp add: CreateWithOptions_def Let_def io_bind_def fresh_handle_def)
  moreover have "MetaRoot v = ?meta" unfolding h(1) ss(1) by (simp add: absp_snoc [OF ss(2) config_segs(1)])
  ultimately show ?thesis using m(2) by blast
qed

text \<open>
  C11.  Creating succeeds.  On a working disk with a working clock and random source, once the checks on
  the path and the parameters pass, neither metadata directory holds a file, and the key derivation
  yields a key of \<^const>\<open>keySize\<close> bytes for the salts the code can draw (the encodings of 32 bytes),
  creating returns without an error and leaves a coherent store that holds the root marker and nothing else: the
  state from which the operations on files are proved correct.
\<close>

theorem create_succeeds:
  assumes "create_laws (o_store o')" and "clock_laws (o_store o') w" and "mac_law (g_ke (s_guard (o_store o')))" and "aead_law (s_cr (o_store o'))"
    and "no_faults w" and "wf_map (files w)"
    and "create_gate (s_guard (o_store o')) dirs root0 pw opts w = (Inr (root, params, kdf0), w1)" and "fresh_root root w"
    and "codec_law (g_ke (s_guard (o_store o')))"
    and "\<forall>b. length b = 32 \<longrightarrow>
       (\<exists>k. deriveWrapKey (g_ke (s_guard (o_store o'))) pw (kdf0\<lparr>Salt := b64enc (g_ke (s_guard (o_store o'))) b\<rparr>) = Inr k \<and> length k = keySize)"
  shows "\<exists>w' (v :: vault) m. CreateWithOptions o' dirs root0 pw opts w = (Inr (), w') \<and> MetaRoot v = path_Join root ''SeaVaultData''
    \<and> coherent (o_store o') v {rootMarker} [rootMarker \<mapsto> file_manifest rootMarker m] w'"
  by (rule create_total [OF assms])

section \<open>A concrete host\<close>

text \<open>An encoding of configurations that can be read back, in the place of \<^verbatim>\<open>encoding/json\<close>.\<close>

definition enc_kdf :: "KDFConfig \<Rightarrow> bytes" where
  "enc_kdf k = enc_str (Algorithm k) @ enc_int (Iterations k) @ enc_str (Salt k) @ enc_int (ScryptN k) @ enc_int (ScryptR k)
     @ enc_int (ScryptP k) @ enc_int (MemoryKiB k) @ enc_int (Time k) @ enc_int (Parallelism k)"

definition dec_kdf :: "bytes \<Rightarrow> (KDFConfig \<times> bytes) option" where
  "dec_kdf b = (case dec_pair dec_str (dec_pair dec_int (dec_pair dec_str (dec_pair dec_int (dec_pair dec_int (dec_pair dec_int
       (dec_pair dec_int (dec_pair dec_int dec_int))))))) b of
     None \<Rightarrow> None
   | Some ((al, it, sa, n, r', p, me, ti, pa), r) \<Rightarrow>
       Some (\<lparr>Algorithm = al, Iterations = it, Salt = sa, ScryptN = n, ScryptR = r', ScryptP = p, MemoryKiB = me, Time = ti,
              Parallelism = pa\<rparr>, r))"

interpretation kdf_codec: codec enc_kdf dec_kdf
  by unfold_locales (simp add: enc_kdf_def dec_kdf_def dec_pair_def)

definition enc_crypto :: "CryptoConfig \<Rightarrow> bytes" where
  "enc_crypto c = enc_str (KeyWrap c) @ enc_str (ce_ChunkAEAD c) @ enc_str (ce_IndexAEAD c) @ enc_str (ObjectID c) @ enc_str (ce_Chunker c)
     @ enc_str (StorageMode c) @ enc_str (ManifestMode c) @ enc_int (ManifestShards c) @ enc_int (DirIDEpoch c)"

definition dec_crypto :: "bytes \<Rightarrow> (CryptoConfig \<times> bytes) option" where
  "dec_crypto b = (case dec_pair dec_str (dec_pair dec_str (dec_pair dec_str (dec_pair dec_str (dec_pair dec_str (dec_pair dec_str
       (dec_pair dec_str (dec_pair dec_int dec_int))))))) b of
     None \<Rightarrow> None
   | Some ((kw, ca, ia, ob, ch, st, mm, ms, de), r) \<Rightarrow>
       Some (\<lparr>KeyWrap = kw, ce_ChunkAEAD = ca, ce_IndexAEAD = ia, ObjectID = ob, ce_Chunker = ch, StorageMode = st, ManifestMode = mm,
              ManifestShards = ms, DirIDEpoch = de\<rparr>, r))"

interpretation crypto_codec: codec enc_crypto dec_crypto
  by unfold_locales (simp add: enc_crypto_def dec_crypto_def dec_pair_def)

definition enc_entry :: "WrapEntry \<Rightarrow> bytes" where
  "enc_entry e = enc_str (we_ID e) @ enc_str (we_Type e) @ enc_kdf (we_KDF e) @ enc_str (we_Nonce e) @ enc_str (we_CT e) @ enc_str (we_AAD e)"

definition dec_entry :: "bytes \<Rightarrow> (WrapEntry \<times> bytes) option" where
  "dec_entry b = (case dec_pair dec_str (dec_pair dec_str (dec_pair dec_kdf (dec_pair dec_str (dec_pair dec_str dec_str)))) b of
     None \<Rightarrow> None
   | Some ((i, t, k, n, ct, a), r) \<Rightarrow>
       Some (\<lparr>we_ID = i, we_Type = t, we_KDF = k, we_Nonce = n, we_CT = ct, we_AAD = a\<rparr>, r))"

interpretation entry_codec: codec enc_entry dec_entry
  by unfold_locales (simp add: enc_entry_def dec_entry_def dec_pair_def)

interpretation entries_codec: codec "enc_list enc_entry" "dec_list dec_entry"
  by (rule list_codec, rule entry_codec.codec_axioms)

definition enc_config :: "VaultConfig \<Rightarrow> bytes" where
  "enc_config c = enc_int (Version c) @ enc_int (MinReader c) @ enc_int (FormatEpoch c) @ enc_str (VaultID c) @ enc_str (CreatedAt c)
     @ enc_kdf (KDF c) @ enc_crypto (Crypto c) @ enc_int (MinSize (Chunk c)) @ enc_int (AvgSize (Chunk c)) @ enc_int (MaxSize (Chunk c))
     @ enc_str (WrappedKeys c) @ enc_str (WrapNonce c) @ enc_list enc_entry (WrapEntries c) @ enc_str (ConfigTag c)"

definition dec_config :: "bytes \<Rightarrow> VaultConfig option" where
  "dec_config b = (case dec_pair dec_int (dec_pair dec_int (dec_pair dec_int (dec_pair dec_str (dec_pair dec_str (dec_pair dec_kdf
       (dec_pair dec_crypto (dec_pair dec_int (dec_pair dec_int (dec_pair dec_int (dec_pair dec_str (dec_pair dec_str
       (dec_pair (dec_list dec_entry) dec_str)))))))))))) b of
     None \<Rightarrow> None
   | Some ((ve, mr, fe, vi, ca, kd, cr, mi, av, ma, wk, wn, we, ct), r) \<Rightarrow>
       Some \<lparr>Version = ve, MinReader = mr, FormatEpoch = fe, VaultID = vi, CreatedAt = ca, KDF = kd, Crypto = cr,
             Chunk = \<lparr>MinSize = mi, AvgSize = av, MaxSize = ma\<rparr>, WrappedKeys = wk, WrapNonce = wn, WrapEntries = we, ConfigTag = ct\<rparr>)"

lemma config_roundtrip: "dec_config (enc_config c) = Some c"
proof -
  have s: "dec_str (enc_str x) = Some (x, [])" for x using str_codec.dec_enc [of x "[]"] by simp
  show ?thesis by (simp add: enc_config_def dec_config_def dec_pair_def s)
qed

text \<open>A text encoding that, as base64 does, refuses most strings.\<close>

definition strict_b64enc :: "bytes \<Rightarrow> string" where
  "strict_b64enc b = (if b = [] then [] else CHR ''='' # b)"

definition strict_b64dec :: "string \<Rightarrow> bytes option" where
  "strict_b64dec s = (case s of [] \<Rightarrow> Some [] | c # b \<Rightarrow> if c = CHR ''='' \<and> b \<noteq> [] then Some b else None)"

definition new_kdf_env :: kdf_env where
  "new_kdf_env = demo_kdf\<lparr>b64enc := strict_b64enc, b64dec := strict_b64dec\<rparr>"

lemma new_codec: "codec_law new_kdf_env" "b64dec new_kdf_env ''!'' = None" "mac_law new_kdf_env" "hexenc new_kdf_env b = b"
  by (simp_all add: codec_law_def mac_law_def new_kdf_env_def strict_b64enc_def strict_b64dec_def demo_kdf_def)

definition new_senv :: store_env where
  "new_senv = demo_senv\<lparr>s_guard := (s_guard demo_senv)\<lparr>g_ke := new_kdf_env, marshalIndentConfig := enc_config, unmarshalConfig := dec_config, fmtNano := enc_int\<rparr>,
     s_host := demo_env\<lparr>parseTime := (\<lambda>b. map_option fst (dec_int b))\<rparr>\<rparr>"

definition new_ops :: ops_env where
  "new_ops = demo_ops\<lparr>o_gc := (o_gc demo_ops)\<lparr>gc_store := new_senv\<rparr>\<rparr>"

definition new_opts :: CreateOptions where
  "new_opts = \<lparr>create_Chunk = tiny_params, create_KDF = empty_kdf\<lparr>Algorithm := ''argon2id'', Time := 1, MemoryKiB := 8, Parallelism := 1\<rparr>\<rparr>"

definition new_kdf :: KDFConfig where
  "new_kdf = empty_kdf\<lparr>Algorithm := ''ARGON2ID'', Time := 1, MemoryKiB := 8, Parallelism := 1\<rparr>"

definition new_world :: vault_state where
  "new_world = (demo_vstate None)\<lparr>clock_src := \<lambda>_. 5\<rparr>"

lemma new_ops_store [simp]: "o_store new_ops = new_senv"
  by (simp add: new_ops_def)

lemma new_laws:
  "create_laws new_senv" "codec_law (g_ke (s_guard new_senv))" "aead_law (g_cr (s_guard new_senv))"
  "mac_law (g_ke (s_guard new_senv))" "no_faults new_world" "rand_ok new_world" "fresh_root root new_world" "wf_map (files new_world)"
  using hex_crypt_id new_codec hex_crypt_aead demo_vstate_ok demo_mac
  by (auto simp: create_laws_def new_senv_def demo_senv_def demo_guard_def demo_user_def path_IsAbs_def HasPrefix_def
      fresh_root_def demo_vstate_def new_world_def no_faults_def rand_ok_def)

lemma new_clock: "clock_laws new_senv new_world"
  using dec_enc_int [of _ "[]"]
  by (simp add: clock_laws_def new_senv_def new_world_def demo_senv_def faithful_def manifest_roundtrip) (simp add: enc_int_def)

lemma new_gate: "\<exists>w1. create_gate (s_guard new_senv) [''/data''] ''/data/v'' ''pw'' new_opts new_world = (Inr (''/data/v'', tiny_params, new_kdf), w1)"
proof -
  obtain r w1 where r: "create_gate (s_guard new_senv) [''/data''] ''/data/v'' ''pw'' new_opts new_world = (r, w1)" by fastforce
  have "case fst (create_gate (s_guard new_senv) [''/data''] ''/data/v'' ''pw'' new_opts new_world) of
      Inl _ \<Rightarrow> False | Inr x \<Rightarrow> x = (''/data/v'', tiny_params, new_kdf)" by code_simp
  then show ?thesis unfolding r by (cases r) auto
qed

lemma new_key:
  assumes "length b = 32"
  shows "\<exists>k. deriveWrapKey (g_ke (s_guard new_senv)) ''pw'' (new_kdf\<lparr>Salt := b64enc (g_ke (s_guard new_senv)) b\<rparr>) = Inr k \<and> length k = keySize"
proof -
  have "kdf_alg_of ''ARGON2ID'' = Argon2id" "normalizeKDF ''ARGON2ID'' \<noteq> ''''" by code_simp+
  moreover have "b \<noteq> []" using assms by auto
  ultimately show ?thesis
    by (simp add: deriveWrapKey_def NormalizeKDFConfig_def checkKDFRange_def new_kdf_def new_senv_def new_kdf_env_def demo_senv_def demo_guard_def demo_kdf_def
        empty_kdf_def keySize_def Let_def strict_b64enc_def strict_b64dec_def)
qed

lemma new_created: "\<exists>w'. CreateWithOptions new_ops [''/data''] ''/data/v'' ''pw'' new_opts new_world = (Inr (), w')"
proof -
  obtain w1 where g: "create_gate (s_guard (o_store new_ops)) [''/data''] ''/data/v'' ''pw'' new_opts new_world
      = (Inr (''/data/v'', tiny_params, new_kdf), w1)" using new_gate by auto
  from create_total [of new_ops new_world, OF _ _ _ _ new_laws(5,8) g] new_laws new_clock new_key show ?thesis by auto
qed

text \<open>The configuration the host draws is well below the limit.\<close>

lemma new_config_small:
  "case fst (new_config (s_guard new_senv) ''pw'' tiny_params new_kdf
      (snd (create_gate (s_guard new_senv) [''/data''] ''/data/v'' ''pw'' new_opts new_world))) of
     Inl _ \<Rightarrow> False | Inr (c, _) \<Rightarrow> length (enc_config c) < 2000"
  by code_simp

theorem create_succeeds_witness:
  "\<exists>w' (v :: vault) m. CreateWithOptions new_ops [''/data''] ''/data/v'' ''pw'' new_opts new_world = (Inr (), w')
     \<and> MetaRoot v = ''/data/v/SeaVaultData'' \<and> coherent new_senv v {rootMarker} [rootMarker \<mapsto> file_manifest rootMarker m] w'"
proof -
  obtain w1 where g: "create_gate (s_guard (o_store new_ops)) [''/data''] ''/data/v'' ''pw'' new_opts new_world
      = (Inr (''/data/v'', tiny_params, new_kdf), w1)" using new_gate by auto
  have p: "path_Join ''/data/v'' ''SeaVaultData'' = ''/data/v/SeaVaultData''" by code_simp
  from create_succeeds [of new_ops new_world, OF _ _ _ _ new_laws(5,8) g] new_laws new_clock new_key p show ?thesis by simp
qed

theorem created_vault_unlocks_witness:
  "\<exists>w' cfg ks. CreateWithOptions new_ops [''/data''] ''/data/v'' ''pw'' new_opts new_world = (Inr (), w')
     \<and> fst (prepareOpen (s_guard new_senv) ''/data/v'' ''pw'' w') = Inr (''/data/v'', cfg, ''SeaVaultData'', True)
     \<and> unlockWith (g_ke (s_guard new_senv)) (g_cr (s_guard new_senv)) cfg ''pw'' WrapTypePassword = Inr ks"
proof -
  obtain w' where run: "CreateWithOptions new_ops [''/data''] ''/data/v'' ''pw'' new_opts new_world = (Inr (), w')" using new_created by blast
  have ab: "Abs (g_user (s_guard new_senv)) ''/data/v'' = Inr ''/data/v''" by code_simp
  obtain root cfg ks f where t: "Abs (g_user (s_guard new_senv)) ''/data/v'' = Inr root"
    "map_of (files w') (join_under root [''SeaVaultData'', ConfigFileName]) = Some f" "data f = marshalIndentConfig (s_guard new_senv) cfg"
    "unlockWith (g_ke (s_guard new_senv)) (g_cr (s_guard new_senv)) cfg ''pw'' WrapTypePassword = Inr ks"
    "Abs (g_user (s_guard new_senv)) root = Inr root \<and> unmarshalConfig (s_guard new_senv) (data f) = Some cfg \<and> length (data f) \<le> maxConfigBytes
       \<longrightarrow> fst (prepareOpen (s_guard new_senv) ''/data/v'' ''pw'' w') = Inr (root, cfg, ''SeaVaultData'', True)"
    using created_vault_unlocks [OF new_laws(1-3) [folded new_ops_store] new_laws(6,5) run, unfolded new_ops_store] by blast
  have r: "root = ''/data/v''" using ab t(1) by simp
  have u: "unmarshalConfig (s_guard new_senv) (data f) = Some cfg" using t(3) config_roundtrip by (simp add: new_senv_def)
  obtain params kdf0 w1 cfg' ks' w4 tm where c: "create_gate (s_guard new_senv) [''/data''] ''/data/v'' ''pw'' new_opts new_world = (Inr (root, params, kdf0), w1)"
    "new_config (s_guard new_senv) ''pw'' params kdf0 w1 = (Inr (cfg', ks'), w4)" "f = \<lparr>data = marshalIndentConfig (s_guard new_senv) cfg', mtime = tm\<rparr>"
  proof (rule created_run [of new_ops new_world, OF _ new_laws(5) run], goal_cases)
    case (2 root' params kdf0 w1 cfg' ks' w4 tm)
    have "root' = root" using create_gate_root [OF 2(2)] t(1) by simp
    then show ?case using 2 t(2) by auto
  qed (simp add: new_laws)
  have "params = tiny_params \<and> kdf0 = new_kdf" using new_gate c(1) by auto
  then have "length (data f) < 2000" using new_config_small c by (simp add: new_senv_def)
  then show ?thesis using t(4,5) u r ab run by (auto simp: maxConfigBytes_def)
qed

theorem create_never_overwrites_witness:
  "\<exists>r w'. CreateWithOptions new_ops [''/data''] ''/data/v'' ''pw'' new_opts
      (new_world\<lparr>files := [(''/data/v/.seavault/vault.json'', \<lparr>data = ''{}'', mtime = 0\<rparr>)]\<rparr>) = (r, w')
     \<and> isl r \<and> files w' = [(''/data/v/.seavault/vault.json'', \<lparr>data = ''{}'', mtime = 0\<rparr>)]"
proof -
  let ?w = "new_world\<lparr>files := [(''/data/v/.seavault/vault.json'', \<lparr>data = ''{}'', mtime = 0\<rparr>)]\<rparr>"
  obtain r w' where run: "CreateWithOptions new_ops [''/data''] ''/data/v'' ''pw'' new_opts ?w = (r, w')" by fastforce
  have a: "Abs (g_user (s_guard (o_store new_ops))) ''/data/v'' = Inr ''/data/v''" by code_simp
  have j: "join_under ''/data/v'' [''.seavault'', ConfigFileName] = ''/data/v/.seavault/vault.json''" by code_simp
  have n: "''.seavault'' \<in> set MetadataDirNames" by code_simp
  have m: "map_of (files ?w) (join_under ''/data/v'' [''.seavault'', ConfigFileName]) \<noteq> None" unfolding j by simp
  from create_never_overwrites [OF a n m run] run show ?thesis by simp
qed

section \<open>Recovery phrases and the vault\<close>

lemma recovery_entry_opens:
  assumes "codec_law ke" and "aead_law cr" and "rand_ok w" and "makeRecoveryEntry ke cr secret base ks w = (Inr e, w')"
  shows "we_Type e = WrapTypeRecovery" "unwrapEntry ke cr secret version e = Inr ks"
proof -
  obtain kdf w1 eid w2 n ct w3 where d: "freshWrapKDF ke base w = (Inr kdf, w1)" "randomHex ke 8 w1 = (Inr eid, w2)"
    "wrapKeys ke cr secret kdf ks w2 = (Inr (n, ct), w3)"
    "e = \<lparr>we_ID = eid, we_Type = WrapTypeRecovery, we_KDF = kdf, we_Nonce = n, we_CT = ct, we_AAD = ''''\<rparr>"
    using assms(4) by (auto simp: makeRecoveryEntry_def io_bind_def io_ret_def split: prod.splits sum.splits)
  have "rand_ok w2" using d(1,2) assms(3) freshWrapKDF_rand randomHex_rand rand_ok_same by metis
  from unwrap_wrap [OF assms(1,2) this d(3)] show "we_Type e = WrapTypeRecovery" "unwrapEntry ke cr secret version e = Inr ks"
    by (simp_all add: d(4) unwrapEntry_def wrapEntryAAD_def)
qed

lemma minted_canonical:
  assumes "length raw = 32"
  shows "canonicalRecoverySecret sha (groupRecovery (b32_encode raw)) = Inr (b32_encode raw)" "groupRecovery (b32_encode raw) \<noteq> ''''"
proof -
  note c = canonical_group [OF assms]
  show "canonicalRecoverySecret sha (groupRecovery (b32_encode raw)) = Inr (b32_encode raw)"
    using c by (simp add: canonicalRecoverySecret_def wordShaped_def)
  show "groupRecovery (b32_encode raw) \<noteq> ''''"
    using c(1) b32_encode_chars(1) [OF assms] by (auto simp: canonicalRecovery_def)
qed

lemma prepareOpen_secret: "s \<noteq> '''' \<Longrightarrow> t \<noteq> '''' \<Longrightarrow> prepareOpen g root s = prepareOpen g root t"
  by (simp add: prepareOpen_def)

text \<open>
  C23.  Both forms of a phrase open a vault alike.  Typing the 24 words of a minted phrase, in any layout and
  case, or the phrase itself has the same result and the same effect: the same error, or the same
  vault and the same entry to redeem.
\<close>

theorem recovery_forms_open:
  assumes "length raw = 32" and "map ToLower (strings_Fields input) = EncodeRecoveryWords sha raw"
  shows "OpenWithRecovery o' sha root input opts w = OpenWithRecovery o' sha root (groupRecovery (b32_encode raw)) opts w"
proof -
  have "length (strings_Fields input) = 24" using arg_cong [OF assms(2), of length] by simp
  then have ne: "input \<noteq> ''''" by (auto simp: strings_Fields_def)
  note p = prepareOpen_secret [OF ne minted_canonical(2) [OF assms(1)]]
  show ?thesis
    using words_canonical [OF assms] minted_canonical(1) [OF assms(1), of sha] by (simp add: OpenWithRecovery_def Let_def p)
qed

theorem recovery_forms_open_witness:
  "OpenWithRecovery new_ops (\<lambda>_. ''h'') ''/data/v'' (Join CHR '' '' (EncodeRecoveryWords (\<lambda>_. ''h'') (replicate 32 (CHR ''s'')))) strict new_world
     = OpenWithRecovery new_ops (\<lambda>_. ''h'') ''/data/v'' (groupRecovery (b32_encode (replicate 32 (CHR ''s'')))) strict new_world"
proof (rule recovery_forms_open)
  let ?ws = "EncodeRecoveryWords (\<lambda>_. ''h'') (replicate 32 (CHR ''s''))"
  have p: "\<forall>w\<in>set ?ws. w \<noteq> [] \<and> list_all plain w \<and> ToLower w = w" using encoded_words wordlist_plain by blast
  then have "strings_Fields (Join CHR '' '' ?ws) = ?ws" using fields_join by blast
  then show "map ToLower (strings_Fields (Join CHR '' '' ?ws)) = ?ws" using p by (simp add: map_idI)
qed simp

text \<open>
  C22.  A minted phrase opens the vault it was minted for.  After \<^verbatim>\<open>PrepareRecovery\<close> and its commit have both
  succeeded, the stored configuration has an entry that the phrase opens, and what it yields are
  the keys of the vault.  This holds for every input that reads as the phrase, unless an older
  entry opens under the same secret.
\<close>

theorem minted_phrase_unlocks:
  assumes "codec_law (g_ke g)" and "aead_law (g_cr g)" and "rand_ok w" and "anchored_host g v p w"
    and "PrepareRecovery g v w = (Inr (phrase, commit), w1)" and "commit w1 = (Inr (), w2)"
    and "canonicalRecoverySecret sha input = canonicalRecoverySecret sha phrase"
    and "\<forall>canon. canonicalRecoverySecret sha phrase = Inr canon \<longrightarrow> isl (recoveryEntryFor (g_ke g) (g_cr g) (vConfig w) canon)"
  shows "\<exists>canon eid. canonicalRecoverySecret sha input = Inr canon \<and> RecoveryPhraseMatches sha phrase input
    \<and> recoveryEntryFor (g_ke g) (g_cr g) (vConfig w2) canon = Inr (keys v, eid)
    \<and> map_option data (map_of (files w2) (config_path v)) = Some (marshalIndentConfig g (vConfig w2))"
proof -
  obtain raw where raw: "randomBytes 32 w = (Inr raw, w1)" "phrase = groupRecovery (b32_encode raw)" "commit = recovery_commit g v (b32_encode raw)"
    using assms(5) by (auto simp: PrepareRecovery_def mintRecoverySecret_def recoveryPhraseBits_def io_bind_def io_ret_def Let_def
        split: prod.splits sum.splits)
  have len: "length raw = 32" and w1: "vConfig w1 = vConfig w" "rand_src w1 = rand_src w" "fault w1 = fault w"
    using raw(1) assms(3) by (auto simp: randomBytes_def rand_ok_def split: option.splits)
  let ?c = "b32_encode raw"
  have can: "canonicalRecoverySecret sha phrase = Inr ?c" unfolding raw(2) by (rule minted_canonical(1) [OF len])
  have ah: "anchored_host g v p w1" by (rule anchored_host_same [OF assms(4) w1(3)])
  let ?m = "\<lambda>c. io_bind (makeRecoveryEntry (g_ke g) (g_cr g) ?c (KDF c) (keys v)) (\<lambda>entry. io_ret (c\<lparr>WrapEntries := WrapEntries c @ [entry]\<rparr>))"
  have q: "quiet (?m (vConfig w1))" unfolding makeRecoveryEntry_def by (intro quiet_bind) (auto split: prod.split intro!: quiet_bind)
  have run: "rewriteConfig g v ?m w1 = (Inr (), w2)" using assms(6) raw(3) by (simp add: recovery_commit_def)
  show ?thesis
  proof (cases rule: rewriteConfig_effect [OF ah q run])
    case (2 c tag w3 k)
    obtain entry w4 where e: "makeRecoveryEntry (g_ke g) (g_cr g) ?c (KDF (vConfig w)) (keys v) w1 = (Inr entry, w4)"
      "c = (vConfig w)\<lparr>WrapEntries := WrapEntries (vConfig w) @ [entry]\<rparr>"
      using 2(2) w1(1) by (auto simp: io_bind_def io_ret_def split: prod.splits sum.splits)
    note o = recovery_entry_opens [OF assms(1,2) rand_ok_same [OF w1(2) assms(3)] e(1)]
    have "try_entries (g_ke g) (g_cr g) ?c (Version (vConfig w)) WrapTypeRecovery (WrapEntries (vConfig w)) = None"
      using assms(8) can by (auto simp: recoveryEntryFor_def split: option.splits)
    then have "recoveryEntryFor (g_ke g) (g_cr g) (vConfig w2) ?c = Inr (keys v, we_ID entry)"
      using o by (simp add: recoveryEntryFor_def 2(6) e(2) try_entries_append)
    moreover have "RecoveryPhraseMatches sha phrase input"
      using assms(7) can canonical_group(1) [OF len] b32_encode_chars(1) [OF len] raw(2)
      by (auto simp: RecoveryPhraseMatches_def RecoveryPhraseCheck_def)
    ultimately show ?thesis using can assms(7) 2(7) by auto
  qed simp
qed

lemma recordAnchor_Inr: "\<exists>n w'. recordAnchor g v e hs t w = (Inr n, w')"
  by (auto simp: recordAnchor_def io_try_def io_ret_def Let_def split: sum.split prod.split)

lemma publish_total:
  assumes "no_faults w" and "mac_law (g_ke g)"
  shows "\<exists>w'. publish_config g v c w = (Inr (), w')"
proof -
  obtain sk where "deriveSubkey (g_ke g) (MasterKey (keys v)) configMACInfo = Some sk" using subkey_total [OF assms(2)] by blast
  then obtain tag where tag: "computeConfigTag g (MasterKey (keys v)) c = Inr tag" by (simp add: computeConfigTag_def configMACKey_def)
  obtain r w1 where wr: "writeConfigFile g v (c\<lparr>ConfigTag := tag\<rparr>) w = (r, w1)" by fastforce
  then have r: "r = Inr ()" using atomicWriteFile_ok [OF assms(1)] unfolding writeConfigFile_def by blast
  let ?n = "c\<lparr>ConfigTag := tag\<rparr>"
  obtain n w2 where "recordAnchor g v (FormatEpoch ?n) True (ConfigTag ?n) (w1\<lparr>vConfig := ?n\<rparr>) = (Inr n, w2)"
    using recordAnchor_Inr by blast
  then show ?thesis using tag wr r
    by (simp add: publish_config_def io_bind_def io_lift_def set_config_def set_note_shape Let_def)
qed

lemma commit_total:
  assumes "no_faults w" and "mac_law (g_ke g)" and "codec_law (g_ke g)" and "raiseToFloor (g_ke g) (KDF (vConfig w)) = Inr kdf"
    and "length (MasterKey (keys v)) = keySize" and "length (IndexKey (keys v)) = keySize"
    and "\<And>b. length b = 32 \<Longrightarrow> \<exists>k. deriveWrapKey (g_ke g) secret (kdf\<lparr>Salt := b64enc (g_ke g) b\<rparr>) = Inr k \<and> length k = keySize"
  shows "\<exists>w'. recovery_commit g v secret w = (Inr (), w')"
proof -
  have nf: "no_faults (w\<lparr>rand_ix := k\<rparr>)" for k using assms(1) by (simp add: no_faults_def)
  obtain b1 where 1: "randomBytes 32 w = (Inr b1, w\<lparr>rand_ix := Suc (rand_ix w)\<rparr>)" "length b1 = 32" using random_total [OF assms(1)] by blast
  let ?w1 = "w\<lparr>rand_ix := Suc (rand_ix w)\<rparr>"
  obtain b2 where 2: "randomBytes 8 ?w1 = (Inr b2, w\<lparr>rand_ix := Suc (Suc (rand_ix w))\<rparr>)" using random_total [OF nf, of 8] by fastforce
  let ?w2 = "w\<lparr>rand_ix := Suc (Suc (rand_ix w))\<rparr>"
  obtain k where k: "deriveWrapKey (g_ke g) secret (kdf\<lparr>Salt := b64enc (g_ke g) b1\<rparr>) = Inr k" "length k = keySize"
    using assms(7) 1(2) by blast
  obtain n ct w3 where 3: "wrapKeys (g_ke g) (g_cr g) secret (kdf\<lparr>Salt := b64enc (g_ke g) b1\<rparr>) (keys v) ?w2 = (Inr (n, ct), w3)" "w3 = ?w2\<lparr>rand_ix := Suc (rand_ix ?w2)\<rparr>"
    using wrap_total [OF nf [of "Suc (Suc (rand_ix w))"] k assms(5,6), of "g_cr g"] by auto
  have "no_faults w3" using nf unfolding 3(2) by (simp add: no_faults_def)
  note pt = publish_total [OF this assms(2)]
  show ?thesis
    using 1 2 3(1) assms(4) pt
    by (simp add: recovery_commit_def rewriteConfig_def get_config_def makeRecoveryEntry_def freshWrapKDF_def randomHex_def io_bind_def io_ret_def io_lift_def)
qed

lemma demo_mint:
  "\<exists>phrase commit w1 w2. PrepareRecovery demo_guard demo_vault (demo_handle demo_config) = (Inr (phrase, commit), w1) \<and> commit w1 = (Inr (), w2)"
proof -
  let ?w = "demo_handle demo_config"
  obtain raw where raw: "randomBytes 32 ?w = (Inr raw, ?w\<lparr>rand_ix := Suc (rand_ix ?w)\<rparr>)" using random_total [OF demo_handle_ok(1)] by blast
  have fl: "raiseToFloor (g_ke demo_guard) (KDF demo_config) = Inr (KDF demo_config)" using demo_floor by (simp add: demo_guard_def)
  have dk: "\<exists>k. deriveWrapKey (g_ke demo_guard) secret ((KDF demo_config)\<lparr>Salt := b64enc (g_ke demo_guard) b\<rparr>) = Inr k \<and> length k = keySize"
    if "length b = 32" for secret b
  proof -
    have "b64enc demo_kdf b \<noteq> ''''" using that by (auto simp: demo_kdf_def)
    then show ?thesis using demo_wrap_key by (simp add: demo_guard_def)
  qed
  have "length (MasterKey (keys demo_vault)) = keySize" "length (IndexKey (keys demo_vault)) = keySize" by code_simp+
  from commit_total [OF _ demo_mac(1,2) _ this dk, of "?w\<lparr>rand_ix := Suc (rand_ix ?w)\<rparr>"] fl demo_handle_ok(1) [of demo_config]
  have "\<exists>w2. recovery_commit demo_guard demo_vault (b32_encode raw) (?w\<lparr>rand_ix := Suc (rand_ix ?w)\<rparr>) = (Inr (), w2)"
    by (simp add: demo_handle_def no_faults_def)
  then show ?thesis using raw
    by (auto simp: PrepareRecovery_def mintRecoverySecret_def recoveryPhraseBits_def io_bind_def io_ret_def Let_def)
qed

theorem minted_phrase_unlocks_witness:
  "\<exists>phrase commit w1 w2 canon eid. PrepareRecovery demo_guard demo_vault (demo_handle demo_config) = (Inr (phrase, commit), w1)
     \<and> commit w1 = (Inr (), w2) \<and> canonicalRecoverySecret (\<lambda>_. ''h'') phrase = Inr canon
     \<and> recoveryEntryFor (g_ke demo_guard) (g_cr demo_guard) (vConfig w2) canon = Inr (keys demo_vault, eid)"
proof -
  obtain phrase commit w1 w2 where p: "PrepareRecovery demo_guard demo_vault (demo_handle demo_config) = (Inr (phrase, commit), w1)"
    "commit w1 = (Inr (), w2)" using demo_mint by blast
  have "\<forall>canon. canonicalRecoverySecret (\<lambda>_. ''h'') phrase = Inr canon \<longrightarrow>
      isl (recoveryEntryFor (g_ke demo_guard) (g_cr demo_guard) (vConfig (demo_handle demo_config)) canon)"
    by (simp add: recoveryEntryFor_def demo_handle_def demo_config_def)
  from minted_phrase_unlocks [OF demo_mac(2,3) demo_handle_ok(2) demo_anchored p refl this] p show ?thesis by blast
qed

section \<open>Expanding twice\<close>

text \<open>
  Opening expands the root and hands the result to \<^verbatim>\<open>ReadConfig\<close>, which expands it again.  When the expanded
  root still holds a character that expands, the configuration is looked for in another place: the
  vault that was created there cannot be opened under the same name.
\<close>

theorem reopened_elsewhere:
  assumes "Abs (g_user g) root0 = Inr root" and "Abs (g_user g) root = Inr other" and "no_faults w"
    and "\<forall>n\<in>set MetadataDirNames. map_of (files w) (join_under other [n, ConfigFileName]) = None"
  shows "isl (fst (prepareOpen g root0 pw w))"
proof -
  have "ResolveMetaDir other w = (Inr (''SeaVaultData'', False), w)"
    using assms(3,4) by (simp add: ResolveMetaDir_def metadata_names os_Stat_def lookup_file_def check_fault_def io_simps is_not_exist_def no_faults_def)
  then show ?thesis using assms
    by (simp add: prepareOpen_def ReadConfig_def readCapped_def os_ReadFile_def lookup_file_def check_fault_def io_simps no_faults_def metadata_names)
qed

theorem reopened_elsewhere_witness:
  "\<exists>g w. Abs (g_user g) ''v'' = Inr ''/srv/a$b/v'' \<and> map_of (files w) ''/srv/a$b/v/SeaVaultData/vault.json'' \<noteq> None
     \<and> isl (fst (prepareOpen g ''v'' ''pw'' (w :: vault_state)))"
proof -
  let ?g = "(s_guard new_senv)\<lparr>g_user := demo_user\<lparr>Getwd := Inr ''/srv/a$b''\<rparr>\<rparr>"
  let ?w = "new_world\<lparr>files := [(''/srv/a$b/v/SeaVaultData/vault.json'', \<lparr>data = ''{}'', mtime = 0\<rparr>)]\<rparr>"
  have a: "Abs (g_user ?g) ''v'' = Inr ''/srv/a$b/v''" "Abs (g_user ?g) ''/srv/a$b/v'' = Inr ''/srv/a/v''" by code_simp+
  have nf: "no_faults ?w" using new_laws(5) by (simp add: no_faults_def)
  have n: "\<forall>n\<in>set MetadataDirNames. map_of (files ?w) (join_under ''/srv/a/v'' [n, ConfigFileName]) = None" by code_simp
  from reopened_elsewhere [OF a nf n, of "''pw''"] a(1) show ?thesis by (intro exI [of _ ?g] exI [of _ ?w]) simp
qed

end
