(* ===== verification/VaultImport.thy ===== *)
theory VaultImport
  imports VaultCreate VaultStore
begin

text \<open>
  Putting files and directories of the host (\<^verbatim>\<open>PutPath\<close> and \<^verbatim>\<open>PutPathReport\<close> of \<^verbatim>\<open>internal/vault/vault.go\<close>,
  \<^verbatim>\<open>put_directory_contents.go\<close>): the walk over the source with the directories it leaves out, the virtual
  path of each file, and the commit at the end.
\<close>

section \<open>Walking the host\<close>

text \<open>
  The host beside its files: the directories that hold no file, and the permission bits of a file.  A
  path is looked up as the absolute path it stands for.
\<close>

record import_env =
  i_ops :: ops_env
  i_dirs :: "string list"
  i_mode :: "string \<Rightarrow> int"

abbreviation i_store :: "import_env \<Rightarrow> store_env" where "i_store x \<equiv> o_store (i_ops x)"

abbreviation i_user :: "import_env \<Rightarrow> user_env" where "i_user x \<equiv> o_user (i_ops x)"

definition host_of :: "user_env \<Rightarrow> string \<Rightarrow> string" where
  "host_of e p = (case filepath_Absolute e p of Inl _ \<Rightarrow> p | Inr a \<Rightarrow> a)"

definition under :: "string \<Rightarrow> string list \<Rightarrow> string" where
  "under root r = (if r = [] then root else (if root = ''/'' then root else root @ ''/'') @ Join CHR ''/'' r)"

text \<open>
  \<^verbatim>\<open>filepath.WalkDir\<close>, which here lists the tree once when it starts: the directories and files from a root on, as lists of segments relative to it, each
  directory before what it holds and siblings in order.  A path with something below it is a directory.
\<close>

definition rels_below :: "string \<Rightarrow> string list \<Rightarrow> string list list" where
  "rels_below root ps =
     (let pre = (if root = ''/'' then root else root @ ''/'')
      in map (\<lambda>p. Split CHR ''/'' (drop (length pre) p)) (filter (\<lambda>p. HasPrefix p pre) ps))"

definition walk_dirs :: "string list \<Rightarrow> string \<Rightarrow> string list \<Rightarrow> string list list" where
  "walk_dirs dirs root ps =
     remdups ([] # concat (map (\<lambda>r. map (\<lambda>k. take k r) [0..<length r]) (rels_below root ps))
       @ concat (map (\<lambda>r. map (\<lambda>k. take k r) [0..<Suc (length r)]) (rels_below root dirs)))"

definition walk_entries :: "string list \<Rightarrow> string \<Rightarrow> fsfile gomap \<Rightarrow> (string list \<times> bool) list" where
  "walk_entries dirs root fs =
     (let ds = walk_dirs dirs root (map fst fs)
      in sort_key fst (map (\<lambda>d. (d, True)) ds @ map (\<lambda>r. (r, False)) (filter (\<lambda>r. r \<notin> set ds) (rels_below root (map fst fs)))))"

text \<open>The loop: a callback that answers \<open>True\<close> on a directory has the walk leave out what it holds (\<^verbatim>\<open>SkipDir\<close>).\<close>

function walk_fold :: "('s \<Rightarrow> string list \<times> bool \<Rightarrow> ('s \<times> bool, 'z) io) \<Rightarrow> 's \<Rightarrow> (string list \<times> bool) list \<Rightarrow> ('s, 'z) io" where
  "walk_fold f s [] = io_ret s"
| "walk_fold f s (e # es) =
     io_bind (f s e) (\<lambda>(s', skip). walk_fold f s' (if skip then filter (\<lambda>(r, _). take (length (fst e)) r \<noteq> fst e) es else es))"
  by pat_completeness auto
termination
  by (relation "measure (\<lambda>(f, s, es). length es)") (auto simp: less_Suc_eq_le)

definition WalkDir :: "import_env \<Rightarrow> string \<Rightarrow> ('s \<Rightarrow> string list \<times> bool \<Rightarrow> ('s \<times> bool, 'z) io) \<Rightarrow> 's \<Rightarrow> ('s, 'z) io" where
  "WalkDir x root f s =
     io_bind (check_fault OpStat root) (\<lambda>_ w. walk_fold f s (walk_entries (i_dirs x) root (files w)) w)"

section \<open>Putting\<close>

record PutReport =
  Results :: "PutResult list"
  Warnings :: "string list"

definition putFile :: "import_env \<Rightarrow> 'v vault_scheme \<Rightarrow> string \<Rightarrow> string \<Rightarrow> Index \<Rightarrow> (PutResult \<times> Index, 'z) mio" where
  "putFile x v hostPath virtualPath idx =
     (if \<not> files_has idx virtualPath \<and> ValidatePortableName (path_Base virtualPath) \<noteq> None
      then io_fail (EMsg ''name is not portable'')
      else io_bind (os_Stat hostPath) (\<lambda>f.
        io_bind (check_fault OpRead hostPath) (\<lambda>_.
        putReader (i_store x) v ([data f], None) virtualPath (int (length (data f))) (i_mode x hostPath) (mtime f) idx)))"

text \<open>The directories the walk leaves out: \<^verbatim>\<open>.git\<close> and the metadata directory of this vault.\<close>

definition own_meta :: "user_env \<Rightarrow> 'v vault_scheme \<Rightarrow> string \<Rightarrow> string \<Rightarrow> bool" where
  "own_meta e v src dir =
     (case filepath_Absolute e src of
        Inl _ \<Rightarrow> False
      | Inr _ \<Rightarrow> dir = (case filepath_Absolute e (MetaRoot v) of Inl _ \<Rightarrow> '''' | Inr m \<Rightarrow> m))"

definition entry_name :: "string \<Rightarrow> string list \<Rightarrow> string" where
  "entry_name src r = (if r = [] then path_Base src else last r)"

definition skipped_dir :: "user_env \<Rightarrow> 'v vault_scheme \<Rightarrow> string \<Rightarrow> string list \<Rightarrow> bool" where
  "skipped_dir e v src r \<longleftrightarrow> entry_name src r = ''.git'' \<or> own_meta e v src (under (host_of e src) r)"

type_synonym import_state = "Index \<times> PutResult list \<times> string list \<times> string list"

text \<open>The callback; \<open>warn\<close> tells \<^verbatim>\<open>PutPathReport\<close> from \<^verbatim>\<open>PutDirectoryContents\<close>, which checks for an empty path instead.\<close>

definition import_dir :: "import_env \<Rightarrow> 'v vault_scheme \<Rightarrow> string \<Rightarrow> bool \<Rightarrow> import_state \<Rightarrow> string list \<Rightarrow> (import_state \<times> bool, 'z) mio" where
  "import_dir x v src warn st r =
     (case st of (idx, results, written, warnings) \<Rightarrow>
      if skipped_dir (i_user x) v src r then io_ret (st, True)
      else io_bind (check_fault OpList (under (host_of (i_user x) src) r)) (\<lambda>_.
        io_ret ((idx, results, written,
          if warn \<and> isMetadataDirName (entry_name src r)
          then warnings @ [''source contains a directory named like a open-seavault-rclone metadata dir ('' @ (if r = [] then src else path_Join src (Join CHR ''/'' r))
                 @ ''); it was imported as plain content'']
          else warnings), False)))"

definition import_file :: "import_env \<Rightarrow> 'v vault_scheme \<Rightarrow> string \<Rightarrow> string \<Rightarrow> bool \<Rightarrow> import_state \<Rightarrow> string list \<Rightarrow> (import_state \<times> bool, 'z) mio" where
  "import_file x v src base warn st r =
     (case st of (idx, results, written, warnings) \<Rightarrow>
      io_bind (lift_path (virtualJoin CHR ''/'' base (Join CHR ''/'' r))) (\<lambda>vp.
      if \<not> warn \<and> vp = '''' then io_fail (EMsg ''empty virtual path'')
      else io_bind (putFile x v (under (host_of (i_user x) src) r) vp idx) (\<lambda>(res, idx').
        io_ret ((idx', results @ [res], written @ [vp], warnings), False))))"

definition import_entry :: "import_env \<Rightarrow> 'v vault_scheme \<Rightarrow> string \<Rightarrow> string \<Rightarrow> bool \<Rightarrow> import_state \<Rightarrow> string list \<times> bool
  \<Rightarrow> (import_state \<times> bool, 'z) mio" where
  "import_entry x v src base warn st e =
     (if snd e then import_dir x v src warn st (fst e) else import_file x v src base warn st (fst e))"

text \<open>The end of both: a manifest for every path written, in order, or the legacy index.\<close>

definition commit_import :: "import_env \<Rightarrow> 'v vault_scheme \<Rightarrow> Index \<Rightarrow> string list \<Rightarrow> (unit, 'z) mio" where
  "commit_import x v idx written =
     io_bind get_config (\<lambda>c.
       if usesManifestStore c
       then io_fold (\<lambda>_ p. commitFileManifest (i_store x) v p (the (map_of (Files idx) p))) () written
       else SaveIndex (i_store x) v idx)"

definition put_single :: "import_env \<Rightarrow> 'v vault_scheme \<Rightarrow> string \<Rightarrow> string \<Rightarrow> Index \<Rightarrow> (import_state, 'z) mio" where
  "put_single x v src virtualPath idx =
     io_bind (lift_path (normalizeContentFilePath (if TrimSpace virtualPath = '''' then path_Base src else virtualPath))) (\<lambda>cleaned.
     case (if files_has idx cleaned then None else reservedNewPathError cleaned) of
       Some e \<Rightarrow> io_fail (EPath e)
     | None \<Rightarrow> io_bind (putFile x v (host_of (i_user x) src) cleaned idx) (\<lambda>(res, idx').
         io_ret (idx', [res], [cleaned], [])))"

definition put_tree :: "import_env \<Rightarrow> 'v vault_scheme \<Rightarrow> string \<Rightarrow> string \<Rightarrow> Index \<Rightarrow> (import_state, 'z) mio" where
  "put_tree x v src virtualPath idx =
     io_bind (lift_path (normalizeContentDirPath (if TrimSpace virtualPath = '''' then path_Base src else virtualPath))) (\<lambda>base.
     WalkDir x (host_of (i_user x) src) (import_entry x v src base True) (idx, [], [], []))"

definition PutPathReport :: "import_env \<Rightarrow> 'v vault_scheme \<Rightarrow> string \<Rightarrow> string \<Rightarrow> (PutReport, 'z) mio" where
  "PutPathReport x v src virtualPath =
     io_bind (stat_IsDir (i_dirs x) (host_of (i_user x) src)) (\<lambda>isDir.
     io_bind (LoadIndex (i_store x) v) (\<lambda>idx.
     io_bind (if isDir then put_tree x v src virtualPath idx else put_single x v src virtualPath idx) (\<lambda>(idx', results, written, warnings).
     io_bind (commit_import x v idx' written) (\<lambda>_. io_ret \<lparr>Results = results, Warnings = warnings\<rparr>))))"

definition PutPath :: "import_env \<Rightarrow> 'v vault_scheme \<Rightarrow> string \<Rightarrow> string \<Rightarrow> (PutResult list, 'z) mio" where
  "PutPath x v src virtualPath = io_bind (PutPathReport x v src virtualPath) (\<lambda>rep. io_ret (Results rep))"

definition PutDirectoryContents :: "import_env \<Rightarrow> 'v vault_scheme \<Rightarrow> string \<Rightarrow> string \<Rightarrow> (PutResult list, 'z) mio" where
  "PutDirectoryContents x v sourceDir virtualBase =
     io_bind (stat_IsDir (i_dirs x) (host_of (i_user x) sourceDir)) (\<lambda>isDir.
     if \<not> isDir then io_fail (EMsg (''source '' @ sourceDir @ '' is not a directory''))
     else io_bind (LoadIndex (i_store x) v) (\<lambda>idx.
       let b = TrimSpace virtualBase in
       io_bind (if b = '''' then io_ret ContentRootName else lift_path (normalizeContentDirPath b)) (\<lambda>base.
       io_bind (WalkDir x (host_of (i_user x) sourceDir) (import_entry x v sourceDir base False) (idx, [], [], [])) (\<lambda>(idx', results, written, _).
       io_bind (commit_import x v idx' written) (\<lambda>_. io_ret results)))))"



section \<open>Which files are put\<close>

text \<open>The entries a walk visits, without their effects.\<close>

function visited :: "(string list \<Rightarrow> bool) \<Rightarrow> (string list \<times> bool) list \<Rightarrow> (string list \<times> bool) list" where
  "visited skip [] = []"
| "visited skip (e # es) =
     (if snd e \<and> skip (fst e) then visited skip (filter (\<lambda>(r, _). take (length (fst e)) r \<noteq> fst e) es)
      else e # visited skip es)"
  by pat_completeness auto
termination
  by (relation "measure (\<lambda>(f, es). length es)") (auto simp: less_Suc_eq_le)

lemma le_append: "(d :: 'a :: linorder list) \<le> d @ t"
  by (induction d) auto

lemma visited_iff:
  assumes "sorted (map fst es)" and "\<forall>r. \<not> ((r, True) \<in> set es \<and> (r, False) \<in> set es)"
  shows "e \<in> set (visited skip es) \<longleftrightarrow> e \<in> set es \<and> \<not> (\<exists>d. (d, True) \<in> set es \<and> skip d \<and> take (length d) (fst e) = d)"
  using assms
proof (induction skip es rule: visited.induct)
  case (2 skip h es)
  show ?case
  proof (cases "snd h \<and> skip (fst h)")
    case True
    let ?f = "filter (\<lambda>(r, _). take (length (fst h)) r \<noteq> fst h) es"
    have h: "h = (fst h, True)" using True by (metis prod.collapse)
    have pre: "take (length (fst h)) (fst e) = fst h" if "take (length (fst h)) d = fst h" "take (length d) (fst e) = d" for d
      using that by (metis take_take min.absorb1 length_take linear min_def)
    have "sorted (map fst ?f)" using 2(3) by (simp add: sorted_filter)
    then have "e \<in> set (visited skip ?f) \<longleftrightarrow> e \<in> set ?f \<and> \<not> (\<exists>d. (d, True) \<in> set ?f \<and> skip d \<and> take (length d) (fst e) = d)"
      using 2(1) [OF True] 2(4) by auto
    also have "\<dots> \<longleftrightarrow> e \<in> set (h # es) \<and> \<not> (\<exists>d. (d, True) \<in> set (h # es) \<and> skip d \<and> take (length d) (fst e) = d)"
      using h True pre by (cases e) auto
    finally show ?thesis using True by simp
  next
    case False
    have ih: "e \<in> set (visited skip es) \<longleftrightarrow> e \<in> set es \<and> \<not> (\<exists>d. (d, True) \<in> set es \<and> skip d \<and> take (length d) (fst e) = d)"
      using 2(2) [OF False] 2(3,4) by auto
    have no: False if d: "(d, True) \<in> set es" "skip d" "take (length d) (fst h) = d" for d
    proof -
      have "fst h \<le> d" using 2(3) d(1) by force
      moreover have "d \<le> fst h" using le_append [of d "drop (length d) (fst h)"] d(3) by (metis append_take_drop_id)
      ultimately have "fst h = d" by simp
      then show False using False d(1,2) 2(4) by (cases h; cases "snd h") auto
    qed
    show ?thesis
    proof (cases "e = h")
      case True
      then show ?thesis using False no by (auto simp: prod_eq_iff)
    next
      case ne: False
      have "take (length (fst h)) (fst e) = fst h \<Longrightarrow> \<not> (h = (fst h, True) \<and> skip (fst h))" using False by (cases h) auto
      then show ?thesis using ih False ne by (cases h) auto
    qed
  qed
qed simp

lemma entries_sorted: "sorted (map fst (walk_entries dirs root fs))"
  by (simp add: walk_entries_def Let_def)

lemma entries_set:
  "(r, b) \<in> set (walk_entries dirs root fs) \<longleftrightarrow>
     (if b then r \<in> set (walk_dirs dirs root (map fst fs))
      else r \<notin> set (walk_dirs dirs root (map fst fs)) \<and> r \<in> set (rels_below root (map fst fs)))"
  by (auto simp: walk_entries_def Let_def)

lemma entries_distinct:
  assumes "wf_map fs"
  shows "distinct (walk_entries dirs root fs)"
proof -
  let ?pre = "if root = ''/'' then root else root @ ''/''"
  have inj: "inj_on (\<lambda>p. Split CHR ''/'' (drop (length ?pre) p)) {p. HasPrefix p ?pre}"
  proof (rule inj_onI)
    fix p q assume h: "p \<in> {p. HasPrefix p ?pre}" "q \<in> {p. HasPrefix p ?pre}"
      "Split CHR ''/'' (drop (length ?pre) p) = Split CHR ''/'' (drop (length ?pre) q)"
    then have "drop (length ?pre) p = drop (length ?pre) q" by (metis Join_Split)
    then show "p = q" using h(1,2) by (auto simp: HasPrefix_iff)
  qed
  have "distinct (rels_below root (map fst fs))"
    unfolding rels_below_def Let_def distinct_map
    by (intro conjI distinct_filter assms inj_on_subset [OF inj]) (use assms in auto)
  then show ?thesis
    unfolding walk_entries_def Let_def
    by (auto simp: distinct_map inj_on_def walk_dirs_def)
qed


text \<open>A put that succeeds gives one result for each file visited, in order, under the path of the file.\<close>

lemma putReader_path: "putReader s v r vp sz mode mt idx w = (Inr (res, idx'), w') \<Longrightarrow> put_Path res = vp"
  by (auto simp: putReader_def io_bind_def io_ret_def Let_def split: prod.splits sum.splits)

lemma putFile_path: "putFile x v hp vp idx w = (Inr (res, idx'), w') \<Longrightarrow> put_Path res = vp"
  by (auto simp: putFile_def io_bind_def io_fail_def split: prod.splits sum.splits if_splits dest: putReader_path)

lemma import_file_step:
  assumes "import_file x v src base warn (idx, rs, wr, ws) r w = (Inr ((idx', rs', wr', ws'), skip), w')"
  shows "\<not> skip \<and> (\<exists>res. virtualJoin CHR ''/'' base (Join CHR ''/'' r) = Inr (put_Path res) \<and> rs' = rs @ [res] \<and> wr' = wr @ [put_Path res])"
  using assms
  by (auto simp: import_file_def io_bind_def io_ret_def io_fail_def lift_path_def io_lift_def split: prod.splits sum.splits if_splits
      dest: putFile_path)

lemma import_dir_step:
  assumes "import_dir x v src warn (idx, rs, wr, ws) r w = (Inr ((idx', rs', wr', ws'), skip), w')"
  shows "(skip \<longleftrightarrow> skipped_dir (i_user x) v src r) \<and> rs' = rs \<and> wr' = wr"
  using assms
  by (auto simp: import_dir_def io_bind_def io_ret_def check_fault_def split: prod.splits sum.splits if_splits option.splits)

lemma walk_results:
  assumes "walk_fold (import_entry x v src base warn) (idx, rs, wr, ws) es w = (Inr (idx', rs', wr', ws'), w')"
  shows "\<exists>new. rs' = rs @ new \<and> wr' = wr @ map put_Path new
    \<and> list_all2 (\<lambda>r res. virtualJoin CHR ''/'' base (Join CHR ''/'' r) = Inr (put_Path res))
         (map fst (filter (\<lambda>e. \<not> snd e) (visited (skipped_dir (i_user x) v src) es))) new"
  using assms
proof (induction "skipped_dir (i_user x) v src" es arbitrary: idx rs wr ws w rule: visited.induct)
  case (2 h es)
  obtain idx1 rs1 wr1 ws1 skip w1 where s: "import_entry x v src base warn (idx, rs, wr, ws) h w = (Inr ((idx1, rs1, wr1, ws1), skip), w1)"
    and rest: "walk_fold (import_entry x v src base warn) (idx1, rs1, wr1, ws1)
      (if skip then filter (\<lambda>(r, _). take (length (fst h)) r \<noteq> fst h) es else es) w1 = (Inr (idx', rs', wr', ws'), w')"
    using 2(3) by (auto simp: io_bind_def split: prod.splits sum.splits)
  show ?case
  proof (cases "snd h")
    case True
    then have "import_dir x v src warn (idx, rs, wr, ws) (fst h) w = (Inr ((idx1, rs1, wr1, ws1), skip), w1)"
      using s by (simp add: import_entry_def)
    from import_dir_step [OF this] have d: "skip \<longleftrightarrow> skipped_dir (i_user x) v src (fst h)" "rs1 = rs" "wr1 = wr" by blast+
    show ?thesis
    proof (cases skip)
      case True
      then show ?thesis using 2(1) [of idx1 rs1 wr1 ws1 w1] rest d \<open>snd h\<close> by simp
    next
      case False
      then show ?thesis using 2(2) [of idx1 rs1 wr1 ws1 w1] rest d \<open>snd h\<close> by simp
    qed
  next
    case False
    then have "import_file x v src base warn (idx, rs, wr, ws) (fst h) w = (Inr ((idx1, rs1, wr1, ws1), skip), w1)"
      using s by (simp add: import_entry_def)
    from import_file_step [OF this] obtain res where f: "\<not> skip" "virtualJoin CHR ''/'' base (Join CHR ''/'' (fst h)) = Inr (put_Path res)" "rs1 = rs @ [res]" "wr1 = wr @ [put_Path res]"
      by blast
    obtain new where n: "rs' = rs1 @ new" "wr' = wr1 @ map put_Path new"
      "list_all2 (\<lambda>r res. virtualJoin CHR ''/'' base (Join CHR ''/'' r) = Inr (put_Path res))
         (map fst (filter (\<lambda>e. \<not> snd e) (visited (skipped_dir (i_user x) v src) es))) new"
      using 2(2) [of idx1 rs1 wr1 ws1 w1] rest f(1) False by auto
    then show ?thesis using f False by (intro exI [of _ "res # new"]) simp
  qed
qed (simp add: io_ret_def)

text \<open>
  A tree of a host: paths are clean and absolute, and nothing lies below a plain file.
\<close>

definition host_tree :: "string list \<Rightarrow> fsfile gomap \<Rightarrow> bool" where
  "host_tree dirs fs \<longleftrightarrow> wf_map fs \<and> (\<forall>p\<in>fst ` set fs. \<exists>ss. p = absp ss \<and> propers ss \<and> ss \<noteq> [])
     \<and> (\<forall>p\<in>fst ` set fs. p \<notin> set dirs \<and> (\<forall>q\<in>fst ` set fs \<union> set dirs. \<not> HasPrefix q (p @ ''/'')))"

lemma Split_take:
  assumes "take k (Split CHR ''/'' q') = Split CHR ''/'' q"
  shows "q' = q \<or> (\<exists>t. q' = q @ CHR ''/'' # t)"
proof -
  have q: "q' = Join CHR ''/'' (Split CHR ''/'' q @ drop k (Split CHR ''/'' q'))"
    using assms by (metis Join_Split append_take_drop_id)
  show ?thesis
  proof (cases "drop k (Split CHR ''/'' q')")
    case Nil
    then show ?thesis using q by simp
  next
    case (Cons a l)
    then have "q' = q @ CHR ''/'' # Join CHR ''/'' (a # l)" using q Join_append [of "Split CHR ''/'' q" "a # l" "CHR ''/''"] by simp
    then show ?thesis by blast
  qed
qed

lemma Split_take_less:
  assumes "take k (Split CHR ''/'' q') = Split CHR ''/'' q" and "k < length (Split CHR ''/'' q')"
  shows "\<exists>t. q' = q @ CHR ''/'' # t"
proof -
  have "q' \<noteq> q" using assms by (metis length_take min.absorb2 nat_neq_iff order_less_imp_le)
  then show ?thesis using Split_take [OF assms(1)] by blast
qed

lemma walk_dirs_set:
  "r \<in> set (walk_dirs dirs root ps) \<longleftrightarrow> r = [] \<or> (\<exists>r'\<in>set (rels_below root ps). \<exists>k<length r'. r = take k r')
     \<or> (\<exists>r'\<in>set (rels_below root dirs). \<exists>k<Suc (length r'). r = take k r')"
  unfolding walk_dirs_def set_remdups set_simps set_append set_concat set_map set_upt image_image atLeast0LessThan by blast

lemma tree_files:
  assumes "host_tree dirs fs" and "root \<noteq> ''/''"
  shows "(r, False) \<in> set (walk_entries dirs root fs) \<longleftrightarrow> (\<exists>q. r = Split CHR ''/'' q \<and> root @ CHR ''/'' # q \<in> fst ` set fs)"
proof -
  have rb: "r' \<in> set (rels_below root ps) \<longleftrightarrow> (\<exists>q. r' = Split CHR ''/'' q \<and> root @ CHR ''/'' # q \<in> set ps)" for r' ps
    using assms(2) by (force simp: rels_below_def HasPrefix_iff image_iff)
  have "r \<notin> set (walk_dirs dirs root (map fst fs))" if r: "r = Split CHR ''/'' q" "root @ CHR ''/'' # q \<in> fst ` set fs" for q
  proof
    assume "r \<in> set (walk_dirs dirs root (map fst fs))"
    then consider r' k where "r' \<in> set (rels_below root (map fst fs))" "k < length r'" "r = take k r'"
      | r' k where "r' \<in> set (rels_below root dirs)" "r = take k r'"
      using r(1) Split_ne unfolding walk_dirs_set by metis
    then show False
    proof cases
      case (1 r' k)
      then obtain q' where q': "r' = Split CHR ''/'' q'" "root @ CHR ''/'' # q' \<in> fst ` set fs" using rb [of r' "map fst fs"] by auto
      then obtain t where "q' = q @ CHR ''/'' # t" using Split_take_less [of k q' q] 1 r(1) by auto
      then have "HasPrefix (root @ CHR ''/'' # q') ((root @ CHR ''/'' # q) @ ''/'')" by (simp add: HasPrefix_iff)
      then show False using assms(1) r(2) q'(2) unfolding host_tree_def by blast
    next
      case (2 r' k)
      then obtain q' where q': "r' = Split CHR ''/'' q'" "root @ CHR ''/'' # q' \<in> set dirs" using rb [of r' dirs] by auto
      then have "q' = q \<or> (\<exists>t. q' = q @ CHR ''/'' # t)" using Split_take [of k q' q] 2 r(1) by simp
      then show False
      proof
        assume "q' = q"
        then show False using assms(1) r(2) q'(2) unfolding host_tree_def by blast
      next
        assume "\<exists>t. q' = q @ CHR ''/'' # t"
        then have "HasPrefix (root @ CHR ''/'' # q') ((root @ CHR ''/'' # q) @ ''/'')" by (auto simp: HasPrefix_iff)
        then show False using assms(1) r(2) q'(2) unfolding host_tree_def by blast
      qed
    qed
  qed
  then show ?thesis using rb [of r "map fst fs"] by (auto simp: entries_set)
qed

text \<open>The files that are visited, and that none of them lies in the metadata directory.\<close>

lemma visited_files:
  assumes "host_tree dirs fs" and "root \<noteq> ''/''"
  shows "(r, False) \<in> set (visited skip (walk_entries dirs root fs)) \<longleftrightarrow>
    (\<exists>q. r = Split CHR ''/'' q \<and> root @ CHR ''/'' # q \<in> fst ` set fs) \<and> (\<forall>k<length r. \<not> skip (take k r))"
proof (cases "(r, False) \<in> set (walk_entries dirs root fs)")
  case True
  then obtain q where q: "r = Split CHR ''/'' q" "root @ CHR ''/'' # q \<in> fst ` set fs" "r \<notin> set (walk_dirs dirs root (map fst fs))"
    using tree_files [OF assms] by (auto simp: entries_set)
  have d: "(take k r, True) \<in> set (walk_entries dirs root fs)" if "k < length r" for k
    using True that by (auto simp: entries_set walk_dirs_set)
  have "(\<exists>d. (d, True) \<in> set (walk_entries dirs root fs) \<and> skip d \<and> take (length d) r = d) \<longleftrightarrow> (\<exists>k<length r. skip (take k r))"
  proof
    assume "\<exists>d. (d, True) \<in> set (walk_entries dirs root fs) \<and> skip d \<and> take (length d) r = d"
    then obtain d' where d': "(d', True) \<in> set (walk_entries dirs root fs)" "skip d'" "take (length d') r = d'" by blast
    have "d' \<noteq> r" using d'(1) q(3) by (auto simp: entries_set)
    then have "length d' < length r" using d'(3) by (metis linorder_not_le take_all)
    then show "\<exists>k<length r. skip (take k r)" using d'(2,3) by metis
  next
    assume "\<exists>k<length r. skip (take k r)"
    then obtain k where k: "k < length r" "skip (take k r)" by blast
    then have "take (length (take k r)) r = take k r" by simp
    then show "\<exists>d. (d, True) \<in> set (walk_entries dirs root fs) \<and> skip d \<and> take (length d) r = d" using d [OF k(1)] k(2) by (intro exI [of _ "take k r"]) simp
  qed
  then show ?thesis
    using visited_iff [OF entries_sorted, of dirs root fs "(r, False)" skip] True q by (auto simp: entries_set)
next
  case False
  then show ?thesis using visited_iff [OF entries_sorted, of dirs root fs "(r, False)" skip] tree_files [OF assms, of r] by (auto simp: entries_set)
qed


lemma visited_distinct: "distinct es \<Longrightarrow> distinct (visited skip es) \<and> set (visited skip es) \<subseteq> set es"
proof (induction skip es rule: visited.induct)
  case (2 skip h es)
  then show ?case by (cases "snd h \<and> skip (fst h)") (auto dest: subsetD)
qed simp

lemma Split_inj: "inj (Split d)"
  by (metis Join_Split injI)

lemma distinct_files: "distinct es \<Longrightarrow> distinct (map fst (filter (\<lambda>e. \<not> snd e) es))"
  by (induction es) force+

lemma metadata_left_out:
  assumes "host_tree dirs fs" and "tidy_root v" and "filepath_Absolute e src = Inr root" and "root \<noteq> ''/''"
    and "\<not> HasPrefix root (MetaRoot v @ ''/'')" and "root @ CHR ''/'' # q \<in> fst ` set fs"
    and "\<forall>k<length (Split CHR ''/'' q). \<not> skipped_dir e v src (take k (Split CHR ''/'' q))"
  shows "\<not> HasPrefix (root @ CHR ''/'' # q) (MetaRoot v @ ''/'')"
proof
  assume inside: "HasPrefix (root @ CHR ''/'' # q) (MetaRoot v @ ''/'')"
  let ?qs = "Split CHR ''/'' q"
  obtain ms where ms: "MetaRoot v = absp ms" "propers ms" "ms \<noteq> []" "filepath_Absolute e (MetaRoot v) = Inr (MetaRoot v)"
    by (rule tidy_segs [OF assms(2)])
  obtain fs' where fs': "root @ CHR ''/'' # q = absp fs'" "propers fs'" and f: "fs' \<noteq> []" using assms(1,6) unfolding host_tree_def by blast
  have "Split CHR ''/'' (Join CHR ''/'' fs') = fs'" using fs'(2) f by (intro Split_Join) (auto simp: proper_seg_def)
  then have "Split CHR ''/'' root @ ?qs = '''' # fs'"
    using Split_append [of "CHR ''/''" root q] fs'(1) by (simp add: absp_def)
  then obtain ss where ss: "Split CHR ''/'' root = '''' # ss" "fs' = ss @ ?qs" by (metis Cons_eq_append_conv Split_ne)
  have root: "root = Join CHR ''/'' ('''' # ss)" using ss(1) by (metis Join_Split)
  have u: "under root r = absp (ss @ r)" if "ss @ r \<noteq> []" for r
    using that root assms(4) Join_append [of ss r "CHR ''/''"] by (cases ss; cases r) (auto simp: under_def absp_def)
  obtain y ys where y: "ss @ ?qs = ms @ y # ys" using inside below_absp [OF fs'(2) ms(2,3)] fs'(1) ms(1) ss(2) by auto
  have ps: "propers ss" using fs'(2) ss(2) by simp
  have "\<not> (\<exists>z zs. ss = ms @ z # zs)"
  proof
    assume "\<exists>z zs. ss = ms @ z # zs"
    moreover have "root = absp ss" using calculation u [of "[]"] by (auto simp: under_def)
    ultimately show False using below_absp [OF ps ms(2,3)] assms(5) ms(1) by simp
  qed
  then have le: "length ss \<le> length ms" using y by (metis append_eq_append_conv_if id_take_nth_drop not_le_imp_less)
  define k where "k = length ms - length ss"
  have k: "k < length ?qs" "ss @ take k ?qs = ms"
    using arg_cong [OF y, of length] arg_cong [OF y, of "take (length ms)"] le by (simp_all add: k_def)
  have "under root (take k ?qs) = MetaRoot v" using u [of "take k ?qs"] k(2) ms(1,3) by simp
  then have "own_meta e v src (under (host_of e src) (take k ?qs))" using assms(3) ms(4) by (simp add: own_meta_def host_of_def)
  then show False using assms(7) k(1) by (simp add: skipped_dir_def)
qed

lemma put_tree_run:
  fixes w :: "'z vault_state_scheme"
  assumes "filepath_Absolute (i_user x) src = Inr root" and "fst (stat_IsDir (i_dirs x) root w) = Inr True"
    and "PutPathReport x v src virtualPath w = (Inr rep, w')"
  obtains base idx idx' wr ws and w2 w3 :: "'z vault_state_scheme" where
    "normalizeContentDirPath (if TrimSpace virtualPath = '''' then path_Base src else virtualPath) = Inr base"
    "walk_fold (import_entry x v src base True) (idx, [], [], []) (walk_entries (i_dirs x) root (files w)) w2 = (Inr (idx', Results rep, wr, ws), w3)"
proof -
  have h: "host_of (i_user x) src = root" using assms(1) by (simp add: host_of_def)
  obtain w1 where st: "stat_IsDir (i_dirs x) root w = (Inr True, w1)" using assms(2) by (metis prod.collapse)
  have f1: "files w1 = files w" using keepsD [OF read_only_stat_IsDir st] by (simp add: same_disk_def)
  obtain r2 w2 where l: "LoadIndex (i_store x) v w1 = (r2, w2)" by fastforce
  have f2: "files w2 = files w" using keepsD [OF read_only_gc_index(1) l] f1 by (simp add: same_disk_def)
  obtain idx where r2: "r2 = Inr idx" using assms(3) by (cases r2) (simp_all add: PutPathReport_def io_bind_def h st l)
  obtain r3 w3 where p: "put_tree x v src virtualPath idx w2 = (r3, w3)" by fastforce
  obtain idx' rs wr ws where r3: "r3 = Inr (idx', rs, wr, ws)"
    using assms(3) by (cases r3) (auto simp: PutPathReport_def io_bind_def h st l r2 p)
  have rs: "rs = Results rep"
    using assms(3) by (auto simp: PutPathReport_def io_bind_def io_ret_def h st l r2 p r3 split: prod.splits sum.splits)
  obtain base where b: "normalizeContentDirPath (if TrimSpace virtualPath = '''' then path_Base src else virtualPath) = Inr base"
    using p unfolding put_tree_def r3
    by (cases "normalizeContentDirPath (if TrimSpace virtualPath = '''' then path_Base src else virtualPath)")
       (simp_all add: io_bind_def lift_path_def io_lift_def split del: if_split)
  have "WalkDir x root (import_entry x v src base True) (idx, [], [], []) w2 = (Inr (idx', rs, wr, ws), w3)"
    using p unfolding put_tree_def r3 b by (simp add: io_bind_def lift_path_def io_lift_def h)
  then have "walk_fold (import_entry x v src base True) (idx, [], [], []) (walk_entries (i_dirs x) root (files w)) w2 = (Inr (idx', rs, wr, ws), w3)"
    using f2 by (simp add: WalkDir_def io_bind_def check_fault_def split: option.splits)
  then show thesis using b that unfolding rs by blast
qed

text \<open>
  Putting a directory takes exactly the files below it that are not in a directory named \<^verbatim>\<open>.git\<close> or
  in the metadata directory of this vault: the results are one for each of those files, under the base
  path joined with its relative path.  So a put whose source is the vault root or an ancestor never
  imports the encrypted store; only a source inside the metadata directory can.
\<close>

theorem import_takes_exactly:
  fixes w :: "'z vault_state_scheme"
  assumes "host_tree (i_dirs x) (files w)" and "tidy_root v" and "filepath_Absolute (i_user x) src = Inr root" and "root \<noteq> ''/''"
    and "fst (stat_IsDir (i_dirs x) root w) = Inr True" and "PutPathReport x v src virtualPath w = (Inr rep, w')"
  shows "\<exists>base qs. normalizeContentDirPath (if TrimSpace virtualPath = '''' then path_Base src else virtualPath) = Inr base
    \<and> distinct qs \<and> set qs = {q. root @ CHR ''/'' # q \<in> fst ` set (files w)
         \<and> (\<forall>k<length (Split CHR ''/'' q). \<not> skipped_dir (i_user x) v src (take k (Split CHR ''/'' q)))}
    \<and> list_all2 (\<lambda>q res. virtualJoin CHR ''/'' base q = Inr (put_Path res)) qs (Results rep)
    \<and> (\<not> HasPrefix root (MetaRoot v @ ''/'') \<longrightarrow> (\<forall>q\<in>set qs. \<not> HasPrefix (root @ CHR ''/'' # q) (MetaRoot v @ ''/'')))"
proof -
  obtain base idx idx' wr ws and w2 w3 :: "'z vault_state_scheme" where
    b: "normalizeContentDirPath (if TrimSpace virtualPath = '''' then path_Base src else virtualPath) = Inr base"
    and t2: "walk_fold (import_entry x v src base True) (idx, [], [], []) (walk_entries (i_dirs x) root (files w)) w2 = (Inr (idx', Results rep, wr, ws), w3)"
    using assms(3,5,6) by (rule put_tree_run)
  let ?vs = "visited (skipped_dir (i_user x) v src) (walk_entries (i_dirs x) root (files w))"
  define rs where "rs = map fst (filter (\<lambda>e. \<not> snd e) ?vs)"
  define qs where "qs = map (Join CHR ''/'') rs"
  have r: "r \<in> set rs \<longleftrightarrow> (r, False) \<in> set ?vs" for r unfolding rs_def by force
  note vf = visited_files [OF assms(1,4), of _ "skipped_dir (i_user x) v src"]
  have sp: "\<exists>q. r = Split CHR ''/'' q" if "r \<in> set rs" for r using that r vf by blast
  have rq: "rs = map (Split CHR ''/'') qs" 
  proof -
    have "map (\<lambda>r. Split CHR ''/'' (Join CHR ''/'' r)) rs = rs" by (rule map_idI) (metis sp Join_Split)
    then show ?thesis by (simp add: qs_def comp_def)
  qed
  have "distinct ?vs" using visited_distinct [OF entries_distinct] assms(1) by (simp add: host_tree_def)
  then have "distinct rs" unfolding rs_def by (rule distinct_files)
  then have d: "distinct qs" unfolding rq by (simp add: distinct_map)
  have q: "q \<in> set qs \<longleftrightarrow> root @ CHR ''/'' # q \<in> fst ` set (files w)
      \<and> (\<forall>k<length (Split CHR ''/'' q). \<not> skipped_dir (i_user x) v src (take k (Split CHR ''/'' q)))" for q
  proof -
    have "q \<in> set qs \<longleftrightarrow> Split CHR ''/'' q \<in> set rs" unfolding arg_cong [OF rq, of set] set_map inj_image_mem_iff [OF Split_inj] ..
    also have "\<dots> \<longleftrightarrow> (\<exists>p. Split CHR ''/'' q = Split CHR ''/'' p \<and> root @ CHR ''/'' # p \<in> fst ` set (files w))
        \<and> (\<forall>k<length (Split CHR ''/'' q). \<not> skipped_dir (i_user x) v src (take k (Split CHR ''/'' q)))" unfolding r vf ..
    finally show ?thesis by (simp add: inj_eq [OF Split_inj])
  qed
  have "list_all2 (\<lambda>r res. virtualJoin CHR ''/'' base (Join CHR ''/'' r) = Inr (put_Path res)) rs (Results rep)"
    using walk_results [OF t2] unfolding rs_def append_Nil by blast
  then have "list_all2 (\<lambda>q res. virtualJoin CHR ''/'' base q = Inr (put_Path res)) qs (Results rep)"
    unfolding qs_def by (simp add: list_all2_map1)
  moreover have "\<forall>q\<in>set qs. \<not> HasPrefix (root @ CHR ''/'' # q) (MetaRoot v @ ''/'')" if "\<not> HasPrefix root (MetaRoot v @ ''/'')"
    using metadata_left_out [OF assms(1-4) that] q by blast
  ultimately show ?thesis using b d q by blast
qed

text \<open>
  Two files of a POSIX host can meet in the vault: a backslash in a name becomes a slash, so the file
  \<^verbatim>\<open>a\b\<close> is stored under the path of the file \<^verbatim>\<open>a/b\<close>, and the one that the walk meets later replaces the other.
\<close>

lemma import_paths_collide:
  "virtualJoin CHR ''/'' ''content'' (''a'' @ [CHR 0x5C] @ ''b'') = Inr ''content/a/b'' \<and> virtualJoin CHR ''/'' ''content'' ''a/b'' = Inr ''content/a/b''"
  by code_simp

section \<open>A directory of two files\<close>

definition import_demo :: import_env where
  "import_demo = \<lparr>i_ops = demo_ops, i_dirs = [''/src'', ''/src/.git''], i_mode = (\<lambda>_. 420)\<rparr>"

definition import_host :: vault_state where
  "import_host = (demo_vstate (Some (NewIndex ''t'')))\<lparr>files :=
     [(''/src/.git/x'', \<lparr>data = ''g'', mtime = 0\<rparr>), (''/src/a'', \<lparr>data = '''', mtime = 0\<rparr>)]\<rparr>"

lemma import_demo_store: "i_store import_demo = demo_senv"
  by (simp add: import_demo_def demo_ops_def)

lemma import_demo_file:
  "\<exists>pr rec w1. putFile import_demo demo_vlt ''/src/a'' ''content/d/a'' (NewIndex ''t'') import_host
     = (Inr (pr, (NewIndex ''t'')\<lparr>Files := [(''content/d/a'', rec)]\<rparr>), w1) \<and> stamped rec \<and> no_faults w1
       \<and> vConfig w1 = vConfig import_host"
proof -
  have c: "Chunk (vConfig import_host) = tiny_params" by (simp add: import_host_def demo_vstate_def demo_config_def)
  have n: "chunks_of tiny_params [] = []" by (simp add: chunks_of_def)
  have ps: "put_stream (s_cr demo_senv) demo_vlt (Chunk (vConfig import_host)) ([''''], None) import_host = (Inr ([], 0, 0), import_host)"
    using tiny_valid unfolding c by (simp add: put_stream_run n)
  have f: "\<forall>t. fmtNano (s_guard demo_senv) t \<noteq> ''''" using open_demo_ready by (simp add: ready_def)
  have g: "0 \<le> maxGen import_host" "maxGen import_host < max_i64" by (simp_all add: import_host_def demo_vstate_def)
  obtain pr rec k m where pr: "putReader demo_senv demo_vlt ([''''], None) ''content/d/a'' 0 420 0 (NewIndex ''t'') import_host
      = (Inr (pr, (NewIndex ''t'')\<lparr>Files := AList.update ''content/d/a'' rec (Files (NewIndex ''t''))\<rparr>), import_host\<lparr>clock_ix := k, maxGen := m\<rparr>)"
    "stamped rec"
    by (rule putReader_tail [OF ps f g])
  have v: "ValidatePortableName (path_Base ''content/d/a'') = None" by code_simp
  have e: "Files (NewIndex ''t'') = []" by (simp add: NewIndex_def)
  have st: "os_Stat ''/src/a'' import_host = (Inr \<lparr>data = '''', mtime = 0\<rparr>, import_host)"
    "check_fault OpRead ''/src/a'' import_host = (Inr (), import_host)"
    by (simp_all add: os_Stat_def check_fault_def lookup_file_def io_simps import_host_def demo_vstate_def)
  have "no_faults (import_host\<lparr>clock_ix := k, maxGen := m\<rparr>)"
    using demo_vstate_ok(1) by (simp add: no_faults_def import_host_def)
  moreover have "putFile import_demo demo_vlt ''/src/a'' ''content/d/a'' (NewIndex ''t'') import_host
     = (Inr (pr, (NewIndex ''t'')\<lparr>Files := [(''content/d/a'', rec)]\<rparr>), import_host\<lparr>clock_ix := k, maxGen := m\<rparr>)"
    using pr(1) unfolding putFile_def e v import_demo_store
    by (simp add: io_bind_def st import_demo_def)
  ultimately show ?thesis using pr(2)
    by (intro exI [of _ pr] exI [of _ rec] exI [of _ "import_host\<lparr>clock_ix := k, maxGen := m\<rparr>"]) simp
qed

lemma import_demo_runs:
  "\<exists>rep w'. PutPathReport import_demo demo_vlt ''/src'' ''content/d'' import_host = (Inr rep, w')"
proof -
  obtain pr rec w1 where p: "putFile import_demo demo_vlt ''/src/a'' ''content/d/a'' (NewIndex ''t'') import_host
     = (Inr (pr, (NewIndex ''t'')\<lparr>Files := [(''content/d/a'', rec)]\<rparr>), w1)" "stamped rec" "no_faults w1" "vConfig w1 = vConfig import_host"
    using import_demo_file by blast
  have h: "host_of (i_user import_demo) ''/src'' = ''/src''" by code_simp
  have st: "stat_IsDir (i_dirs import_demo) ''/src'' import_host = (Inr True, import_host)"
    by (simp add: stat_IsDir_def check_fault_def io_simps import_host_def demo_vstate_def import_demo_def HasPrefix_def)
  have ld: "LoadIndex demo_senv demo_vlt import_host = (Inr (NewIndex ''t''), import_host)"
    by (simp add: LoadIndex_def cachedIndexLocked_def io_simps get_state_def import_host_def demo_vstate_def)
  have b: "normalizeContentDirPath ''content/d'' = Inr ''content/d''" "TrimSpace ''content/d'' \<noteq> ''''" by code_simp+
  have es: "walk_entries (i_dirs import_demo) ''/src'' (files import_host)
      = [([], True), ([''.git''], True), ([''.git'', ''x''], False), ([''a''], False)]" by code_simp
  have sk: "\<not> skipped_dir (i_user import_demo) demo_vlt ''/src'' []" "skipped_dir (i_user import_demo) demo_vlt ''/src'' [''.git'']"
    "\<not> isMetadataDirName (entry_name ''/src'' [])" by code_simp+
  have vj: "virtualJoin CHR ''/'' ''content/d'' ''a'' = Inr ''content/d/a''" by code_simp
  have un: "under ''/src'' [''a''] = ''/src/a''" by code_simp
  have nf: "check_fault q r import_host = (Inr (), import_host)" for q r
    by (simp add: check_fault_def import_host_def demo_vstate_def)
  have t: "put_tree import_demo demo_vlt ''/src'' ''content/d'' (NewIndex ''t'') import_host
      = (Inr ((NewIndex ''t'')\<lparr>Files := [(''content/d/a'', rec)]\<rparr>, [pr], [''content/d/a''], []), w1)"
    by (simp add: put_tree_def b h WalkDir_def es io_bind_def lift_path_def io_lift_def nf import_entry_def import_dir_def import_file_def
        sk vj un p(1) io_ret_def)
  obtain r w' where cm: "commitFileManifest demo_senv demo_vlt ''content/d/a'' rec w1 = (r, w')" by fastforce
  have "CleanVirtualPath ''content/d/a'' = Inr ''content/d/a''" by code_simp
  then have "r = Inr ()" using commitFileManifest_ok [OF p(3) _ _ p(2) cm] by simp
  moreover have "usesManifestStore (vConfig w1)" unfolding p(4) by (simp add: import_host_def demo_vstate_def usesManifestStore_def demo_config_def)
  ultimately have "commit_import import_demo demo_vlt ((NewIndex ''t'')\<lparr>Files := [(''content/d/a'', rec)]\<rparr>) [''content/d/a''] w1 = (Inr (), w')"
    using cm by (simp add: commit_import_def import_demo_store io_bind_def get_config_def io_ret_def)
  then show ?thesis using st ld t unfolding PutPathReport_def h unfolding import_demo_store by (simp add: io_bind_def io_ret_def)
qed

theorem import_takes_exactly_witness:
  "\<exists>rep w'. PutPathReport import_demo demo_vlt ''/src'' ''content/d'' import_host = (Inr rep, w')
     \<and> map put_Path (Results rep) = [''content/d/a'']"
proof -
  obtain rep w' where run: "PutPathReport import_demo demo_vlt ''/src'' ''content/d'' import_host = (Inr rep, w')"
    using import_demo_runs by blast
  have ab: "filepath_Absolute (i_user import_demo) ''/src'' = Inr ''/src''" by code_simp
  have tr: "tidy_root demo_vlt" using demo_store_laws by (simp add: store_laws_def)
  have fs: "files import_host = [(''/src/.git/x'', \<lparr>data = ''g'', mtime = 0\<rparr>), (''/src/a'', \<lparr>data = '''', mtime = 0\<rparr>)]"
    by (simp add: import_host_def)
  have a: "''/src/.git/x'' = absp [''src'', ''.git'', ''x'']" "propers [''src'', ''.git'', ''x'']"
    "''/src/a'' = absp [''src'', ''a'']" "propers [''src'', ''a'']" by code_simp+
  have "\<forall>p\<in>fst ` set (files import_host). \<exists>ss. p = absp ss \<and> propers ss \<and> ss \<noteq> []"
    unfolding fs using a(1,2) a(3,4) by (auto intro: exI [of _ "[''src'', ''.git'', ''x'']"] exI [of _ "[''src'', ''a'']"])
  moreover have "\<forall>p\<in>fst ` set (files import_host). p \<notin> set (i_dirs import_demo)
      \<and> (\<forall>q\<in>fst ` set (files import_host) \<union> set (i_dirs import_demo). \<not> HasPrefix q (p @ ''/''))" by code_simp
  moreover have "wf_map (files import_host)" unfolding fs by simp
  ultimately have ht: "host_tree (i_dirs import_demo) (files import_host)" unfolding host_tree_def by blast
  have sd: "fst (stat_IsDir (i_dirs import_demo) ''/src'' import_host) = Inr True"
    by (simp add: stat_IsDir_def check_fault_def io_simps import_host_def demo_vstate_def import_demo_def HasPrefix_def)
  obtain base qs where q: "normalizeContentDirPath (if TrimSpace ''content/d'' = '''' then path_Base ''/src'' else ''content/d'') = Inr base"
    "distinct qs" "set qs = {q. ''/src'' @ CHR ''/'' # q \<in> fst ` set (files import_host)
         \<and> (\<forall>k<length (Split CHR ''/'' q). \<not> skipped_dir (i_user import_demo) demo_vlt ''/src'' (take k (Split CHR ''/'' q)))}"
    "list_all2 (\<lambda>q res. virtualJoin CHR ''/'' base q = Inr (put_Path res)) qs (Results rep)"
    using import_takes_exactly [OF ht tr ab _ sd run] by auto
  have "TrimSpace ''content/d'' \<noteq> ''''" "normalizeContentDirPath ''content/d'' = Inr ''content/d''" by code_simp+
  then have b: "base = ''content/d''" using q(1) by simp
  have s: "Split CHR ''/'' ''.git/x'' = [''.git'', ''x'']" "Split CHR ''/'' ''a'' = [''a'']"
    "skipped_dir (i_user import_demo) demo_vlt ''/src'' [''.git'']" "\<not> skipped_dir (i_user import_demo) demo_vlt ''/src'' []" by code_simp+
  have "set qs = {''a''}" unfolding q(3) fs using s by (auto simp: less_Suc_eq)
  then have sq: "set qs = {''a''}" .
  then have "length qs = 1" using distinct_card [OF q(2)] by simp
  then obtain y where "qs = [y]" by (cases qs) auto
  then have "qs = [''a'']" using sq by simp
  moreover have "virtualJoin CHR ''/'' ''content/d'' ''a'' = Inr ''content/d/a''" by code_simp
  ultimately show ?thesis using run q(4) b by (auto simp: list_all2_Cons1)
qed

end
