(* ===== verification/AuthLimit.thy ===== *)
theory AuthLimit
  imports Prelude
begin

text \<open>
  The failed-authentication limiter, \<^verbatim>\<open>internal/authlimit/authlimit.go\<close>.  A time is the number of
  nanoseconds since Go's zero \<^verbatim>\<open>time.Time\<close>, so that \<^verbatim>\<open>IsZero\<close> is comparison with 0; a duration is a
  64-bit count of nanoseconds.  The map of buckets is an association list whose order stands for
  the iteration order of the Go map, which is arbitrary: every theorem holds for every order.  Each
  exported operation takes the mutex for its whole body, so the interleavings of concurrent callers
  are the runs of the step relation \<open>lim_step\<close>.  \<^verbatim>\<open>net.SplitHostPort\<close>, \<^verbatim>\<open>net.ParseIP\<close> and the printing of
  an address are functions of the record \<open>net_env\<close>.
\<close>

section \<open>Data\<close>

record Key =
  Surface :: string
  Peer :: string
  Account :: string

record Policy =
  FailuresBeforeLock :: int
  AccountFailuresBeforeLock :: int
  Window :: int
  LockStart :: int
  LockMax :: int
  FailureDelay :: int
  MaxKeys :: int

record state =
  failures :: int
  pending :: int
  lockedUntil :: int
  lockLen :: int
  lastFailure :: int
  lastSeen :: int

record Limiter =
  keys :: "(Key \<times> state) list"
  policy :: Policy

definition Second :: int where "Second = 1000000000"
definition Minute :: int where "Minute = 60 * Second"

definition DefaultPolicy :: Policy where
  "DefaultPolicy = \<lparr>FailuresBeforeLock = 5, AccountFailuresBeforeLock = 20, Window = 15 * Minute,
     LockStart = 30 * Second, LockMax = 15 * Minute, FailureDelay = 250000000, MaxKeys = 10000\<rparr>"

definition normalize :: "Policy \<Rightarrow> Policy" where
  "normalize p0 =
     (let d = DefaultPolicy;
          p1 = (if FailuresBeforeLock p0 \<le> 0 then p0\<lparr>FailuresBeforeLock := FailuresBeforeLock d\<rparr> else p0);
          p2 = (if AccountFailuresBeforeLock p1 \<le> 0
                then p1\<lparr>AccountFailuresBeforeLock := AccountFailuresBeforeLock d\<rparr> else p1);
          p3 = (if Window p2 \<le> 0 then p2\<lparr>Window := Window d\<rparr> else p2);
          p4 = (if LockStart p3 \<le> 0 then p3\<lparr>LockStart := LockStart d\<rparr> else p3);
          p5 = (if LockMax p4 < LockStart p4 then p4\<lparr>LockMax := LockStart p4\<rparr> else p4);
          p6 = (if FailureDelay p5 < 0 then p5\<lparr>FailureDelay := 0\<rparr> else p5)
      in if MaxKeys p6 \<le> 0 then p6\<lparr>MaxKeys := MaxKeys d\<rparr> else p6)"

definition New :: "Policy \<Rightarrow> Limiter" where
  "New p = \<lparr>keys = [], policy = normalize p\<rparr>"

section \<open>Times\<close>

definition IsZero :: "int \<Rightarrow> bool" where "IsZero t \<longleftrightarrow> t = 0"

section \<open>Operations\<close>

definition thresholdFor :: "Policy \<Rightarrow> Key \<Rightarrow> int" where
  "thresholdFor p k =
     (if Peer k = '''' \<and> Account k \<noteq> '''' then AccountFailuresBeforeLock p else FailuresBeforeLock p)"

definition is_locked :: "int \<Rightarrow> state \<Rightarrow> bool" where
  "is_locked now st \<longleftrightarrow> \<not> IsZero (lockedUntil st) \<and> now < lockedUntil st"

text \<open>The scan of \<^verbatim>\<open>evictOneLocked\<close>: the oldest idle and the oldest locked key seen so far.\<close>

definition older :: "state \<Rightarrow> (Key \<times> int) option \<Rightarrow> bool" where
  "older st best \<longleftrightarrow> (case best of None \<Rightarrow> True | Some (_, seen) \<Rightarrow> lastSeen st < seen)"

fun evict_scan ::
  "int \<Rightarrow> (Key \<times> state) list \<Rightarrow> (Key \<times> int) option \<Rightarrow> (Key \<times> int) option \<Rightarrow>
   (Key \<times> int) option \<times> (Key \<times> int) option" where
  "evict_scan now [] idle lockd = (idle, lockd)"
| "evict_scan now ((k, st) # ks) idle lockd =
     (if pending st > 0 then evict_scan now ks idle lockd
      else if is_locked now st then
        evict_scan now ks idle (if older st lockd then Some (k, lastSeen st) else lockd)
      else evict_scan now ks (if older st idle then Some (k, lastSeen st) else idle) lockd)"

definition evictOneLocked :: "int \<Rightarrow> Limiter \<Rightarrow> Limiter" where
  "evictOneLocked now l =
     (case evict_scan now (keys l) None None of
        (Some (k, _), _) \<Rightarrow> l\<lparr>keys := AList.delete k (keys l)\<rparr>
      | (None, Some (k, _)) \<Rightarrow> l\<lparr>keys := AList.delete k (keys l)\<rparr>
      | (None, None) \<Rightarrow> l)"

definition fresh_state :: "int \<Rightarrow> state" where
  "fresh_state now = \<lparr>failures = 0, pending = 0, lockedUntil = 0, lockLen = 0, lastFailure = 0,
     lastSeen = now\<rparr>"

definition getOrCreateLocked :: "Key \<Rightarrow> int \<Rightarrow> Limiter \<Rightarrow> state \<times> Limiter" where
  "getOrCreateLocked k now l =
     (case map_of (keys l) k of
        Some st \<Rightarrow> (st, l)
      | None \<Rightarrow>
          let l1 = (if int (length (keys l)) \<ge> MaxKeys (policy l) then evictOneLocked now l else l);
              st = fresh_state now
          in (st, l1\<lparr>keys := AList.update k st (keys l1)\<rparr>))"

definition refreshLocked :: "Policy \<Rightarrow> Key \<Rightarrow> int \<Rightarrow> state \<Rightarrow> state" where
  "refreshLocked p k now st0 =
     (let threshold = thresholdFor p k;
          st1 = (if \<not> IsZero (lockedUntil st0) \<and> \<not> now < lockedUntil st0
                 then st0\<lparr>lockedUntil := 0,
                          failures := (if failures st0 \<ge> threshold then threshold - 1 else failures st0)\<rparr>
                 else st0);
          st2 = (if IsZero (lockedUntil st1) \<and> \<not> IsZero (lastFailure st1)
                    \<and> time_Sub now (lastFailure st1) \<ge> Window p
                 then st1\<lparr>failures := 0, lockLen := 0, lastFailure := 0\<rparr> else st1);
          st3 = (if IsZero (lockedUntil st2) \<and> pending st2 > 0 \<and> \<not> IsZero (lastSeen st2)
                    \<and> time_Sub now (lastSeen st2) \<ge> Window p
                 then st2\<lparr>pending := 0\<rparr> else st2)
      in if pending st3 > threshold then st3\<lparr>pending := threshold\<rparr> else st3)"

definition put_state :: "Key \<Rightarrow> state \<Rightarrow> Limiter \<Rightarrow> Limiter" where
  "put_state k st l = l\<lparr>keys := AList.update k st (keys l)\<rparr>"

text \<open>The common opening of \<^verbatim>\<open>Check\<close> and \<^verbatim>\<open>failReport\<close>: find or create, refresh, stamp.\<close>

definition enter :: "Key \<Rightarrow> int \<Rightarrow> Limiter \<Rightarrow> state \<times> Limiter" where
  "enter k now l =
     (let (st, l1) = getOrCreateLocked k now l
      in ((refreshLocked (policy l1) k now st)\<lparr>lastSeen := now\<rparr>, l1))"

definition Check :: "Key \<Rightarrow> int \<Rightarrow> Limiter \<Rightarrow> (bool \<times> int) \<times> Limiter" where
  "Check k now l =
     (let (st, l1) = enter k now l
      in if is_locked now st then ((False, time_Sub (lockedUntil st) now), put_state k st l1)
         else if failures st + pending st \<ge> thresholdFor (policy l1) k
         then ((False, FailureDelay (policy l1)), put_state k st l1)
         else ((True, 0), put_state k (st\<lparr>pending := pending st + 1\<rparr>) l1))"

definition drop_pending :: "state \<Rightarrow> state" where
  "drop_pending st = (if pending st > 0 then st\<lparr>pending := pending st - 1\<rparr> else st)"

definition next_lockLen :: "Policy \<Rightarrow> int \<Rightarrow> int" where
  "next_lockLen p len =
     (if len \<le> 0 then LockStart p
      else let d = i64 (len * 2) in if d > LockMax p then LockMax p else d)"

definition failReport :: "Key \<Rightarrow> int \<Rightarrow> Limiter \<Rightarrow> (bool \<times> int \<times> int) \<times> Limiter" where
  "failReport k now l =
     (let (st0, l1) = enter k now l;
          st1 = drop_pending st0;
          st2 = st1\<lparr>failures := failures st1 + 1, lastFailure := now\<rparr>
      in if failures st2 \<ge> thresholdFor (policy l1) k then
           let len = next_lockLen (policy l1) (lockLen st2);
               st3 = st2\<lparr>lockLen := len, lockedUntil := now + len\<rparr>
           in ((True, len, failures st3), put_state k st3 l1)
         else ((False, FailureDelay (policy l1), failures st2), put_state k st2 l1))"

definition Fail :: "Key \<Rightarrow> int \<Rightarrow> Limiter \<Rightarrow> (bool \<times> int) \<times> Limiter" where
  "Fail k now l = (let ((lk, ra, _), l') = failReport k now l in ((lk, ra), l'))"

definition Success :: "Key \<Rightarrow> int \<Rightarrow> Limiter \<Rightarrow> Limiter" where
  "Success k now l =
     (case map_of (keys l) k of
        None \<Rightarrow> l
      | Some st \<Rightarrow>
          put_state k ((drop_pending (st\<lparr>lastSeen := now\<rparr>))
             \<lparr>failures := 0, lockLen := 0, lockedUntil := 0, lastFailure := 0\<rparr>) l)"

definition release :: "Key \<Rightarrow> int \<Rightarrow> Limiter \<Rightarrow> Limiter" where
  "release k now l =
     (case map_of (keys l) k of
        None \<Rightarrow> l
      | Some st \<Rightarrow> put_state k ((drop_pending st)\<lparr>lastSeen := now\<rparr>) l)"

fun selfstate_loop :: "Key list \<Rightarrow> int \<Rightarrow> Limiter \<Rightarrow> bool \<Rightarrow> int \<Rightarrow> (bool \<times> int) \<times> Limiter" where
  "selfstate_loop [] now l locked ra = ((locked, ra), l)"
| "selfstate_loop (k # ks) now l locked ra =
     (case map_of (keys l) k of
        None \<Rightarrow> selfstate_loop ks now l locked ra
      | Some st0 \<Rightarrow>
          let st = refreshLocked (policy l) k now st0; l1 = put_state k st l
          in if is_locked now st \<and> time_Sub (lockedUntil st) now > ra
             then selfstate_loop ks now l1 True (time_Sub (lockedUntil st) now)
             else selfstate_loop ks now l1 locked ra)"

definition clearMatchingLocked :: "(Key \<Rightarrow> bool) \<Rightarrow> Limiter \<Rightarrow> Key list \<times> Limiter" where
  "clearMatchingLocked match l =
     (let cleared = filter match (map fst (keys l))
      in (cleared, fold (\<lambda>k l. l\<lparr>keys := AList.delete k (keys l)\<rparr>) cleared l))"

section \<open>Peers\<close>

record net_env =
  SplitHostPort :: "string \<Rightarrow> string option"   \<comment> \<open>the host, None on error\<close>
  ParseIP :: "string \<Rightarrow> nat list option"      \<comment> \<open>the 16 bytes of the address\<close>
  ip_String :: "nat list \<Rightarrow> string"

definition To4 :: "nat list \<Rightarrow> nat list option" where
  "To4 ip = (if length ip = 16 \<and> take 10 ip = replicate 10 0 \<and> ip ! 10 = 255 \<and> ip ! 11 = 255
             then Some (drop 12 ip) else None)"

definition mask64 :: "nat list \<Rightarrow> nat list" where
  "mask64 ip = take 8 ip @ replicate 8 0"

definition PeerKey :: "net_env \<Rightarrow> string \<Rightarrow> string" where
  "PeerKey ne addr =
     (let host = (case SplitHostPort ne addr of Some h \<Rightarrow> h | None \<Rightarrow> addr)
      in case ParseIP ne host of
           None \<Rightarrow> host
         | Some ip \<Rightarrow> (case To4 ip of
             Some v4 \<Rightarrow> ip_String ne v4
           | None \<Rightarrow> ip_String ne (mask64 ip) @ ''/64''))"

definition SelfState :: "net_env \<Rightarrow> string \<Rightarrow> string \<Rightarrow> string \<Rightarrow> int \<Rightarrow> Limiter \<Rightarrow> (bool \<times> int) \<times> Limiter" where
  "SelfState ne surface addr account now l =
     (let peer = PeerKey ne addr;
          ks = \<lparr>Surface = surface, Peer = peer, Account = ''''\<rparr>
               # (if account \<noteq> '''' then [\<lparr>Surface = surface, Peer = peer, Account = account\<rparr>] else [])
      in selfstate_loop ks now l False 0)"

definition ClearPeer :: "net_env \<Rightarrow> string \<Rightarrow> Limiter \<Rightarrow> Key list \<times> Limiter" where
  "ClearPeer ne peer l = (let norm = PeerKey ne peer in clearMatchingLocked (\<lambda>k. Peer k = norm) l)"

definition ClearAccount :: "string \<Rightarrow> Limiter \<Rightarrow> Key list \<times> Limiter" where
  "ClearAccount account l =
     (if account = '''' then ([], l) else clearMatchingLocked (\<lambda>k. Account k = account) l)"

section \<open>Attempts over several keys\<close>

record lockRecord =
  lr_key :: Key
  lr_duration :: int
  lr_failures :: int

record Attempt =
  att_keys :: "Key list"
  locks :: "lockRecord list"
  consumed :: bool

definition attempt_keys :: "net_env \<Rightarrow> string \<Rightarrow> string \<Rightarrow> string \<Rightarrow> Key list" where
  "attempt_keys ne surface addr account =
     (let peer = PeerKey ne addr
      in \<lparr>Surface = surface, Peer = peer, Account = ''''\<rparr>
         # (if account \<noteq> ''''
            then [\<lparr>Surface = surface, Peer = peer, Account = account\<rparr>,
                  \<lparr>Surface = surface, Peer = '''', Account = account\<rparr>]
            else []))"

text \<open>Every operation on a key reads the clock: the readings of one call are the list \<open>clock\<close>.\<close>

fun release_all :: "Key list \<Rightarrow> (nat \<Rightarrow> int) \<Rightarrow> nat \<Rightarrow> Limiter \<Rightarrow> Limiter" where
  "release_all [] clock i l = l"
| "release_all (k # ks) clock i l = release_all ks clock (Suc i) (release k (clock i) l)"

fun attempt_loop :: "Key list \<Rightarrow> Key list \<Rightarrow> (nat \<Rightarrow> int) \<Rightarrow> nat \<Rightarrow> Limiter \<Rightarrow> (Attempt \<times> bool \<times> int) \<times> Limiter" where
  "attempt_loop [] reserved clock i l =
     ((\<lparr>att_keys = reserved, locks = [], consumed = False\<rparr>, True, 0), l)"
| "attempt_loop (k # ks) reserved clock i l =
     (let ((ok, ra), l1) = Check k (clock i) l
      in if \<not> ok
         then ((\<lparr>att_keys = [], locks = [], consumed = False\<rparr>, False, ra),
               release_all reserved clock (Suc i) l1)
         else attempt_loop ks (reserved @ [k]) clock (Suc i) l1)"

definition Attempt_open ::
  "net_env \<Rightarrow> string \<Rightarrow> string \<Rightarrow> string \<Rightarrow> (nat \<Rightarrow> int) \<Rightarrow> Limiter \<Rightarrow> (Attempt \<times> bool \<times> int) \<times> Limiter" where
  "Attempt_open ne surface addr account clock l =
     attempt_loop (attempt_keys ne surface addr account) [] clock 0 l"

fun attempt_fail_loop ::
  "Key list \<Rightarrow> (nat \<Rightarrow> int) \<Rightarrow> nat \<Rightarrow> Limiter \<Rightarrow> bool \<Rightarrow> int \<Rightarrow> lockRecord list \<Rightarrow>
   (bool \<times> int \<times> lockRecord list) \<times> Limiter" where
  "attempt_fail_loop [] clock i l locked ra recs = ((locked, ra, recs), l)"
| "attempt_fail_loop (k # ks) clock i l locked ra recs =
     (let ((lk, ra1, n), l1) = failReport k (clock i) l
      in attempt_fail_loop ks clock (Suc i) l1 (locked \<or> lk) (max ra ra1)
           (if lk then recs @ [\<lparr>lr_key = k, lr_duration = ra1, lr_failures = n\<rparr>] else recs))"

definition Attempt_Fail :: "Attempt \<Rightarrow> (nat \<Rightarrow> int) \<Rightarrow> Limiter \<Rightarrow> (bool \<times> int) \<times> Attempt \<times> Limiter" where
  "Attempt_Fail a clock l =
     (if consumed a then ((False, 0), a, l)
      else let ((locked, ra, recs), l1) = attempt_fail_loop (att_keys a) clock 0 l False 0 (locks a)
           in ((locked, ra), a\<lparr>consumed := True, locks := recs\<rparr>, l1))"

fun success_all :: "Key list \<Rightarrow> (nat \<Rightarrow> int) \<Rightarrow> nat \<Rightarrow> Limiter \<Rightarrow> Limiter" where
  "success_all [] clock i l = l"
| "success_all (k # ks) clock i l = success_all ks clock (Suc i) (Success k (clock i) l)"

definition Attempt_Success :: "Attempt \<Rightarrow> (nat \<Rightarrow> int) \<Rightarrow> Limiter \<Rightarrow> Attempt \<times> Limiter" where
  "Attempt_Success a clock l =
     (if consumed a then (a, l) else (a\<lparr>consumed := True\<rparr>, success_all (att_keys a) clock 0 l))"

definition Attempt_Release :: "Attempt \<Rightarrow> (nat \<Rightarrow> int) \<Rightarrow> Limiter \<Rightarrow> Attempt \<times> Limiter" where
  "Attempt_Release a clock l =
     (if consumed a then (a, l) else (a\<lparr>consumed := True\<rparr>, release_all (att_keys a) clock 0 l))"

section \<open>Operator lines\<close>

definition SurfaceWords :: "string \<Rightarrow> string" where
  "SurfaceWords s =
     (if s = ''basic'' then ''WebDAV auth'' else if s = ''login'' then ''GUI login''
      else if s = ''launch'' then ''launch link'' else if s = ''open'' then ''vault open''
      else if s = ''redeem'' then ''recovery redeem'' else s)"

text \<open>Go's integer division truncates; the numerators here are non-negative or the floor applies.\<close>

definition go_div :: "int \<Rightarrow> int \<Rightarrow> int" where
  "go_div a b = sgn a * sgn b * (\<bar>a\<bar> div \<bar>b\<bar>)"

definition lockDurationPhrase :: "int \<Rightarrow> string" where
  "lockDurationPhrase d =
     (if d < Minute then
        let s0 = go_div (d + Second - 1) Second; s = (if s0 < 1 then 1 else s0)
        in if s = 1 then ''1 second'' else show_int s @ '' seconds''
      else
        let m = go_div (i64 (d + Minute - 1)) Minute
        in if m = 1 then ''1 minute'' else show_int m @ '' minutes'')"

text \<open>\<^verbatim>\<open>%q\<close> is the argument \<open>quote\<close>.\<close>

definition LockLine :: "(string \<Rightarrow> string) \<Rightarrow> Key \<Rightarrow> int \<Rightarrow> int \<Rightarrow> string" where
  "LockLine quote k d n =
     (let who = (if Peer k = '''' \<and> Account k \<noteq> ''''
                 then ''account '' @ quote (Account k) @ '' (from any source)''
                 else if Account k \<noteq> '''' then Peer k @ '' (user '' @ quote (Account k) @ '')''
                 else Peer k)
      in ''auth-limit: locked '' @ SurfaceWords (Surface k) @ '' for '' @ who @ '' for ''
         @ lockDurationPhrase d @ '' after '' @ show_int n
         @ '' failures; unlocks automatically, or restart with --auth-limit off for an incident'')"

definition LockLines :: "(string \<Rightarrow> string) \<Rightarrow> Attempt \<Rightarrow> string list" where
  "LockLines quote a = map (\<lambda>r. LockLine quote (lr_key r) (lr_duration r) (lr_failures r)) (locks a)"

section \<open>Invariant\<close>

definition policy_ok :: "Policy \<Rightarrow> bool" where
  "policy_ok p \<longleftrightarrow> 0 < FailuresBeforeLock p \<and> 0 < AccountFailuresBeforeLock p \<and> 0 < Window p
     \<and> 0 < LockStart p \<and> LockStart p \<le> LockMax p \<and> LockMax p < 2 ^ 62 \<and> 0 < MaxKeys p
     \<and> 0 \<le> FailureDelay p"

text \<open>
  An unlocked bucket has room for its failures and its reservations below the threshold; a locked
  one has reached the threshold and holds no reservation.
\<close>

definition key_ok :: "Policy \<Rightarrow> Key \<Rightarrow> state \<Rightarrow> bool" where
  "key_ok p k st \<longleftrightarrow> 0 \<le> failures st \<and> 0 \<le> pending st \<and> 0 \<le> lockLen st \<and> lockLen st \<le> LockMax p
     \<and> 0 \<le> lockedUntil st
     \<and> (if IsZero (lockedUntil st)
        then failures st < thresholdFor p k \<and> failures st + pending st \<le> thresholdFor p k
        else thresholdFor p k \<le> failures st \<and> pending st = 0 \<and> 0 < lockLen st)"

definition limiter_inv :: "Limiter \<Rightarrow> bool" where
  "limiter_inv l \<longleftrightarrow> policy_ok (policy l) \<and> distinct (map fst (keys l))
     \<and> (\<forall>(k, st) \<in> set (keys l). key_ok (policy l) k st)"

lemma time_Sub_self [simp]: "time_Sub t t = 0"
  by (simp add: time_Sub_def)

lemma threshold_pos: "policy_ok p \<Longrightarrow> 0 < thresholdFor p k"
  by (simp add: policy_ok_def thresholdFor_def)

lemma fresh_ok [inv_intros]: "policy_ok p \<Longrightarrow> key_ok p k (fresh_state now)"
  using threshold_pos [of p k] by (simp add: key_ok_def fresh_state_def IsZero_def policy_ok_def)

lemma refresh_ok:
  assumes "policy_ok p" and "key_ok p k st"
  shows "key_ok p k (refreshLocked p k now st)"
  using assms threshold_pos [of p k]
  unfolding key_ok_def refreshLocked_def Let_def IsZero_def by (auto simp: policy_ok_def)

lemma refresh_unlocks:
  "is_locked now (refreshLocked p k now st) \<or> lockedUntil (refreshLocked p k now st) = 0"
  unfolding is_locked_def refreshLocked_def Let_def IsZero_def by auto

lemma refresh_lockedUntil:
  "lockedUntil (refreshLocked p k now st) = (if is_locked now st then lockedUntil st else 0)"
  unfolding is_locked_def refreshLocked_def Let_def IsZero_def by auto

lemma refresh_locked_same: "key_ok p k st \<Longrightarrow> policy_ok p \<Longrightarrow> is_locked now st \<Longrightarrow> refreshLocked p k now st = st"
  using threshold_pos [of p k] by (auto simp: key_ok_def is_locked_def refreshLocked_def Let_def IsZero_def)

lemma next_lockLen_bounds:
  assumes "policy_ok p" and "len \<le> LockMax p"
  shows "0 < next_lockLen p len" "next_lockLen p len \<le> LockMax p"
    "next_lockLen p len = (if len \<le> 0 then LockStart p else min (2 * len) (LockMax p))"
proof -
  have "0 < len \<Longrightarrow> i64 (len * 2) = len * 2"
    using assms by (intro i64_id) (auto simp: policy_ok_def)
  then show "0 < next_lockLen p len" "next_lockLen p len \<le> LockMax p"
    "next_lockLen p len = (if len \<le> 0 then LockStart p else min (2 * len) (LockMax p))"
    using assms by (auto simp: next_lockLen_def policy_ok_def Let_def)
qed

lemma limiter_inv_lookup: "limiter_inv l \<Longrightarrow> map_of (keys l) k = Some st \<Longrightarrow> key_ok (policy l) k st"
  by (auto simp: limiter_inv_def dest: map_of_SomeD)

lemma limiter_inv_put [inv_intros]:
  "limiter_inv l \<Longrightarrow> key_ok (policy l) k st \<Longrightarrow> limiter_inv (put_state k st l)"
  unfolding limiter_inv_def put_state_def by (auto simp: distinct_update dest: in_update)

lemma limiter_inv_delete [inv_intros]:
  "limiter_inv l \<Longrightarrow> limiter_inv (l\<lparr>keys := AList.delete k (keys l)\<rparr>)"
  unfolding limiter_inv_def by (auto simp: distinct_delete AList.delete_eq)

lemma evict_cases:
  obtains "evictOneLocked now l = l" | k where "evictOneLocked now l = l\<lparr>keys := AList.delete k (keys l)\<rparr>"
proof -
  obtain a b where "evict_scan now (keys l) None None = (a, b)" by fastforce
  then show thesis using that by (cases a; cases b) (auto simp: evictOneLocked_def)
qed

lemma policy_evict [simp]: "policy (evictOneLocked now l) = policy l"
  by (rule evict_cases [of now l]) auto

lemma limiter_inv_evict [inv_intros]: "limiter_inv l \<Longrightarrow> limiter_inv (evictOneLocked now l)"
  by (rule evict_cases [of now l]) (auto intro: inv_intros)

lemma getOrCreate_policy: "getOrCreateLocked k now l = (st, l1) \<Longrightarrow> policy l1 = policy l"
  by (auto simp: getOrCreateLocked_def Let_def split: option.splits)

lemma getOrCreate_inv:
  assumes "limiter_inv l" and "getOrCreateLocked k now l = (st, l1)"
  shows "limiter_inv l1 \<and> map_of (keys l1) k = Some st \<and> key_ok (policy l1) k st"
proof (cases "map_of (keys l) k")
  case None
  let ?l = "if int (length (keys l)) \<ge> MaxKeys (policy l) then evictOneLocked now l else l"
  have "limiter_inv ?l" "policy ?l = policy l" using assms(1) limiter_inv_evict by auto
  moreover have "policy_ok (policy l)" using assms(1) by (simp add: limiter_inv_def)
  moreover have "st = fresh_state now" "l1 = put_state k st ?l"
    using assms(2) None by (auto simp: getOrCreateLocked_def Let_def put_state_def)
  ultimately show ?thesis
    using fresh_ok limiter_inv_put by (auto simp: put_state_def update_Some_unfold)
next
  case (Some s)
  then show ?thesis using assms limiter_inv_lookup by (auto simp: getOrCreateLocked_def)
qed

lemma key_ok_lastSeen [simp]: "key_ok p k (st\<lparr>lastSeen := t\<rparr>) = key_ok p k st"
  by (simp add: key_ok_def)

lemma enter_inv:
  assumes "limiter_inv l" and "enter k now l = (st, l1)"
  shows "limiter_inv l1 \<and> key_ok (policy l1) k st \<and> policy l1 = policy l"
proof -
  obtain s where g: "getOrCreateLocked k now l = (s, l1)"
    and st: "st = (refreshLocked (policy l1) k now s)\<lparr>lastSeen := now\<rparr>"
    using assms(2) by (auto simp: enter_def split: prod.splits)
  then show ?thesis using getOrCreate_inv [OF assms(1) g] getOrCreate_policy [OF g] refresh_ok
    by (auto simp: limiter_inv_def)
qed

lemma key_ok_drop: "key_ok p k st \<Longrightarrow> key_ok p k (drop_pending st)"
  by (auto simp: key_ok_def drop_pending_def)

lemma enter_lock: "enter k now l = (st, l1) \<Longrightarrow> is_locked now st \<or> lockedUntil st = 0"
  using refresh_unlocks by (fastforce simp: enter_def is_locked_def split: prod.splits)

lemma Check_inv [inv_intros]:
  assumes "limiter_inv l"
  shows "limiter_inv (snd (Check k now l))"
proof -
  obtain st l1 where e: "enter k now l = (st, l1)" by fastforce
  note i = enter_inv [OF assms e] and u = enter_lock [OF e]
  have "key_ok (policy l1) k (st\<lparr>pending := pending st + 1\<rparr>)"
    if "\<not> is_locked now st" "failures st + pending st < thresholdFor (policy l1) k"
    using i u that by (auto simp: key_ok_def IsZero_def)
  then show ?thesis using i by (auto simp: Check_def e intro: inv_intros)
qed

lemma fail_state_ok:
  assumes "policy_ok p" and "key_ok p k st0" and "0 \<le> now"
    and "is_locked now st0 \<or> lockedUntil st0 = 0"
  defines "st \<equiv> (drop_pending st0)\<lparr>failures := failures st0 + 1, lastFailure := now\<rparr>"
  shows "failures st \<ge> thresholdFor p k \<Longrightarrow>
      key_ok p k (st\<lparr>lockLen := next_lockLen p (lockLen st), lockedUntil := now + next_lockLen p (lockLen st)\<rparr>)"
    and "\<not> failures st \<ge> thresholdFor p k \<Longrightarrow> key_ok p k st"
proof -
  have "lockLen st = lockLen st0" by (simp add: st_def drop_pending_def)
  then have n: "0 < next_lockLen p (lockLen st)" "next_lockLen p (lockLen st) \<le> LockMax p"
    using next_lockLen_bounds [OF assms(1), of "lockLen st"] assms(2) by (auto simp: key_ok_def)
  show "failures st \<ge> thresholdFor p k \<Longrightarrow>
      key_ok p k (st\<lparr>lockLen := next_lockLen p (lockLen st), lockedUntil := now + next_lockLen p (lockLen st)\<rparr>)"
    using assms(2-4) n by (auto simp: key_ok_def st_def drop_pending_def IsZero_def split: if_splits)
  show "\<not> failures st \<ge> thresholdFor p k \<Longrightarrow> key_ok p k st"
    using assms(2-4) by (auto simp: key_ok_def st_def drop_pending_def IsZero_def split: if_splits)
qed

lemma failures_drop [simp]: "failures (drop_pending st) = failures st"
  by (simp add: drop_pending_def)

lemma failReport_inv [inv_intros]:
  assumes "limiter_inv l" and "0 \<le> now"
  shows "limiter_inv (snd (failReport k now l))"
proof -
  obtain st l1 where e: "enter k now l = (st, l1)" by fastforce
  note i = enter_inv [OF assms(1) e] and u = enter_lock [OF e]
  have "policy_ok (policy l1)" using conjunct1 [OF i] unfolding limiter_inv_def by blast
  note f = fail_state_ok [OF this conjunct1 [OF conjunct2 [OF i]] assms(2) u]
  show ?thesis
  proof (cases "failures st + 1 \<ge> thresholdFor (policy l1) k")
    case True
    then show ?thesis using i f(1) by (auto simp: failReport_def e Let_def intro: limiter_inv_put)
  next
    case False
    then show ?thesis using i f(2) by (auto simp: failReport_def e Let_def intro: limiter_inv_put)
  qed
qed

lemma Success_inv [inv_intros]:
  assumes "limiter_inv l"
  shows "limiter_inv (Success k now l)"
proof (cases "map_of (keys l) k")
  case (Some st)
  have p: "policy_ok (policy l)" using assms by (simp add: limiter_inv_def)
  have "key_ok (policy l) k ((drop_pending (st\<lparr>lastSeen := now\<rparr>))
             \<lparr>failures := 0, lockLen := 0, lockedUntil := 0, lastFailure := 0\<rparr>)"
    using limiter_inv_lookup [OF assms Some] threshold_pos [OF p, of k] p
    by (auto simp: key_ok_def drop_pending_def IsZero_def policy_ok_def split: if_splits)
  then show ?thesis using assms Some by (auto simp: Success_def intro: limiter_inv_put)
qed (use assms in \<open>simp add: Success_def\<close>)

lemma release_inv [inv_intros]: "limiter_inv l \<Longrightarrow> limiter_inv (release k now l)"
  by (auto simp: release_def intro!: limiter_inv_put key_ok_drop split: option.splits
      dest: limiter_inv_lookup)

lemma selfstate_loop_inv [inv_intros]: "limiter_inv l \<Longrightarrow> limiter_inv (snd (selfstate_loop ks now l b ra))"
proof (induction ks arbitrary: l b ra)
  case (Cons k ks)
  show ?case
  proof (cases "map_of (keys l) k")
    case (Some st)
    then have "limiter_inv (put_state k (refreshLocked (policy l) k now st) l)"
      using Cons.prems limiter_inv_lookup refresh_ok limiter_inv_put by (auto simp: limiter_inv_def)
    then show ?thesis using Some Cons.IH by (auto simp: Let_def)
  qed (use Cons in simp)
qed simp

lemma clear_inv [inv_intros]: "limiter_inv l \<Longrightarrow> limiter_inv (snd (clearMatchingLocked match l))"
proof -
  have "limiter_inv l \<Longrightarrow> limiter_inv (fold (\<lambda>k l. l\<lparr>keys := AList.delete k (keys l)\<rparr>) ks l)" for ks
    by (induction ks arbitrary: l) (auto intro: inv_intros)
  then show "limiter_inv l \<Longrightarrow> limiter_inv (snd (clearMatchingLocked match l))"
    by (simp add: clearMatchingLocked_def Let_def)
qed

section \<open>Eviction\<close>

definition idle_state :: "int \<Rightarrow> state \<Rightarrow> bool" where
  "idle_state now st \<longleftrightarrow> \<not> pending st > 0 \<and> \<not> is_locked now st"

definition parked_state :: "int \<Rightarrow> state \<Rightarrow> bool" where
  "parked_state now st \<longleftrightarrow> \<not> pending st > 0 \<and> is_locked now st"

text \<open>A scan keeps the first oldest candidate of its class.\<close>

definition best_of :: "(state \<Rightarrow> bool) \<Rightarrow> (Key \<times> state) list \<Rightarrow> (Key \<times> int) option \<Rightarrow> bool" where
  "best_of P ks best \<longleftrightarrow>
     (case best of
        None \<Rightarrow> \<forall>(k, st) \<in> set ks. \<not> P st
      | Some (k, t) \<Rightarrow> (\<exists>st. (k, st) \<in> set ks \<and> P st \<and> lastSeen st = t)
          \<and> (\<forall>(k', st') \<in> set ks. P st' \<longrightarrow> t \<le> lastSeen st'))"

lemma best_of_snoc:
  "best_of P ks best \<Longrightarrow>
   best_of P (ks @ [(k, st)])
     (if P st then (if older st best then Some (k, lastSeen st) else best) else best)"
  by (cases best) (force simp: best_of_def older_def)+

lemma evict_scan_best:
  "best_of (idle_state now) seen idle \<Longrightarrow> best_of (parked_state now) seen lockd \<Longrightarrow>
   evict_scan now ks idle lockd = (i', l') \<Longrightarrow>
   best_of (idle_state now) (seen @ ks) i' \<and> best_of (parked_state now) (seen @ ks) l'"
proof (induction now ks idle lockd arbitrary: seen rule: evict_scan.induct)
  case (2 now k st ks idle lockd)
  note b = best_of_snoc [OF "2.prems"(1), of k st] best_of_snoc [OF "2.prems"(2), of k st]
  consider "pending st > 0" | "\<not> pending st > 0" "is_locked now st"
    | "\<not> pending st > 0" "\<not> is_locked now st" by blast
  then show ?case
  proof cases
    case 1
    then show ?thesis using "2.IH"(1) [of "seen @ [(k, st)]"] b "2.prems"(3)
      by (simp add: idle_state_def parked_state_def)
  next
    case 2
    then show ?thesis using "2.IH"(2) [of "seen @ [(k, st)]"] b "2.prems"(3)
      by (simp add: idle_state_def parked_state_def)
  next
    case 3
    then show ?thesis using "2.IH"(3) [of "seen @ [(k, st)]"] b "2.prems"(3)
      by (simp add: idle_state_def parked_state_def)
  qed
qed simp

lemma evict_result:
  obtains (keep) "evictOneLocked now l = l" "\<forall>(k, st) \<in> set (keys l). pending st > 0"
  | (drop) k st where "(k, st) \<in> set (keys l)" "\<not> pending st > 0"
      "evictOneLocked now l = l\<lparr>keys := AList.delete k (keys l)\<rparr>"
      "is_locked now st \<Longrightarrow> \<forall>(k', st') \<in> set (keys l). pending st' > 0 \<or> is_locked now st'"
      "\<forall>(k', st') \<in> set (keys l). \<not> pending st' > 0 \<and> is_locked now st' = is_locked now st
         \<longrightarrow> lastSeen st \<le> lastSeen st'"
proof -
  obtain i' l' where e: "evict_scan now (keys l) None None = (i', l')" by fastforce
  have b: "best_of (idle_state now) (keys l) i'" "best_of (parked_state now) (keys l) l'"
    using evict_scan_best [OF _ _ e, of "[]"] by (auto simp: best_of_def)
  show thesis
  proof (cases i')
    case (Some kt)
    obtain k t where kt: "kt = (k, t)" by fastforce
    obtain st where "(k, st) \<in> set (keys l)" "idle_state now st" "lastSeen st = t"
      "\<forall>(k', st') \<in> set (keys l). idle_state now st' \<longrightarrow> t \<le> lastSeen st'"
      using b(1) Some kt by (auto simp: best_of_def)
    then show thesis using drop [of k st] e Some kt by (auto simp: evictOneLocked_def idle_state_def)
  next
    case None
    then have n: "\<forall>(k', st') \<in> set (keys l). pending st' > 0 \<or> is_locked now st'"
      using b(1) by (auto simp: best_of_def idle_state_def)
    show thesis
    proof (cases l')
      case (Some kt)
      obtain k t where kt: "kt = (k, t)" by fastforce
      obtain st where "(k, st) \<in> set (keys l)" "parked_state now st" "lastSeen st = t"
        "\<forall>(k', st') \<in> set (keys l). parked_state now st' \<longrightarrow> t \<le> lastSeen st'"
        using b(2) Some kt by (auto simp: best_of_def)
      then show thesis using drop [of k st] e None Some kt n
        by (auto simp: evictOneLocked_def parked_state_def)
    next
      case None
      then show thesis using keep b(2) n e \<open>i' = None\<close>
        by (fastforce simp: evictOneLocked_def best_of_def parked_state_def)
    qed
  qed
qed

lemma length_delete_present:
  "distinct (map fst ks) \<Longrightarrow> (k, v) \<in> set ks \<Longrightarrow> length (AList.delete k ks) = length ks - 1"
proof (induction ks)
  case (Cons a ks)
  have "k \<notin> fst ` set ks \<Longrightarrow> AList.delete k ks = ks"
    by (simp add: AList.delete_idem)
  then show ?case using Cons by (cases a) (auto simp: Suc_leI, metis One_nat_def Suc_pred length_pos_if_in_set)
qed simp

section \<open>Runs of the limiter\<close>

datatype lim_event =
  EvCheck Key int bool | EvFail Key int bool | EvSuccess Key int | EvRelease Key int
| EvSelf "Key list" int | EvClear

inductive lim_step :: "Limiter \<Rightarrow> lim_event \<Rightarrow> Limiter \<Rightarrow> bool" where
  step_check: "0 \<le> now \<Longrightarrow> Check k now l = ((ok, ra), l') \<Longrightarrow> lim_step l (EvCheck k now ok) l'"
| step_fail: "0 \<le> now \<Longrightarrow> failReport k now l = ((lk, ra, n), l') \<Longrightarrow> lim_step l (EvFail k now lk) l'"
| step_success: "0 \<le> now \<Longrightarrow> lim_step l (EvSuccess k now) (Success k now l)"
| step_release: "0 \<le> now \<Longrightarrow> lim_step l (EvRelease k now) (release k now l)"
| step_self: "0 \<le> now \<Longrightarrow> selfstate_loop ks now l False 0 = (r, l') \<Longrightarrow> lim_step l (EvSelf ks now) l'"
| step_clear: "clearMatchingLocked m l = (c, l') \<Longrightarrow> lim_step l EvClear l'"

lemma lim_step_inv: "limiter_inv l \<Longrightarrow> lim_step l e l' \<Longrightarrow> limiter_inv l'"
  by (erule lim_step.cases) (metis Check_inv failReport_inv Success_inv release_inv selfstate_loop_inv
      clear_inv snd_conv)+

interpretation lim: stepped lim_step limiter_inv
  by unfold_locales (rule lim_step_inv)

lemma normalize_ok: "LockMax (normalize p) < 2 ^ 62 \<Longrightarrow> policy_ok (normalize p)"
  unfolding normalize_def Let_def policy_ok_def by (auto simp: DefaultPolicy_def Minute_def Second_def)

lemma New_inv: "LockMax (normalize p) < 2 ^ 62 \<Longrightarrow> limiter_inv (New p)"
  using normalize_ok by (simp add: limiter_inv_def New_def)

section \<open>Reservations\<close>

definition pend :: "Limiter \<Rightarrow> Key \<Rightarrow> int" where
  "pend l k = (case map_of (keys l) k of None \<Rightarrow> 0 | Some st \<Rightarrow> pending st)"

lemma pend_nonneg: "limiter_inv l \<Longrightarrow> 0 \<le> pend l k"
  by (auto simp: pend_def key_ok_def dest: limiter_inv_lookup split: option.splits)

lemma pend_put [simp]: "pend (put_state k st l) k' = (if k' = k then pending st else pend l k')"
  by (simp add: pend_def put_state_def update_conv')

lemma pend_delete: "pend (l\<lparr>keys := AList.delete k (keys l)\<rparr>) k' = (if k' = k then 0 else pend l k')"
  by (simp add: pend_def AList.delete_conv')

lemma pend_evict:
  assumes "limiter_inv l"
  shows "pend (evictOneLocked now l) k = pend l k"
proof (cases rule: evict_result [of now l])
  case (drop k' st)
  then have "map_of (keys l) k' = Some st" using assms by (simp add: limiter_inv_def)
  then have "pend l k' = 0"
    using drop(2) pend_nonneg [OF assms, of k'] by (simp add: pend_def)
  then show ?thesis by (simp add: drop(3) pend_delete)
qed simp

lemma pend_getOrCreate:
  assumes "limiter_inv l" and "getOrCreateLocked k now l = (st, l1)"
  shows "pending st = pend l k \<and> (\<forall>k'. pend l1 k' = pend l k')"
proof (cases "map_of (keys l) k")
  case None
  let ?l = "if int (length (keys l)) \<ge> MaxKeys (policy l) then evictOneLocked now l else l"
  have "st = fresh_state now" "l1 = put_state k st ?l"
    using assms(2) None by (auto simp: getOrCreateLocked_def Let_def put_state_def)
  then show ?thesis using None pend_evict [OF assms(1)] by (auto simp: pend_def [of l k] fresh_state_def)
next
  case (Some s)
  then show ?thesis using assms(2) by (auto simp: getOrCreateLocked_def pend_def)
qed

lemma refresh_pending: "policy_ok p \<Longrightarrow> 0 \<le> pending st \<Longrightarrow> pending (refreshLocked p k now st) \<le> pending st"
  using threshold_pos [of p k] unfolding refreshLocked_def Let_def by auto

lemma pend_enter:
  assumes "limiter_inv l" and "enter k now l = (st, l1)"
  shows "pending st \<le> pend l k \<and> (\<forall>k'. pend l1 k' = pend l k')"
proof -
  obtain s where g: "getOrCreateLocked k now l = (s, l1)"
    and st: "st = (refreshLocked (policy l1) k now s)\<lparr>lastSeen := now\<rparr>"
    using assms(2) by (auto simp: enter_def split: prod.splits)
  have "policy_ok (policy l1)" "0 \<le> pending s"
    using getOrCreate_inv [OF assms(1) g] by (auto simp: limiter_inv_def key_ok_def)
  then have "pending (refreshLocked (policy l1) k now s) \<le> pending s" by (rule refresh_pending)
  then show ?thesis using st pend_getOrCreate [OF assms(1) g] by auto
qed

lemma pend_Check:
  assumes "limiter_inv l" and "Check k now l = ((ok, ra), l')"
  shows "pend l' k' \<le> pend l k' + (if ok \<and> k' = k then 1 else 0)"
proof -
  obtain st l1 where e: "enter k now l = (st, l1)" by fastforce
  then show ?thesis using pend_enter [OF assms(1) e] assms(2)
    by (auto simp: Check_def split: if_splits)
qed

lemma pend_release:
  assumes "limiter_inv l"
  shows "pend (release k now l) k' = (if k' = k then max 0 (pend l k - 1) else pend l k')"
proof (cases "map_of (keys l) k")
  case (Some st)
  then have "0 \<le> pending st" using limiter_inv_lookup [OF assms] by (auto simp: key_ok_def)
  then show ?thesis using Some by (auto simp: release_def pend_def [of l k] drop_pending_def)
qed (simp add: release_def pend_def)

lemma pend_release_all:
  "limiter_inv l \<Longrightarrow> pend (release_all ks clock i l) k = max 0 (pend l k - int (count_list ks k))"
proof (induction ks arbitrary: l i)
  case Nil
  then show ?case using pend_nonneg [of l k] by simp
next
  case (Cons a ks)
  have "0 \<le> pend l k" "0 \<le> pend l a" using pend_nonneg Cons.prems by auto
  then show ?case using Cons pend_release [OF Cons.prems, of a "clock i" k] release_inv [OF Cons.prems]
    by auto
qed

lemma attempt_loop_denied:
  assumes "limiter_inv l" and "attempt_loop ks reserved clock i l = ((a, False, ra), l')"
    and "\<forall>k. pend l k \<le> base k + int (count_list reserved k)" and "\<forall>k. 0 \<le> base k"
  shows "pend l' k \<le> base k \<and> att_keys a = []"
  using assms
proof (induction ks reserved clock i l rule: attempt_loop.induct)
  case (2 k0 ks reserved clock i l)
  obtain ok ra0 l1 where c: "Check k0 (clock i) l = ((ok, ra0), l1)" by (metis prod.collapse)
  have i1: "limiter_inv l1" using Check_inv [OF "2.prems"(1), of k0 "clock i"] c by simp
  show ?case
  proof (cases ok)
    case True
    have "\<forall>k. pend l1 k \<le> base k + int (count_list (reserved @ [k0]) k)"
    proof
      fix k show "pend l1 k \<le> base k + int (count_list (reserved @ [k0]) k)"
        using pend_Check [OF "2.prems"(1) c, of k] "2.prems"(3) [rule_format, of k] True by auto
    qed
    then show ?thesis using "2.IH" [OF c [symmetric] refl refl _ i1] "2.prems"(2,4) c True by auto
  next
    case False
    have "pend l1 k \<le> base k + int (count_list reserved k)"
      using pend_Check [OF "2.prems"(1) c, of k] "2.prems"(3) [rule_format, of k] False by auto
    then show ?thesis using "2.prems"(2,4) c False pend_release_all [OF i1] by auto
  qed
qed simp

section \<open>Properties\<close>

text \<open>A concrete limiter for evaluations.\<close>

definition demo_policy :: Policy where
  "demo_policy = \<lparr>FailuresBeforeLock = 1, AccountFailuresBeforeLock = 2, Window = 100, LockStart = 10,
     LockMax = 15, FailureDelay = 1, MaxKeys = 1\<rparr>"

definition demo_key :: Key where
  "demo_key = \<lparr>Surface = ''basic'', Peer = ''192.0.2.7'', Account = ''''\<rparr>"

lemma demo_normalized: "normalize demo_policy = demo_policy"
  by (simp add: normalize_def demo_policy_def)

lemma demo_new_inv: "limiter_inv (New demo_policy)"
  by (rule New_inv) (simp add: demo_normalized, simp add: demo_policy_def)

definition demo_other :: Key where
  "demo_other = \<lparr>Surface = ''login'', Peer = ''192.0.2.8'', Account = ''''\<rparr>"

text \<open>One attempt in flight; the same bucket locked after it failed.\<close>

definition demo_held :: Limiter where
  "demo_held = snd (Check demo_key 5 (New demo_policy))"

definition demo_locked :: Limiter where
  "demo_locked = snd (failReport demo_key 6 demo_held)"

lemma demo_held_inv: "limiter_inv demo_held"
  unfolding demo_held_def by (rule Check_inv [OF demo_new_inv])

lemma demo_locked_inv: "limiter_inv demo_locked"
  unfolding demo_locked_def by (rule failReport_inv [OF demo_held_inv]) simp

definition demo_lock_state :: state where
  "demo_lock_state = \<lparr>failures = 1, pending = 0, lockedUntil = 16, lockLen = 10, lastFailure = 6,
     lastSeen = 6\<rparr>"

lemma demo_locked_lookup: "map_of (keys demo_locked) demo_key = Some demo_lock_state"
  by code_simp

definition demo_net :: net_env where
  "demo_net = \<lparr>SplitHostPort = (\<lambda>s. Some s), ParseIP = (\<lambda>_. None), ip_String = (\<lambda>_. '''')\<rparr>"

text \<open>
  C2.  However the callers' operations interleave and whatever the clock reads, a bucket of the
  limiter never admits more guesses than its threshold: while it is not locked, the failures of the
  streak plus the attempts in flight stay within the threshold, and a bucket whose streak has
  reached the threshold is locked with no attempt in flight.
\<close>

theorem limiter_never_overcommits:
  assumes "LockMax (normalize p) < 2 ^ 62" and "run_of lim_step (New p) es l"
    and "map_of (keys l) k = Some st"
  shows "0 \<le> pending st \<and> 0 \<le> failures st
    \<and> (if IsZero (lockedUntil st) then failures st + pending st \<le> thresholdFor (policy l) k
       else thresholdFor (policy l) k \<le> failures st \<and> pending st = 0)
    \<and> lockLen st \<le> LockMax (policy l)"
proof -
  have "limiter_inv l" using lim.run_inv [OF assms(2) New_inv] assms(1) .
  from limiter_inv_lookup [OF this assms(3)] show ?thesis by (auto simp: key_ok_def)
qed

theorem limiter_never_overcommits_witness:
  "\<exists>es l st. run_of lim_step (New demo_policy) es l \<and> map_of (keys l) demo_key = Some st
     \<and> failures st + pending st \<le> thresholdFor (policy l) demo_key"
proof -
  obtain ok ra l where c: "Check demo_key 5 (New demo_policy) = ((ok, ra), l)" by (metis prod.collapse)
  have "lim_step (New demo_policy) (EvCheck demo_key 5 ok) l" using c by (intro step_check) auto
  then have r: "run_of lim_step (New demo_policy) [EvCheck demo_key 5 ok] l"
    by (simp add: run_of_Cons)
  have "map_of (keys (snd (Check demo_key 5 (New demo_policy)))) demo_key
      = Some ((fresh_state 5)\<lparr>pending := 1\<rparr>)" by code_simp
  then have k: "map_of (keys l) demo_key = Some ((fresh_state 5)\<lparr>pending := 1\<rparr>)" by (simp add: c)
  have "LockMax (normalize demo_policy) < 2 ^ 62"
    by (simp add: demo_normalized) (simp add: demo_policy_def)
  from limiter_never_overcommits [OF this r k]
  have "1 \<le> thresholdFor (policy l) demo_key" by (simp add: fresh_state_def IsZero_def)
  then show ?thesis using r k
    by (intro exI [of _ "[EvCheck demo_key 5 ok]"] exI [of _ l] exI [of _ "(fresh_state 5)\<lparr>pending := 1\<rparr>"])
       (simp add: fresh_state_def)
qed

text \<open>
  The decision of \<^const>\<open>Check\<close>: a locked bucket denies with the time that is left and reserves
  nothing; an unlocked one grants exactly when the refreshed failures and reservations leave room,
  taking one reservation; and no other bucket's reservations change.
\<close>

theorem Check_decision:
  assumes "limiter_inv l" and "Check k now l = ((ok, ra), l')" and "map_of (keys l) k = Some st"
  shows "(is_locked now st \<longrightarrow> \<not> ok \<and> ra = time_Sub (lockedUntil st) now \<and> pend l' k = pend l k)
    \<and> (\<not> is_locked now st \<longrightarrow>
         (let s = refreshLocked (policy l) k now st
          in ok = (failures s + pending s < thresholdFor (policy l) k)
             \<and> pend l' k = pending s + (if ok then 1 else 0)))
    \<and> (\<forall>k'. k' \<noteq> k \<longrightarrow> map_of (keys l') k' = map_of (keys l) k')"
proof -
  have ok: "key_ok (policy l) k st" "policy_ok (policy l)"
    using assms limiter_inv_lookup by (auto simp: limiter_inv_def)
  have e: "enter k now l = ((refreshLocked (policy l) k now st)\<lparr>lastSeen := now\<rparr>, l)"
    using assms(3) by (simp add: enter_def getOrCreateLocked_def)
  show ?thesis
  proof (cases "is_locked now st")
    case True
    then have s: "refreshLocked (policy l) k now st = st" using refresh_locked_same ok by blast
    have "is_locked now (st\<lparr>lastSeen := now\<rparr>)" using True by (simp add: is_locked_def)
    then show ?thesis using assms(2,3) True
      by (auto simp: Check_def e s pend_def put_state_def update_conv')
  next
    case False
    then have "\<not> is_locked now ((refreshLocked (policy l) k now st)\<lparr>lastSeen := now\<rparr>)"
      using refresh_lockedUntil [of "policy l" k now st] by (simp add: is_locked_def IsZero_def)
    then show ?thesis using assms(2,3) False
      by (auto simp: Check_def e Let_def pend_def put_state_def update_conv' split: if_splits)
  qed
qed

theorem Check_decision_witness:
  "fst (fst (Check demo_key 10 demo_locked)) = False \<and> snd (fst (Check demo_key 10 demo_locked)) = 6"
proof -
  obtain ok ra l' where c: "Check demo_key 10 demo_locked = ((ok, ra), l')" by (metis prod.collapse)
  have "is_locked 10 demo_lock_state" "time_Sub (lockedUntil demo_lock_state) 10 = 6" by code_simp+
  then show ?thesis using Check_decision [OF demo_locked_inv c demo_locked_lookup] c by simp
qed

text \<open>
  A lock that has run out admits one further guess, not a new streak: within the window the
  next \<^const>\<open>Check\<close> is granted, a second one beside it is denied, and a failure locks the bucket again for
  twice the previous length, capped at \<open>LockMax\<close>.
\<close>

theorem expired_lock_admits_one:
  assumes "limiter_inv l" and "map_of (keys l) k = Some st" and "\<not> IsZero (lockedUntil st)"
    and "lockedUntil st \<le> now" and "time_Sub now (lastFailure st) < Window (policy l)"
    and "Check k now l = ((ok, ra), l1)" and "Check k now l1 = ((ok', ra'), l2)"
    and "failReport k now l1 = ((lk, len, n), l3)"
  shows "ok \<and> \<not> ok' \<and> lk \<and> len = min (2 * lockLen st) (LockMax (policy l))"
proof -
  have ok: "key_ok (policy l) k st" "policy_ok (policy l)"
    using assms(1,2) limiter_inv_lookup by (auto simp: limiter_inv_def)
  then have st: "pending st = 0" "thresholdFor (policy l) k \<le> failures st" "0 < lockLen st"
    "lockLen st \<le> LockMax (policy l)" using assms(3) by (auto simp: key_ok_def)
  let ?s = "st\<lparr>lockedUntil := 0, failures := thresholdFor (policy l) k - 1, lastSeen := now\<rparr>"
  let ?s1 = "?s\<lparr>pending := 1\<rparr>"
  have thr: "0 < thresholdFor (policy l) k" using threshold_pos ok by blast
  have r: "(refreshLocked (policy l) k now st)\<lparr>lastSeen := now\<rparr> = ?s"
    using assms(3-5) st thr by (simp add: refreshLocked_def Let_def IsZero_def)
  have e: "enter k now l = (?s, l)" using assms(2) r by (simp add: enter_def getOrCreateLocked_def)
  have "l1 = put_state k ?s1 l" "ok"
    using assms(6) st by (auto simp: Check_def e is_locked_def IsZero_def)
  moreover have "refreshLocked (policy l) k now ?s1 = ?s1"
    using assms(5) thr ok(2) by (simp add: refreshLocked_def Let_def IsZero_def policy_ok_def)
  ultimately have e1: "enter k now l1 = (?s1, l1)" and p1: "policy l1 = policy l"
    by (auto simp: enter_def getOrCreateLocked_def put_state_def update_conv')
  have "\<not> ok'" using assms(7) by (auto simp: Check_def e1 p1 is_locked_def IsZero_def)
  moreover have "lk \<and> len = next_lockLen (policy l) (lockLen st)"
    using assms(8) by (auto simp: failReport_def e1 p1 drop_pending_def Let_def)
  ultimately show ?thesis using \<open>ok\<close> next_lockLen_bounds(3) [OF ok(2) st(4)] st(3) by auto
qed

theorem expired_lock_admits_one_witness:
  "fst (snd (fst (failReport demo_key 20 (snd (Check demo_key 20 demo_locked))))) = 15"
proof -
  obtain ok ra l1 where c1: "Check demo_key 20 demo_locked = ((ok, ra), l1)" by (metis prod.collapse)
  obtain ok' ra' l2 where c2: "Check demo_key 20 l1 = ((ok', ra'), l2)" by (metis prod.collapse)
  obtain lk len n l3 where f: "failReport demo_key 20 l1 = ((lk, len, n), l3)" by (metis prod.collapse)
  have "\<not> IsZero (lockedUntil demo_lock_state)" "lockedUntil demo_lock_state \<le> 20"
    "time_Sub 20 (lastFailure demo_lock_state) < Window (policy demo_locked)" by code_simp+
  from expired_lock_admits_one [OF demo_locked_inv demo_locked_lookup this c1 c2 f]
  have "len = min (2 * lockLen demo_lock_state) (LockMax (policy demo_locked))" by blast
  also have "\<dots> = 15" by code_simp
  finally show ?thesis by (simp add: c1 f)
qed

text \<open>
  C33.  The bucket map stays bounded without giving anything away: opening a bucket never drops one
  with an attempt in flight, drops a locked bucket only when no unlocked one could go instead, and
  grows the map past \<open>MaxKeys\<close> only when every bucket holds an attempt in flight.
\<close>

theorem getOrCreate_bounded:
  assumes "limiter_inv l" and "getOrCreateLocked k now l = (st, l1)"
  shows "(\<forall>k' st'. map_of (keys l) k' = Some st' \<and> pending st' > 0 \<longrightarrow> map_of (keys l1) k' = Some st')
    \<and> (\<forall>k' st'. map_of (keys l) k' = Some st' \<and> is_locked now st' \<and> map_of (keys l1) k' = None \<longrightarrow>
         (\<forall>(k2, st2) \<in> set (keys l). pending st2 > 0 \<or> is_locked now st2))
    \<and> (int (length (keys l1)) \<le> max (MaxKeys (policy l)) (int (length (keys l)))
       \<or> (\<forall>(k2, st2) \<in> set (keys l). pending st2 > 0))"
proof (cases "map_of (keys l) k")
  case (Some s)
  then show ?thesis using assms(2) by (auto simp: getOrCreateLocked_def)
next
  case None
  have d: "distinct (map fst (keys l))" using assms(1) by (simp add: limiter_inv_def)
  have up: "length (AList.update k v ks) \<le> Suc (length ks)" for v :: state and ks
    by (induction ks) auto
  show ?thesis
  proof (cases "int (length (keys l)) \<ge> MaxKeys (policy l)")
    case False
    then have l1: "keys l1 = AList.update k (fresh_state now) (keys l)"
      using assms(2) None by (auto simp: getOrCreateLocked_def Let_def)
    show ?thesis using None False up [of "fresh_state now" "keys l"] by (auto simp: l1 update_conv')
  next
    case True
    then have l1: "keys l1 = AList.update k (fresh_state now) (keys (evictOneLocked now l))"
      using assms(2) None by (auto simp: getOrCreateLocked_def Let_def)
    show ?thesis
    proof (cases rule: evict_result [of now l])
      case keep
      then show ?thesis using None by (auto simp: l1 update_conv')
    next
      case (drop k2 s2)
      have m: "map_of (keys l) k2 = Some s2" using d drop(1) by simp
      have "length (AList.delete k2 (keys l)) = length (keys l) - 1" "0 < length (keys l)"
        using length_delete_present [OF d drop(1)] drop(1) by (auto simp: length_pos_if_in_set)
      then have "int (length (keys l1)) \<le> int (length (keys l))"
        using up [of "fresh_state now" "AList.delete k2 (keys l)"] by (simp add: l1 drop(3))
      then show ?thesis using None m drop(2,4)
        by (auto simp: l1 drop(3) update_conv' AList.delete_conv' split: if_splits)
    qed
  qed
qed

theorem getOrCreate_bounded_witness:
  "length (keys (snd (getOrCreateLocked demo_other 7 demo_held))) = 2
   \<and> pending (the (map_of (keys (snd (getOrCreateLocked demo_other 7 demo_held))) demo_key)) = 1"
proof -
  obtain st l1 where g: "getOrCreateLocked demo_other 7 demo_held = (st, l1)" by fastforce
  have "map_of (keys demo_held) demo_key = Some ((fresh_state 5)\<lparr>pending := 1\<rparr>)" by code_simp
  then have "map_of (keys l1) demo_key = Some ((fresh_state 5)\<lparr>pending := 1\<rparr>)"
    using getOrCreate_bounded [OF demo_held_inv g] by simp
  moreover have "length (keys (snd (getOrCreateLocked demo_other 7 demo_held))) = 2" by code_simp
  ultimately show ?thesis by (simp add: g)
qed

text \<open>
  A denied attempt leaves no reservation behind: when any of the keys an attempt consults
  denies it, no bucket holds more attempts in flight than before, and the handle the caller gets
  resolves to nothing.
\<close>

theorem Attempt_denied_no_leak:
  assumes "limiter_inv l" and "Attempt_open ne surface addr account clock l = ((a, False, ra), l')"
  shows "pend l' k \<le> pend l k \<and> att_keys a = []"
  using attempt_loop_denied [OF assms(1) assms(2) [unfolded Attempt_open_def], of "pend l"]
    pend_nonneg [OF assms(1)] by simp

theorem Attempt_denied_no_leak_witness:
  "pend (snd (Attempt_open demo_net ''basic'' ''192.0.2.7'' '''' (\<lambda>_. 10) demo_locked)) demo_key = 0"
proof -
  obtain a ok ra l' where o: "Attempt_open demo_net ''basic'' ''192.0.2.7'' '''' (\<lambda>_. 10) demo_locked
      = ((a, ok, ra), l')" by (metis prod.collapse)
  have "fst (snd (fst (Attempt_open demo_net ''basic'' ''192.0.2.7'' '''' (\<lambda>_. 10) demo_locked))) = False"
    by code_simp
  then have "\<not> ok" by (simp add: o)
  then have "pend l' demo_key \<le> pend demo_locked demo_key"
    using Attempt_denied_no_leak [OF demo_locked_inv, of demo_net "''basic''" "''192.0.2.7''" "''''"] o by simp
  moreover have "pend demo_locked demo_key = 0"
    by (simp add: pend_def demo_locked_lookup demo_lock_state_def)
  moreover have "0 \<le> pend (snd (Attempt_open demo_net ''basic'' ''192.0.2.7'' '''' (\<lambda>_. 10) demo_locked)) demo_key"
    by code_simp
  ultimately show ?thesis by (simp add: o)
qed

end
