(* ===== verification/Reader.thy ===== *)
theory Reader
  imports ChunkStore
begin

text \<open>
  Random access to one file, \<^verbatim>\<open>internal/vault/reader.go\<close>: the byte-bounded LRU of decrypted chunks, the
  prefix sums of the chunk sizes, the binary search for the chunk that covers an offset and the
  \<^verbatim>\<open>ReadAt\<close> loop with its two caches.  The loop may run forever on a record whose sizes lie about the
  cached plaintext, so it is a \<^verbatim>\<open>partial_function\<close>; on a sound record it is shown to return, and to
  return exactly the bytes of the requested range.  \<^verbatim>\<open>loadChunkFn\<close> is the argument \<open>load\<close>.
\<close>

section \<open>ChunkCache\<close>

text \<open>The list runs from the most to the least recently used entry; the map \<^verbatim>\<open>items\<close> of the code indexes
  exactly the entries of the list, so that looking an id up is looking it up in the list.\<close>

record ChunkCache =
  maxBytes :: int
  curBytes :: int
  ll :: "bytes gomap"

definition NewChunkCache :: "int \<Rightarrow> ChunkCache" where
  "NewChunkCache n = \<lparr>maxBytes = n, curBytes = 0, ll = []\<rparr>"

definition MoveToFront :: "string \<Rightarrow> bytes \<Rightarrow> bytes gomap \<Rightarrow> bytes gomap" where
  "MoveToFront i d l = (i, d) # AList.delete i l"

definition cache_Get :: "string \<Rightarrow> ChunkCache \<Rightarrow> bytes option \<times> ChunkCache" where
  "cache_Get i c =
     (case map_of (ll c) i of
        None \<Rightarrow> (None, c)
      | Some d \<Rightarrow> (Some d, c\<lparr>ll := MoveToFront i d (ll c)\<rparr>))"

function evict_loop :: "int \<Rightarrow> int \<Rightarrow> bytes gomap \<Rightarrow> int \<times> bytes gomap" where
  "evict_loop mx cur l =
     (if cur > mx \<and> l \<noteq> [] then evict_loop mx (cur - int (length (snd (last l)))) (butlast l)
      else (cur, l))"
  by auto
termination by (relation "measure (\<lambda>(_, _, l). length l)") auto

declare evict_loop.simps [simp del]

definition cache_Put :: "string \<Rightarrow> bytes \<Rightarrow> ChunkCache \<Rightarrow> ChunkCache" where
  "cache_Put i d c =
     (case map_of (ll c) i of
        Some d0 \<Rightarrow> c\<lparr>ll := MoveToFront i d0 (ll c)\<rparr>
      | None \<Rightarrow>
          let sz = int (length d)
          in if sz > maxBytes c then c
             else let (cur, l) = evict_loop (maxBytes c) (curBytes c + sz) ((i, d) # ll c)
                  in c\<lparr>curBytes := cur, ll := l\<rparr>)"

section \<open>FileReader\<close>

record FileReader =
  Cache :: "ChunkCache option"
  rec_Chunks :: "ChunkRef list"
  offsets :: "int list"
  fr_size :: int
  cachedIdx :: int
  cachedChunk :: "bytes option"
  closed :: bool

text \<open>The prefix sums, with the additions of the code at 64 bits.\<close>

fun prefix_sums :: "int \<Rightarrow> ChunkRef list \<Rightarrow> int list" where
  "prefix_sums a [] = [a]"
| "prefix_sums a (r # rs) = a # prefix_sums (i64 (a + ref_Size r)) rs"

definition new_reader :: "ChunkCache option \<Rightarrow> ChunkRef list \<Rightarrow> FileReader" where
  "new_reader cache refs =
     (let offs = prefix_sums 0 refs
      in \<lparr>Cache = cache, rec_Chunks = refs, offsets = offs, fr_size = last offs, cachedIdx = - 1,
          cachedChunk = None, closed = False\<rparr>)"

text \<open>The presence check that opening performs unless it is told to skip it.\<close>

fun presence_loop :: "'v store_scheme \<Rightarrow> ChunkRef list \<Rightarrow> (unit, 'z) io" where
  "presence_loop v [] = io_ret ()"
| "presence_loop v (r # rs) =
     io_try (os_Stat (chunkPath v (ref_ID r))) (\<lambda>x. case x of
        Inl e \<Rightarrow> io_fail (if is_not_exist e then ErrChunksPending else e)
      | Inr _ \<Rightarrow> presence_loop v rs)"

definition open_record :: "'v store_scheme \<Rightarrow> bool \<Rightarrow> FileRecord \<Rightarrow> (FileReader, 'z) io" where
  "open_record v skip rec =
     io_bind (if skip then io_ret () else presence_loop v (Chunks rec)) (\<lambda>_.
       io_ret (new_reader None (Chunks rec)))"

text \<open>\<^verbatim>\<open>sort.Search\<close>\<close>

function search_loop :: "(nat \<Rightarrow> bool) \<Rightarrow> nat \<Rightarrow> nat \<Rightarrow> nat" where
  "search_loop f i j =
     (if i < j then let h = (i + j) div 2 in if \<not> f h then search_loop f (h + 1) j else search_loop f i h
      else i)"
  by auto
termination by (relation "measure (\<lambda>(_, i, j). j - i)") auto

declare search_loop.simps [simp del]

definition sort_Search :: "nat \<Rightarrow> (nat \<Rightarrow> bool) \<Rightarrow> nat" where
  "sort_Search n f = search_loop f 0 n"

definition chunkIndexFor :: "FileReader \<Rightarrow> int \<Rightarrow> nat" where
  "chunkIndexFor f pos = sort_Search (length (offsets f) - 1) (\<lambda>i. offsets f ! (i + 1) > pos)"

definition chunkAtLocked ::
  "(ChunkRef \<Rightarrow> (bytes, 'z) io) \<Rightarrow> nat \<Rightarrow> FileReader \<Rightarrow> 'z world_scheme \<Rightarrow>
   (error + bytes) \<times> FileReader \<times> 'z world_scheme" where
  "chunkAtLocked load ci f w =
     (case (if cachedIdx f = int ci then cachedChunk f else None) of
        Some pt \<Rightarrow> (Inr pt, f, w)
      | None \<Rightarrow>
          let ref = rec_Chunks f ! ci;
              (hit, cache') = (case Cache f of
                  None \<Rightarrow> (None, None)
                | Some c \<Rightarrow> (let (h, c') = cache_Get (ref_ID ref) c in (h, Some c')));
              f1 = f\<lparr>Cache := cache'\<rparr>
          in case hit of
               Some pt \<Rightarrow> (Inr pt, f1\<lparr>cachedIdx := int ci, cachedChunk := Some pt\<rparr>, w)
             | None \<Rightarrow>
                 (case load ref w of
                    (Inl e, w') \<Rightarrow> (Inl e, f1, w')
                  | (Inr pt, w') \<Rightarrow>
                      (Inr pt,
                       f1\<lparr>cachedIdx := int ci, cachedChunk := Some pt,
                          Cache := map_option (cache_Put (ref_ID ref) pt) (Cache f1)\<rparr>, w')))"

datatype read_status = ReadOK | ReadEOF | ReadErr error | ReadPanic

partial_function (option) read_loop ::
  "(ChunkRef \<Rightarrow> (bytes, 'z) io) \<Rightarrow> nat \<Rightarrow> bytes \<Rightarrow> int \<Rightarrow> FileReader \<Rightarrow> 'z world_scheme \<Rightarrow>
   (bytes \<times> read_status \<times> FileReader \<times> 'z world_scheme) option" where
  "read_loop load plen acc pos f w =
     (if length acc < plen \<and> pos < fr_size f then
        let ci = chunkIndexFor f pos
        in case chunkAtLocked load ci f w of
             (Inl e, f', w') \<Rightarrow> Some (acc, ReadErr e, f', w')
           | (Inr chunk, f', w') \<Rightarrow>
               let within = pos - offsets f ! ci
               in if within < 0 \<or> within > int (length chunk) then Some (acc, ReadPanic, f', w')
                  else let piece = take (plen - length acc) (drop (nat within) chunk)
                       in read_loop load plen (acc @ piece) (pos + int (length piece)) f' w'
      else Some (acc, (if length acc < plen then ReadEOF else ReadOK), f, w))"

text \<open>The bytes copied into \<^verbatim>\<open>p\<close> (of length \<open>plen\<close>), the error, and the reader afterwards.\<close>

definition ReadAt ::
  "(ChunkRef \<Rightarrow> (bytes, 'z) io) \<Rightarrow> nat \<Rightarrow> int \<Rightarrow> FileReader \<Rightarrow> 'z world_scheme \<Rightarrow>
   (bytes \<times> read_status \<times> FileReader \<times> 'z world_scheme) option" where
  "ReadAt load plen off f w =
     (if closed f then Some ([], ReadErr (EMsg ''vault: ReadAt on closed FileReader''), f, w)
      else if off < 0 then Some ([], ReadErr (EMsg ''vault: ReadAt: negative offset''), f, w)
      else if off \<ge> fr_size f then Some ([], ReadEOF, f, w)
      else read_loop load plen [] off f w)"

definition reader_Close :: "FileReader \<Rightarrow> FileReader" where
  "reader_Close f = f\<lparr>closed := True, cachedChunk := None, cachedIdx := - 1\<rparr>"

fun verify_loop :: "'v store_scheme \<Rightarrow> ChunkRef list \<Rightarrow> ChunkCache option \<Rightarrow> (ChunkCache option, 'z) io" where
  "verify_loop v [] cache = io_ret cache"
| "verify_loop v (r # rs) cache =
     (case (case cache of None \<Rightarrow> (None, None)
            | Some c \<Rightarrow> (let (h, c') = cache_Get (ref_ID r) c in (h, Some c'))) of
        (Some _, cache') \<Rightarrow> verify_loop v rs cache'
      | (None, cache') \<Rightarrow>
          io_try (os_Stat (chunkPath v (ref_ID r))) (\<lambda>x. case x of
             Inl e \<Rightarrow> io_fail (if is_not_exist e then ErrChunksPending else e)
           | Inr _ \<Rightarrow> verify_loop v rs cache'))"

definition VerifyChunkPresence :: "'v store_scheme \<Rightarrow> int \<Rightarrow> int \<Rightarrow> FileReader \<Rightarrow> (ChunkCache option, 'z) io" where
  "VerifyChunkPresence v off0 len f =
     (let off = (if off0 < 0 then 0 else off0)
      in if len \<le> 0 \<or> off \<ge> fr_size f then io_ret (Cache f)
         else let e0 = i64 (off + len);
                  e = (if e0 > fr_size f then fr_size f else e0);
                  lo = chunkIndexFor f off; hi = chunkIndexFor f (e - 1)
              in verify_loop v (map (\<lambda>i. rec_Chunks f ! i) [lo..<Suc hi]) (Cache f))"

section \<open>The cache\<close>

definition total_bytes :: "bytes gomap \<Rightarrow> int" where
  "total_bytes l = sum_list (map (\<lambda>(_, d). int (length d)) l)"

definition cache_inv :: "ChunkCache \<Rightarrow> bool" where
  "cache_inv c \<longleftrightarrow> distinct (map fst (ll c)) \<and> curBytes c = total_bytes (ll c) \<and> curBytes c \<le> maxBytes c"

lemma total_bytes_Cons [simp]: "total_bytes ((i, d) # l) = int (length d) + total_bytes l"
  by (simp add: total_bytes_def)

lemma total_bytes_snoc: "l \<noteq> [] \<Longrightarrow> total_bytes l = total_bytes (butlast l) + int (length (snd (last l)))"
  by (induction l) (auto simp: total_bytes_def split_def)

lemma total_bytes_nonneg: "0 \<le> total_bytes l"
  by (induction l) (auto simp: total_bytes_def)

lemma total_bytes_delete:
  "distinct (map fst l) \<Longrightarrow> map_of l i = Some d \<Longrightarrow> total_bytes (AList.delete i l) = total_bytes l - int (length d)"
proof (induction l)
  case (Cons a l)
  then show ?case by (cases a) (auto simp: AList.delete_idem rev_image_eqI split: if_splits)
qed simp

lemma MoveToFront_inv:
  assumes "cache_inv c" and "map_of (ll c) i = Some d"
  shows "cache_inv (c\<lparr>ll := MoveToFront i d (ll c)\<rparr>)"
  using assms total_bytes_delete [of "ll c" i d]
  by (auto simp: cache_inv_def MoveToFront_def distinct_removeAll AList.delete_keys)

lemma evict_loop_spec:
  "cur = total_bytes l \<Longrightarrow> 0 \<le> mx \<Longrightarrow> evict_loop mx cur l = (cur', l') \<Longrightarrow>
   cur' = total_bytes l' \<and> cur' \<le> mx \<and> (\<exists>rest. l = l' @ rest)
   \<and> (\<forall>x xs. l = x # xs \<and> int (length (snd x)) \<le> mx \<longrightarrow> (\<exists>ys. l' = x # ys))"
proof (induction mx cur l arbitrary: cur' l' rule: evict_loop.induct)
  case (1 mx cur l)
  show ?case
  proof (cases "cur > mx \<and> l \<noteq> []")
    case True
    have t: "cur - int (length (snd (last l))) = total_bytes (butlast l)"
      using total_bytes_snoc True "1.prems"(1) by auto
    have e: "evict_loop mx (cur - int (length (snd (last l)))) (butlast l) = (cur', l')"
      using "1.prems"(3) True by (subst (asm) evict_loop.simps) simp
    note ih = "1.IH" [OF True t "1.prems"(2) e]
    then have "\<exists>rest. l = l' @ rest" using True by (metis append.assoc append_butlast_last_id)
    moreover have "\<exists>ys. l' = x # ys" if x: "l = x # xs" "int (length (snd x)) \<le> mx" for x xs
    proof -
      have "xs \<noteq> []"
      proof
        assume "xs = []"
        then have "cur = int (length (snd x))" using "1.prems"(1) x by (cases x) (simp add: total_bytes_def)
        then show False using True x by simp
      qed
      then have "butlast l = x # butlast xs" using x by simp
      then show ?thesis using ih x(2) by blast
    qed
    ultimately show ?thesis using ih by blast
  next
    case False
    then have "cur' = cur" "l' = l" using "1.prems"(3) by (auto simp: evict_loop.simps [of mx cur l])
    then show ?thesis using False "1.prems" total_bytes_nonneg [of l] by (auto simp: total_bytes_def)
  qed
qed

lemma cache_Put_new:
  assumes "cache_inv c" and "map_of (ll c) i = None" and "int (length d) \<le> maxBytes c"
  shows "cache_inv (cache_Put i d c) \<and> map_of (ll (cache_Put i d c)) i = Some d
    \<and> (\<forall>j x. map_of (ll (cache_Put i d c)) j = Some x \<longrightarrow> j = i \<or> map_of (ll c) j = Some x)"
proof -
  obtain cur l where e: "evict_loop (maxBytes c) (curBytes c + int (length d)) ((i, d) # ll c) = (cur, l)"
    by fastforce
  have "0 \<le> maxBytes c" using assms(1) total_bytes_nonneg [of "ll c"] by (simp add: cache_inv_def)
  moreover have "curBytes c + int (length d) = total_bytes ((i, d) # ll c)"
    using assms(1) by (simp add: cache_inv_def)
  ultimately have s: "cur = total_bytes l" "cur \<le> maxBytes c" "\<exists>rest. (i, d) # ll c = l @ rest"
    "\<exists>ys. l = (i, d) # ys"
    using evict_loop_spec [OF _ _ e] assms(3) by auto
  then obtain ys rest where l: "l = (i, d) # ys" "ll c = ys @ rest" by auto
  have "distinct (map fst (ys @ rest))" "i \<notin> fst ` set (ll c)"
    using assms(1,2) l by (auto simp: cache_inv_def map_of_eq_None_iff)
  then have "distinct (map fst l)" "\<And>j x. map_of ys j = Some x \<Longrightarrow> map_of (ll c) j = Some x"
    using l by (auto simp: map_add_Some_iff map_of_eq_None_iff rev_image_eqI dest: map_of_SomeD)
  moreover have "cache_Put i d c = c\<lparr>curBytes := cur, ll := l\<rparr>"
    using assms(2,3) e by (simp add: cache_Put_def)
  ultimately show ?thesis using s(1,2) l(1) by (auto simp: cache_inv_def)
qed

lemma cache_Put_inv: "cache_inv c \<Longrightarrow> cache_inv (cache_Put i d c)"
  using MoveToFront_inv cache_Put_new
  by (cases "map_of (ll c) i"; cases "int (length d) \<le> maxBytes c")
     (auto simp: cache_Put_def Let_def)

lemma cache_Get_inv: "cache_inv c \<Longrightarrow> cache_inv (snd (cache_Get i c))"
  using MoveToFront_inv by (auto simp: cache_Get_def split: option.splits)

lemma cache_Get_view: "map_of (ll (snd (cache_Get i c))) j = map_of (ll c) j"
  by (auto simp: cache_Get_def MoveToFront_def AList.delete_conv' split: option.splits)

lemma cache_Put_view:
  assumes "cache_inv c" and "map_of (ll (cache_Put i d c)) j = Some x"
  shows "map_of (ll c) j = Some x \<or> j = i \<and> x = d"
proof (cases "map_of (ll c) i")
  case None
  show ?thesis
  proof (cases "int (length d) \<le> maxBytes c")
    case True
    then show ?thesis using cache_Put_new [OF assms(1) None True] assms(2) by fastforce
  next
    case False
    then show ?thesis using None assms(2) by (simp add: cache_Put_def)
  qed
next
  case (Some d0)
  then show ?thesis using assms(2)
    by (auto simp: cache_Put_def MoveToFront_def AList.delete_conv' split: if_splits)
qed

text \<open>The cache under a sequence of calls.\<close>

datatype cache_op = CGet string | CPut string bytes

fun cache_step :: "cache_op \<Rightarrow> ChunkCache \<Rightarrow> ChunkCache" where
  "cache_step (CGet i) c = snd (cache_Get i c)"
| "cache_step (CPut i d) c = cache_Put i d c"

lemma fst_cache_Get: "fst (cache_Get i c) = map_of (ll c) i"
  by (simp add: cache_Get_def split: option.splits)

lemma cache_maxBytes [simp]: "maxBytes (snd (cache_Get i c)) = maxBytes c" "maxBytes (cache_Put i d c) = maxBytes c"
  by (simp_all add: cache_Get_def cache_Put_def Let_def split: option.splits prod.splits)

lemma cache_step_inv: "cache_inv c \<Longrightarrow> cache_inv (cache_step e c) \<and> maxBytes (cache_step e c) = maxBytes c"
  by (cases e) (auto simp: cache_Get_inv cache_Put_inv)

lemma cache_step_view:
  "cache_inv c \<Longrightarrow> map_of (ll (cache_step e c)) i = Some x \<Longrightarrow> map_of (ll c) i = Some x \<or> e = CPut i x"
  using cache_Put_view [of c _ _ i x] by (cases e) (fastforce simp: cache_Get_view)+

lemma cache_run:
  assumes "cache_inv c"
  shows "cache_inv (fold cache_step es c) \<and> maxBytes (fold cache_step es c) = maxBytes c
    \<and> (\<forall>i x. map_of (ll (fold cache_step es c)) i = Some x \<longrightarrow> map_of (ll c) i = Some x \<or> CPut i x \<in> set es)"
  using assms
proof (induction es arbitrary: c)
  case (Cons e es)
  from Cons.IH [of "cache_step e c"] cache_step_inv [OF Cons.prems, of e] cache_step_view [OF Cons.prems, of e]
  show ?case unfolding fold_Cons comp_apply by (metis list.set_intros)
qed simp

text \<open>Eviction takes from the old end, and no more than it must.\<close>

lemma evict_loop_minimal:
  "evict_loop mx cur l = (cur', l') \<Longrightarrow> cur = total_bytes l \<Longrightarrow>
   \<exists>gone. l = l' @ gone \<and> (gone \<noteq> [] \<longrightarrow> mx < total_bytes l' + int (length (snd (hd gone))))"
proof (induction mx cur l arbitrary: cur' l' rule: evict_loop.induct)
  case (1 mx cur l)
  show ?case
  proof (cases "cur > mx \<and> l \<noteq> []")
    case True
    have t: "cur - int (length (snd (last l))) = total_bytes (butlast l)"
      using total_bytes_snoc True "1.prems"(2) by auto
    have e: "evict_loop mx (cur - int (length (snd (last l)))) (butlast l) = (cur', l')"
      using "1.prems"(1) True by (subst (asm) evict_loop.simps) simp
    from "1.IH" [OF True e t] obtain gone where g: "butlast l = l' @ gone"
      "gone \<noteq> [] \<longrightarrow> mx < total_bytes l' + int (length (snd (hd gone)))" by blast
    have l: "l = l' @ (gone @ [last l])" using g(1) True by (metis append.assoc append_butlast_last_id)
    have "mx < total_bytes l' + int (length (snd (hd (gone @ [last l]))))"
    proof (cases "gone = []")
      case True
      then have "butlast l = l'" using g(1) by simp
      then show ?thesis using True t \<open>cur > mx \<and> l \<noteq> []\<close> by simp
    qed (use g(2) in simp)
    then show ?thesis using l by (intro exI [of _ "gone @ [last l]"]) simp
  next
    case False
    then show ?thesis using "1.prems"(1) by (auto simp: evict_loop.simps [of mx cur l])
  qed
qed

lemma cache_Put_absent:
  assumes "cache_inv c" and "map_of (ll c) i = None" and "int (length d) \<le> maxBytes c"
  shows "\<exists>kept gone. ll c = kept @ gone \<and> ll (cache_Put i d c) = (i, d) # kept
    \<and> (gone \<noteq> [] \<longrightarrow> maxBytes c < int (length d) + total_bytes kept + int (length (snd (hd gone))))"
proof -
  obtain cur l where e: "evict_loop (maxBytes c) (curBytes c + int (length d)) ((i, d) # ll c) = (cur, l)"
    by fastforce
  have t: "curBytes c + int (length d) = total_bytes ((i, d) # ll c)" using assms(1) by (simp add: cache_inv_def)
  obtain gone where g: "(i, d) # ll c = l @ gone"
    "gone \<noteq> [] \<longrightarrow> maxBytes c < total_bytes l + int (length (snd (hd gone)))"
    using evict_loop_minimal [OF e t] by blast
  have "0 \<le> maxBytes c" using assms(1) total_bytes_nonneg [of "ll c"] by (simp add: cache_inv_def)
  then obtain ys where l: "l = (i, d) # ys" using evict_loop_spec [OF t _ e] assms(3) by auto
  have "ll (cache_Put i d c) = l" using assms(2,3) e by (simp add: cache_Put_def)
  then show ?thesis using g l by (intro exI [of _ ys] exI [of _ gone]) simp
qed

section \<open>Binary search\<close>

lemma search_loop_spec:
  "i \<le> j \<Longrightarrow> j \<le> n \<Longrightarrow> \<forall>k<i. \<not> f k \<Longrightarrow> j < n \<longrightarrow> f j \<Longrightarrow>
   (\<And>a b. a \<le> b \<Longrightarrow> b < n \<Longrightarrow> f a \<Longrightarrow> f b) \<Longrightarrow>
    search_loop f i j \<le> n \<and> (\<forall>k < search_loop f i j. \<not> f k) \<and> (search_loop f i j < n \<longrightarrow> f (search_loop f i j))"
proof (induction f i j rule: search_loop.induct)
  case (1 f i j)
  show ?case
  proof (cases "i < j")
    case True
    let ?h = "(i + j) div 2"
    have h: "i \<le> ?h" "?h < j" using True by auto
    then have hn: "?h + 1 \<le> j" "?h \<le> n" using "1.prems"(2) by linarith+
    show ?thesis
    proof (cases "f ?h")
      case fh: True
      have e: "search_loop f i j = search_loop f i ?h"
        by (subst search_loop.simps) (simp add: True fh)
      show ?thesis unfolding e
        by (rule "1.IH"(2) [OF True refl _ h(1) hn(2) "1.prems"(3) _ "1.prems"(5)]) (use fh in simp_all)
    next
      case fh: False
      have e: "search_loop f i j = search_loop f (?h + 1) j"
        by (subst search_loop.simps) (simp add: True fh)
      have nf: "\<not> f k" if "k < ?h + 1" for k
      proof
        assume "f k"
        moreover have "k \<le> ?h" "?h < n" using that h "1.prems"(2) by linarith+
        ultimately show False using "1.prems"(5) [of k ?h] fh by blast
      qed
      show ?thesis unfolding e
        by (rule "1.IH"(1) [OF True refl fh hn(1) "1.prems"(2) _ "1.prems"(4,5)]) (use nf in blast)
    qed
  next
    case False
    then have "search_loop f i j = i" by (subst search_loop.simps) simp
    moreover have "i = j" using False "1.prems"(1) by simp
    ultimately show ?thesis using "1.prems"(2-4) by simp
  qed
qed

section \<open>A sound reader\<close>

text \<open>
  \<open>cs\<close> are the plaintext chunks of the record: the references carry their lengths, the total fits in 64
  bits, loading a reference yields its chunk, equal ids mean equal chunks, and both caches only
  hold what loading would yield.
\<close>

definition sound_refs ::
  "(ChunkRef \<Rightarrow> (bytes, 'z) io) \<Rightarrow> 'z world_scheme \<Rightarrow> bytes list \<Rightarrow> ChunkRef list \<Rightarrow> bool" where
  "sound_refs load w cs refs \<longleftrightarrow> map ref_Size refs = map (\<lambda>c. int (length c)) cs
     \<and> int (length (concat cs)) \<le> max_i64
     \<and> (\<forall>i < length cs. load (refs ! i) w = (Inr (cs ! i), w))
     \<and> (\<forall>i < length cs. \<forall>j < length cs. ref_ID (refs ! i) = ref_ID (refs ! j) \<longrightarrow> cs ! i = cs ! j)"

definition sound_cache :: "bytes list \<Rightarrow> ChunkRef list \<Rightarrow> ChunkCache \<Rightarrow> bool" where
  "sound_cache cs refs c \<longleftrightarrow> cache_inv c
     \<and> (\<forall>i < length cs. \<forall>x. map_of (ll c) (ref_ID (refs ! i)) = Some x \<longrightarrow> x = cs ! i)"

definition sound_reader ::
  "(ChunkRef \<Rightarrow> (bytes, 'z) io) \<Rightarrow> 'z world_scheme \<Rightarrow> bytes list \<Rightarrow> FileReader \<Rightarrow> bool" where
  "sound_reader load w cs f \<longleftrightarrow> \<not> closed f \<and> sound_refs load w cs (rec_Chunks f)
     \<and> offsets f = prefix_sums 0 (rec_Chunks f) \<and> fr_size f = last (offsets f)
     \<and> (\<forall>i pt. cachedIdx f = int i \<and> cachedChunk f = Some pt \<longrightarrow> i < length cs \<and> pt = cs ! i)
     \<and> (\<forall>c. Cache f = Some c \<longrightarrow> sound_cache cs (rec_Chunks f) c)"

lemma length_prefix_sums [simp]: "length (prefix_sums a rs) = Suc (length rs)"
  by (induction rs arbitrary: a) auto

lemma prefix_sums_nth:
  "map ref_Size rs = map (\<lambda>c. int (length c)) cs \<Longrightarrow> 0 \<le> a \<Longrightarrow> a + int (length (concat cs)) \<le> max_i64 \<Longrightarrow>
   i \<le> length cs \<Longrightarrow> prefix_sums a rs ! i = a + int (length (concat (take i cs)))"
proof (induction rs arbitrary: cs a i)
  case (Cons r rs)
  then obtain c cs' where cs: "cs = c # cs'" by (cases cs) auto
  have "i64 (a + ref_Size r) = a + int (length c)"
    using Cons.prems cs by (subst i64_id) auto
  then show ?case using Cons cs by (cases i) auto
qed auto

lemma sound_offsets:
  assumes "sound_reader load w cs f"
  shows "length (rec_Chunks f) = length cs" "length (offsets f) = Suc (length cs)"
    "i \<le> length cs \<Longrightarrow> offsets f ! i = int (length (concat (take i cs)))"
    "fr_size f = int (length (concat cs))"
proof -
  have m: "map ref_Size (rec_Chunks f) = map (\<lambda>c. int (length c)) cs" "int (length (concat cs)) \<le> max_i64"
    "offsets f = prefix_sums 0 (rec_Chunks f)" "fr_size f = last (offsets f)"
    using assms by (auto simp: sound_reader_def sound_refs_def)
  show l: "length (rec_Chunks f) = length cs" using m(1) by (metis length_map)
  then show lo: "length (offsets f) = Suc (length cs)" by (simp add: m)
  show o: "i \<le> length cs \<Longrightarrow> offsets f ! i = int (length (concat (take i cs)))" for i
    using prefix_sums_nth [OF m(1), of 0 i] m by simp
  have "last (offsets f) = offsets f ! length cs" using lo by (simp add: last_conv_nth flip: length_0_conv)
  then show "fr_size f = int (length (concat cs))" using m o by simp
qed

lemma concat_take_mono: "i \<le> j \<Longrightarrow> length (concat (take i cs)) \<le> length (concat (take j cs))"
proof -
  assume "i \<le> j"
  then have "take j cs = take i cs @ take (j - i) (drop i cs)" by (metis add_diff_inverse_nat leD take_add)
  then show ?thesis by simp
qed

lemma chunkIndexFor_sound:
  assumes "sound_reader load w cs f" and "0 \<le> pos" and "pos < fr_size f"
  defines "ci \<equiv> chunkIndexFor f pos"
  shows "ci < length cs" "int (length (concat (take ci cs))) \<le> pos"
    "pos < int (length (concat (take ci cs))) + int (length (cs ! ci))"
proof -
  let ?P = "\<lambda>i. offsets f ! (i + 1) > pos"
  note o = sound_offsets [OF assms(1)]
  have mono: "?P b" if "a \<le> b" "b < length cs" "?P a" for a b
    using that o(3) [of "Suc a"] o(3) [of "Suc b"] concat_take_mono [of "Suc a" "Suc b" cs] by simp
  have r: "ci \<le> length cs" "\<forall>k<ci. \<not> ?P k" "ci < length cs \<longrightarrow> ?P ci"
    using search_loop_spec [of 0 "length cs" "length cs" ?P] mono o(2)
    by (simp_all add: ci_def chunkIndexFor_def sort_Search_def)
  have "ci \<noteq> length cs"
  proof
    assume e: "ci = length cs"
    have "cs \<noteq> []" using assms(2,3) o(4) by auto
    then obtain m where m: "length cs = Suc m" by (cases cs) auto
    then have "\<not> ?P m" using r(2) e by simp
    then show False using o(3) [of "length cs"] o(4) assms(3) m by simp
  qed
  then show c: "ci < length cs" using r(1) by simp
  show "int (length (concat (take ci cs))) \<le> pos"
  proof (cases ci)
    case (Suc k)
    then have "\<not> ?P k" using r(2) by simp
    then show ?thesis using o(3) [of ci] c Suc by simp
  qed (use assms(2) in simp)
  show "pos < int (length (concat (take ci cs))) + int (length (cs ! ci))"
    using r(3) c o(3) [of "Suc ci"] by (simp add: take_Suc_conv_app_nth)
qed

lemma sound_update:
  assumes "sound_reader load w cs f" and "ci < length cs"
    and "\<forall>c. cache = Some c \<longrightarrow> sound_cache cs (rec_Chunks f) c"
  shows "sound_reader load w cs (f\<lparr>cachedIdx := int ci, cachedChunk := Some (cs ! ci), Cache := cache\<rparr>)"
    and "sound_reader load w cs (f\<lparr>Cache := cache, cachedIdx := int ci, cachedChunk := Some (cs ! ci)\<rparr>)"
  using assms unfolding sound_reader_def by simp_all

lemma sound_reader_cached:
  "sound_reader load w cs f \<Longrightarrow> cachedIdx f = int i \<Longrightarrow> cachedChunk f = Some pt \<Longrightarrow> pt = cs ! i"
  unfolding sound_reader_def by blast

lemma sound_reader_cache:
  "sound_reader load w cs f \<Longrightarrow> Cache f = Some c \<Longrightarrow> sound_cache cs (rec_Chunks f) c"
  unfolding sound_reader_def by blast

lemma sound_cache_Get: "sound_cache cs refs c \<Longrightarrow> sound_cache cs refs (snd (cache_Get i c))"
  by (simp add: sound_cache_def cache_Get_inv cache_Get_view)

lemma sound_cache_Put:
  assumes "sound_reader load w cs f" and "ci < length cs" and "sound_cache cs (rec_Chunks f) c"
  shows "sound_cache cs (rec_Chunks f) (cache_Put (ref_ID (rec_Chunks f ! ci)) (cs ! ci) c)"
  unfolding sound_cache_def
proof (intro conjI allI impI)
  have c: "cache_inv c" using assms(3) by (simp add: sound_cache_def)
  then show "cache_inv (cache_Put (ref_ID (rec_Chunks f ! ci)) (cs ! ci) c)" by (rule cache_Put_inv)
  fix i x assume i: "i < length cs"
    "map_of (ll (cache_Put (ref_ID (rec_Chunks f ! ci)) (cs ! ci) c)) (ref_ID (rec_Chunks f ! i)) = Some x"
  have "ref_ID (rec_Chunks f ! i) = ref_ID (rec_Chunks f ! ci) \<Longrightarrow> cs ! i = cs ! ci"
    using assms(1,2) i(1) unfolding sound_reader_def sound_refs_def by blast
  then show "x = cs ! i"
    using cache_Put_view [OF c i(2)] assms(3) i(1) by (auto simp: sound_cache_def)
qed

lemma chunkAtLocked_sound:
  assumes "sound_reader load w cs f" and "ci < length cs"
  shows "\<exists>f'. chunkAtLocked load ci f w = (Inr (cs ! ci), f', w) \<and> sound_reader load w cs f'
    \<and> rec_Chunks f' = rec_Chunks f"
proof (cases "if cachedIdx f = int ci then cachedChunk f else None")
  case (Some pt)
  then have "pt = cs ! ci" using sound_reader_cached [OF assms(1), of ci pt] by (auto split: if_splits)
  then show ?thesis using assms(1) Some by (intro exI [of _ f]) (simp add: chunkAtLocked_def)
next
  case n: None
  let ?ref = "rec_Chunks f ! ci"
  have ld: "load ?ref w = (Inr (cs ! ci), w)" using assms unfolding sound_reader_def sound_refs_def by blast
  show ?thesis
  proof (cases "Cache f")
    case None
    then show ?thesis using n ld sound_update [OF assms, of None]
      by (simp add: chunkAtLocked_def)
  next
    case (Some c)
    have sc: "sound_cache cs (rec_Chunks f) c" using sound_reader_cache [OF assms(1) Some] .
    obtain h c' where g: "cache_Get (ref_ID ?ref) c = (h, c')" by fastforce
    have sc': "sound_cache cs (rec_Chunks f) c'" using sound_cache_Get [OF sc, of "ref_ID ?ref"] g by simp
    show ?thesis
    proof (cases h)
      case h: (Some pt)
      have "pt = cs ! ci" using g h sc assms(2) by (auto simp: cache_Get_def sound_cache_def split: option.splits)
      then show ?thesis using n g h Some sound_update [OF assms, of "Some c'"] sc'
        by (simp add: chunkAtLocked_def Let_def)
    next
      case h: None
      show ?thesis using n g h Some ld sound_cache_Put [OF assms sc']
          sound_update [OF assms, of "Some (cache_Put (ref_ID ?ref) (cs ! ci) c')"]
        by (simp add: chunkAtLocked_def Let_def)
    qed
  qed
qed

lemma concat_split:
  assumes "ci < length cs" and "length (concat (take ci cs)) \<le> p"
    and "p < length (concat (take ci cs)) + length (cs ! ci)"
  shows "drop p (concat cs) = drop (p - length (concat (take ci cs))) (cs ! ci) @ concat (drop (Suc ci) cs)"
proof -
  have "concat cs = concat (take ci cs) @ cs ! ci @ concat (drop (Suc ci) cs)"
    using id_take_nth_drop [OF assms(1)] by (metis concat.simps(2) concat_append)
  then show ?thesis using assms(2,3) by simp
qed

lemma take_prefix: "take k xs = take (length (take k xs)) (xs @ ys)"
  by (cases "k \<le> length xs") auto

lemma read_loop_sound:
  assumes "sound_reader load w cs f" and "0 \<le> pos" and "pos \<le> fr_size f" and "length acc \<le> plen"
  shows "\<exists>f'. sound_reader load w cs f' \<and> read_loop load plen acc pos f w =
    Some (acc @ take (plen - length acc) (drop (nat pos) (concat cs)),
          (if int plen \<le> int (length acc) + (fr_size f - pos) then ReadOK else ReadEOF), f', w)"
  using assms
proof (induction "nat (fr_size f - pos)" arbitrary: f pos acc rule: less_induct)
  case less
  note o = sound_offsets [OF less.prems(1)]
  show ?case
  proof (cases "length acc < plen \<and> pos < fr_size f")
    case False
    then have "read_loop load plen acc pos f w
        = Some (acc, if length acc < plen then ReadEOF else ReadOK, f, w)"
      by (subst read_loop.simps) (simp only: False if_False)
    then show ?thesis using False less.prems o(4) by (intro exI [of _ f]) auto
  next
    case True
    define ci where "ci = chunkIndexFor f pos"
    have c: "ci < length cs" "int (length (concat (take ci cs))) \<le> pos"
      "pos < int (length (concat (take ci cs))) + int (length (cs ! ci))"
      using chunkIndexFor_sound [OF less.prems(1,2)] True by (auto simp: ci_def)
    obtain f1 where f1: "chunkAtLocked load ci f w = (Inr (cs ! ci), f1, w)" "sound_reader load w cs f1"
      "rec_Chunks f1 = rec_Chunks f" using chunkAtLocked_sound [OF less.prems(1) c(1)] by blast
    have off: "offsets f ! ci = int (length (concat (take ci cs)))" using o(3) c(1) by simp
    have size1: "fr_size f1 = fr_size f" using sound_offsets(4) [OF f1(2)] o(4) by simp
    let ?k = "plen - length acc" and ?X = "drop (nat pos) (concat cs)"
    define piece where "piece = take ?k (drop (nat (pos - offsets f ! ci)) (cs ! ci))"
    have X: "?X = drop (nat (pos - offsets f ! ci)) (cs ! ci) @ concat (drop (Suc ci) cs)"
      using concat_split [OF c(1), of "nat pos"] c off less.prems(2)
      by (simp add: nat_diff_distrib' le_nat_iff nat_less_iff)
    have pl: "0 < length piece" "length piece \<le> ?k"
      using True c off by (auto simp: piece_def)
    have pX: "piece = take (length piece) ?X" unfolding X piece_def by (rule take_prefix)
    have u: "read_loop load plen acc pos f w
        = read_loop load plen (acc @ piece) (pos + int (length piece)) f1 w"
      using True f1(1) c off by (subst read_loop.simps) (simp add: ci_def [symmetric] piece_def Let_def)
    have "length piece \<le> length ?X" using pX by (metis length_take min.cobounded1)
    then have p': "pos + int (length piece) \<le> fr_size f" using o(4) less.prems(2,3) by simp
    have dec: "nat (fr_size f1 - (pos + int (length piece))) < nat (fr_size f - pos)"
      "length (acc @ piece) \<le> plen" "0 \<le> pos + int (length piece)"
      "pos + int (length piece) \<le> fr_size f1"
      using pl p' True size1 less.prems(2) by auto
    from less.hyps [OF dec(1) f1(2) dec(3,4,2)] obtain f2 where f2: "sound_reader load w cs f2"
      "read_loop load plen (acc @ piece) (pos + int (length piece)) f1 w =
        Some ((acc @ piece) @ take (plen - length (acc @ piece)) (drop (nat (pos + int (length piece))) (concat cs)),
          (if int plen \<le> int (length (acc @ piece)) + (fr_size f1 - (pos + int (length piece))) then ReadOK else ReadEOF), f2, w)"
      by blast
    have "drop (nat (pos + int (length piece))) (concat cs) = drop (length piece) ?X"
      using less.prems(2) by (simp add: nat_add_distrib add.commute)
    then have "piece @ take (?k - length piece) (drop (nat (pos + int (length piece))) (concat cs)) = take ?k ?X"
      using pl(2) pX by (metis le_add_diff_inverse take_add)
    then show ?thesis using u f2 size1 by (intro exI [of _ f2]) (auto simp: diff_diff_add)
  qed
qed

section \<open>Properties\<close>

text \<open>
  C26.  \<^const>\<open>ReadAt\<close> returns on every sound reader and delivers exactly the requested range: for a
  buffer of \<open>plen\<close> bytes at a non-negative offset the bytes are those of the file's content from
  the offset, cut at the end of the file, the status is end-of-file precisely when fewer than
  \<open>plen\<close> bytes were available or the offset is at or past the end, and the reader with its caches is
  sound for the next call.
\<close>

theorem ReadAt_range:
  assumes "sound_reader load w cs f" and "0 \<le> off"
  shows "\<exists>f'. sound_reader load w cs f' \<and> ReadAt load plen off f w =
    Some (take plen (drop (nat off) (concat cs)),
          (if off < fr_size f \<and> int plen \<le> fr_size f - off then ReadOK else ReadEOF), f', w)"
proof (cases "off < fr_size f")
  case True
  then have "ReadAt load plen off f w = read_loop load plen [] off f w"
    using assms by (simp add: ReadAt_def sound_reader_def)
  then show ?thesis using read_loop_sound [OF assms, of "[]" plen] True by simp
next
  case False
  then have "ReadAt load plen off f w = Some ([], ReadEOF, f, w)"
    using assms by (simp add: ReadAt_def sound_reader_def)
  moreover have "drop (nat off) (concat cs) = []"
    using False sound_offsets(4) [OF assms(1)] by simp
  ultimately show ?thesis using assms(1) False by auto
qed

definition demo_load :: "ChunkRef \<Rightarrow> (bytes, unit) io" where
  "demo_load r w = (Inr (ref_ID r), w)"

definition demo_reader :: FileReader where
  "demo_reader = new_reader (Some (NewChunkCache 4)) [\<lparr>ref_ID = ''abc'', ref_Size = 3\<rparr>, \<lparr>ref_ID = ''de'', ref_Size = 2\<rparr>]"

lemma less_two: "(\<forall>i < Suc (Suc 0). P i) \<longleftrightarrow> P 0 \<and> P 1"
  by (auto simp: less_Suc_eq)

lemma demo_reader_sound: "sound_reader demo_load demo_world [''abc'', ''de''] demo_reader"
  by (simp add: sound_reader_def sound_refs_def sound_cache_def demo_reader_def new_reader_def demo_load_def
      NewChunkCache_def cache_inv_def total_bytes_def less_two Let_def)

theorem ReadAt_range_witness:
  "\<exists>f'. ReadAt demo_load 3 2 demo_reader demo_world = Some (''cde'', ReadOK, f', demo_world)"
proof -
  have "fr_size demo_reader = 5" by code_simp
  then show ?thesis using ReadAt_range [OF demo_reader_sound, of 2 3] by (auto simp: nth_Cons')
qed

text \<open>
  C32.  The shared chunk cache is a byte-bounded LRU that never lies.  After any sequence of \<^const>\<open>cache_Get\<close> and
  \<^const>\<open>cache_Put\<close> calls on a new cache of \<open>n\<close> bytes: its accounting is exact and within \<open>n\<close>; a hit
  for an id returns bytes that an earlier call put under that very id; a lookup changes no content and
  makes the entry it hit the most recent one, the others in their order; a put under an id that is there
  changes no content; and bytes put under an id that is not there are there when they fit, with
  entries given up from the least recent end only and no more of them than the bound asks for.
\<close>

theorem cache_bounded_and_honest:
  fixes n :: int and es :: "cache_op list"
  assumes "0 \<le> n"
  defines "c \<equiv> fold cache_step es (NewChunkCache n)"
  shows "distinct (map fst (ll c)) \<and> curBytes c = total_bytes (ll c) \<and> curBytes c \<le> n
    \<and> (\<forall>i x. fst (cache_Get i c) = Some x \<longrightarrow> CPut i x \<in> set es
         \<and> ll (snd (cache_Get i c)) = (i, x) # filter (\<lambda>(j, _). j \<noteq> i) (ll c))
    \<and> (\<forall>i j. fst (cache_Get j (snd (cache_Get i c))) = fst (cache_Get j c))
    \<and> (\<forall>i j d x. fst (cache_Get i c) = Some x \<longrightarrow> fst (cache_Get j (cache_Put i d c)) = fst (cache_Get j c))
    \<and> (\<forall>i d. fst (cache_Get i c) = None \<and> int (length d) \<le> n \<longrightarrow>
         fst (cache_Get i (cache_Put i d c)) = Some d
         \<and> (\<exists>kept gone. ll c = kept @ gone \<and> ll (cache_Put i d c) = (i, d) # kept
              \<and> (gone \<noteq> [] \<longrightarrow> n < int (length d) + total_bytes kept + int (length (snd (hd gone))))))"
proof -
  have "cache_inv (NewChunkCache n)" using assms(1) by (simp add: cache_inv_def NewChunkCache_def total_bytes_def)
  from cache_run [OF this, of es] have c: "cache_inv c" "maxBytes c = n"
    "\<And>i x. map_of (ll c) i = Some x \<Longrightarrow> CPut i x \<in> set es" by (simp_all add: c_def NewChunkCache_def)
  show ?thesis
    unfolding fst_cache_Get
  proof (intro conjI allI impI)
    show "ll (snd (cache_Get i c)) = (i, x) # filter (\<lambda>(j, _). j \<noteq> i) (ll c)" if "map_of (ll c) i = Some x" for i x
      using that by (simp add: cache_Get_def MoveToFront_def AList.delete_eq) (auto intro: filter_cong)
    show "map_of (ll (cache_Put i d c)) j = map_of (ll c) j" if "map_of (ll c) i = Some x" for i j d x
      using that by (simp add: cache_Put_def MoveToFront_def AList.delete_conv')
    show "map_of (ll (cache_Put i d c)) i = Some d" if "map_of (ll c) i = None \<and> int (length d) \<le> n" for i d
      using cache_Put_new [OF c(1)] that c(2) by simp
    show "\<exists>kept gone. ll c = kept @ gone \<and> ll (cache_Put i d c) = (i, d) # kept
        \<and> (gone \<noteq> [] \<longrightarrow> n < int (length d) + total_bytes kept + int (length (snd (hd gone))))"
      if "map_of (ll c) i = None \<and> int (length d) \<le> n" for i d
      using cache_Put_absent [OF c(1)] that c(2) by simp
  qed (use c in \<open>simp_all add: cache_inv_def cache_Get_view\<close>)
qed

theorem cache_bounded_and_honest_witness:
  "fst (cache_Get ''a'' (fold cache_step [CPut ''a'' ''xy'', CPut ''b'' ''z'', CGet ''a'', CPut ''c'' ''uv''] (NewChunkCache 4))) = Some ''xy''
   \<and> fst (cache_Get ''b'' (fold cache_step [CPut ''a'' ''xy'', CPut ''b'' ''z'', CGet ''a'', CPut ''c'' ''uv''] (NewChunkCache 4))) = None
   \<and> CPut ''a'' ''xy'' \<in> set [CPut ''a'' ''xy'', CPut ''b'' ''z'', CGet ''a'', CPut ''c'' ''uv'']"
proof -
  let ?es = "[CPut ''a'' ''xy'', CPut ''b'' ''z'', CGet ''a'', CPut ''c'' ''uv'']"
  have g: "fst (cache_Get ''a'' (fold cache_step ?es (NewChunkCache 4))) = Some ''xy''"
    "fst (cache_Get ''b'' (fold cache_step ?es (NewChunkCache 4))) = None" by code_simp+
  have "0 \<le> (4::int)" by simp
  from cache_bounded_and_honest [OF this, of ?es] g show ?thesis by blast
qed

end
