(* ===== verification/Spec2Isabelle.thy ===== *)
theory Spec2Isabelle
  imports VaultExport VaultImport AuthLimit Reader
begin

text \<open>
  \<^bold>\<open>The program.\<close>  open-seavault-rclone, written in Go, keeps files in an encrypted vault: a directory that a
  consumer sync client (Dropbox, Nextcloud, Syncthing, an rclone remote) copies between the devices
  of one user.  Under \<^verbatim>\<open><root>/SeaVaultData\<close> it holds \<^verbatim>\<open>vault.json\<close> (key derivation parameters and wrapped
  keys), \<^verbatim>\<open>objects/chunks\<close> (content-addressed encrypted chunks) and \<^verbatim>\<open>manifests\<close> (one encrypted record per
  virtual path).  There is no server and no lock: two devices may write at once, a sync client
  delivers files in any order, keeps conflict copies under invented names and may restore old
  versions.  The program has to lose no edit, accept no rolled-back or forged configuration, delete
  no chunk that is needed, and write no plaintext where the sync client would pick it up.

  The layers, from below: \<^verbatim>\<open>chunker.go\<close> cuts a stream into chunks; \<^verbatim>\<open>vault.go\<close> and \<^verbatim>\<open>crypto.go\<close> store each
  chunk under the HMAC of its content; \<^verbatim>\<open>manifest.go\<close> and \<^verbatim>\<open>cache.go\<close> save one manifest per path, load and
  reconcile all of them into an index and keep it cached; \<^verbatim>\<open>compact.go\<close> applies the repairs a load
  planned; \<^verbatim>\<open>gc.go\<close> removes unreferenced chunks in two phases; \<^verbatim>\<open>configmac.go\<close>, \<^verbatim>\<open>anchor.go\<close>, \<^verbatim>\<open>rotation.go\<close>,
  \<^verbatim>\<open>seal.go\<close> guard and change the configuration; \<^verbatim>\<open>recovery_phrase.go\<close> and \<^verbatim>\<open>recovery_words.go\<close> give a second
  way to the keys; \<^verbatim>\<open>vault.go\<close> and \<^verbatim>\<open>directories.go\<close> compose these into the operations of a vault; \<^verbatim>\<open>reader.go\<close>
  serves byte ranges; \<^verbatim>\<open>internal/authlimit\<close> limits password guesses at the network front ends.

  \<^bold>\<open>How the program is modelled.\<close>  A Go string or byte slice is a \<^typ>\<open>string\<close> of bytes.  A map is an association
  list with distinct keys; where the code ranges over a map, the order is the parameter \<open>map_order\<close> of the
  environment.  An \<^verbatim>\<open>int64\<close> is an integer, reduced by \<open>i64\<close> where an operation can overflow; hashes, the
  gear table and scrypt work on words of their width.  The host is the record \<open>world\<close> of \<^verbatim>\<open>Fs\<close>: files by path,
  a clock, a random source, and arbitrary functions that say which call fails.  A stateful method
  is an action \<open>'z world_scheme \<Rightarrow> (error + 'a) \<times> 'z world_scheme\<close>; the mutable fields of a \<^verbatim>\<open>Vault\<close> extend that
  record.  Errors are values of the type \<open>error\<close>, a run-time panic is \<open>EPanic\<close>.  Code outside the repository
  is a parameter: the AEAD, HMAC and SHA-256 (\<open>crypt\<close>, \<open>host_env\<close>, \<open>kdf_env\<close>), \<^verbatim>\<open>encoding/json\<close>, base64 and time
  formats (\<open>guard_env\<close>, \<open>store_env\<close>), the process environment (\<open>os_env\<close>, \<open>user_env\<close>).  What a theorem needs of
  them is a hypothesis with a name (\<open>aead_law\<close>, \<open>mac_law\<close>, \<open>codec_law\<close>, \<open>anchor_law\<close>, \<open>store_laws\<close>, \<open>stamp_law\<close>, \<open>create_laws\<close>,
  \<open>clock_laws\<close>), and the witness of each theorem discharges it for a concrete instance.

  \<^bold>\<open>Theories and what they show.\<close>

  \<^item> \<^verbatim>\<open>GoStrings\<close>, \<^verbatim>\<open>Prelude\<close>: Go's \<^verbatim>\<open>strings\<close> on UTF-8, 64-bit arithmetic, stable sorting, association lists; the
    locales \<open>comparator\<close> (a comparison function that sorts) and \<open>stepped\<close> (an invariant along the runs of a step
    relation), interpreted by the components.

  \<^item> \<^verbatim>\<open>Paths\<close> (\<^verbatim>\<open>path.go\<close>, \<^verbatim>\<open>content.go\<close>, \<^verbatim>\<open>portable.go\<close>): cleaning of virtual paths, the content root, names every
    platform can restore.  A cleaned path never climbs out of the vault; a sanitised name is portable.

  \<^item> \<^verbatim>\<open>Chunker\<close> (\<^verbatim>\<open>chunker.go\<close>): \<^verbatim>\<open>ForEachChunk\<close> over any split of the stream into reads refines the cut of the whole
    stream; sizes are bounded.

  \<^item> \<^verbatim>\<open>Clock\<close>, \<^verbatim>\<open>Reconcile\<close> (\<^verbatim>\<open>index.go\<close>, \<^verbatim>\<open>cache.go\<close>, \<^verbatim>\<open>manifest.go\<close>): vector clocks as a strict order (locale
    \<open>strict_dominance\<close>), \<^verbatim>\<open>reconcilePathCandidates\<close>.  Every copy that no other one supersedes is live, equal to
    the winner, an outdated delete or kept as a conflict copy; the outcome does not depend on the order
    of copies when all of them have clocks or none has.

  \<^item> \<^verbatim>\<open>Fs\<close>, \<^verbatim>\<open>Frames\<close> (\<^verbatim>\<open>rename.go\<close>, \<^verbatim>\<open>atomicWriteFile\<close>): the host, the retry loop, and the locale \<open>frame\<close> for what an
    action leaves unchanged, interpreted for the disk, for a set of files, for the random source and
    for a field.

  \<^item> \<^verbatim>\<open>ChunkStore\<close>, \<^verbatim>\<open>Reader\<close> (\<^verbatim>\<open>vault.go\<close>, \<^verbatim>\<open>crypto.go\<close>, \<^verbatim>\<open>reader.go\<close>): chunk objects as the locale \<open>blob_store\<close>; a stored
    stream reads back, a loaded chunk has the content its reference names whatever the disk holds, a
    ranged read is the range of the file, the cache is a byte-bounded LRU that serves only what was put.

  \<^item> \<^verbatim>\<open>Scrypt\<close>, \<^verbatim>\<open>Config\<close>, \<^verbatim>\<open>ConfigGuard\<close> (\<^verbatim>\<open>scrypt.go\<close>, \<^verbatim>\<open>crypto.go\<close>, \<^verbatim>\<open>configmac.go\<close>, \<^verbatim>\<open>anchor.go\<close>, \<^verbatim>\<open>rotation.go\<close>, \<^verbatim>\<open>seal.go\<close>,
    \<^verbatim>\<open>readers.go\<close>): key derivation, wrapping, the configuration tag, the freshness anchor of a device.  The
    scrypt of the repository is the function of RFC 7914.  A run of a device is any sequence of openings (strict
    or with \<open>AcceptRollback\<close>), configuration operations, changes of any file from outside and changes of the
    disk's faults; a run is calm (\<open>calm\<close>) when its openings are strict and the anchor file is readable and left
    to the vault code.  Along every calm run the anchor never moves back and what it outdates is
    refused; a rotation retires the old configuration for every calm run that follows; the two ways to
    lower the anchor, \<open>AcceptRollback\<close> and an unreadable anchor, are stated beside it.  Redeeming a phrase
    retires the phrase.

  \<^item> \<^verbatim>\<open>AppDir\<close>, \<^verbatim>\<open>UserPath\<close>, \<^verbatim>\<open>VaultPlaces\<close> (\<^verbatim>\<open>internal/appdir\<close>, \<^verbatim>\<open>internal/userpath\<close>): application directories, the device
    id, user-entered paths, where a vault may be created.

  \<^item> \<^verbatim>\<open>Codec\<close>, \<^verbatim>\<open>ManifestStore\<close>, \<^verbatim>\<open>ManifestRefine\<close>, \<^verbatim>\<open>ManifestRuns\<close>, \<^verbatim>\<open>LoadedIndex\<close> (\<^verbatim>\<open>manifest.go\<close>, \<^verbatim>\<open>cache.go\<close>): saving,
    loading and caching.  The manifest directory refines a map from paths to records; after any
    interleaving of commits, deletes and loads with failures, the cache is what a fresh load gives; every
    loaded index has unique, clean paths.  \<^verbatim>\<open>Codec\<close> is a concrete record format for the witnesses.

  \<^item> \<^verbatim>\<open>Compact\<close>, \<^verbatim>\<open>GarbageCollector\<close>, \<^verbatim>\<open>GcSafety\<close>, \<^verbatim>\<open>GcRuns\<close> (\<^verbatim>\<open>compact.go\<close>, \<^verbatim>\<open>gc.go\<close>): compaction loses no planned edit,
    the collector removes only chunks that no manifest names and that have been unreferenced for the
    fence, and refuses a store that looks wiped.

  \<^item> \<^verbatim>\<open>VaultOps\<close>, \<^verbatim>\<open>VaultSafety\<close>, \<^verbatim>\<open>VaultStore\<close> (\<^verbatim>\<open>vault.go\<close>, \<^verbatim>\<open>directories.go\<close>): the operations of an open vault.  What is
    put is read back, also by a fresh load; a removal removes exactly its targets; a restore stays out of
    the metadata directory; opening does not hide a wipe; a verification report lists exactly the references
    that do not load.

  \<^item> \<^verbatim>\<open>VaultExport\<close> (\<^verbatim>\<open>export.go\<close>): export to the host as files or as an archive.  The names of a batch never
    clash, also not up to case; without the policy \<^verbatim>\<open>replace\<close> nothing is overwritten; a successful export is
    complete, and every exported file has the content its record names.

  \<^item> \<^verbatim>\<open>VaultImport\<close> (\<^verbatim>\<open>PutPathReport\<close> of \<^verbatim>\<open>vault.go\<close>, \<^verbatim>\<open>put_directory_contents.go\<close>): import of files and
    directories of the host.  A put of a directory takes exactly the files below it that are not in a
    directory named \<^verbatim>\<open>.git\<close> or in the metadata directory of this vault.

  \<^item> \<^verbatim>\<open>WordList\<close>, \<^verbatim>\<open>RecoveryPhrase\<close>, \<^verbatim>\<open>VaultCreate\<close> (\<^verbatim>\<open>recovery_words.go\<close>, \<^verbatim>\<open>recovery_phrase.go\<close>, \<^verbatim>\<open>vault.go\<close>, \<^verbatim>\<open>rotation.go\<close>):
    the 2048 words and the two written forms of a recovery secret, creating a vault, opening by phrase.
    The forms are equivalent, a mistyped word is an error of its own; creating never touches a vault that
    is there, succeeds on a fresh root without I/O errors, and gives a vault its password opens; a minted
    phrase opens the vault it was minted for.

  \<^item> \<^verbatim>\<open>AuthLimit\<close> (\<^verbatim>\<open>internal/authlimit/authlimit.go\<close>): the limiter as a step relation over interleaved attempts:
    admitted and pending guesses never exceed the threshold, and the number of buckets is bounded.

  \<^bold>\<open>Bounds and fuel.\<close>  Recursion is structural or has a termination proof, with four exceptions.  The retry
  loop counts down the ten attempts of \<^verbatim>\<open>renameAttempts\<close>.  The loop of HKDF runs with the requested length as
  fuel: each round yields at least one byte.  \<^verbatim>\<open>nearestExistingParent\<close> climbs with as many steps as the path
  has bytes; \<open>nearestExistingParent_steps\<close> shows that more make no difference.
  The search for a free number in the names of an export (\<open>number_loop\<close>) has one step more than there are names
  in use, and \<open>export_names_never_clash\<close> shows that it ends.  The loops over chunks, the
  walks and the scans are folds over finite lists.

  \<^bold>\<open>Flaws the model shows\<close> are theorems beside the operation: mixed clocks make reconciliation depend on the
  order, a negative clock or a hostile file name makes a load panic, a path that is not UTF-8 vanishes after
  its commit, an unreadable anchor is replaced, a restore to an ancestor overwrites the configuration, and
  a relative root is expanded twice.

  \<^bold>\<open>Not modelled.\<close>  The front ends (\<^verbatim>\<open>internal/localdav\<close>, \<^verbatim>\<open>internal/webui\<close>, \<^verbatim>\<open>cmd/seavault\<close>, \<^verbatim>\<open>internal/setup\<close>,
  \<^verbatim>\<open>internal/tlsconfig\<close>), the launchers of rclone and rsync and the other transports, profiles and settings files,
  and the integration with key chain and processes: request handling, prompts, process launches and texts
  around the operations above.  Of the vault package: the notes on sync clients.  Of \<^verbatim>\<open>userpath.go\<close>: the detection of sync folders.  File modes, directory
  entries without files, symbolic links and the directory fsync have no counterpart in the host; threads
  are modelled as interleaved steps where the code is called concurrently (the limiter, the manifest
  store), not as a memory model.

  \<^bold>\<open>Idealised.\<close>  The laws of \<^verbatim>\<open>encoding/json\<close> are round trips of the values at hand; Go replaces bytes that are not
  UTF-8, and \<open>unencodable_path_vanishes\<close> states what follows.  \<open>key_binding\<close>, used for the refusal of an old
  password only, takes the AEAD to be committing to its key, which AES-GCM is not against an attacker who
  constructs ciphertexts.  The faults of the disk are a fixed function of the operation and the path
  while one operation runs.  An atomic write that fails leaves no temporary file in the model, and counters of
  retained cache entries and attempts are unbounded integers.  The sweep of \<^verbatim>\<open>compact.go\<close> counts an error
  inside a walk as one failure of that root.  Base64 enters only through \<open>codec_law\<close>: what it encodes it
  decodes; it may refuse any other string.
\<close>

end
